(* ===== verification/Prelude.thy ===== *)
theory Prelude
  imports Main "HOL-Library.Word" "HOL-Library.Sublist"
begin

text \<open>
  Shared vocabulary of the Sentori development: the types every component uses (bytes, strings,
  instants, results), the pieces of the Rust standard library the sources call (saturating
  conversions, byte classification, string search, decimal printing) and the JSON values that
  cross component boundaries, with the generic lemmas and hint collections the component
  proofs share.

  Conventions.  A Rust \<open>&str\<close> or \<open>String\<close> is the list of its UTF-8 bytes, written as an
  Isabelle \<open>string\<close>: \<open>length\<close> is then Rust's \<open>len()\<close>.  A byte buffer is an \<open>8 word list\<close>.
  \<open>Result<T, E>\<close> is \<open>'e + 'a\<close> with \<open>Inl\<close> the error.  Unsigned machine integers that cannot
  overflow in the code at hand are \<open>nat\<close>; a saturating or failing conversion is written out.
\<close>

named_theorems result_simps \<open>unfolding of result and option pipelines\<close>
named_theorems str_simps \<open>byte-string helpers\<close>

type_synonym byte = "8 word"
type_synonym bytes = "8 word list"
type_synonym uuid = nat

text \<open>An instant of a monotonic clock and a duration, both in nanoseconds.\<close>
type_synonym instant = nat
type_synonym duration = nat

subsection \<open>Durations and saturating conversions\<close>

definition secs :: "nat \<Rightarrow> duration" where
  "secs n = n * 1000000000"

definition mins :: "nat \<Rightarrow> duration" where
  "mins n = secs (n * 60)"

definition U32_MAX :: nat where "U32_MAX = 4294967295"
definition I32_MAX :: nat where "I32_MAX = 2147483647"

text \<open>\<open>u32::try_from(n).unwrap_or(u32::MAX)\<close>\<close>
definition u32_or_max :: "nat \<Rightarrow> nat" where
  "u32_or_max n = (if n \<le> U32_MAX then n else U32_MAX)"

lemma u32_or_max_less [simp]: "m \<le> U32_MAX \<Longrightarrow> u32_or_max n < m \<longleftrightarrow> n < m"
  by (auto simp: u32_or_max_def)

lemma u32_or_max_id [simp]: "n \<le> U32_MAX \<Longrightarrow> u32_or_max n = n"
  by (simp add: u32_or_max_def)

lemma secs_pos [simp]: "0 < secs n \<longleftrightarrow> 0 < n"
  by (simp add: secs_def)

lemma secs_le [simp]: "secs m \<le> secs n \<longleftrightarrow> m \<le> n"
  by (simp add: secs_def)

subsection \<open>Results\<close>

definition ok_or :: "'e \<Rightarrow> 'a option \<Rightarrow> 'e + 'a" where
  "ok_or e x = (case x of None \<Rightarrow> Inl e | Some v \<Rightarrow> Inr v)"

text \<open>The \<open>?\<close> operator: an error leaves the function, a value goes on.\<close>
definition bind_res :: "'e + 'a \<Rightarrow> ('a \<Rightarrow> 'e + 'b) \<Rightarrow> 'e + 'b" where
  "bind_res r f = (case r of Inl e \<Rightarrow> Inl e | Inr v \<Rightarrow> f v)"

lemma ok_or_simps [simp, result_simps]: "ok_or e None = Inl e" "ok_or e (Some v) = Inr v"
  by (simp_all add: ok_or_def)

lemma bind_res_simps [simp, result_simps]:
  "bind_res (Inl e) f = Inl e" "bind_res (Inr v) f = f v"
  by (simp_all add: bind_res_def)

lemma bind_res_Inr_conv [result_simps]:
  "bind_res r f = Inr y \<longleftrightarrow> (\<exists>x. r = Inr x \<and> f x = Inr y)"
  by (auto simp: bind_res_def split: sum.splits)

lemma bind_res_Inl_conv [result_simps]:
  "bind_res r f = Inl e \<longleftrightarrow> r = Inl e \<or> (\<exists>x. r = Inr x \<and> f x = Inl e)"
  by (auto simp: bind_res_def split: sum.splits)

subsection \<open>Lists in order\<close>

text \<open>On an ascending list, dropping a prefix of small elements is filtering them out.\<close>

lemma dropWhile_sorted_filter:
  assumes "sorted xs"
  shows "dropWhile (\<lambda>x. x < (c::'a::linorder)) xs = filter (\<lambda>x. c \<le> x) xs"
  using assms
proof (induction xs)
  case Nil
  show ?case by simp
next
  case (Cons x xs)
  show ?case
  proof (cases "x < c")
    case True
    with Cons show ?thesis by auto
  next
    case False
    then have cx: "c \<le> x" by simp
    have "\<forall>y \<in> set xs. c \<le> y"
      using Cons.prems cx by (auto intro: order_trans)
    then have "filter (\<lambda>y. c \<le> y) xs = xs" by simp
    with False cx show ?thesis by simp
  qed
qed

lemma sorted_snoc [intro]:
  "sorted xs \<Longrightarrow> (\<And>x. x \<in> set xs \<Longrightarrow> x \<le> y) \<Longrightarrow> sorted (xs @ [y])"
  by (auto simp: sorted_append)

subsection \<open>Bytes of a string\<close>

definition char_val :: "char \<Rightarrow> nat" where
  "char_val c = of_char c"

definition bytes_of :: "string \<Rightarrow> bytes" where
  "bytes_of s = map of_char s"

definition chars_of :: "bytes \<Rightarrow> string" where
  "chars_of b = map (\<lambda>w. char_of (unat w)) b"

text \<open>\<open>to_be_bytes\<close> of a 64-bit integer.\<close>
definition to_be_bytes :: "64 word \<Rightarrow> bytes" where
  "to_be_bytes w = map (\<lambda>i. ucast (drop_bit (8 * i) w)) (rev [0..<8])"

definition is_ascii_digit :: "char \<Rightarrow> bool" where
  "is_ascii_digit c \<longleftrightarrow> 48 \<le> char_val c \<and> char_val c \<le> 57"

definition is_ascii_hexdigit :: "char \<Rightarrow> bool" where
  "is_ascii_hexdigit c \<longleftrightarrow> is_ascii_digit c
     \<or> 65 \<le> char_val c \<and> char_val c \<le> 70 \<or> 97 \<le> char_val c \<and> char_val c \<le> 102"

definition is_ascii_alphanumeric :: "char \<Rightarrow> bool" where
  "is_ascii_alphanumeric c \<longleftrightarrow> is_ascii_digit c
     \<or> 65 \<le> char_val c \<and> char_val c \<le> 90 \<or> 97 \<le> char_val c \<and> char_val c \<le> 122"

definition is_ascii_control :: "char \<Rightarrow> bool" where
  "is_ascii_control c \<longleftrightarrow> char_val c \<le> 31 \<or> char_val c = 127"

text \<open>\<open>str::is_char_boundary\<close>: a byte of the form 10xxxxxx continues a code point.\<close>
definition is_cont_byte :: "char \<Rightarrow> bool" where
  "is_cont_byte c \<longleftrightarrow> 128 \<le> char_val c \<and> char_val c < 192"

definition is_char_boundary :: "string \<Rightarrow> nat \<Rightarrow> bool" where
  "is_char_boundary s i \<longleftrightarrow>
     i = 0 \<or> i = length s \<or> i < length s \<and> \<not> is_cont_byte (s ! i)"

text \<open>
  Length of the code point a byte leads, 0 when it leads none, and whether what follows the
  lead begins like its continuation (the second byte excludes overlong forms, surrogates and
  code points above U+10FFFF).  Every \<open>&str\<close> satisfies \<open>utf8\<close>.
\<close>
definition utf8_width :: "char \<Rightarrow> nat" where
  "utf8_width c = (let v = char_val c in
     if v < 128 then 1 else if v < 194 then 0 else if v < 224 then 2
     else if v < 240 then 3 else if v < 245 then 4 else 0)"

definition second_ok :: "char \<Rightarrow> char \<Rightarrow> bool" where
  "second_ok lead d = (let v = char_val lead; w = char_val d in
     is_cont_byte d \<and> (v = 224 \<longrightarrow> 160 \<le> w) \<and> (v = 237 \<longrightarrow> w < 160)
       \<and> (v = 240 \<longrightarrow> 144 \<le> w) \<and> (v = 244 \<longrightarrow> w < 144))"

definition continues :: "char \<Rightarrow> string \<Rightarrow> bool" where
  "continues lead ds = (case ds of [] \<Rightarrow> True | d # ds \<Rightarrow> second_ok lead d \<and> list_all is_cont_byte ds)"

function utf8 :: "string \<Rightarrow> bool" where
  "utf8 [] = True"
| "utf8 (c # s) \<longleftrightarrow>
     0 < utf8_width c \<and> utf8_width c \<le> Suc (length s)
     \<and> continues c (take (utf8_width c - 1) s) \<and> utf8 (drop (utf8_width c - 1) s)"
  by pat_completeness auto
termination
  by (relation "measure length") auto

text \<open>
  \<open>String::from_utf8_lossy\<close>: each maximal start of a code point that is not continued becomes
  one U+FFFD, as does each byte that starts none.
\<close>
fun continuing :: "char \<Rightarrow> nat \<Rightarrow> bool \<Rightarrow> string \<Rightarrow> nat" where
  "continuing lead 0 first s = 0"
| "continuing lead (Suc n) first [] = 0"
| "continuing lead (Suc n) first (d # s) =
     (if (if first then second_ok lead d else is_cont_byte d)
      then Suc (continuing lead n False s) else 0)"

function from_utf8_lossy :: "string \<Rightarrow> string" where
  "from_utf8_lossy [] = []"
| "from_utf8_lossy (c # s) =
     (let n = continuing c (utf8_width c - 1) True s in
      (if 0 < utf8_width c \<and> Suc n = utf8_width c then c # take n s
       else [CHR 0xEF, CHR 0xBF, CHR 0xBD]) @ from_utf8_lossy (drop n s))"
  by pat_completeness auto
termination
  by (relation "measure length") auto

definition to_ascii_lowercase :: "string \<Rightarrow> string" where
  "to_ascii_lowercase s =
     map (\<lambda>c. if 65 \<le> char_val c \<and> char_val c \<le> 90 then char_of (char_val c + 32) else c) s"

lemma char_val_less [simp]: "char_val c < 256"
  by (simp add: char_val_def)

lemma char_val_inject [simp]: "char_val c = char_val d \<longleftrightarrow> c = d"
  by (simp add: char_val_def)

lemma length_bytes_of [simp]: "length (bytes_of s) = length s"
  by (simp add: bytes_of_def)

lemma bytes_of_append [simp]: "bytes_of (s @ t) = bytes_of s @ bytes_of t"
  by (simp add: bytes_of_def)

text \<open>\<open>chars().take(n)\<close>: the first n code points.\<close>
fun take_chars :: "nat \<Rightarrow> string \<Rightarrow> string" where
  "take_chars 0 s = []"
| "take_chars (Suc n) [] = []"
| "take_chars (Suc n) (c # s) =
     (let w = max 1 (utf8_width c) in take w (c # s) @ take_chars n (drop w (c # s)))"

lemma utf8_width_ascii [simp]: "char_val c < 128 \<Longrightarrow> utf8_width c = 1"
  by (simp add: utf8_width_def)

lemma utf8_width_cont: "0 < utf8_width c \<Longrightarrow> \<not> is_cont_byte c"
  by (auto simp: utf8_width_def is_cont_byte_def Let_def split: if_splits)

lemma utf8_ascii_Cons [simp]: "char_val c < 128 \<Longrightarrow> utf8 (c # s) = utf8 s"
  by (simp add: continues_def)

declare utf8.simps(2) [simp del]

lemma utf8_ascii_append:
  "list_all (\<lambda>c. char_val c < 128) p \<Longrightarrow> utf8 (p @ s) = utf8 s"
  by (induction p) auto

lemma utf8_hd: "utf8 s \<Longrightarrow> s \<noteq> [] \<Longrightarrow> \<not> is_cont_byte (hd s)"
  by (cases s) (auto simp: utf8.simps(2) dest: utf8_width_cont)

lemma of_char_word_inject: "(of_char c :: byte) = of_char d \<longleftrightarrow> c = d"
proof
  assume "(of_char c :: byte) = of_char d"
  then have "(of_nat (of_char c) :: byte) = of_nat (of_char d)"
    by (simp only: of_nat_of_char)
  then have "unat (of_nat (of_char c) :: byte) = unat (of_nat (of_char d) :: byte)"
    by (rule arg_cong)
  then show "c = d"
    by (simp add: unat_of_nat)
qed simp

lemma bytes_of_inject [simp]: "bytes_of s = bytes_of t \<longleftrightarrow> s = t"
  unfolding bytes_of_def by (rule inj_map_eq_map) (auto simp: inj_def of_char_word_inject)

lemma unat_of_char: "unat (of_char c :: byte) = of_char c"
proof -
  have "unat (of_nat (of_char c) :: byte) = of_char c" by (simp add: unat_of_nat)
  then show ?thesis by (simp only: of_nat_of_char)
qed

lemma chars_of_bytes_of [simp]: "chars_of (bytes_of s) = s"
  by (induction s) (simp_all add: chars_of_def bytes_of_def unat_of_char)

lemma length_chars_of [simp]: "length (chars_of b) = length b"
  by (simp add: chars_of_def)

text \<open>A slice \<open>buf[a..b]\<close>; \<open>None\<close> is the panic on a range outside the buffer.\<close>
definition slice :: "'a list \<Rightarrow> nat \<Rightarrow> nat \<Rightarrow> 'a list option" where
  "slice buf a b = (if a \<le> b \<and> b \<le> length buf then Some (take (b - a) (drop a buf)) else None)"

lemma length_to_be_bytes [simp]: "length (to_be_bytes w) = 8"
  by (simp add: to_be_bytes_def)

lemma to_be_bytes_inject [simp]: "to_be_bytes v = to_be_bytes w \<longleftrightarrow> v = w"
proof
  assume eq: "to_be_bytes v = to_be_bytes w"
  show "v = w"
  proof (rule bit_word_eqI)
    fix n
    assume n: "n < LENGTH(64)"
    have "(ucast (drop_bit (8 * (n div 8)) v) :: byte) = ucast (drop_bit (8 * (n div 8)) w)"
      using eq n by (auto simp: to_be_bytes_def map_eq_conv simp del: upt_rec_numeral)
    then have "bit (ucast (drop_bit (8 * (n div 8)) v) :: byte) (n mod 8)
        = bit (ucast (drop_bit (8 * (n div 8)) w) :: byte) (n mod 8)"
      by (rule arg_cong)
    then show "bit v n = bit w n"
      by (simp add: bit_simps)
  qed
qed simp

lemma hexdigit_of_digit [simp]: "is_ascii_digit c \<Longrightarrow> is_ascii_hexdigit c"
  by (simp add: is_ascii_hexdigit_def)

text \<open>Two strings cut at their first separator.\<close>
lemma cut_at_separator:
  assumes "x \<notin> set a" and "x \<notin> set b"
  shows "a @ x # u = b @ x # v \<longleftrightarrow> a = b \<and> u = v"
proof
  assume eq: "a @ x # u = b @ x # v"
  have "takeWhile (\<lambda>y. y \<noteq> x) (a @ x # u) = a" "takeWhile (\<lambda>y. y \<noteq> x) (b @ x # v) = b"
    using assms by (subst takeWhile_append2; auto)+
  with eq have "a = b" by simp
  with eq show "a = b \<and> u = v" by simp
qed simp

subsection \<open>Searching and trimming\<close>

definition starts_with :: "string \<Rightarrow> string \<Rightarrow> bool" where
  "starts_with s p \<longleftrightarrow> take (length p) s = p"

definition strip_prefix :: "string \<Rightarrow> string \<Rightarrow> string option" where
  "strip_prefix s p = (if starts_with s p then Some (drop (length p) s) else None)"

fun str_contains :: "string \<Rightarrow> string \<Rightarrow> bool" where
  "str_contains [] p \<longleftrightarrow> p = []"
| "str_contains (c # s) p \<longleftrightarrow> starts_with (c # s) p \<or> str_contains s p"

lemma starts_with_append [simp]: "starts_with (p @ s) p"
  by (simp add: starts_with_def)

lemma starts_with_self [simp]: "starts_with p p"
  by (simp add: starts_with_def)

lemma str_contains_iff: "str_contains s p \<longleftrightarrow> (\<exists>u v. s = u @ p @ v)"
proof (induction s)
  case Nil
  show ?case by auto
next
  case (Cons c s)
  have "starts_with (c # s) p \<longleftrightarrow> (\<exists>v. c # s = p @ v)"
    unfolding starts_with_def by (metis append_eq_conv_conj append_take_drop_id)
  moreover have "(\<exists>u v. c # s = u @ p @ v) \<longleftrightarrow>
      (\<exists>v. c # s = p @ v) \<or> (\<exists>u v. s = u @ p @ v)"
    by (metis append_Cons append_Nil list.sel(3) neq_Nil_conv)
  ultimately show ?case using Cons.IH by simp
qed

text \<open>
  \<open>str::trim\<close> removes code points with the Unicode property White\_Space; on valid UTF-8 a
  code point at either end is recognised by its byte sequence.
\<close>
definition white_space :: "string list" where
  "white_space =
     [[CHR 0x09], [CHR 0x0A], [CHR 0x0B], [CHR 0x0C], [CHR 0x0D], [CHR 0x20],
      [CHR 0xC2, CHR 0x85], [CHR 0xC2, CHR 0xA0], [CHR 0xE1, CHR 0x9A, CHR 0x80],
      [CHR 0xE2, CHR 0x80, CHR 0x80], [CHR 0xE2, CHR 0x80, CHR 0x81],
      [CHR 0xE2, CHR 0x80, CHR 0x82], [CHR 0xE2, CHR 0x80, CHR 0x83],
      [CHR 0xE2, CHR 0x80, CHR 0x84], [CHR 0xE2, CHR 0x80, CHR 0x85],
      [CHR 0xE2, CHR 0x80, CHR 0x86], [CHR 0xE2, CHR 0x80, CHR 0x87],
      [CHR 0xE2, CHR 0x80, CHR 0x88], [CHR 0xE2, CHR 0x80, CHR 0x89],
      [CHR 0xE2, CHR 0x80, CHR 0x8A], [CHR 0xE2, CHR 0x80, CHR 0xA8],
      [CHR 0xE2, CHR 0x80, CHR 0xA9], [CHR 0xE2, CHR 0x80, CHR 0xAF],
      [CHR 0xE2, CHR 0x81, CHR 0x9F], [CHR 0xE3, CHR 0x80, CHR 0x80]]"

fun strip_one :: "string list \<Rightarrow> string \<Rightarrow> string option" where
  "strip_one [] s = None"
| "strip_one (p # ps) s = (case strip_prefix s p of Some r \<Rightarrow> Some r | None \<Rightarrow> strip_one ps s)"

function trim_start_of :: "string list \<Rightarrow> string \<Rightarrow> string" where
  "trim_start_of ps s =
     (case strip_one ps s of
        None \<Rightarrow> s
      | Some r \<Rightarrow> if length r < length s then trim_start_of ps r else s)"
  by pat_completeness auto
termination
  by (relation "measure (\<lambda>(ps, s). length s)") auto

declare trim_start_of.simps [simp del]

definition trim_matches :: "string list \<Rightarrow> string \<Rightarrow> string" where
  "trim_matches ps s =
     rev (trim_start_of (map rev ps) (rev (trim_start_of ps s)))"

definition trim :: "string \<Rightarrow> string" where
  "trim s = trim_matches white_space s"

lemma length_trim_start_of: "length (trim_start_of ps s) \<le> length s"
proof (induction ps s rule: trim_start_of.induct)
  case (1 ps s)
  then show ?case
    by (subst trim_start_of.simps) (auto split: option.splits)
qed

lemma trim_start_of_Nil [simp]: "trim_start_of ps [] = []"
  using length_trim_start_of [of ps "[]"] by simp

lemma trim_Nil [simp]: "trim [] = []"
  by (simp add: trim_def trim_matches_def)

subsection \<open>Decimal numbers\<close>

fun digits_val :: "nat \<Rightarrow> string \<Rightarrow> nat option" where
  "digits_val acc [] = Some acc"
| "digits_val acc (c # s) =
     (if is_ascii_digit c then digits_val (acc * 10 + (char_val c - 48)) s else None)"

text \<open>\<open>str::parse\<close> at an unsigned type whose largest value is \<open>bound\<close>.\<close>
definition parse_unsigned :: "nat \<Rightarrow> string \<Rightarrow> nat option" where
  "parse_unsigned bound s =
     (let t = (case strip_prefix s ''+'' of Some r \<Rightarrow> r | None \<Rightarrow> s) in
      if t = [] then None
      else case digits_val 0 t of
             None \<Rightarrow> None
           | Some n \<Rightarrow> if n \<le> bound then Some n else None)"

fun show_nat :: "nat \<Rightarrow> string" where
  "show_nat n =
     (if n < 10 then [char_of (48 + n)] else show_nat (n div 10) @ [char_of (48 + n mod 10)])"

declare show_nat.simps [simp del]

lemma parse_unsigned_bound: "parse_unsigned b s = Some n \<Longrightarrow> n \<le> b"
  by (auto simp: parse_unsigned_def Let_def split: option.splits if_splits)

lemma char_val_digit [simp]: "(d::nat) < 10 \<Longrightarrow> char_val (char_of (48 + d)) = 48 + d"
  by (simp add: char_val_def)

lemma is_digit_char_of [simp]: "(d::nat) < 10 \<Longrightarrow> is_ascii_digit (char_of (48 + d))"
  by (simp add: is_ascii_digit_def)

lemma digits_val_append:
  "digits_val a (s @ t) = Option.bind (digits_val a s) (\<lambda>b. digits_val b t)"
  by (induction a s rule: digits_val.induct) auto

lemma show_nat_digits: "c \<in> set (show_nat n) \<Longrightarrow> is_ascii_digit c"
proof (induction n arbitrary: c rule: show_nat.induct)
  case (1 n)
  then show ?case
    by (subst (asm) (2) show_nat.simps) (auto split: if_splits)
qed

lemma show_nat_nonempty [simp]: "show_nat n \<noteq> []"
  by (subst show_nat.simps) simp

lemma digits_val_show_nat: "digits_val 0 (show_nat n) = Some n"
proof (induction n rule: show_nat.induct)
  case (1 n)
  show ?case
  proof (cases "n < 10")
    case True
    then show ?thesis by (subst show_nat.simps) simp
  next
    case False
    with "1.IH" have "digits_val 0 (show_nat (n div 10)) = Some (n div 10)" by simp
    with False show ?thesis
      by (subst show_nat.simps) (simp add: digits_val_append)
  qed
qed

lemma show_nat_inject [simp]: "show_nat m = show_nat n \<longleftrightarrow> m = n"
  by (metis digits_val_show_nat option.inject)

subsection \<open>Lines and pieces\<close>

text \<open>\<open>str::lines\<close>: a line ends with a line feed, a carriage return before it is dropped.\<close>
definition chop_cr :: "string \<Rightarrow> string" where
  "chop_cr l = (if l \<noteq> [] \<and> last l = CHR 0x0D then butlast l else l)"

fun str_lines :: "string \<Rightarrow> string \<Rightarrow> string list" where
  "str_lines acc [] = (if acc = [] then [] else [rev acc])"
| "str_lines acc (c # s) = (if c = CHR 0x0A then chop_cr (rev acc) # str_lines [] s else str_lines (c # acc) s)"

text \<open>\<open>str::split\<close> with a character: the pieces between the separators, one more than those.\<close>
fun split_on :: "char \<Rightarrow> string \<Rightarrow> string list" where
  "split_on c [] = [[]]"
| "split_on c (x # s) = (if x = c then [] # split_on c s
     else (x # hd (split_on c s)) # tl (split_on c s))"

lemma split_on_nonempty [simp]: "split_on c s \<noteq> []"
  by (cases s) auto

text \<open>\<open>chars().count()\<close> of valid UTF-8: the bytes that do not continue a code point.\<close>
definition char_count :: "string \<Rightarrow> nat" where
  "char_count s = length (filter (\<lambda>c. \<not> is_cont_byte c) s)"

text \<open>\<open>x.saturating_add(y)\<close> on \<open>u32\<close>\<close>
definition u32_add :: "nat \<Rightarrow> nat \<Rightarrow> nat" where
  "u32_add x y = u32_or_max (x + y)"

text \<open>\<open>chars().any(char::is_control)\<close> of valid UTF-8: the ASCII controls and U+0080 to U+009F.\<close>
fun has_control :: "string \<Rightarrow> bool" where
  "has_control [] \<longleftrightarrow> False"
| "has_control (c # s) \<longleftrightarrow> is_ascii_control c
     \<or> c = CHR 0xC2 \<and> (case s of d # _ \<Rightarrow> 128 \<le> char_val d \<and> char_val d < 160 | [] \<Rightarrow> False)
     \<or> has_control s"

end
