(* ===== verification/SlidingWindow.thy ===== *)
theory SlidingWindow
  imports Prelude
begin

text \<open>
  The contract the two in-memory rate limiters of the repository share: a log of admitted
  instants per key, from which an exact sliding-window limit follows.  The reference
  \<open>spec_admissions\<close> admits a request exactly when fewer than \<open>cap\<close> requests of the same key
  were admitted in the closed window of length \<open>win\<close> that ends now; the locale
  \<open>sliding_log\<close> states what a limiter promises about its log, and proves once that every
  such limiter computes the reference and therefore never admits more than \<open>cap\<close> requests in
  any window.
\<close>

subsection \<open>The reference\<close>

text \<open>The instants of a log that a window of length \<open>w\<close> ending at \<open>t\<close> still contains.\<close>
definition live :: "duration \<Rightarrow> instant \<Rightarrow> instant list \<Rightarrow> instant list" where
  "live w t xs = filter (\<lambda>x. t \<le> x + w) xs"

text \<open>The instants of one key in a history of admitted requests.\<close>
definition times_of :: "'k \<Rightarrow> ('k \<times> instant) list \<Rightarrow> instant list" where
  "times_of k h = map snd (filter (\<lambda>r. fst r = k) h)"

fun admissions :: "('b \<Rightarrow> 'k \<Rightarrow> instant \<Rightarrow> bool \<times> 'b) \<Rightarrow> 'b \<Rightarrow> ('k \<times> instant) list
    \<Rightarrow> ('k \<times> instant) list" where
  "admissions chk b [] = []"
| "admissions chk b ((k, t) # rs) =
     (let (v, b') = chk b k t in
      if v then (k, t) # admissions chk b' rs else admissions chk b' rs)"

fun spec_admissions :: "nat \<Rightarrow> duration \<Rightarrow> ('k \<times> instant) list \<Rightarrow> ('k \<times> instant) list
    \<Rightarrow> ('k \<times> instant) list" where
  "spec_admissions cap w h [] = []"
| "spec_admissions cap w h ((k, t) # rs) =
     (if length (live w t (times_of k h)) < cap
      then (k, t) # spec_admissions cap w (h @ [(k, t)]) rs
      else spec_admissions cap w h rs)"

definition in_window :: "'k \<Rightarrow> duration \<Rightarrow> instant \<Rightarrow> ('k \<times> instant) list \<Rightarrow> nat" where
  "in_window k w s h = length (filter (\<lambda>x. s \<le> x \<and> x \<le> s + w) (times_of k h))"

lemma live_simps [simp]:
  "live w t [] = []"
  "live w t (xs @ ys) = live w t xs @ live w t ys"
  "live w t [x] = (if t \<le> x + w then [x] else [])"
  by (simp_all add: live_def)

lemma live_live [simp]: "t0 \<le> t \<Longrightarrow> live w t (live w t0 xs) = live w t xs"
  unfolding live_def filter_filter by (rule filter_cong) auto

lemma sorted_live [intro]: "sorted xs \<Longrightarrow> sorted (live w t xs)"
  by (simp add: live_def sorted_wrt_filter)

lemma set_live: "set (live w t xs) = {x \<in> set xs. t \<le> x + w}"
  by (auto simp: live_def)

lemma times_of_simps [simp]:
  "times_of k [] = []"
  "times_of k (h @ h') = times_of k h @ times_of k h'"
  "times_of k [(k', t)] = (if k' = k then [t] else [])"
  by (simp_all add: times_of_def)

lemma in_window_snoc:
  "in_window k w s (h @ [(k', t)]) =
     in_window k w s h + (if k' = k \<and> s \<le> t \<and> t \<le> s + w then 1 else 0)"
  by (simp add: in_window_def)

text \<open>A window that reaches \<open>t\<close> holds no more past instants than are live at \<open>t\<close>.\<close>
lemma in_window_le_live:
  assumes "t \<le> s + w"
  shows "in_window k w s h \<le> length (live w t (times_of k h))"
proof -
  have "filter (\<lambda>x. s \<le> x \<and> x \<le> s + w) (times_of k h)
      = filter (\<lambda>x. s \<le> x \<and> x \<le> s + w) (live w t (times_of k h))"
    using assms unfolding live_def filter_filter by (intro filter_cong) auto
  then show ?thesis
    by (simp add: in_window_def)
qed

lemma spec_admissions_bound:
  assumes "in_window k w s h \<le> cap"
  shows "in_window k w s (h @ spec_admissions cap w h rs) \<le> cap"
  using assms
proof (induction cap w h rs rule: spec_admissions.induct)
  case (1 cap w h)
  then show ?case by simp
next
  case (2 cap w h k' t rs)
  show ?case
  proof (cases "length (live w t (times_of k' h)) < cap")
    case True
    have "in_window k w s (h @ [(k', t)]) \<le> cap"
      using True "2.prems" in_window_le_live [of t s w k' h]
      by (auto simp: in_window_snoc)
    from "2.IH"(1) [OF True this] True show ?thesis by simp
  next
    case False
    with "2.IH"(2) [OF False "2.prems"] show ?thesis by simp
  qed
qed

subsection \<open>The contract\<close>

locale sliding_log =
  fixes check :: "'b \<Rightarrow> 'k \<Rightarrow> instant \<Rightarrow> bool \<times> 'b"
    and log :: "'b \<Rightarrow> 'k \<Rightarrow> instant list"
    and healthy :: "'b \<Rightarrow> bool"
    and cap :: nat
    and win :: duration
  assumes check_healthy: "healthy b \<Longrightarrow> healthy (snd (check b k t))"
    and check_frame: "healthy b \<Longrightarrow> k' \<noteq> k \<Longrightarrow> log (snd (check b k t)) k' = log b k'"
    and check_verdict: "healthy b \<Longrightarrow> sorted (log b k) \<Longrightarrow>
          fst (check b k t) \<longleftrightarrow> length (live win t (log b k)) < cap"
    and check_log: "healthy b \<Longrightarrow> sorted (log b k) \<Longrightarrow>
          log (snd (check b k t)) k =
            live win t (log b k) @ (if length (live win t (log b k)) < cap then [t] else [])"
begin

text \<open>
  What ties a limiter to the history of its admissions: each key's log is the live part, at
  some instant no later than now, of that key's admitted instants.
\<close>
definition tracks :: "'b \<Rightarrow> ('k \<times> instant) list \<Rightarrow> instant \<Rightarrow> bool" where
  "tracks b h now \<longleftrightarrow> healthy b
     \<and> (\<forall>k. sorted (times_of k h) \<and> (\<forall>x \<in> set (times_of k h). x \<le> now)
          \<and> (\<exists>t0 \<le> now. log b k = live win t0 (times_of k h)))"

lemma tracksD:
  assumes "tracks b h now"
  shows "healthy b" and "sorted (log b k)" and "sorted (times_of k h)"
    and "\<And>x. x \<in> set (times_of k h) \<Longrightarrow> x \<le> now"
    and "now \<le> t \<Longrightarrow> live win t (log b k) = live win t (times_of k h)"
proof -
  show "healthy b" and srt: "sorted (times_of k h)"
    using assms by (simp_all add: tracks_def)
  show "x \<in> set (times_of k h) \<Longrightarrow> x \<le> now" for x
    using assms by (simp add: tracks_def)
  from assms obtain t0 where t0: "t0 \<le> now" "log b k = live win t0 (times_of k h)"
    by (auto simp: tracks_def)
  then show "sorted (log b k)"
    using srt by auto
  show "now \<le> t \<Longrightarrow> live win t (log b k) = live win t (times_of k h)"
    using t0 by simp
qed

lemma tracks_step:
  fixes k :: 'k
  assumes tr: "tracks b h now" and le: "now \<le> t"
  defines "v \<equiv> fst (check b k t)" and "b' \<equiv> snd (check b k t)"
  shows "tracks b' (if v then h @ [(k, t)] else h) t"
    and "v \<longleftrightarrow> length (live win t (times_of k h)) < cap"
proof -
  note D = tracksD [OF tr]
  have live_eq: "live win t (log b k) = live win t (times_of k h)"
    using D(5) [OF le] .
  have v: "v \<longleftrightarrow> length (live win t (times_of k h)) < cap"
    unfolding v_def using check_verdict [OF D(1,2)] live_eq by simp
  then show "v \<longleftrightarrow> length (live win t (times_of k h)) < cap" .
  have log_k: "log b' k = live win t (times_of k (if v then h @ [(k, t)] else h))"
    unfolding b'_def using check_log [OF D(1,2)] live_eq v by simp
  have log_other: "k' \<noteq> k \<Longrightarrow> log b' k' = log b k'" for k'
    unfolding b'_def using check_frame [OF D(1)] by simp
  have old: "\<And>x k'. x \<in> set (times_of k' h) \<Longrightarrow> x \<le> t"
    using D(4) le by (meson order_trans)
  have "\<exists>t0 \<le> t. log b' k' = live win t0 (times_of k' (if v then h @ [(k, t)] else h))" for k'
  proof (cases "k' = k")
    case True
    then show ?thesis using log_k by blast
  next
    case False
    obtain t0 where "t0 \<le> now" "log b k' = live win t0 (times_of k' h)"
      using tr by (auto simp: tracks_def)
    then show ?thesis
      using False log_other [OF False] le by (intro exI [of _ t0]) auto
  qed
  moreover have "healthy b'"
    unfolding b'_def using check_healthy [OF D(1)] .
  ultimately show "tracks b' (if v then h @ [(k, t)] else h) t"
    using D(3) old by (auto simp: tracks_def intro!: sorted_snoc)
qed

theorem admissions_spec:
  assumes "tracks b h now" and "sorted (now # map snd rs)"
  shows "admissions check b rs = spec_admissions cap win h rs"
  using assms
proof (induction rs arbitrary: b h now)
  case Nil
  then show ?case by simp
next
  case (Cons r rs)
  obtain k t where r: "r = (k, t)" by (cases r)
  from Cons.prems(2) r have le: "now \<le> t" and srt: "sorted (t # map snd rs)" by auto
  note st = tracks_step [OF Cons.prems(1) le, of k]
  from Cons.IH [OF st(1) srt] st(2) show ?case
    by (auto simp: r split_beta Let_def)
qed

theorem admissions_bounded:
  assumes "tracks b [] now" and "sorted (now # map snd rs)"
  shows "in_window k win s (admissions check b rs) \<le> cap"
  using admissions_spec [OF assms] spec_admissions_bound [of k win s "[]" cap rs]
  by (simp add: in_window_def)

end

end
