(* ===== verification/RateLimit.thy ===== *)
theory RateLimit
  imports SlidingWindow
begin

text \<open>
  The crate \<^verbatim>\<open>core/crates/rate-limiter\<close>: validated policies (\<^verbatim>\<open>policy.rs\<close>), the in-memory
  sliding-window-log backend (\<^verbatim>\<open>memory.rs\<close>), the caller-driven clock (\<^verbatim>\<open>clock.rs\<close>) and the
  limiter that composes them (\<^verbatim>\<open>limiter.rs\<close>).  The \<open>Mutex\<close> around the backend's map is the
  flag \<open>poisoned\<close>: a poisoned lock is the only way \<open>lock()\<close> fails.  Instants do not
  overflow: \<open>oldest + window\<close> adds at most one hour to an instant the clock has produced.
\<close>

subsection \<open>Policies and verdicts\<close>

record policy =
  max_requests :: "32 word"
  window :: duration

datatype policy_error = ZeroMaxRequests | ZeroWindow | WindowTooLong

datatype verdict = Allowed (remaining: nat) | Limited (retry_after: duration)

definition MAX_WINDOW :: duration where
  "MAX_WINDOW = mins 60"

definition policy_new :: "32 word \<Rightarrow> duration \<Rightarrow> policy_error + policy" where
  "policy_new n w =
     (if n = 0 then Inl ZeroMaxRequests
      else if w = 0 then Inl ZeroWindow
      else if MAX_WINDOW < w then Inl WindowTooLong
      else Inr \<lparr>max_requests = n, window = w\<rparr>)"

definition per_minute :: "32 word \<Rightarrow> policy_error + policy" where
  "per_minute n = policy_new n (mins 1)"

definition per_second :: "32 word \<Rightarrow> policy_error + policy" where
  "per_second n = policy_new n (secs 1)"

definition per_hour :: "32 word \<Rightarrow> policy_error + policy" where
  "per_hour n = policy_new n MAX_WINDOW"

definition policy_max :: "policy \<Rightarrow> nat" where
  "policy_max p = unat (max_requests p)"

definition is_allowed :: "verdict \<Rightarrow> bool" where
  "is_allowed v = (case v of Allowed _ \<Rightarrow> True | Limited _ \<Rightarrow> False)"

definition is_limited :: "verdict \<Rightarrow> bool" where
  "is_limited v = (case v of Allowed _ \<Rightarrow> False | Limited _ \<Rightarrow> True)"

lemma verdict_kinds [simp]:
  "is_allowed (Allowed r)" "\<not> is_allowed (Limited d)"
  "\<not> is_limited (Allowed r)" "is_limited (Limited d)"
  by (simp_all add: is_allowed_def is_limited_def)

lemma policy_max_le [simp]: "policy_max p \<le> U32_MAX"
  using unsigned_less [of "max_requests p", where 'a = nat]
  by (simp add: policy_max_def U32_MAX_def)

subsection \<open>The in-memory backend\<close>

record memory_backend =
  poisoned :: bool
  buckets :: "string \<rightharpoonup> instant list"

definition memory_backend_new :: memory_backend where
  "memory_backend_new = \<lparr>poisoned = False, buckets = Map.empty\<rparr>"

text \<open>The loop that pops stale instants from the front of the deque.\<close>
fun prune_front :: "instant \<Rightarrow> instant list \<Rightarrow> instant list" where
  "prune_front c [] = []"
| "prune_front c (x # xs) = (if x < c then prune_front c xs else x # xs)"

definition checked_sub :: "instant \<Rightarrow> duration \<Rightarrow> instant option" where
  "checked_sub t d = (if d \<le> t then Some (t - d) else None)"

definition checked_duration_since :: "instant \<Rightarrow> instant \<Rightarrow> duration option" where
  "checked_duration_since t earlier = (if earlier \<le> t then Some (t - earlier) else None)"

definition check_and_consume ::
    "memory_backend \<Rightarrow> string \<Rightarrow> policy \<Rightarrow> instant \<Rightarrow> verdict \<times> memory_backend" where
  "check_and_consume b key p now =
     (if poisoned b then (Allowed (policy_max p), b)
      else
        let deque = (case buckets b key of None \<Rightarrow> [] | Some d \<Rightarrow> d);
            deque = (case checked_sub now (window p) of
                       Some c \<Rightarrow> prune_front c deque
                     | None \<Rightarrow> deque)
        in if u32_or_max (length deque) < policy_max p then
             let deque = deque @ [now];
                 new_len = u32_or_max (length deque)
             in (Allowed (policy_max p - new_len), b\<lparr>buckets := (buckets b)(key \<mapsto> deque)\<rparr>)
           else
             let oldest = (case deque of [] \<Rightarrow> now | x # _ \<Rightarrow> x);
                 earliest_free = oldest + window p;
                 retry_after = (case checked_duration_since earliest_free now of
                                  None \<Rightarrow> 0 | Some d \<Rightarrow> d)
             in (Limited retry_after, b\<lparr>buckets := (buckets b)(key \<mapsto> deque)\<rparr>))"

definition backend_reset :: "memory_backend \<Rightarrow> string \<Rightarrow> memory_backend" where
  "backend_reset b key = (if poisoned b then b else b\<lparr>buckets := (buckets b)(key := None)\<rparr>)"

definition backend_clear :: "memory_backend \<Rightarrow> memory_backend" where
  "backend_clear b = (if poisoned b then b else b\<lparr>buckets := Map.empty\<rparr>)"

definition approx_key_count :: "memory_backend \<Rightarrow> nat" where
  "approx_key_count b = (if poisoned b then 0 else card (dom (buckets b)))"

definition log_of :: "memory_backend \<Rightarrow> string \<Rightarrow> instant list" where
  "log_of b key = (case buckets b key of None \<Rightarrow> [] | Some d \<Rightarrow> d)"

subsection \<open>Clocks and the limiter\<close>

record mock_clock =
  clock_poisoned :: bool
  current :: instant

definition mock_clock_new :: "instant \<Rightarrow> mock_clock" where
  "mock_clock_new anchor = \<lparr>clock_poisoned = False, current = anchor\<rparr>"

definition mock_advance :: "mock_clock \<Rightarrow> duration \<Rightarrow> mock_clock" where
  "mock_advance c by_d = (if clock_poisoned c then c else c\<lparr>current := current c + by_d\<rparr>)"

definition mock_reset :: "mock_clock \<Rightarrow> instant \<Rightarrow> mock_clock" where
  "mock_reset c anchor = (if clock_poisoned c then c else c\<lparr>current := anchor\<rparr>)"

text \<open>A poisoned lock still yields the value it guards.\<close>
definition mock_now :: "mock_clock \<Rightarrow> instant" where
  "mock_now c = current c"

record 'c limiter =
  backend :: memory_backend
  clock :: 'c
  lim_policy :: policy

definition limiter_new :: "memory_backend \<Rightarrow> 'c \<Rightarrow> policy \<Rightarrow> 'c limiter" where
  "limiter_new b c p = \<lparr>backend = b, clock = c, lim_policy = p\<rparr>"

text \<open>\<open>Limiter::check\<close> for a clock whose \<open>Clock::now\<close> is \<open>now\<close>.\<close>
definition limiter_check :: "('c \<Rightarrow> instant) \<Rightarrow> 'c limiter \<Rightarrow> string \<Rightarrow> verdict \<times> 'c limiter" where
  "limiter_check now l key =
     (let (v, b) = check_and_consume (backend l) key (lim_policy l) (now (clock l))
      in (v, l\<lparr>backend := b\<rparr>))"

definition limiter_reset :: "'c limiter \<Rightarrow> string \<Rightarrow> 'c limiter" where
  "limiter_reset l key = l\<lparr>backend := backend_reset (backend l) key\<rparr>"

definition limiter_clear :: "'c limiter \<Rightarrow> 'c limiter" where
  "limiter_clear l = l\<lparr>backend := backend_clear (backend l)\<rparr>"

subsection \<open>The backend keeps the sliding-window contract\<close>

text \<open>The backend's check as the contract sees it: was the request admitted?\<close>
definition admits :: "policy \<Rightarrow> memory_backend \<Rightarrow> string \<Rightarrow> instant \<Rightarrow> bool \<times> memory_backend" where
  "admits p b k t = (let (v, b') = check_and_consume b k p t in (is_allowed v, b'))"

lemma prune_front_dropWhile: "prune_front c xs = dropWhile (\<lambda>x. x < c) xs"
  by (induction xs) auto

lemma pruned_live:
  assumes "sorted xs"
  shows "(case checked_sub t w of Some c \<Rightarrow> prune_front c xs | None \<Rightarrow> xs) = live w t xs"
proof (cases "w \<le> t")
  case True
  then have "live w t xs = filter (\<lambda>x. t - w \<le> x) xs"
    unfolding live_def by (intro filter_cong) auto
  with True show ?thesis
    using dropWhile_sorted_filter [OF assms]
    by (simp add: checked_sub_def prune_front_dropWhile)
next
  case False
  then have "live w t xs = xs"
    unfolding live_def by (intro filter_True) auto
  with False show ?thesis by (simp add: checked_sub_def)
qed

text \<open>One step of a healthy backend on an ordered log, in closed form.\<close>
lemma check_and_consume_eq:
  fixes p :: policy and t :: instant
  assumes "\<not> poisoned b" and "sorted (log_of b k)"
  defines "kept \<equiv> live (window p) t (log_of b k)"
  shows "check_and_consume b k p t =
    (if length kept < policy_max p
     then (Allowed (policy_max p - Suc (length kept)), b\<lparr>buckets := (buckets b)(k \<mapsto> kept @ [t])\<rparr>)
     else (Limited (case kept of [] \<Rightarrow> window p | x # _ \<Rightarrow> x + window p - t),
           b\<lparr>buckets := (buckets b)(k \<mapsto> kept)\<rparr>))"
proof -
  have eq: "(case checked_sub t (window p) of Some c \<Rightarrow> prune_front c (log_of b k) | None \<Rightarrow> log_of b k) = kept"
    unfolding kept_def by (rule pruned_live [OF assms(2)])
  then have step: "check_and_consume b k p t =
      (if u32_or_max (length kept) < policy_max p
       then (Allowed (policy_max p - u32_or_max (length (kept @ [t]))),
             b\<lparr>buckets := (buckets b)(k \<mapsto> kept @ [t])\<rparr>)
       else (Limited (case checked_duration_since
                 ((case kept of [] \<Rightarrow> t | x # _ \<Rightarrow> x) + window p) t of None \<Rightarrow> 0 | Some d \<Rightarrow> d),
             b\<lparr>buckets := (buckets b)(k \<mapsto> kept)\<rparr>))"
    using assms(1) unfolding check_and_consume_def log_of_def [symmetric] Let_def eq by simp
  have len: "length kept < policy_max p \<Longrightarrow> u32_or_max (length (kept @ [t])) = Suc (length kept)"
    using policy_max_le [of p] by (simp del: policy_max_le)
  have retry: "(case checked_duration_since
         ((case kept of [] \<Rightarrow> t | x # _ \<Rightarrow> x) + window p) t of None \<Rightarrow> 0 | Some d \<Rightarrow> d)
       = (case kept of [] \<Rightarrow> window p | x # _ \<Rightarrow> x + window p - t)"
    by (auto simp: checked_duration_since_def split: list.splits)
  show ?thesis
    unfolding step retry using len by simp
qed

lemma log_of_update [simp]:
  "log_of (b\<lparr>buckets := (buckets b)(k \<mapsto> d)\<rparr>) k' = (if k' = k then d else log_of b k')"
  by (simp add: log_of_def)

lemma check_and_consume_frame:
  "poisoned (snd (check_and_consume b k p t)) = poisoned b"
  "k' \<noteq> k \<Longrightarrow> log_of (snd (check_and_consume b k p t)) k' = log_of b k'"
  by (simp_all add: check_and_consume_def Let_def)

interpretation mem_log: sliding_log "admits p" log_of "\<lambda>b. \<not> poisoned b" "policy_max p" "window p"
  for p
proof
  fix b :: memory_backend and k k' :: string and t
  assume h: "\<not> poisoned b"
  show "\<not> poisoned (snd (admits p b k t))"
    using h check_and_consume_frame(1) [of b k p t] by (simp add: admits_def split_beta)
  show "k' \<noteq> k \<Longrightarrow> log_of (snd (admits p b k t)) k' = log_of b k'"
    using check_and_consume_frame(2) [of k' k b p t] by (simp add: admits_def split_beta)
  assume s: "sorted (log_of b k)"
  show "fst (admits p b k t) \<longleftrightarrow> length (live (window p) t (log_of b k)) < policy_max p"
    and "log_of (snd (admits p b k t)) k = live (window p) t (log_of b k) @
      (if length (live (window p) t (log_of b k)) < policy_max p then [t] else [])"
    by (simp_all add: admits_def check_and_consume_eq [OF h s])
qed

lemma fresh_tracks: "mem_log.tracks p memory_backend_new [] now"
  by (auto simp: mem_log.tracks_def memory_backend_new_def log_of_def)

subsection \<open>The shape of the logs\<close>

text \<open>
  What every operation keeps: each log is ascending, holds no instant after the last check and
  no more instants than the policy admits.
\<close>
definition backend_wf :: "policy \<Rightarrow> instant \<Rightarrow> memory_backend \<Rightarrow> bool" where
  "backend_wf p now b \<longleftrightarrow>
     (\<forall>k. sorted (log_of b k) \<and> (\<forall>x \<in> set (log_of b k). x \<le> now)
        \<and> length (log_of b k) \<le> policy_max p)"

lemma backend_wfD:
  assumes "backend_wf p now b"
  shows "sorted (log_of b k)" and "x \<in> set (log_of b k) \<Longrightarrow> x \<le> now"
    and "length (log_of b k) \<le> policy_max p"
  using assms by (auto simp: backend_wf_def)

lemma length_live: "length (live w t xs) \<le> length xs"
  by (simp add: live_def)

lemma backend_wf_update:
  assumes "backend_wf p now b" and "now \<le> t"
    and "sorted d" and "\<And>x. x \<in> set d \<Longrightarrow> x \<le> t" and "length d \<le> policy_max p"
  shows "backend_wf p t (b\<lparr>buckets := (buckets b)(k \<mapsto> d)\<rparr>)"
  using assms by (auto simp: backend_wf_def intro: order_trans)

lemma log_of_cleared [simp]:
  "log_of (b\<lparr>buckets := (buckets b)(k := None)\<rparr>) k' = (if k' = k then [] else log_of b k')"
  "log_of (b\<lparr>buckets := Map.empty\<rparr>) k' = []"
  by (simp_all add: log_of_def)

text \<open>Every operation of the in-memory backend keeps the logs ascending, free of future
  instants and at most \<open>policy.max()\<close> long, whatever the key: memory per key is bounded by the
  policy, for checks at non-decreasing instants, resets and clears.\<close>
theorem backend_ops_keep_wf:
  assumes wf: "backend_wf p now b" and t: "now \<le> t"
  shows "backend_wf p t (snd (check_and_consume b k p t))
    \<and> backend_wf p now (backend_reset b k) \<and> backend_wf p now (backend_clear b)"
proof (intro conjI)
  note D = backend_wfD [OF wf]
  show "backend_wf p t (snd (check_and_consume b k p t))"
  proof (cases "poisoned b")
    case True
    with wf t show ?thesis
      by (auto simp: check_and_consume_def backend_wf_def intro: order_trans)
  next
    case False
    let ?kept = "live (window p) t (log_of b k)"
    have srt: "sorted ?kept" and old: "\<And>x. x \<in> set ?kept \<Longrightarrow> x \<le> t"
      using D(1,2) t by (auto simp: set_live intro: order_trans)
    have "length ?kept \<le> policy_max p"
      using length_live D(3) by (rule order_trans)
    moreover have "sorted (?kept @ [t])" using srt old by (rule sorted_snoc)
    ultimately show ?thesis
      using srt old
      by (auto simp: check_and_consume_eq [OF False D(1)] intro!: backend_wf_update [OF wf t])
  qed
  show "backend_wf p now (backend_reset b k)" "backend_wf p now (backend_clear b)"
    using wf by (auto simp: backend_wf_def backend_reset_def backend_clear_def)
qed

theorem backend_ops_keep_wf_witness:
  "backend_wf \<lparr>max_requests = 2, window = 10\<rparr> 5
     (snd (check_and_consume memory_backend_new ''k'' \<lparr>max_requests = 2, window = 10\<rparr> 5))"
proof -
  have "backend_wf \<lparr>max_requests = 2, window = 10\<rparr> 3 memory_backend_new"
    by (simp add: backend_wf_def memory_backend_new_def log_of_def)
  from backend_ops_keep_wf [OF this, of 5 "''k''"] show ?thesis by simp
qed

subsection \<open>What a caller of the limiter observes\<close>

text \<open>C28. The sliding window is exact: from an empty backend, the requests admitted out of any
  sequence of checks at non-decreasing instants are exactly those the reference admits, a
  request being admitted when fewer than \<open>policy.max()\<close> requests of its key were admitted in
  the window that ends at it.\<close>
theorem limiter_is_exact:
  assumes "sorted (map snd reqs)"
  shows "admissions (admits p) memory_backend_new reqs
    = spec_admissions (policy_max p) (window p) [] reqs"
  using mem_log.admissions_spec [OF fresh_tracks [of p 0]] assms by simp

theorem limiter_is_exact_witness:
  "admissions (admits \<lparr>max_requests = 1, window = 10\<rparr>) memory_backend_new
     [(''a'', 1), (''a'', 5), (''b'', 6), (''a'', 12)]
   = [(''a'', 1), (''b'', 6), (''a'', 12)]"
proof -
  have "sorted (map snd [(''a'', 1 :: instant), (''a'', 5), (''b'', 6), (''a'', 12)])" by simp
  from limiter_is_exact [OF this, of "\<lparr>max_requests = 1, window = 10\<rparr>"] show ?thesis
    by (simp add: live_def times_of_def policy_max_def)
qed

text \<open>No key is ever admitted more than \<open>policy.max()\<close> times in any closed time window of
  the policy's length, wherever the window lies.\<close>
theorem limiter_never_exceeds:
  assumes "sorted (map snd reqs)"
  shows "in_window k (window p) s (admissions (admits p) memory_backend_new reqs) \<le> policy_max p"
  using mem_log.admissions_bounded [OF fresh_tracks [of p 0]] assms by simp

theorem limiter_never_exceeds_witness:
  "in_window ''a'' 10 2 (admissions (admits \<lparr>max_requests = 1, window = 10\<rparr>) memory_backend_new
     [(''a'', 1), (''a'', 5), (''a'', 12)]) \<le> 1"
proof -
  have "sorted (map snd [(''a'', 1 :: instant), (''a'', 5), (''a'', 12)])" by simp
  from limiter_never_exceeds [OF this, of "''a''" "\<lparr>max_requests = 1, window = 10\<rparr>" 2] show ?thesis
    by (simp add: policy_max_def)
qed

lemma live_of_sorted:
  assumes "sorted (x # xs)" and "t \<le> x + w"
  shows "live w t (x # xs) = x # xs"
  using assms unfolding live_def by (intro filter_True) auto

lemma policy_new_max_pos: "policy_new m w = Inr p \<Longrightarrow> 0 < policy_max p"
  by (auto simp: policy_new_def policy_max_def unat_gt_0 split: if_splits)

text \<open>The \<open>retry_after\<close> of a refusal is one clock tick short of what \<open>policy.rs\<close> documents
  ("the minimum wait before retrying would succeed"): a retry of the same key exactly
  \<open>retry_after\<close> later is refused again, with a wait of zero, and any later retry is admitted.\<close>
theorem retry_after_is_one_tick_short:
  assumes wf: "backend_wf p now b" and h: "\<not> poisoned b" and t: "now \<le> t"
    and pol: "policy_new m w = Inr p"
    and lim: "check_and_consume b k p t = (Limited r, b')"
  shows "fst (check_and_consume b' k p (t + r)) = Limited 0
    \<and> (\<forall>d > r. is_allowed (fst (check_and_consume b' k p (t + d))))"
proof -
  let ?kept = "live (window p) t (log_of b k)"
  note D = backend_wfD [OF wf] and pos = policy_new_max_pos [OF pol]
  note eq = check_and_consume_eq [OF h D(1)]
  from lim have full: "policy_max p \<le> length ?kept"
    and r: "r = (case ?kept of [] \<Rightarrow> window p | x # _ \<Rightarrow> x + window p - t)"
    and b': "b' = b\<lparr>buckets := (buckets b)(k \<mapsto> ?kept)\<rparr>"
    by (auto simp: eq split: if_splits)
  have len: "length ?kept = policy_max p"
    using full D(3) [of k] length_live [of "window p" t "log_of b k"] by linarith
  obtain x xs where kept: "?kept = x # xs"
    using len pos by (cases ?kept) auto
  have srt: "sorted (x # xs)"
    using sorted_live [OF D(1)] kept by metis
  have xt: "t \<le> x + window p"
    using kept set_live [of "window p" t "log_of b k"] by auto
  have log': "log_of b' k = x # xs" and h': "\<not> poisoned b'"
    using b' kept h by auto
  then have srt': "sorted (log_of b' k)" using srt by simp
  note eq' = check_and_consume_eq [OF h' srt']
  have tr: "t + r = x + window p" using r kept xt by simp
  have "live (window p) (t + r) (log_of b' k) = x # xs"
    using live_of_sorted [OF srt] tr log' by simp
  then have first: "fst (check_and_consume b' k p (t + r)) = Limited 0"
    using len kept tr by (simp add: eq')
  have "is_allowed (fst (check_and_consume b' k p (t + d)))" if "r < d" for d
  proof -
    have "live (window p) (t + d) (log_of b' k) = live (window p) (t + d) xs"
      using that tr by (simp add: log' live_def)
    then have "length (live (window p) (t + d) (log_of b' k)) < policy_max p"
      using len kept length_live [of "window p" "t + d" xs] by simp
    then show ?thesis by (simp add: eq')
  qed
  with first show ?thesis by blast
qed

theorem retry_after_is_one_tick_short_witness:
  "let p = \<lparr>max_requests = 1, window = 10\<rparr>;
       b = \<lparr>poisoned = False, buckets = [''k'' \<mapsto> [3]]\<rparr>
   in check_and_consume b ''k'' p 5 = (Limited 8, b)
    \<and> fst (check_and_consume b ''k'' p (5 + 8)) = Limited 0
    \<and> is_allowed (fst (check_and_consume b ''k'' p (5 + 9)))"
proof -
  let ?p = "\<lparr>max_requests = 1, window = 10\<rparr>" and ?b = "\<lparr>poisoned = False, buckets = [''k'' \<mapsto> [3]]\<rparr>"
  have wf: "backend_wf ?p 3 ?b"
    by (auto simp: backend_wf_def log_of_def policy_max_def)
  have pol: "policy_new 1 10 = Inr ?p"
    by (simp add: policy_new_def MAX_WINDOW_def mins_def secs_def)
  have lim: "check_and_consume ?b ''k'' ?p 5 = (Limited 8, ?b)"
    by (simp add: check_and_consume_def checked_sub_def policy_max_def
        u32_or_max_def U32_MAX_def checked_duration_since_def fun_upd_idem)
  have "\<not> poisoned ?b" and "(3::nat) \<le> 5" by simp_all
  note main = retry_after_is_one_tick_short [OF wf this pol lim]
  have "is_allowed (fst (check_and_consume ?b ''k'' ?p (5 + 9)))"
    using conjunct2 [OF main] by (rule allE [of _ 9]) simp
  with lim conjunct1 [OF main] show ?thesis
    unfolding Let_def by (intro conjI)
qed

end
