(* ===== verification/IngestLimiter.thy ===== *)
theory IngestLimiter
  imports SlidingWindow
begin

text \<open>
  The server's own limiter, \<^verbatim>\<open>self-hosted/server/src/rate_limit.rs\<close>: one instance guards ingest
  per token, one guards the sign-in endpoints per client address.  It is a second provider of
  the contract \<open>sliding_log\<close>.  The process environment is a map from variable names to values
  (\<open>None\<close>: unset or not Unicode); SHA-256 is a parameter.
\<close>

record rate_limiter =
  lim_poisoned :: bool
  lim_buckets :: "bytes \<rightharpoonup> instant list"
  capacity :: nat
  lim_window :: duration
  disabled :: bool

definition DEFAULT_CAPACITY :: nat where "DEFAULT_CAPACITY = 100"
definition DEFAULT_WINDOW_SEC :: nat where "DEFAULT_WINDOW_SEC = 1"
definition DEFAULT_AUTH_CAPACITY :: nat where "DEFAULT_AUTH_CAPACITY = 10"
definition DEFAULT_AUTH_WINDOW_SEC :: nat where "DEFAULT_AUTH_WINDOW_SEC = 300"
definition U64_MAX :: nat where "U64_MAX = 18446744073709551615"

definition ip_to_key :: "(bytes \<Rightarrow> bytes) \<Rightarrow> string \<Rightarrow> bytes" where
  "ip_to_key sha256 ip = take 16 (sha256 (bytes_of ip))"

definition truthy :: "string option \<Rightarrow> bool" where
  "truthy v = (case map_option to_ascii_lowercase v of
     Some s \<Rightarrow> s = ''1'' \<or> s = ''true'' | None \<Rightarrow> False)"

definition parse_or :: "nat \<Rightarrow> string option \<Rightarrow> nat" where
  "parse_or dflt v = (case Option.bind v (parse_unsigned U64_MAX) of Some n \<Rightarrow> n | None \<Rightarrow> dflt)"

definition auth_from_env :: "(string \<rightharpoonup> string) \<Rightarrow> rate_limiter" where
  "auth_from_env vars =
     (let env = (\<lambda>k. case vars k of
                       Some v \<Rightarrow> if trim v = [] then None else Some v | None \<Rightarrow> None)
      in \<lparr>lim_poisoned = False, lim_buckets = Map.empty,
          capacity = parse_or DEFAULT_AUTH_CAPACITY (env ''SENTORI_AUTH_RATELIMIT_PER_IP''),
          lim_window = secs (parse_or DEFAULT_AUTH_WINDOW_SEC
                               (env ''SENTORI_AUTH_RATELIMIT_WINDOW_SEC'')),
          disabled = truthy (env ''SENTORI_AUTH_RATELIMIT_DISABLED'')\<rparr>)"

definition from_env :: "(string \<rightharpoonup> string) \<Rightarrow> rate_limiter" where
  "from_env vars =
     \<lparr>lim_poisoned = False, lim_buckets = Map.empty,
      capacity = parse_or DEFAULT_CAPACITY (vars ''SENTORI_RATELIMIT_PER_TOKEN_RPS''),
      lim_window = secs (parse_or DEFAULT_WINDOW_SEC (vars ''SENTORI_RATELIMIT_WINDOW_SEC'')),
      disabled = truthy (vars ''SENTORI_RATELIMIT_DISABLED'')\<rparr>"

text \<open>\<open>now.duration_since(front)\<close> is zero when \<open>front\<close> is later, as is subtraction on \<open>nat\<close>.\<close>
fun evict :: "duration \<Rightarrow> instant \<Rightarrow> instant list \<Rightarrow> instant list" where
  "evict w now [] = []"
| "evict w now (front # buf) = (if w < now - front then evict w now buf else front # buf)"

definition admit :: "rate_limiter \<Rightarrow> bytes \<Rightarrow> instant \<Rightarrow> bool \<times> rate_limiter" where
  "admit l token now =
     (if disabled l then (True, l)
      else if lim_poisoned l then (True, l)
      else
        let buf = (case lim_buckets l token of None \<Rightarrow> [] | Some b \<Rightarrow> b);
            buf = evict (lim_window l) now buf
        in if capacity l \<le> length buf
           then (False, l\<lparr>lim_buckets := (lim_buckets l)(token \<mapsto> buf)\<rparr>)
           else (True, l\<lparr>lim_buckets := (lim_buckets l)(token \<mapsto> buf @ [now])\<rparr>))"

subsection \<open>The limiter keeps the sliding-window contract\<close>

definition buf_of :: "rate_limiter \<Rightarrow> bytes \<Rightarrow> instant list" where
  "buf_of l k = (case lim_buckets l k of None \<Rightarrow> [] | Some b \<Rightarrow> b)"

definition enforcing :: "nat \<Rightarrow> duration \<Rightarrow> rate_limiter \<Rightarrow> bool" where
  "enforcing n w l \<longleftrightarrow> \<not> disabled l \<and> \<not> lim_poisoned l \<and> capacity l = n \<and> lim_window l = w"

lemma evict_live: "sorted xs \<Longrightarrow> evict w now xs = live w now xs"
proof (induction xs)
  case Nil
  show ?case by simp
next
  case (Cons x xs)
  show ?case
  proof (cases "w < now - x")
    case True
    with Cons show ?thesis by (simp add: live_def)
  next
    case False
    with Cons.prems have "live w now (x # xs) = x # xs"
      unfolding live_def by (intro filter_True) auto
    with False show ?thesis by simp
  qed
qed

lemma buf_of_update [simp]:
  "buf_of (l\<lparr>lim_buckets := (lim_buckets l)(k \<mapsto> d)\<rparr>) k' = (if k' = k then d else buf_of l k')"
  by (simp add: buf_of_def)

lemma admit_eq:
  assumes "enforcing n w l"
  shows "admit l k t =
    (let buf = evict w t (buf_of l k) in
     if n \<le> length buf then (False, l\<lparr>lim_buckets := (lim_buckets l)(k \<mapsto> buf)\<rparr>)
     else (True, l\<lparr>lim_buckets := (lim_buckets l)(k \<mapsto> buf @ [t])\<rparr>))"
  using assms by (simp add: admit_def enforcing_def buf_of_def Let_def)

interpretation token_log: sliding_log admit buf_of "enforcing n w" n w for n w
proof
  fix l :: rate_limiter and k k' :: bytes and t
  assume h: "enforcing n w l"
  then show "enforcing n w (snd (admit l k t))"
    by (auto simp: admit_eq [OF h] Let_def enforcing_def)
  show "k' \<noteq> k \<Longrightarrow> buf_of (snd (admit l k t)) k' = buf_of l k'"
    by (simp add: admit_eq [OF h] Let_def)
  assume s: "sorted (buf_of l k)"
  show "fst (admit l k t) \<longleftrightarrow> length (live w t (buf_of l k)) < n"
    and "buf_of (snd (admit l k t)) k = live w t (buf_of l k) @
      (if length (live w t (buf_of l k)) < n then [t] else [])"
    by (simp_all add: admit_eq [OF h] evict_live [OF s] Let_def)
qed

lemma fresh_limiter_tracks:
  assumes "enforcing n w l" and "lim_buckets l = Map.empty"
  shows "token_log.tracks n w l [] now"
  using assms by (auto simp: token_log.tracks_def buf_of_def)

subsection \<open>What the sign-in and ingest guards promise\<close>

text \<open>C36. A sign-in limiter built from the environment and not disabled admits no more
  attempts of one address than its configured number in any closed window of its configured
  length, and, with nothing configured, no more than 10 in 300 seconds.\<close>
theorem auth_limiter_bounds_attempts:
  assumes "\<not> disabled (auth_from_env vars)" and "sorted (map snd reqs)"
  shows "in_window k (lim_window (auth_from_env vars)) s (admissions admit (auth_from_env vars) reqs)
      \<le> capacity (auth_from_env vars)
    \<and> capacity (auth_from_env Map.empty) = 10
    \<and> lim_window (auth_from_env Map.empty) = secs 300"
proof -
  let ?l = "auth_from_env vars"
  have "enforcing (capacity ?l) (lim_window ?l) ?l" and "lim_buckets ?l = Map.empty"
    using assms(1) by (simp_all add: enforcing_def auth_from_env_def Let_def)
  then have "token_log.tracks (capacity ?l) (lim_window ?l) ?l [] 0"
    by (rule fresh_limiter_tracks)
  from token_log.admissions_bounded [OF this] assms(2)
  have "in_window k (lim_window ?l) s (admissions admit ?l reqs) \<le> capacity ?l" by simp
  then show ?thesis
    by (simp add: auth_from_env_def parse_or_def DEFAULT_AUTH_CAPACITY_def
        DEFAULT_AUTH_WINDOW_SEC_def Let_def)
qed

theorem auth_limiter_bounds_attempts_witness:
  "in_window [1] (lim_window (auth_from_env Map.empty)) 5
     (admissions admit (auth_from_env Map.empty) [([1], 4), ([1], 9)])
   \<le> capacity (auth_from_env Map.empty)"
proof -
  have d: "\<not> disabled (auth_from_env Map.empty)"
    by (simp add: auth_from_env_def truthy_def Let_def)
  have s: "sorted (map snd [([1] :: bytes, 4 :: instant), ([1], 9)])" by simp
  show ?thesis
    by (rule conjunct1 [OF auth_limiter_bounds_attempts [OF d s, of "[1]" 5]])
qed

text \<open>The ingest limiter is exact per token: starting empty and enabled, it admits a
  request exactly when fewer than the configured number were admitted for that token in the
  closed window that ends now, and a disabled limiter admits everything and records nothing.\<close>
theorem ingest_limiter_is_exact:
  assumes "sorted (map snd reqs)"
  shows "admissions admit (from_env vars) reqs =
    (if disabled (from_env vars) then reqs
     else spec_admissions (capacity (from_env vars)) (lim_window (from_env vars)) [] reqs)"
proof (cases "disabled (from_env vars)")
  case True
  have "admissions admit (from_env vars) reqs = reqs" for reqs
    using True by (induction reqs) (auto simp: admit_def)
  with True show ?thesis by simp
next
  case False
  let ?l = "from_env vars"
  have "enforcing (capacity ?l) (lim_window ?l) ?l" and "lim_buckets ?l = Map.empty"
    using False by (simp_all add: enforcing_def from_env_def)
  then have "token_log.tracks (capacity ?l) (lim_window ?l) ?l [] 0"
    by (rule fresh_limiter_tracks)
  from token_log.admissions_spec [OF this] assms False show ?thesis by simp
qed

theorem ingest_limiter_is_exact_witness:
  "admissions admit (from_env [''SENTORI_RATELIMIT_PER_TOKEN_RPS'' \<mapsto> ''1''])
     [([7], 0), ([7], secs 1), ([8], secs 1), ([7], secs 1 + 1)]
   = [([7], 0), ([8], secs 1), ([7], secs 1 + 1)]"
proof -
  let ?v = "[''SENTORI_RATELIMIT_PER_TOKEN_RPS'' \<mapsto> ''1'']"
  let ?reqs = "[([7] :: bytes, 0), ([7], secs 1), ([8], secs 1), ([7], secs 1 + 1)]"
  have s: "sorted (map snd ?reqs)" by simp
  have one: "parse_unsigned U64_MAX ''1'' = Some 1"
    by (simp add: parse_unsigned_def strip_prefix_def starts_with_def is_ascii_digit_def
        char_val_def U64_MAX_def)
  have l: "capacity (from_env ?v) = 1" "lim_window (from_env ?v) = secs 1" "\<not> disabled (from_env ?v)"
    by (simp_all add: from_env_def parse_or_def one truthy_def DEFAULT_WINDOW_SEC_def)
  have "admissions admit (from_env ?v) ?reqs = spec_admissions 1 (secs 1) [] ?reqs"
    using ingest_limiter_is_exact [OF s, of ?v] unfolding l(1,2) by (simp only: l(3) if_False)
  also have "\<dots> = [([7], 0), ([8], secs 1), ([7], secs 1 + 1)]"
    by (simp add: live_def times_of_def secs_def)
  finally show ?thesis .
qed

end
