(* ===== verification/IssueFingerprint.thy ===== *)
theory IssueFingerprint
  imports Prelude
begin

text \<open>
  The crate \<^verbatim>\<open>core/crates/issue-fingerprint\<close>: message normalisation (\<^verbatim>\<open>normalize.rs\<close>) and the
  group key of an event (\<^verbatim>\<open>fingerprint.rs\<close>, \<^verbatim>\<open>error.rs\<close>).  The byte walks keep the part of
  the message still to read where the code keeps an index into it.  SHA-256 and hexadecimal
  encoding come from the crates sha2 and hex and are parameters; feeding the hasher in pieces
  is hashing their concatenation.
\<close>

subsection \<open>Normalisation\<close>

definition MIN_DIGIT_RUN :: nat where "MIN_DIGIT_RUN = 4"
definition DIGIT_TOKEN :: string where "DIGIT_TOKEN = ''<N>''"
definition UUID_TOKEN :: string where "UUID_TOKEN = ''<UUID>''"

datatype cow = Borrowed string | Owned string

fun cow_str :: "cow \<Rightarrow> string" where
  "cow_str (Borrowed s) = s"
| "cow_str (Owned s) = s"

definition utf8_char_len :: "char \<Rightarrow> nat" where
  "utf8_char_len lead =
     (let v = char_val lead in
      if 0xC0 \<le> v \<and> v \<le> 0xDF then 2
      else if 0xE0 \<le> v \<and> v \<le> 0xEF then 3
      else if 0xF0 \<le> v \<and> v \<le> 0xF7 then 4
      else 1)"

text \<open>\<open>s.get(0..len).unwrap_or("")\<close>, the string starting where the walk stands.\<close>
definition slice_str :: "string \<Rightarrow> nat \<Rightarrow> string" where
  "slice_str s len =
     (if len \<le> length s \<and> (s = [] \<or> \<not> is_cont_byte (hd s)) \<and> is_char_boundary s len
      then take len s else [])"

text \<open>The sections still to match, and what follows the last one.\<close>
fun uuid_sections :: "nat list \<Rightarrow> string \<Rightarrow> string option" where
  "uuid_sections [] s = Some s"
| "uuid_sections (len # more) s =
     (if length s < len then None
      else if \<not> list_all is_ascii_hexdigit (take len s) then None
      else if more = [] then Some (drop len s)
      else case drop len s of
             [] \<Rightarrow> None
           | c # r \<Rightarrow> if c = CHR ''-'' then uuid_sections more r else None)"

definition uuid_at :: "string \<Rightarrow> string option" where
  "uuid_at s = uuid_sections [8, 4, 4, 4, 12] s"

lemma uuid_sections_split:
  "uuid_sections ns s = Some r \<Longrightarrow>
   \<exists>p. s = p @ r \<and> length p = sum_list ns + (length ns - 1)
     \<and> list_all (\<lambda>c. is_ascii_hexdigit c \<or> c = CHR ''-'') p
     \<and> (\<forall>t. uuid_sections ns (p @ t) = Some t)"
proof (induction ns s arbitrary: r rule: uuid_sections.induct)
  case (1 s)
  then show ?case by simp
next
  case (2 len more s)
  then have len: "len \<le> length s" and hex: "list_all is_ascii_hexdigit (take len s)"
    by (auto split: if_splits)
  have hex': "list_all (\<lambda>c. is_ascii_hexdigit c \<or> c = CHR ''-'') (take len s)"
    using hex by (auto simp: list_all_iff)
  show ?case
  proof (cases "more = []")
    case True
    with 2 len hex hex' show ?thesis by (intro exI [of _ "take len s"]) (auto simp: min_def)
  next
    case False
    with "2.prems" len hex obtain u where u: "drop len s = CHR ''-'' # u"
      and rest: "uuid_sections more u = Some r"
      by (auto split: list.splits if_splits)
    from "2.IH" [OF _ _ False u] len hex rest obtain p where
      p: "u = p @ r" "length p = sum_list more + (length more - 1)"
        "list_all (\<lambda>c. is_ascii_hexdigit c \<or> c = CHR ''-'') p"
        "\<forall>t. uuid_sections more (p @ t) = Some t"
      by auto
    have "s = take len s @ CHR ''-'' # p @ r"
      using u p(1) by (metis append_take_drop_id)
    then show ?thesis
      using len hex hex' p(2-4) False
      by (intro exI [of _ "take len s @ CHR ''-'' # p"]) (auto simp: min_def Suc_diff_le neq_Nil_conv)
  qed
qed

lemma uuid_at_split:
  assumes "uuid_at s = Some r"
  obtains p where "s = p @ r" and "length p = 36"
    and "list_all (\<lambda>c. is_ascii_hexdigit c \<or> c = CHR ''-'') p"
    and "\<And>t. uuid_at (p @ t) = Some t"
  using uuid_sections_split [of "[8, 4, 4, 4, 12]" s r] assms by (auto simp: uuid_at_def)

lemma uuid_at_shorter: "uuid_at s = Some r \<Longrightarrow> length r < length s"
  by (auto elim!: uuid_at_split)

definition digit_run :: "string \<Rightarrow> nat" where
  "digit_run s = length (takeWhile is_ascii_digit s)"

function normalise_walk :: "string \<Rightarrow> string" where
  "normalise_walk [] = []"
| "normalise_walk (c # s) =
     (case uuid_at (c # s) of
        Some rest \<Rightarrow> UUID_TOKEN @ normalise_walk rest
      | None \<Rightarrow>
          if is_ascii_digit c then
            let run = Suc (digit_run s) in
            (if MIN_DIGIT_RUN \<le> run then DIGIT_TOKEN else slice_str (c # s) run)
              @ normalise_walk (drop run (c # s))
          else
            let ch_len = utf8_char_len c in
            slice_str (c # s) ch_len @ normalise_walk (drop ch_len (c # s)))"
  by pat_completeness auto
termination
  by (relation "measure length") (auto simp: utf8_char_len_def Let_def dest: uuid_at_shorter)

function needs_normalisation :: "string \<Rightarrow> bool" where
  "needs_normalisation [] = False"
| "needs_normalisation (c # s) =
     (if is_ascii_hexdigit c \<and> uuid_at (c # s) \<noteq> None then True
      else if is_ascii_digit c then
        let run = Suc (digit_run s) in
        if MIN_DIGIT_RUN \<le> run then True else needs_normalisation (drop run (c # s))
      else needs_normalisation (drop (utf8_char_len c) (c # s)))"
  by pat_completeness auto
termination
  by (relation "measure length") (auto simp: utf8_char_len_def Let_def)

definition message :: "string \<Rightarrow> cow" where
  "message msg = (if \<not> needs_normalisation msg then Borrowed msg else Owned (normalise_walk msg))"

subsection \<open>What the walk does\<close>

lemmas walk_simps = normalise_walk.simps needs_normalisation.simps

lemma utf8_char_len_pos [simp]: "0 < utf8_char_len c" "utf8_char_len c \<noteq> 0"
  by (simp_all add: utf8_char_len_def Let_def)

lemma utf8_char_len_width: "0 < utf8_width c \<Longrightarrow> utf8_char_len c = utf8_width c"
  by (auto simp: utf8_char_len_def utf8_width_def Let_def split: if_splits)

lemma utf8_hd_boundary: "utf8 (drop n s) \<Longrightarrow> n \<le> length s \<Longrightarrow> is_char_boundary s n"
  using utf8_hd [of "drop n s"] by (auto simp: is_char_boundary_def hd_drop_conv_nth)

lemma digit_ascii: "is_ascii_digit c \<Longrightarrow> char_val c < 128"
  by (simp add: is_ascii_digit_def)

lemma uuid_char_ascii: "is_ascii_hexdigit c \<or> c = CHR ''-'' \<Longrightarrow> char_val c < 128"
  by (auto simp: is_ascii_hexdigit_def is_ascii_digit_def char_val_def)

text \<open>One code point read off well-formed input.\<close>
lemma utf8_step:
  assumes "utf8 (c # s)"
  shows "slice_str (c # s) (utf8_char_len c) = c # take (utf8_char_len c - 1) s"
    and "utf8 (drop (utf8_char_len c) (c # s))"
    and "utf8_char_len c \<le> Suc (length s)"
proof -
  have w: "0 < utf8_width c" and len: "utf8_char_len c = utf8_width c"
    using assms utf8_char_len_width by (auto simp: utf8.simps(2))
  show le: "utf8_char_len c \<le> Suc (length s)" using assms len by (simp add: utf8.simps(2))
  show rest: "utf8 (drop (utf8_char_len c) (c # s))"
    using assms w len by (simp add: drop_Cons' utf8.simps(2))
  have "is_char_boundary (c # s) (utf8_char_len c)"
    using utf8_hd_boundary [OF rest] le by simp
  then show "slice_str (c # s) (utf8_char_len c) = c # take (utf8_char_len c - 1) s"
    using le w utf8_width_cont [OF w] len by (simp add: slice_str_def take_Cons')
qed

text \<open>A digit run read off well-formed input.\<close>
lemma digit_step:
  assumes "utf8 (c # s)" and "is_ascii_digit c"
  shows "slice_str (c # s) (Suc (digit_run s)) = c # takeWhile is_ascii_digit s"
    and "drop (Suc (digit_run s)) (c # s) = dropWhile is_ascii_digit s"
    and "utf8 (dropWhile is_ascii_digit s)"
proof -
  have tk: "take (digit_run s) s = takeWhile is_ascii_digit s"
    and dr: "drop (digit_run s) s = dropWhile is_ascii_digit s"
    unfolding digit_run_def by (rule takeWhile_eq_take [symmetric] dropWhile_eq_drop [symmetric])+
  show d: "drop (Suc (digit_run s)) (c # s) = dropWhile is_ascii_digit s" using dr by simp
  have "list_all (\<lambda>c. char_val c < 128) (c # takeWhile is_ascii_digit s)"
    using assms(2) digit_ascii set_takeWhileD by (fastforce simp: list_all_iff)
  from utf8_ascii_append [OF this, of "dropWhile is_ascii_digit s"] assms(1)
  show u: "utf8 (dropWhile is_ascii_digit s)" by simp
  have len: "digit_run s \<le> length s" by (simp add: digit_run_def length_takeWhile_le)
  have "is_char_boundary (c # s) (Suc (digit_run s))"
    by (rule utf8_hd_boundary) (use u d len in auto)
  then show "slice_str (c # s) (Suc (digit_run s)) = c # takeWhile is_ascii_digit s"
    using len tk utf8_hd [OF assms(1)] by (simp add: slice_str_def)
qed

lemma uuid_rest_utf8: "uuid_at s = Some r \<Longrightarrow> utf8 s = utf8 r"
proof (elim uuid_at_split)
  fix p
  assume "s = p @ r" and h: "list_all (\<lambda>c. is_ascii_hexdigit c \<or> c = CHR ''-'') p"
  have "list_all (\<lambda>c. char_val c < 128) p"
    using h uuid_char_ascii unfolding list_all_iff by blast
  then show "utf8 s = utf8 r"
    using \<open>s = p @ r\<close> by (simp add: utf8_ascii_append)
qed

text \<open>
  The walk as an induction: a well-formed message is empty, starts with a UUID, starts with a
  digit run, or starts with another code point.
\<close>
lemma walk_cases [consumes 1, case_names Nil uuid digits point]:
  assumes "utf8 s"
    and "P []"
    and "\<And>s r. uuid_at s = Some r \<Longrightarrow> utf8 r \<Longrightarrow> P r \<Longrightarrow> P s"
    and "\<And>c s. uuid_at (c # s) = None \<Longrightarrow> is_ascii_digit c \<Longrightarrow> utf8 (c # s) \<Longrightarrow>
           utf8 (dropWhile is_ascii_digit s) \<Longrightarrow> P (dropWhile is_ascii_digit s) \<Longrightarrow> P (c # s)"
    and "\<And>c s. uuid_at (c # s) = None \<Longrightarrow> \<not> is_ascii_digit c \<Longrightarrow> utf8 (c # s) \<Longrightarrow>
           utf8 (drop (utf8_char_len c - 1) s) \<Longrightarrow> P (drop (utf8_char_len c - 1) s) \<Longrightarrow> P (c # s)"
  shows "P s"
  using assms(1)
proof (induction s rule: normalise_walk.induct)
  case 1
  show ?case by (rule assms(2))
next
  case (2 c s)
  consider (u) r where "uuid_at (c # s) = Some r"
    | (d) "uuid_at (c # s) = None" "is_ascii_digit c"
    | (p) "uuid_at (c # s) = None" "\<not> is_ascii_digit c"
    by (cases "uuid_at (c # s)") auto
  then show ?case
  proof cases
    case u
    have r: "utf8 r" using "2.prems" uuid_rest_utf8 [OF u] by blast
    show ?thesis by (rule assms(3) [OF u r "2.IH"(3) [OF u r]])
  next
    case d
    note st = digit_step [OF "2.prems" d(2)]
    have "P (dropWhile is_ascii_digit s)" using "2.IH"(1) [OF d refl] st by simp
    then show ?thesis by (rule assms(4) [OF d "2.prems" st(3)])
  next
    case p
    note st = utf8_step [OF "2.prems"]
    have r: "drop (utf8_char_len c) (c # s) = drop (utf8_char_len c - 1) s"
      by (simp add: drop_Cons')
    have "P (drop (utf8_char_len c - 1) s)" using "2.IH"(2) [OF p refl] st(2) r by simp
    with assms(5) [OF p "2.prems"] st(2) r show ?thesis by simp
  qed
qed

text \<open>The walk's step in each of these cases.\<close>
lemma walk_uuid: "uuid_at s = Some r \<Longrightarrow> normalise_walk s = UUID_TOKEN @ normalise_walk r"
  by (cases s) (auto simp: uuid_at_def)

lemma walk_digits:
  assumes "uuid_at (c # s) = None" and "is_ascii_digit c" and "utf8 (c # s)"
  shows "normalise_walk (c # s) =
    (if MIN_DIGIT_RUN \<le> Suc (digit_run s) then DIGIT_TOKEN else c # takeWhile is_ascii_digit s)
      @ normalise_walk (dropWhile is_ascii_digit s)"
  using assms by (simp add: Let_def digit_step del: drop_Suc_Cons)

lemma walk_point:
  assumes "uuid_at (c # s) = None" and "\<not> is_ascii_digit c" and "utf8 (c # s)"
  shows "normalise_walk (c # s) =
    c # take (utf8_char_len c - 1) s @ normalise_walk (drop (utf8_char_len c - 1) s)"
  using assms by (simp add: Let_def utf8_step drop_Cons')

lemma needs_uuid:
  assumes u: "uuid_at s = Some r"
  shows "needs_normalisation s"
proof -
  obtain c q where c: "s = c # q" using u by (cases s) (auto simp: uuid_at_def)
  with u have "is_ascii_hexdigit c" by (auto simp: uuid_at_def split: if_splits)
  with u c show ?thesis by simp
qed

lemma needs_digits:
  assumes "uuid_at (c # s) = None" and "is_ascii_digit c" and "utf8 (c # s)"
  shows "needs_normalisation (c # s) \<longleftrightarrow>
    MIN_DIGIT_RUN \<le> Suc (digit_run s) \<or> needs_normalisation (dropWhile is_ascii_digit s)"
  using assms by (simp add: Let_def digit_step del: drop_Suc_Cons)

lemma needs_point:
  assumes "uuid_at (c # s) = None" and "\<not> is_ascii_digit c"
  shows "needs_normalisation (c # s) \<longleftrightarrow> needs_normalisation (drop (utf8_char_len c - 1) s)"
  using assms by (simp add: Let_def drop_Cons')

declare normalise_walk.simps(2) [simp del] needs_normalisation.simps(2) [simp del]

lemmas walk_steps = walk_uuid walk_digits walk_point needs_uuid needs_digits needs_point

lemma length_walk_le: "utf8 s \<Longrightarrow> length (normalise_walk s) \<le> length s"
proof (induction rule: walk_cases)
  case (uuid s r)
  then show ?case
    by (auto simp: walk_uuid UUID_TOKEN_def elim!: uuid_at_split)
next
  case (digits c s)
  have "length s = digit_run s + length (dropWhile is_ascii_digit s)"
    unfolding digit_run_def by (metis length_append takeWhile_dropWhile_id)
  moreover have "length (takeWhile is_ascii_digit s) = digit_run s" by (simp add: digit_run_def)
  ultimately show ?case
    using digits by (simp add: walk_digits DIGIT_TOKEN_def MIN_DIGIT_RUN_def)
next
  case (point c s)
  then show ?case by (simp add: walk_point)
qed simp

lemma walk_shorter: "utf8 s \<Longrightarrow> needs_normalisation s \<Longrightarrow> length (normalise_walk s) < length s"
proof (induction rule: walk_cases)
  case (uuid s r)
  then show ?case
    using length_walk_le [OF uuid(2)] by (auto simp: walk_uuid UUID_TOKEN_def elim!: uuid_at_split)
next
  case (digits c s)
  have "length s = digit_run s + length (dropWhile is_ascii_digit s)"
    unfolding digit_run_def by (metis length_append takeWhile_dropWhile_id)
  moreover have "length (takeWhile is_ascii_digit s) = digit_run s" by (simp add: digit_run_def)
  ultimately show ?case
    using digits length_walk_le [OF digits(4)]
    by (auto simp: walk_digits needs_digits DIGIT_TOKEN_def MIN_DIGIT_RUN_def)
next
  case (point c s)
  then show ?case
    by (auto simp: walk_point needs_point min_def dest: utf8_step(3))
qed simp

lemma walk_unchanged: "utf8 s \<Longrightarrow> \<not> needs_normalisation s \<Longrightarrow> normalise_walk s = s"
proof (induction rule: walk_cases)
  case (uuid s r)
  then show ?case using needs_uuid by blast
next
  case (digits c s)
  then show ?case
    by (simp add: walk_digits needs_digits)
next
  case (point c s)
  then show ?case by (simp add: walk_point needs_point)
qed simp

text \<open>The borrow-only fast path is sound and exact: on every well-formed message the result
  is what the full rewriting walk produces, and the message is returned borrowed exactly when
  that walk would change nothing; whenever it changes something the result is shorter.\<close>
theorem message_is_walk:
  assumes "utf8 msg"
  shows "cow_str (message msg) = normalise_walk msg
    \<and> ((\<exists>s. message msg = Borrowed s) \<longleftrightarrow> normalise_walk msg = msg)
    \<and> (normalise_walk msg \<noteq> msg \<longrightarrow> length (cow_str (message msg)) < length msg)"
  using walk_shorter [OF assms] walk_unchanged [OF assms] by (auto simp: message_def)

theorem message_is_walk_witness:
  "cow_str (message ''User 12345 timed out'') = ''User <N> timed out''"
proof -
  have u: "utf8 ''User 12345 timed out''" by code_simp
  have "normalise_walk ''User 12345 timed out'' = ''User <N> timed out''" by code_simp
  with conjunct1 [OF message_is_walk [OF u]] show ?thesis by simp
qed

subsection \<open>Normalising twice\<close>

text \<open>Up to its first token, the output copies the input.\<close>
lemma walk_prefix:
  assumes "utf8 s"
  shows "n \<le> length (normalise_walk s) \<Longrightarrow> CHR ''<'' \<notin> set (take n (normalise_walk s))
    \<Longrightarrow> take n (normalise_walk s) = take n s"
  using assms
proof (induction arbitrary: n rule: walk_cases)
  case (uuid s r)
  then show ?case by (cases n) (auto simp: walk_uuid UUID_TOKEN_def)
next
  case (digits c s)
  show ?case
  proof (cases "MIN_DIGIT_RUN \<le> Suc (digit_run s)")
    case True
    with digits show ?thesis by (cases n) (auto simp: walk_digits DIGIT_TOKEN_def)
  next
    case False
    let ?d = "c # takeWhile is_ascii_digit s" and ?r = "dropWhile is_ascii_digit s"
    have w: "normalise_walk (c # s) = ?d @ normalise_walk ?r"
      using digits False by (simp add: walk_digits)
    have "take (n - length ?d) (normalise_walk ?r) = take (n - length ?d) ?r"
      using digits.prems unfolding w by (intro digits.IH) (simp_all add: le_diff_conv del: append_Cons)
    then have "take n (?d @ normalise_walk ?r) = take n (?d @ ?r)" by (simp only: take_append)
    then show ?thesis unfolding w by simp
  qed
next
  case (point c s)
  let ?d = "c # take (utf8_char_len c - 1) s" and ?r = "drop (utf8_char_len c - 1) s"
  have w: "normalise_walk (c # s) = ?d @ normalise_walk ?r"
    using point by (simp add: walk_point)
  have "take (n - length ?d) (normalise_walk ?r) = take (n - length ?d) ?r"
    using point.prems unfolding w by (intro point.IH) (simp_all add: le_diff_conv del: append_Cons)
  then have "take n (?d @ normalise_walk ?r) = take n (?d @ ?r)" by (simp only: take_append)
  then show ?case unfolding w by simp
qed simp

lemma uuid_char_not_token:
  "list_all (\<lambda>c. is_ascii_hexdigit c \<or> c = CHR ''-'') p \<Longrightarrow> CHR ''<'' \<notin> set p"
  by (auto simp: list_all_iff is_ascii_hexdigit_def is_ascii_digit_def char_val_def)

text \<open>The walk makes no new UUID: one at the start of the output was one of the input.\<close>
lemma walk_no_new_uuid:
  assumes "utf8 s" and "uuid_at s = None"
  shows "uuid_at (normalise_walk s) = None"
proof (rule ccontr)
  assume "uuid_at (normalise_walk s) \<noteq> None"
  then obtain r where "uuid_at (normalise_walk s) = Some r" by auto
  then obtain p where p: "normalise_walk s = p @ r" "\<And>t. uuid_at (p @ t) = Some t"
    and "list_all (\<lambda>c. is_ascii_hexdigit c \<or> c = CHR ''-'') p"
    by (elim uuid_at_split) blast
  then have "take (length p) (normalise_walk s) = take (length p) s"
    by (intro walk_prefix [OF assms(1)]) (auto dest: uuid_char_not_token)
  with p have "s = p @ drop (length p) s"
    by (metis append_eq_conv_conj append_take_drop_id)
  with p(2) assms(2) show False by (metis option.distinct(1))
qed

lemma walk_utf8: "utf8 s \<Longrightarrow> utf8 (normalise_walk s)"
proof (induction rule: walk_cases)
  case (uuid s r)
  then show ?case by (simp add: walk_uuid UUID_TOKEN_def char_val_def)
next
  case (digits c s)
  have "list_all (\<lambda>c. char_val c < 128) (c # takeWhile is_ascii_digit s)"
    using digits(2) digit_ascii set_takeWhileD by (fastforce simp: list_all_iff)
  from utf8_ascii_append [OF this] digits show ?case
    by (simp add: walk_digits DIGIT_TOKEN_def char_val_def)
next
  case (point c s)
  have "length (take (utf8_char_len c - 1) s) = utf8_char_len c - 1"
    using utf8_step(3) [OF point(3)] by simp
  moreover have "0 < utf8_width c" "continues c (take (utf8_width c - 1) s)"
    using point(3) by (simp_all add: utf8.simps(2))
  ultimately show ?case
    using point(5) utf8_char_len_width [of c] utf8_step(3) [OF point(3)]
    by (simp add: walk_point [OF point(1-3)] utf8.simps(2))
qed simp

text \<open>What the walk leaves is not extended by what follows it.\<close>
lemma walk_hd_not_digit:
  assumes "utf8 s" and "s = [] \<or> \<not> is_ascii_digit (hd s)"
  shows "normalise_walk s = [] \<or> \<not> is_ascii_digit (hd (normalise_walk s))"
  using assms
proof (induction rule: walk_cases)
  case (uuid s r)
  then show ?case by (simp add: walk_uuid UUID_TOKEN_def is_ascii_digit_def char_val_def)
qed (simp_all add: walk_point)

lemma not_uuid_token:
  "\<not> is_ascii_hexdigit c \<Longrightarrow> uuid_at (c # s) = None"
  "\<not> is_ascii_hexdigit d \<Longrightarrow> uuid_at (c # d # s) = None"
  by (auto simp: uuid_at_def)

lemma walk_ascii_point:
  assumes "uuid_at (c # s) = None" and "\<not> is_ascii_digit c" and "char_val c < 128" and "utf8 s"
  shows "normalise_walk (c # s) = c # normalise_walk s"
  using assms walk_point [OF assms(1,2)] utf8_char_len_width [of c] by simp

lemma walk_tokens:
  assumes "utf8 s"
  shows "normalise_walk (UUID_TOKEN @ s) = UUID_TOKEN @ normalise_walk s"
    and "normalise_walk (DIGIT_TOKEN @ s) = DIGIT_TOKEN @ normalise_walk s"
  using assms
  by (simp_all add: UUID_TOKEN_def DIGIT_TOKEN_def walk_ascii_point not_uuid_token
      is_ascii_hexdigit_def is_ascii_digit_def char_val_def)

lemma normalise_walk_idem:
  "utf8 s \<Longrightarrow> normalise_walk (normalise_walk s) = normalise_walk s"
proof (induction rule: walk_cases)
  case (uuid s r)
  then show ?case by (simp add: walk_uuid walk_tokens walk_utf8)
next
  case (digits c s)
  let ?r = "normalise_walk (dropWhile is_ascii_digit s)"
  have step: "normalise_walk (c # s) =
      (if MIN_DIGIT_RUN \<le> Suc (digit_run s) then DIGIT_TOKEN else c # takeWhile is_ascii_digit s) @ ?r"
    using digits by (simp add: walk_digits)
  show ?case
  proof (cases "MIN_DIGIT_RUN \<le> Suc (digit_run s)")
    case True
    with step digits show ?thesis by (simp add: walk_tokens walk_utf8)
  next
    case False
    have hd: "?r = [] \<or> \<not> is_ascii_digit (hd ?r)"
      by (rule walk_hd_not_digit [OF digits(4)]) (use hd_dropWhile in blast)
    then have run: "takeWhile is_ascii_digit (takeWhile is_ascii_digit s @ ?r) = takeWhile is_ascii_digit s"
      and rest: "dropWhile is_ascii_digit (takeWhile is_ascii_digit s @ ?r) = ?r"
      by (auto simp: takeWhile_append dropWhile_append takeWhile_eq_Nil_iff dest: set_takeWhileD
          intro: dropWhile_eq_self_iff [THEN iffD2])
    have w: "normalise_walk (c # s) = c # takeWhile is_ascii_digit s @ ?r"
      using step False by simp
    have "uuid_at (c # takeWhile is_ascii_digit s @ ?r) = None"
      using walk_no_new_uuid [OF digits(3,1)] w by simp
    moreover have "utf8 (c # takeWhile is_ascii_digit s @ ?r)"
      using walk_utf8 [OF digits(3)] w by simp
    ultimately have "normalise_walk (c # takeWhile is_ascii_digit s @ ?r)
        = c # takeWhile is_ascii_digit s @ normalise_walk ?r"
      using False digits(2) by (simp add: walk_digits run rest digit_run_def)
    then show ?thesis using w digits(5) by simp
  qed
next
  case (point c s)
  let ?n = "utf8_char_len c - 1"
  let ?r = "normalise_walk (drop ?n s)"
  have w: "normalise_walk (c # s) = c # take ?n s @ ?r"
    using point by (simp add: walk_point)
  have len: "length (take ?n s) = ?n" using utf8_step(3) [OF point(3)] by simp
  have "uuid_at (c # take ?n s @ ?r) = None"
    using walk_no_new_uuid [OF point(3,1)] w by simp
  moreover have "utf8 (c # take ?n s @ ?r)"
    using walk_utf8 [OF point(3)] w by simp
  ultimately have "normalise_walk (c # take ?n s @ ?r) = c # take ?n s @ normalise_walk ?r"
    using point(2) len by (simp add: walk_point)
  then show ?case using w point(5) by simp
qed simp

text \<open>Normalisation is idempotent on well-formed messages: no replacement creates a digit run
  or a UUID that a second pass would rewrite, so an already normalised message keeps its
  group.\<close>
theorem message_idempotent:
  assumes "utf8 msg"
  shows "message (cow_str (message msg)) = Borrowed (cow_str (message msg))"
proof -
  have m: "cow_str (message msg) = normalise_walk msg"
    using walk_unchanged [OF assms] by (auto simp: message_def)
  have "\<not> needs_normalisation (normalise_walk msg)"
    using walk_shorter [OF walk_utf8 [OF assms]] normalise_walk_idem [OF assms] by auto
  then show ?thesis unfolding m by (simp add: message_def)
qed

theorem message_idempotent_witness:
  "message (cow_str (message ''id 7f3b1c8a-2e3d-4f5a-9b0c-1d2e3f4a5b6c'')) = Borrowed ''id <UUID>''"
proof -
  let ?m = "''id 7f3b1c8a-2e3d-4f5a-9b0c-1d2e3f4a5b6c''"
  have u: "utf8 ?m" by code_simp
  have "cow_str (message ?m) = ''id <UUID>''" by code_simp
  with message_idempotent [OF u] show ?thesis by simp
qed

subsection \<open>Fingerprints\<close>

record frame_site =
  site_function :: "string option"
  site_file :: string

datatype input =
    Message string string                               \<comment> \<open>release, body\<close>
  | Exception string string string "frame_site option"  \<comment> \<open>release, error type, message, frame\<close>
  | Degenerate string string "64 word"                  \<comment> \<open>release, kind tag, seed\<close>

datatype fingerprint = Fingerprint (as_hex: string)

datatype fingerprint_error =
    OverrideEmpty
  | OverrideTooLong nat nat
  | OverrideControlChar nat

definition OUTPUT_HEX_LEN :: nat where "OUTPUT_HEX_LEN = 32"
definition MAX_OVERRIDE_LEN :: nat where "MAX_OVERRIDE_LEN = 256"

definition ALGO_VERSION_PREFIX :: string where
  "ALGO_VERSION_PREFIX = ''sentori-issue-fingerprint:v1:''"

text \<open>Everything fed to the hasher, in order.\<close>
definition preimage :: "input \<Rightarrow> bytes" where
  "preimage inp = bytes_of ALGO_VERSION_PREFIX @
     (case inp of
        Message release body \<Rightarrow>
          bytes_of (''message|'' @ release @ ''|'' @ cow_str (message body))
      | Exception release error_type msg frame \<Rightarrow>
          bytes_of (''exception|'' @ release @ ''|'' @ error_type @ ''|''
            @ cow_str (message msg) @ ''|''
            @ (case frame of
                 None \<Rightarrow> []
               | Some site \<Rightarrow>
                   (case site_function site of None \<Rightarrow> [] | Some fn_name \<Rightarrow> fn_name)
                   @ ''|'' @ site_file site))
      | Degenerate release kind_tag seed \<Rightarrow>
          bytes_of (''degenerate|'' @ release @ ''|'' @ kind_tag @ ''|'') @ to_be_bytes seed)"

definition compute :: "(bytes \<Rightarrow> bytes) \<Rightarrow> (bytes \<Rightarrow> string) \<Rightarrow> input \<Rightarrow> fingerprint" where
  "compute sha256 hex inp = Fingerprint (hex (take 16 (sha256 (preimage inp))))"

fun first_control :: "nat \<Rightarrow> string \<Rightarrow> nat option" where
  "first_control idx [] = None"
| "first_control idx (b # s) = (if is_ascii_control b then Some idx else first_control (Suc idx) s)"

definition from_override :: "string \<Rightarrow> fingerprint_error + fingerprint" where
  "from_override s =
     (if s = [] then Inl OverrideEmpty
      else if MAX_OVERRIDE_LEN < length s then Inl (OverrideTooLong (length s) MAX_OVERRIDE_LEN)
      else case first_control 0 s of
             Some idx \<Rightarrow> Inl (OverrideControlChar idx)
           | None \<Rightarrow> Inr (Fingerprint s))"

text \<open>What the code relies on of the two crates.\<close>
definition digest_of_32_bytes :: "(bytes \<Rightarrow> bytes) \<Rightarrow> bool" where
  "digest_of_32_bytes sha256 \<longleftrightarrow> (\<forall>m. length (sha256 m) = 32)"

definition two_chars_per_byte :: "(bytes \<Rightarrow> string) \<Rightarrow> bool" where
  "two_chars_per_byte hex \<longleftrightarrow>
     (\<forall>b. length (hex b) = 2 * length b) \<and> (\<forall>b. list_all is_ascii_hexdigit (hex b))"

lemma first_control_None: "first_control i s = None \<longleftrightarrow> list_all (\<lambda>c. \<not> is_ascii_control c) s"
  by (induction i s rule: first_control.induct) auto

lemma first_control_Some:
  "first_control i s = Some j \<longleftrightarrow>
   i \<le> j \<and> j - i < length s \<and> is_ascii_control (s ! (j - i))
   \<and> (\<forall>k < j - i. \<not> is_ascii_control (s ! k))"
proof (induction i s rule: first_control.induct)
  case (2 idx b s)
  show ?case
  proof (cases "is_ascii_control b")
    case True
    then show ?thesis by (auto simp: nth_Cons split: nat.splits)
  next
    case False
    have "Suc idx \<le> j \<Longrightarrow> j - idx = Suc (j - Suc idx)" by simp
    with False 2 show ?thesis
      by (cases "Suc idx \<le> j") (auto simp: nth_Cons less_Suc_eq_0_disj split: nat.splits)
  qed
qed simp

text \<open>An override is accepted exactly when it is non-empty, at most 256 bytes long and free of
  ASCII control bytes, and it then becomes the fingerprint verbatim; a refusal for a control
  byte names the first one.\<close>
theorem from_override_spec:
  "(from_override s = Inr f \<longleftrightarrow>
     f = Fingerprint s \<and> s \<noteq> [] \<and> length s \<le> 256 \<and> list_all (\<lambda>c. \<not> is_ascii_control c) s)
   \<and> (from_override s = Inl (OverrideControlChar i) \<longleftrightarrow>
     length s \<le> 256 \<and> i < length s \<and> is_ascii_control (s ! i)
     \<and> list_all (\<lambda>c. \<not> is_ascii_control c) (take i s))"
proof -
  have "list_all (\<lambda>c. \<not> is_ascii_control c) (take i s) \<longleftrightarrow> (\<forall>k < i. \<not> is_ascii_control (s ! k))"
    if "i < length s"
    using that by (auto simp: list_all_length)
  then show ?thesis
    using first_control_Some [of 0 s i] first_control_None [of 0 s]
    by (cases "first_control 0 s") (auto simp: from_override_def MAX_OVERRIDE_LEN_def)
qed

subsection \<open>What a fingerprint identifies\<close>

text \<open>The documented group key of each shape.\<close>
datatype group_key =
    ByMessage string string
  | ByException string string string "(string \<times> string) option"
  | ByDegenerate string string "64 word"

definition group_key_of :: "input \<Rightarrow> group_key" where
  "group_key_of inp =
     (case inp of
        Message release body \<Rightarrow> ByMessage release (normalise_walk body)
      | Exception release error_type msg frame \<Rightarrow>
          ByException release error_type (normalise_walk msg)
            (map_option (\<lambda>f. (case site_function f of None \<Rightarrow> [] | Some n \<Rightarrow> n, site_file f)) frame)
      | Degenerate release kind_tag seed \<Rightarrow> ByDegenerate release kind_tag seed)"

definition bar_free :: "string \<Rightarrow> bool" where
  "bar_free s \<longleftrightarrow> CHR ''|'' \<notin> set s"

text \<open>The separator occurs in none of the fields another field follows; texts are UTF-8.\<close>
definition separable :: "input \<Rightarrow> bool" where
  "separable inp =
     (case inp of
        Message release body \<Rightarrow> bar_free release \<and> utf8 body
      | Exception release error_type msg frame \<Rightarrow>
          bar_free release \<and> bar_free error_type \<and> bar_free (normalise_walk msg) \<and> utf8 msg
          \<and> (case frame of None \<Rightarrow> True
             | Some f \<Rightarrow> (case site_function f of None \<Rightarrow> True | Some n \<Rightarrow> bar_free n))
      | Degenerate release kind_tag seed \<Rightarrow> bar_free release \<and> bar_free kind_tag)"

lemma cow_str_message: "utf8 s \<Longrightarrow> cow_str (message s) = normalise_walk s"
  using walk_unchanged by (auto simp: message_def)

lemma cut_at_bar:
  "bar_free a \<Longrightarrow> bar_free b \<Longrightarrow> a @ CHR ''|'' # u = b @ CHR ''|'' # v \<longleftrightarrow> a = b \<and> u = v"
  unfolding bar_free_def by (rule cut_at_separator)

lemma bar_byte: "(of_char c :: byte) = 124 \<longleftrightarrow> c = CHR ''|''"
  using of_char_word_inject [of c "CHR ''|''"] by simp

lemma bytes_of_bar_free: "bar_free a \<Longrightarrow> (124 :: byte) \<notin> set (bytes_of a)"
  unfolding bytes_of_def bar_free_def using bar_byte by fastforce

lemma cut_bytes_at_bar:
  assumes "bar_free a" and "bar_free b"
  shows "bytes_of a @ 124 # u = bytes_of b @ 124 # v \<longleftrightarrow> a = b \<and> u = v"
  using cut_at_separator [OF bytes_of_bar_free [OF assms(1)] bytes_of_bar_free [OF assms(2)]]
  by simp

lemma bytes_of_Cons: "bytes_of (c # s) = of_char c # bytes_of s"
  by (simp add: bytes_of_def)

lemma bytes_of_Nil [simp]: "bytes_of [] = []"
  by (simp add: bytes_of_def)

text \<open>The tail of an exception's preimage: the frame is present exactly when a bar is.\<close>
definition site_text :: "frame_site option \<Rightarrow> string" where
  "site_text frame = (case frame of None \<Rightarrow> []
     | Some f \<Rightarrow> (case site_function f of None \<Rightarrow> [] | Some n \<Rightarrow> n) @ ''|'' @ site_file f)"

lemma site_text_inject:
  assumes "case f of None \<Rightarrow> True | Some f \<Rightarrow> (case site_function f of None \<Rightarrow> True | Some n \<Rightarrow> bar_free n)"
    and "case g of None \<Rightarrow> True | Some f \<Rightarrow> (case site_function f of None \<Rightarrow> True | Some n \<Rightarrow> bar_free n)"
  shows "site_text f = site_text g \<longleftrightarrow>
    map_option (\<lambda>f. (case site_function f of None \<Rightarrow> [] | Some n \<Rightarrow> n, site_file f)) f =
    map_option (\<lambda>f. (case site_function f of None \<Rightarrow> [] | Some n \<Rightarrow> n, site_file f)) g"
proof -
  let ?n = "\<lambda>f. case site_function f of None \<Rightarrow> [] | Some n \<Rightarrow> n"
  have nil: "bar_free []" by (simp add: bar_free_def)
  have "bar_free (?n x)" if "f = Some x" for x
    using assms(1) that nil by (auto split: option.splits)
  moreover have "bar_free (?n y)" if "g = Some y" for y
    using assms(2) that nil by (auto split: option.splits)
  ultimately show ?thesis
    by (cases f; cases g) (auto simp: site_text_def cut_at_bar)
qed

lemma preimage_exception:
  "preimage (Exception r t m f) = bytes_of ALGO_VERSION_PREFIX @
     bytes_of ''exception|'' @ bytes_of r @ 124 # bytes_of t @ 124 # bytes_of (cow_str (message m))
       @ 124 # bytes_of (site_text f)"
  by (simp add: preimage_def site_text_def bytes_of_Cons)

lemma preimage_message:
  "preimage (Message r b) = bytes_of ALGO_VERSION_PREFIX @
     bytes_of ''message|'' @ bytes_of r @ 124 # bytes_of (cow_str (message b))"
  by (simp add: preimage_def bytes_of_Cons)

lemma preimage_degenerate:
  "preimage (Degenerate r k s) = bytes_of ALGO_VERSION_PREFIX @
     bytes_of ''degenerate|'' @ bytes_of r @ 124 # bytes_of k @ 124 # to_be_bytes s"
  by (simp add: preimage_def bytes_of_Cons)

lemmas preimages = preimage_message preimage_exception preimage_degenerate

text \<open>Where the separator does not occur inside a delimited field, the hashed bytes identify
  the group exactly: two events, of whatever shapes, feed the hasher the same bytes if and only
  if they have the same shape, release, error type or kind tag, normalised text and frame
  site (an absent function counting as an empty one).\<close>
theorem preimage_identifies_group:
  assumes "separable a" and "separable b"
  shows "preimage a = preimage b \<longleftrightarrow> group_key_of a = group_key_of b"
proof (cases a)
  case (Message r x)
  with assms show ?thesis
    by (cases b) (auto simp: preimages group_key_of_def separable_def cut_bytes_at_bar
        cow_str_message bytes_of_Cons split: option.splits)
next
  case (Exception r t m f)
  with assms show ?thesis
    by (cases b) (auto simp: preimages group_key_of_def separable_def cut_bytes_at_bar
        cow_str_message bytes_of_Cons site_text_inject)
next
  case (Degenerate r k s)
  with assms show ?thesis
    by (cases b) (auto simp: preimages group_key_of_def separable_def cut_bytes_at_bar
        cow_str_message bytes_of_Cons)
qed

theorem preimage_identifies_group_witness:
  "preimage (Message ''1.2'' ''lost 12345'') = preimage (Message ''1.2'' ''lost 99999'')"
proof -
  have u: "utf8 ''lost 12345''" "utf8 ''lost 99999''" by code_simp+
  have w: "normalise_walk ''lost 12345'' = ''lost <N>''" "normalise_walk ''lost 99999'' = ''lost <N>''"
    by code_simp+
  have "separable (Message ''1.2'' ''lost 12345'')" "separable (Message ''1.2'' ''lost 99999'')"
    using u by (simp_all add: separable_def bar_free_def)
  from preimage_identifies_group [OF this] w show ?thesis by (simp add: group_key_of_def)
qed

text \<open>
  The fields are not escaped: a release that contains the separator shares its group with
  another release, whatever the hash.
\<close>
lemma bar_in_release_collides:
  "compute sha256 hex (Message ''1|a'' ''b'') = compute sha256 hex (Message ''1'' ''a|b'')
   \<and> group_key_of (Message ''1|a'' ''b'') \<noteq> group_key_of (Message ''1'' ''a|b'')"
proof
  have "preimage (Message ''1|a'' ''b'') = preimage (Message ''1'' ''a|b'')" by code_simp
  then show "compute sha256 hex (Message ''1|a'' ''b'') = compute sha256 hex (Message ''1'' ''a|b'')"
    by (simp add: compute_def)
qed (simp add: group_key_of_def)

text \<open>A computed fingerprint is 32 hexadecimal characters, and equal group keys of well-formed
  inputs give equal fingerprints: events that differ only in long digit runs or UUIDs of their
  text share one.\<close>
theorem compute_stable:
  assumes "digest_of_32_bytes sha256" and "two_chars_per_byte hex"
  shows "length (as_hex (compute sha256 hex a)) = OUTPUT_HEX_LEN
    \<and> list_all is_ascii_hexdigit (as_hex (compute sha256 hex a))
    \<and> (separable a \<and> separable b \<and> group_key_of a = group_key_of b
        \<longrightarrow> compute sha256 hex a = compute sha256 hex b)"
proof -
  have "preimage a = preimage b" if "separable a" "separable b" "group_key_of a = group_key_of b"
    using that
    by (cases a; cases b) (auto simp: preimages group_key_of_def separable_def
        cow_str_message site_text_inject)
  with assms show ?thesis
    by (auto simp: compute_def digest_of_32_bytes_def two_chars_per_byte_def OUTPUT_HEX_LEN_def)
qed

theorem compute_stable_witness:
  "length (as_hex (compute (\<lambda>_. replicate 32 0) (\<lambda>b. replicate (2 * length b) (CHR ''0''))
     (Degenerate ''1.0'' ''anr'' 7))) = 32"
proof -
  have d: "digest_of_32_bytes (\<lambda>_. replicate 32 0)" by (simp add: digest_of_32_bytes_def)
  have h: "two_chars_per_byte (\<lambda>b. replicate (2 * length b) (CHR ''0''))"
    by (simp add: two_chars_per_byte_def list_all_iff is_ascii_hexdigit_def is_ascii_digit_def
        char_val_def)
  show ?thesis
    using conjunct1 [OF compute_stable [OF d h]] by (simp add: OUTPUT_HEX_LEN_def)
qed

end
