(* ===== verification/Primitives.thy ===== *)
theory Primitives
  imports Prelude
begin

text \<open>
  What the cryptographic components rely on of the third-party crates they call.  The functions
  themselves (AES-256-GCM, HMAC-SHA256, HKDF, base64, bcrypt, the operating system's random
  source) are parameters of the model; the predicates below state their documented behaviour
  and appear as named hypotheses where a property needs them.  The toy instances at the end
  are used by witnesses only.
\<close>

text \<open>An authenticated cipher: key, nonce, text; \<open>None\<close> is the crate's opaque error.\<close>
record aead =
  aead_encrypt :: "bytes \<Rightarrow> bytes \<Rightarrow> bytes \<Rightarrow> bytes option"
  aead_decrypt :: "bytes \<Rightarrow> bytes \<Rightarrow> bytes \<Rightarrow> bytes option"

text \<open>
  Decryption under the same key and nonce inverts encryption; the ciphertext carries a 16-byte
  tag, so a shorter one never decrypts.
\<close>
definition aead_lawful :: "aead \<Rightarrow> bool" where
  "aead_lawful A \<longleftrightarrow>
     (\<forall>k n p c. aead_encrypt A k n p = Some c \<longrightarrow>
        aead_decrypt A k n c = Some p \<and> length c = length p + 16)"

record base64 =
  b64_encode :: "bytes \<Rightarrow> string"
  b64_decode :: "string \<Rightarrow> bytes option"

definition base64_lawful :: "base64 \<Rightarrow> bool" where
  "base64_lawful B \<longleftrightarrow> (\<forall>b. b64_decode B (b64_encode B b) = Some b)"

text \<open>\<open>rng i n\<close>: what the i-th call of one operation fills a buffer of n bytes with.\<close>
type_synonym rng = "nat \<Rightarrow> nat \<Rightarrow> bytes option"

definition rng_fills :: "rng \<Rightarrow> bool" where
  "rng_fills g \<longleftrightarrow> (\<forall>i n b. g i n = Some b \<longrightarrow> length b = n)"

lemma aead_lawfulD:
  assumes "aead_lawful A" and "aead_encrypt A k n p = Some c"
  shows "aead_decrypt A k n c = Some p" and "length c = length p + 16"
  using assms unfolding aead_lawful_def by blast+

lemma base64_lawfulD [simp]: "base64_lawful B \<Longrightarrow> b64_decode B (b64_encode B b) = Some b"
  by (simp add: base64_lawful_def)

lemma rng_fillsD: "rng_fills g \<Longrightarrow> g i n = Some b \<Longrightarrow> length b = n"
  unfolding rng_fills_def by blast

subsection \<open>Instances for the witnesses\<close>

definition toy_tag :: "bytes \<Rightarrow> bytes \<Rightarrow> bytes" where
  "toy_tag k n = take 16 (map2 (+) k (n @ replicate 20 0) @ replicate 16 0)"

definition toy_aead :: aead where
  "toy_aead = \<lparr>aead_encrypt = (\<lambda>k n p. Some (p @ toy_tag k n)),
     aead_decrypt = (\<lambda>k n c. if 16 \<le> length c \<and> drop (length c - 16) c = toy_tag k n
        then Some (take (length c - 16) c) else None)\<rparr>"

definition toy_base64 :: base64 where
  "toy_base64 = \<lparr>b64_encode = chars_of, b64_decode = (\<lambda>s. Some (bytes_of s))\<rparr>"

definition toy_rng :: rng where
  "toy_rng i n = Some (replicate n (of_nat i))"

lemma length_toy_tag [simp]: "length (toy_tag k n) = 16"
  by (simp add: toy_tag_def)

lemma toy_aead_lawful: "aead_lawful toy_aead"
  by (simp add: aead_lawful_def toy_aead_def)

lemma bytes_of_chars_of [simp]: "bytes_of (chars_of b) = b"
proof (induction b)
  case (Cons w b)
  have "unat w < 256" using unsigned_less [of w, where 'a = nat] by simp
  then have "(of_char (char_of (unat w) :: char) :: nat) = unat w" by simp
  then have "unat (of_char (char_of (unat w) :: char) :: byte) = unat w"
    by (simp only: unat_of_char)
  then have "(of_char (char_of (unat w) :: char) :: byte) = w"
    by (simp only: word_unat_eq_iff)
  with Cons show ?case by (simp add: bytes_of_def chars_of_def)
qed (simp add: bytes_of_def chars_of_def)

lemma toy_base64_lawful: "base64_lawful toy_base64"
  by (simp add: base64_lawful_def toy_base64_def)

lemma toy_rng_fills: "rng_fills toy_rng"
  by (simp add: rng_fills_def toy_rng_def)

end
