(* ===== verification/SecretsVault.thy ===== *)
theory SecretsVault
  imports Primitives
begin

text \<open>
  The crate \<^verbatim>\<open>core/crates/secrets-vault\<close>: key identifiers (\<^verbatim>\<open>key.rs\<close>), the sealed envelope's
  layout (\<^verbatim>\<open>envelope.rs\<close>) and the vault that seals and opens (\<^verbatim>\<open>vault.rs\<close>, \<^verbatim>\<open>error.rs\<close>).
  A slice outside its buffer is the panic \<open>None\<close>.  Clearing the key from memory has no
  counterpart here.
\<close>

subsection \<open>Keys\<close>

definition MASTER_KEY_LEN :: nat where "MASTER_KEY_LEN = 32"
definition KEY_ID_MAX_LEN :: nat where "KEY_ID_MAX_LEN = 255"

datatype master_key = MasterKey (master_bytes: bytes)

text \<open>\<open>hkdf salt ikm info\<close> is the crate's 32-byte expansion.\<close>
definition derive_from ::
  "(bytes option \<Rightarrow> bytes \<Rightarrow> bytes \<Rightarrow> bytes) \<Rightarrow> bytes \<Rightarrow> bytes option \<Rightarrow> bytes \<Rightarrow> master_key" where
  "derive_from hkdf ikm salt info = MasterKey (hkdf salt ikm info)"

definition derive_subkey ::
  "(bytes option \<Rightarrow> bytes \<Rightarrow> bytes \<Rightarrow> bytes) \<Rightarrow> master_key \<Rightarrow> bytes \<Rightarrow> master_key" where
  "derive_subkey hkdf k info = derive_from hkdf (master_bytes k) None info"

definition master_generate :: "rng \<Rightarrow> unit + master_key" where
  "master_generate rng = (case rng 0 MASTER_KEY_LEN of None \<Rightarrow> Inl () | Some b \<Rightarrow> Inr (MasterKey b))"

datatype key_id = KeyId (id_str: string)

datatype key_id_error = KeyIdEmpty | KeyIdTooLong nat | NonPrintableAscii

definition key_id_new :: "string \<Rightarrow> key_id_error + key_id" where
  "key_id_new s =
     (if s = [] then Inl KeyIdEmpty
      else if KEY_ID_MAX_LEN < length s then Inl (KeyIdTooLong (length s))
      else if \<not> list_all (\<lambda>b. 0x20 \<le> char_val b \<and> char_val b \<le> 0x7E) s then Inl NonPrintableAscii
      else Inr (KeyId s))"

subsection \<open>The envelope\<close>

definition VERSION_V1 :: byte where "VERSION_V1 = 1"
definition NONCE_LEN :: nat where "NONCE_LEN = 12"
definition TAG_LEN :: nat where "TAG_LEN = 16"
definition WRAPPED_DEK_LEN :: nat where "WRAPPED_DEK_LEN = 32 + TAG_LEN"
definition MIN_ENVELOPE_LEN :: nat where
  "MIN_ENVELOPE_LEN = 1 + 1 + 1 + NONCE_LEN + WRAPPED_DEK_LEN + NONCE_LEN + TAG_LEN"

lemmas lens = NONCE_LEN_def TAG_LEN_def WRAPPED_DEK_LEN_def MIN_ENVELOPE_LEN_def

record envelope_view =
  view_key_id :: bytes
  wrapped_dek_nonce :: bytes
  wrapped_dek :: bytes
  payload_nonce :: bytes
  payload_ciphertext :: bytes

datatype open_error =
    Truncated
  | UnsupportedVersion byte
  | InvalidKeyIdLength
  | KeyIdMismatch string string  \<comment> \<open>sealed with, expected\<close>
  | WrappedDekDecryptFailed
  | PayloadDecryptFailed

text \<open>
  The slices taken have the array's length, so \<open>try_into\<close> cannot fail where they succeed.
\<close>
definition parse :: "bytes \<Rightarrow> (open_error + envelope_view) option" where
  "parse buf =
     (if length buf < MIN_ENVELOPE_LEN then Some (Inl Truncated)
      else if buf ! 0 \<noteq> VERSION_V1 then Some (Inl (UnsupportedVersion (buf ! 0)))
      else
        let key_id_len = unat (buf ! 1) in
        if key_id_len = 0 then Some (Inl InvalidKeyIdLength)
        else
          let required = 2 + key_id_len + NONCE_LEN + WRAPPED_DEK_LEN + NONCE_LEN + TAG_LEN in
          if length buf < required then Some (Inl InvalidKeyIdLength)
          else
            let cursor = 2 in
            Option.bind (slice buf cursor (cursor + key_id_len)) (\<lambda>key_id.
            let cursor = cursor + key_id_len in
            Option.bind (slice buf cursor (cursor + NONCE_LEN)) (\<lambda>dek_nonce.
            let cursor = cursor + NONCE_LEN in
            Option.bind (slice buf cursor (cursor + WRAPPED_DEK_LEN)) (\<lambda>dek.
            let cursor = cursor + WRAPPED_DEK_LEN in
            Option.bind (slice buf cursor (cursor + NONCE_LEN)) (\<lambda>nonce.
            let cursor = cursor + NONCE_LEN in
            Option.bind (slice buf cursor (length buf)) (\<lambda>ct.
            Some (Inr \<lparr>view_key_id = key_id, wrapped_dek_nonce = dek_nonce, wrapped_dek = dek,
                       payload_nonce = nonce, payload_ciphertext = ct\<rparr>)))))))"

text \<open>\<open>u8::try_from(n).unwrap_or(u8::MAX)\<close>\<close>
definition u8_or_max :: "nat \<Rightarrow> byte" where
  "u8_or_max n = (if n \<le> 255 then of_nat n else 255)"

definition serialise :: "bytes \<Rightarrow> bytes \<Rightarrow> bytes \<Rightarrow> bytes \<Rightarrow> bytes \<Rightarrow> bytes" where
  "serialise key_id dek_nonce dek nonce ct =
     [VERSION_V1] @ [u8_or_max (length key_id)] @ key_id @ dek_nonce @ dek @ nonce @ ct"

definition peek_key_id :: "bytes \<Rightarrow> string option option" where
  "peek_key_id sealed =
     map_option (\<lambda>r. case r of
         Inl _ \<Rightarrow> None
       | Inr view \<Rightarrow> if utf8 (chars_of (view_key_id view)) then Some (chars_of (view_key_id view))
                     else None)
       (parse sealed)"

subsection \<open>The vault\<close>

record vault =
  master :: master_key
  vault_key_id :: key_id

datatype seal_error = EntropyFailure | EncryptFailed

definition vault_seal :: "aead \<Rightarrow> rng \<Rightarrow> vault \<Rightarrow> bytes \<Rightarrow> seal_error + bytes" where
  "vault_seal A rng v plaintext =
     bind_res (ok_or EntropyFailure (rng 0 32)) (\<lambda>dek.
     bind_res (ok_or EntropyFailure (rng 1 NONCE_LEN)) (\<lambda>dek_nonce.
     bind_res (ok_or EntropyFailure (rng 2 NONCE_LEN)) (\<lambda>nonce.
     bind_res (ok_or EncryptFailed (aead_encrypt A (master_bytes (master v)) dek_nonce dek)) (\<lambda>wrapped.
     bind_res (ok_or EncryptFailed (aead_encrypt A dek nonce plaintext)) (\<lambda>ct.
     Inr (serialise (bytes_of (id_str (vault_key_id v))) dek_nonce wrapped nonce ct))))))"

definition vault_open :: "aead \<Rightarrow> vault \<Rightarrow> bytes \<Rightarrow> (open_error + bytes) option" where
  "vault_open A v sealed =
     map_option (\<lambda>r. bind_res r (\<lambda>view.
       if view_key_id view \<noteq> bytes_of (id_str (vault_key_id v))
       then Inl (KeyIdMismatch (from_utf8_lossy (chars_of (view_key_id view)))
                  (id_str (vault_key_id v)))
       else
         bind_res (ok_or WrappedDekDecryptFailed
             (aead_decrypt A (master_bytes (master v)) (wrapped_dek_nonce view) (wrapped_dek view))) (\<lambda>dek.
         ok_or PayloadDecryptFailed
             (aead_decrypt A dek (payload_nonce view) (payload_ciphertext view)))))
       (parse sealed)"

definition seal_base64 :: "base64 \<Rightarrow> aead \<Rightarrow> rng \<Rightarrow> vault \<Rightarrow> bytes \<Rightarrow> seal_error + string" where
  "seal_base64 B A rng v plaintext =
     bind_res (vault_seal A rng v plaintext) (\<lambda>b. Inr (b64_encode B b))"

definition open_base64 :: "base64 \<Rightarrow> aead \<Rightarrow> vault \<Rightarrow> string \<Rightarrow> (open_error + bytes) option" where
  "open_base64 B A v sealed =
     (case b64_decode B sealed of None \<Rightarrow> Some (Inl Truncated) | Some b \<Rightarrow> vault_open A v b)"

subsection \<open>The envelope's layout\<close>

definition view_wf :: "envelope_view \<Rightarrow> bool" where
  "view_wf v \<longleftrightarrow> 1 \<le> length (view_key_id v) \<and> length (view_key_id v) \<le> 255
     \<and> length (wrapped_dek_nonce v) = 12 \<and> length (wrapped_dek v) = 48
     \<and> length (payload_nonce v) = 12 \<and> 16 \<le> length (payload_ciphertext v)"

definition serialise_view :: "envelope_view \<Rightarrow> bytes" where
  "serialise_view v = serialise (view_key_id v) (wrapped_dek_nonce v) (wrapped_dek v)
     (payload_nonce v) (payload_ciphertext v)"

text \<open>The fields of a buffer after its two leading bytes, for a key id of n bytes.\<close>
definition view_of :: "nat \<Rightarrow> bytes \<Rightarrow> envelope_view" where
  "view_of n r = \<lparr>view_key_id = take n r, wrapped_dek_nonce = take 12 (drop n r),
     wrapped_dek = take 48 (drop 12 (drop n r)), payload_nonce = take 12 (drop 48 (drop 12 (drop n r))),
     payload_ciphertext = drop 12 (drop 48 (drop 12 (drop n r)))\<rparr>"

lemma parse_cases:
  "parse buf =
    (if length buf < 91 then Some (Inl Truncated)
     else if buf ! 0 \<noteq> 1 then Some (Inl (UnsupportedVersion (buf ! 0)))
     else if unat (buf ! 1) = 0 \<or> length buf < 90 + unat (buf ! 1) then Some (Inl InvalidKeyIdLength)
     else Some (Inr (view_of (unat (buf ! 1)) (drop 2 buf))))"
  by (simp add: parse_def lens VERSION_V1_def Let_def slice_def view_of_def add.commute)

lemma view_of_wf:
  assumes "0 < n" and "n \<le> 255" and "88 + n \<le> length r"
  shows "view_wf (view_of n r)"
  using assms by (simp add: view_wf_def view_of_def)

lemma serialise_view_of:
  assumes "n \<le> 255" and "n \<le> length r"
  shows "serialise_view (view_of n r) = 1 # of_nat n # r"
  using assms
  by (simp add: serialise_view_def serialise_def view_of_def VERSION_V1_def u8_or_max_def min_def
      flip: drop_drop)

lemma view_of_serialise:
  assumes "view_wf v"
  shows "view_of (length (view_key_id v)) (drop 2 (serialise_view v)) = v"
  using assms by (simp add: view_of_def serialise_view_def serialise_def view_wf_def)

lemma serialise_view_header:
  assumes "view_wf v"
  shows "serialise_view v ! 0 = 1" and "unat (serialise_view v ! 1) = length (view_key_id v)"
    and "90 + length (view_key_id v) \<le> length (serialise_view v)"
  using assms
  by (simp_all add: serialise_view_def serialise_def VERSION_V1_def u8_or_max_def unat_of_nat view_wf_def)

lemma parse_serialise_view: "view_wf v \<Longrightarrow> parse (serialise_view v) = Some (Inr v)"
  using serialise_view_header [of v] view_of_serialise [of v]
  by (auto simp: parse_cases view_wf_def)

text \<open>Parsing an envelope never slices outside the buffer, and it is exactly the inverse of
  serialisation: a buffer parses to a view if and only if it is the serialisation of that view
  and the view has the documented field lengths (key id of 1 to 255 bytes, nonces of 12, a
  wrapped key of 48, a payload of at least 16).\<close>
theorem parse_inverts_serialise:
  "parse buf \<noteq> None
   \<and> (parse buf = Some (Inr v) \<longleftrightarrow> view_wf v \<and> buf = serialise_view v)"
proof (intro conjI iffI)
  show "parse buf \<noteq> None" by (simp add: parse_cases)
next
  assume p: "parse buf = Some (Inr v)"
  let ?n = "unat (buf ! 1)"
  from p have h: "91 \<le> length buf" "buf ! 0 = 1" "0 < ?n" "90 + ?n \<le> length buf"
    and v: "v = view_of ?n (drop 2 buf)"
    by (auto simp: parse_cases split: if_splits)
  have n: "?n \<le> 255" using unsigned_less [of "buf ! 1", where 'a = nat] by simp
  show "view_wf v" unfolding v by (rule view_of_wf) (use h n in auto)
  have "buf = buf ! 0 # buf ! 1 # drop 2 buf"
    using h(1) by (cases buf; cases "tl buf") auto
  then show "buf = serialise_view v"
    unfolding v using h n by (subst serialise_view_of) auto
next
  assume "view_wf v \<and> buf = serialise_view v"
  then show "parse buf = Some (Inr v)" using parse_serialise_view by blast
qed

lemma key_id_new_Inr:
  "key_id_new s = Inr k \<Longrightarrow> k = KeyId s \<and> 1 \<le> length s \<and> length s \<le> 255
     \<and> list_all (\<lambda>b. char_val b < 128) s"
  by (auto simp: key_id_new_def KEY_ID_MAX_LEN_def list_all_iff Suc_le_eq split: if_splits)

lemma parse_sealed:
  assumes "aead_lawful A" and "rng_fills rng" and "key_id_new s = Inr (vault_key_id v)"
    and "vault_seal A rng v plaintext = Inr sealed"
  obtains view dek where "parse sealed = Some (Inr view)" and "view_key_id view = bytes_of s"
    and "id_str (vault_key_id v) = s"
    and "aead_decrypt A (master_bytes (master v)) (wrapped_dek_nonce view) (wrapped_dek view) = Some dek"
    and "aead_decrypt A dek (payload_nonce view) (payload_ciphertext view) = Some plaintext"
proof -
  from assms(4) obtain dek n1 n2 w c where
    g: "rng 0 32 = Some dek" "rng 1 12 = Some n1" "rng 2 12 = Some n2"
    and e: "aead_encrypt A (master_bytes (master v)) n1 dek = Some w"
      "aead_encrypt A dek n2 plaintext = Some c"
    and s: "sealed = serialise (bytes_of (id_str (vault_key_id v))) n1 w n2 c"
    by (auto simp: vault_seal_def result_simps ok_or_def NONCE_LEN_def split: option.splits)
  note k = key_id_new_Inr [OF assms(3)]
  let ?view = "\<lparr>view_key_id = bytes_of s, wrapped_dek_nonce = n1, wrapped_dek = w,
    payload_nonce = n2, payload_ciphertext = c\<rparr>"
  have "view_wf ?view"
    using k g e assms(1,2)
    by (simp add: view_wf_def rng_fillsD aead_lawfulD(2))
  moreover have "sealed = serialise_view ?view"
    using s k by (simp add: serialise_view_def)
  ultimately have "parse sealed = Some (Inr ?view)"
    using parse_serialise_view by simp
  then show ?thesis
    using that [of ?view dek] k e assms(1) by (simp add: aead_lawfulD(1))
qed

subsection \<open>Sealing and opening\<close>

lemma ascii_utf8: "list_all (\<lambda>b. char_val b < 128) s \<Longrightarrow> utf8 s"
  using utf8_ascii_append [of s "[]"] by simp

lemma continuing_ascii [simp]: "char_val c < 128 \<Longrightarrow> continuing c (utf8_width c - 1) b s = 0"
  by simp

lemma lossy_ascii: "list_all (\<lambda>b. char_val b < 128) s \<Longrightarrow> from_utf8_lossy s = s"
  by (induction s) (simp_all add: Let_def)

lemma vault_open_sealed:
  assumes "aead_lawful A" and "rng_fills rng" and "key_id_new s = Inr (vault_key_id v)"
    and "vault_seal A rng v plaintext = Inr sealed"
  shows "vault_open A v sealed = Some (Inr plaintext)"
proof -
  obtain view dek where "parse sealed = Some (Inr view)" "view_key_id view = bytes_of s"
    "id_str (vault_key_id v) = s"
    "aead_decrypt A (master_bytes (master v)) (wrapped_dek_nonce view) (wrapped_dek view) = Some dek"
    "aead_decrypt A dek (payload_nonce view) (payload_ciphertext view) = Some plaintext"
    using parse_sealed [OF assms] by blast
  then show ?thesis by (simp add: vault_open_def)
qed

text \<open>C37. What a vault seals, any vault with the same key and key id opens to the same
  plaintext, in the raw and in the base64 form, and the key id can be peeked without a key.  A
  vault with another key id refuses it, naming both ids, before any decryption.\<close>
theorem open_inverts_seal:
  assumes "aead_lawful A" and "rng_fills rng" and "base64_lawful B"
    and "key_id_new s = Inr (vault_key_id v)" and "vault_seal A rng v plaintext = Inr sealed"
  shows "vault_open A v sealed = Some (Inr plaintext)
    \<and> (\<exists>t. seal_base64 B A rng v plaintext = Inr t \<and> open_base64 B A v t = Some (Inr plaintext))
    \<and> peek_key_id sealed = Some (Some s)
    \<and> (\<forall>w A'. vault_key_id w \<noteq> vault_key_id v
        \<longrightarrow> vault_open A' w sealed = Some (Inl (KeyIdMismatch s (id_str (vault_key_id w)))))"
proof -
  obtain view dek where p: "parse sealed = Some (Inr view)" and k: "view_key_id view = bytes_of s"
    and i: "id_str (vault_key_id v) = s"
    using parse_sealed [OF assms(1,2,4,5)] by blast
  have ascii: "list_all (\<lambda>b. char_val b < 128) s" using key_id_new_Inr [OF assms(4)] by simp
  have o: "vault_open A v sealed = Some (Inr plaintext)"
    by (rule vault_open_sealed [OF assms(1,2,4,5)])
  have "vault_open A' w sealed = Some (Inl (KeyIdMismatch s (id_str (vault_key_id w))))"
    if "vault_key_id w \<noteq> vault_key_id v" for w :: vault and A'
    using that i by (auto simp: vault_open_def p k lossy_ascii [OF ascii] key_id.expand)
  then show ?thesis
    using o assms(3,5) by (simp add: seal_base64_def open_base64_def peek_key_id_def p k ascii_utf8 [OF ascii])
qed

theorem open_inverts_seal_witness:
  "\<exists>sealed. vault_open toy_aead \<lparr>master = MasterKey (replicate 32 7), vault_key_id = KeyId ''k1''\<rparr> sealed
     = Some (Inr [1, 2, 3])"
proof -
  let ?v = "\<lparr>master = MasterKey (replicate 32 7), vault_key_id = KeyId ''k1''\<rparr>"
  have k: "key_id_new ''k1'' = Inr (vault_key_id ?v)"
    by (simp add: key_id_new_def KEY_ID_MAX_LEN_def char_val_def)
  obtain sealed where s: "vault_seal toy_aead toy_rng ?v [1, 2, 3] = Inr sealed"
    by (simp add: vault_seal_def toy_rng_def toy_aead_def)
  show ?thesis
    using open_inverts_seal [OF toy_aead_lawful toy_rng_fills toy_base64_lawful k s] by blast
qed



end
