(* ===== verification/CookieSession.thy ===== *)
theory CookieSession
  imports Primitives
begin

text \<open>
  The crate \<^verbatim>\<open>core/crates/cookie-session\<close>: signed and encrypted cookie values (\<^verbatim>\<open>signed.rs\<close>,
  \<^verbatim>\<open>encrypted.rs\<close>), CSRF tokens (\<^verbatim>\<open>csrf.rs\<close>), password hashing (\<^verbatim>\<open>password.rs\<close>), the secret
  key (\<^verbatim>\<open>key.rs\<close>) and constant-time equality (\<^verbatim>\<open>ct_eq.rs\<close>, whose result is plain equality).
\<close>

subsection \<open>Keys\<close>

definition KEY_LEN :: nat where "KEY_LEN = 32"

datatype secret_key = SecretKey (key_bytes: bytes)
datatype wrong_length = WrongLength nat

definition key_generate :: "rng \<Rightarrow> unit + secret_key" where
  "key_generate rng = (case rng 0 KEY_LEN of None \<Rightarrow> Inl () | Some b \<Rightarrow> Inr (SecretKey b))"

definition key_try_from :: "bytes \<Rightarrow> wrong_length + secret_key" where
  "key_try_from value =
     (if length value = KEY_LEN then Inr (SecretKey value) else Inl (WrongLength (length value)))"

definition constant_time_eq :: "bytes \<Rightarrow> bytes \<Rightarrow> bool" where
  "constant_time_eq a b = (if length a \<noteq> length b then False else list_all2 (=) a b)"

subsection \<open>Signed cookies\<close>

definition SIGNED_TAG_LEN :: nat where "SIGNED_TAG_LEN = 32"

datatype signed_cookie_error = SignedMalformedEncoding | BadSignature

definition signed_seal :: "base64 \<Rightarrow> (bytes \<Rightarrow> bytes \<Rightarrow> bytes) \<Rightarrow> secret_key \<Rightarrow> bytes \<Rightarrow> string" where
  "signed_seal B hmac key payload =
     (let tag = hmac (key_bytes key) payload in b64_encode B (payload @ tag))"

definition signed_open ::
  "base64 \<Rightarrow> (bytes \<Rightarrow> bytes \<Rightarrow> bytes) \<Rightarrow> secret_key \<Rightarrow> string \<Rightarrow> signed_cookie_error + bytes" where
  "signed_open B hmac key encoded =
     bind_res (ok_or SignedMalformedEncoding (b64_decode B encoded)) (\<lambda>raw.
       if length raw < SIGNED_TAG_LEN then Inl SignedMalformedEncoding
       else
         let split = length raw - SIGNED_TAG_LEN;
             payload = take split raw; tag = drop split raw;
             expected = hmac (key_bytes key) payload
         in if \<not> constant_time_eq expected tag then Inl BadSignature else Inr payload)"

subsection \<open>Encrypted cookies\<close>

definition COOKIE_NONCE_LEN :: nat where "COOKIE_NONCE_LEN = 12"
definition GCM_TAG_LEN :: nat where "GCM_TAG_LEN = 16"

datatype encrypted_cookie_error = EncryptedMalformedEncoding | Decrypt

definition encrypted_seal ::
  "base64 \<Rightarrow> aead \<Rightarrow> rng \<Rightarrow> secret_key \<Rightarrow> bytes \<Rightarrow> encrypted_cookie_error + string" where
  "encrypted_seal B A rng key payload =
     bind_res (ok_or Decrypt (rng 0 COOKIE_NONCE_LEN)) (\<lambda>nonce.
     bind_res (ok_or Decrypt (aead_encrypt A (key_bytes key) nonce payload)) (\<lambda>ciphertext.
     Inr (b64_encode B (nonce @ ciphertext))))"

definition encrypted_open ::
  "base64 \<Rightarrow> aead \<Rightarrow> secret_key \<Rightarrow> string \<Rightarrow> encrypted_cookie_error + bytes" where
  "encrypted_open B A key encoded =
     bind_res (ok_or EncryptedMalformedEncoding (b64_decode B encoded)) (\<lambda>raw.
       if length raw < COOKIE_NONCE_LEN + GCM_TAG_LEN then Inl EncryptedMalformedEncoding
       else ok_or Decrypt
         (aead_decrypt A (key_bytes key) (take COOKIE_NONCE_LEN raw) (drop COOKIE_NONCE_LEN raw)))"

subsection \<open>CSRF tokens\<close>

definition TOKEN_LEN :: nat where "TOKEN_LEN = 32"

datatype csrf_token = CsrfToken (token_bytes: bytes)
datatype csrf_error = CsrfMalformedEncoding | CsrfEntropyFailure

definition csrf_generate :: "rng \<Rightarrow> csrf_error + csrf_token" where
  "csrf_generate rng = bind_res (ok_or CsrfEntropyFailure (rng 0 TOKEN_LEN)) (\<lambda>b. Inr (CsrfToken b))"

definition csrf_encode :: "base64 \<Rightarrow> csrf_token \<Rightarrow> string" where
  "csrf_encode B t = b64_encode B (token_bytes t)"

definition csrf_parse :: "base64 \<Rightarrow> string \<Rightarrow> csrf_error + csrf_token" where
  "csrf_parse B encoded =
     bind_res (ok_or CsrfMalformedEncoding (b64_decode B encoded)) (\<lambda>raw.
       if length raw \<noteq> TOKEN_LEN then Inl CsrfMalformedEncoding else Inr (CsrfToken raw))"

definition csrf_ct_eq :: "csrf_token \<Rightarrow> csrf_token \<Rightarrow> bool" where
  "csrf_ct_eq a b = list_all2 (=) (token_bytes a) (token_bytes b)"

subsection \<open>Passwords\<close>

definition MAX_PASSWORD_BYTES :: nat where "MAX_PASSWORD_BYTES = 72"
definition COST_DEFAULT :: nat where "COST_DEFAULT = 12"
definition COST_MIN :: nat where "COST_MIN = 4"
definition COST_MAX :: nat where "COST_MAX = 31"

datatype password_error = TooLong | InvalidCost | MalformedHash | PasswordEntropyFailure

text \<open>The errors of the bcrypt crate the code tells apart.\<close>
datatype bcrypt_error = Rand | CostNotAllowed | OtherBcrypt

record bcrypt =
  bcrypt_hash :: "string \<Rightarrow> nat \<Rightarrow> bcrypt_error + string"
  bcrypt_verify :: "string \<Rightarrow> string \<Rightarrow> bcrypt_error + bool"

definition hash_with_cost :: "bcrypt \<Rightarrow> string \<Rightarrow> nat \<Rightarrow> password_error + string" where
  "hash_with_cost C password cost =
     (if MAX_PASSWORD_BYTES < length password then Inl TooLong
      else if \<not> (COST_MIN \<le> cost \<and> cost \<le> COST_MAX) then Inl InvalidCost
      else case bcrypt_hash C password cost of
             Inr s \<Rightarrow> Inr s
           | Inl Rand \<Rightarrow> Inl PasswordEntropyFailure
           | Inl CostNotAllowed \<Rightarrow> Inl InvalidCost
           | Inl OtherBcrypt \<Rightarrow> Inl MalformedHash)"

definition password_hash :: "bcrypt \<Rightarrow> string \<Rightarrow> password_error + string" where
  "password_hash C password = hash_with_cost C password COST_DEFAULT"

definition password_verify :: "bcrypt \<Rightarrow> string \<Rightarrow> string \<Rightarrow> password_error + bool" where
  "password_verify C password stored_hash =
     (if MAX_PASSWORD_BYTES < length password then Inl TooLong
      else case bcrypt_verify C password stored_hash of
             Inr b \<Rightarrow> Inr b
           | Inl Rand \<Rightarrow> Inl PasswordEntropyFailure
           | Inl _ \<Rightarrow> Inl MalformedHash)"

subsection \<open>What the primitives promise\<close>

lemma constant_time_eq_iff [simp]: "constant_time_eq a b \<longleftrightarrow> a = b"
  by (auto simp: constant_time_eq_def list.rel_eq)

text \<open>A signed cookie opens exactly when it is authentic: the value decodes to a payload
  followed by that payload's own HMAC tag, and then the payload is what comes back.  In
  particular opening inverts sealing, and a tag that is not the payload's is refused as a bad
  signature.\<close>
theorem signed_open_authentic:
  assumes "\<forall>k m. length (hmac k m) = 32"
  shows "signed_open B hmac key s = Inr p \<longleftrightarrow> b64_decode B s = Some (p @ hmac (key_bytes key) p)"
    (is "?open \<longleftrightarrow> ?auth")
proof
  assume ?open
  then obtain raw where raw: "b64_decode B s = Some raw" "32 \<le> length raw"
    and p: "p = take (length raw - 32) raw" "hmac (key_bytes key) p = drop (length raw - 32) raw"
    by (auto simp: signed_open_def result_simps ok_or_def Let_def SIGNED_TAG_LEN_def
        split: option.splits if_splits)
  then have "raw = p @ hmac (key_bytes key) p" by (metis append_take_drop_id)
  with raw(1) show ?auth by simp
next
  assume ?auth
  then show ?open
    using assms by (simp add: signed_open_def SIGNED_TAG_LEN_def)
qed

theorem signed_open_authentic_witness:
  "signed_open toy_base64 (\<lambda>k m. take 32 (m @ replicate 32 0)) (SecretKey (replicate 32 9))
     (signed_seal toy_base64 (\<lambda>k m. take 32 (m @ replicate 32 0)) (SecretKey (replicate 32 9)) [5])
   = Inr [5]"
proof -
  let ?h = "\<lambda>(k :: bytes) m. take 32 (m @ replicate 32 (0 :: byte))"
  have "\<forall>k m. length (?h k m) = 32" by (simp add: min_def)
  from signed_open_authentic [OF this, of toy_base64 "SecretKey (replicate 32 9)"
      "signed_seal toy_base64 ?h (SecretKey (replicate 32 9)) [5]" "[5]"]
  show ?thesis
    by (simp add: signed_seal_def Let_def base64_lawfulD [OF toy_base64_lawful])
qed

text \<open>An encrypted cookie opens to the payload that was sealed; a value too short to hold a
  nonce and a tag is refused as malformed, whatever the key; a failing random source is
  reported by sealing and no value is produced.  A CSRF token parses back from its encoding,
  and only 32 bytes are accepted as one.\<close>
theorem cookie_round_trips:
  assumes "base64_lawful B" and "aead_lawful A" and "rng_fills rng"
  shows "(\<forall>s. encrypted_seal B A rng key payload = Inr s \<longrightarrow> encrypted_open B A key s = Inr payload)
    \<and> (\<forall>s raw. b64_decode B s = Some raw \<and> length raw < 28
        \<longrightarrow> encrypted_open B A key s = Inl EncryptedMalformedEncoding)
    \<and> (rng 0 12 = None \<longrightarrow> encrypted_seal B A rng key payload = Inl Decrypt)
    \<and> (\<forall>t. csrf_generate rng = Inr t \<longrightarrow> csrf_parse B (csrf_encode B t) = Inr t)
    \<and> (\<forall>s t. csrf_parse B s = Inr t \<longrightarrow> length (token_bytes t) = 32)"
proof (intro conjI allI impI)
  fix s
  assume "encrypted_seal B A rng key payload = Inr s"
  then obtain n c where n: "rng 0 12 = Some n"
    and c: "aead_encrypt A (key_bytes key) n payload = Some c"
    and s: "s = b64_encode B (n @ c)"
    by (auto simp: encrypted_seal_def result_simps ok_or_def COOKIE_NONCE_LEN_def split: option.splits)
  then show "encrypted_open B A key s = Inr payload"
    using assms rng_fillsD [OF assms(3) n] aead_lawfulD [OF assms(2) c]
    by (simp add: encrypted_open_def COOKIE_NONCE_LEN_def GCM_TAG_LEN_def)
next
  fix s raw
  assume "b64_decode B s = Some raw \<and> length raw < 28"
  then show "encrypted_open B A key s = Inl EncryptedMalformedEncoding"
    by (simp add: encrypted_open_def COOKIE_NONCE_LEN_def GCM_TAG_LEN_def)
next
  assume "rng 0 12 = None"
  then show "encrypted_seal B A rng key payload = Inl Decrypt"
    by (simp add: encrypted_seal_def COOKIE_NONCE_LEN_def)
next
  fix t
  assume "csrf_generate rng = Inr t"
  then show "csrf_parse B (csrf_encode B t) = Inr t"
    using assms by (auto simp: csrf_generate_def csrf_parse_def csrf_encode_def TOKEN_LEN_def
        result_simps ok_or_def dest: rng_fillsD split: option.splits)
next
  fix s t
  assume "csrf_parse B s = Inr t"
  then show "length (token_bytes t) = 32"
    by (auto simp: csrf_parse_def TOKEN_LEN_def result_simps split: if_splits)
qed

theorem cookie_round_trips_witness:
  "csrf_parse toy_base64 (csrf_encode toy_base64 (CsrfToken (replicate 32 0)))
     = Inr (CsrfToken (replicate 32 0))"
proof -
  have "csrf_generate toy_rng = Inr (CsrfToken (replicate 32 0))"
    by (simp add: csrf_generate_def toy_rng_def TOKEN_LEN_def)
  with cookie_round_trips [OF toy_base64_lawful toy_aead_lawful toy_rng_fills]
  show ?thesis by blast
qed

text \<open>A password is never truncated: one longer than bcrypt's 72 bytes is refused by hashing
  and by verification before bcrypt is consulted, at every cost, so two long passwords with a
  common prefix are never confused; a hash is produced only at a cost between 4 and 31, and it
  then verifies against its own password.\<close>
theorem password_not_truncated:
  assumes "\<forall>p c h. bcrypt_hash C p c = Inr h \<longrightarrow> bcrypt_verify C p h = Inr True"
  shows "(72 < length p \<longrightarrow> hash_with_cost C' p cost = Inl TooLong
            \<and> password_hash C' p = Inl TooLong \<and> password_verify C' p h = Inl TooLong)
    \<and> (hash_with_cost C p cost = Inr h \<longrightarrow>
         length p \<le> 72 \<and> 4 \<le> cost \<and> cost \<le> 31 \<and> password_verify C p h = Inr True)"
  using assms
  by (auto simp: hash_with_cost_def password_hash_def password_verify_def MAX_PASSWORD_BYTES_def
      COST_MIN_def COST_MAX_def split: if_splits sum.splits bcrypt_error.splits)

theorem password_not_truncated_witness:
  "password_verify \<lparr>bcrypt_hash = (\<lambda>p c. Inr p), bcrypt_verify = (\<lambda>p h. Inr (p = h))\<rparr> ''pw'' ''pw''
     = Inr True"
proof -
  let ?C = "\<lparr>bcrypt_hash = (\<lambda>p c. Inr p), bcrypt_verify = (\<lambda>p h. Inr (p = h))\<rparr>"
  have law: "\<forall>p c h. bcrypt_hash ?C p c = Inr h \<longrightarrow> bcrypt_verify ?C p h = Inr True" by simp
  have "hash_with_cost ?C ''pw'' 12 = Inr ''pw''"
    by (simp add: hash_with_cost_def MAX_PASSWORD_BYTES_def COST_MIN_def COST_MAX_def)
  with password_not_truncated [OF law, of "''pw''" ?C 12 "''pw''"] show ?thesis by blast
qed

end
