(* ===== verification/EventRing.thy ===== *)
theory EventRing
  imports Prelude "HOL-Library.Multiset"
begin

text \<open>
  The crate \<^verbatim>\<open>core/crates/event-ringbuffer\<close> (\<^verbatim>\<open>ring.rs\<close>, \<^verbatim>\<open>error.rs\<close>): a bounded queue that
  evicts its oldest item when full, with a count of the items lost.  The lock-free queue is
  \<open>crossbeam_queue::ArrayQueue\<close>, a parameter: each of its operations is one atomic step, and
  \<open>queue_lawful\<close> states that it is a bounded first-in first-out queue.  \<open>push\<close> makes up to
  three queue operations and one counter update; threads interleave between them.
\<close>

subsection \<open>The queue the ring uses\<close>

record ('q, 'a) queue_ops =
  q_new :: "nat \<Rightarrow> 'q"
  q_push :: "'q \<Rightarrow> 'a \<Rightarrow> 'q option"            \<comment> \<open>\<open>None\<close>: full, the item comes back\<close>
  q_pop :: "'q \<Rightarrow> ('a \<times> 'q) option"
  q_len :: "'q \<Rightarrow> nat"
  q_capacity :: "'q \<Rightarrow> nat"

definition queue_lawful :: "('q, 'a) queue_ops \<Rightarrow> ('q \<Rightarrow> 'a list) \<Rightarrow> bool" where
  "queue_lawful Q items \<longleftrightarrow>
     (\<forall>c. items (q_new Q c) = [] \<and> q_capacity Q (q_new Q c) = c)
   \<and> (\<forall>q x. q_push Q q x = None \<longleftrightarrow> q_capacity Q q \<le> length (items q))
   \<and> (\<forall>q x q'. q_push Q q x = Some q' \<longrightarrow>
        items q' = items q @ [x] \<and> q_capacity Q q' = q_capacity Q q)
   \<and> (\<forall>q. q_pop Q q = None \<longleftrightarrow> items q = [])
   \<and> (\<forall>q x q'. q_pop Q q = Some (x, q') \<longrightarrow>
        items q = x # items q' \<and> q_capacity Q q' = q_capacity Q q)
   \<and> (\<forall>q. q_len Q q = length (items q))"

subsection \<open>The ring\<close>

definition MIN_CAPACITY :: nat where "MIN_CAPACITY = 1"

datatype capacity_error = Zero

datatype push_outcome = Inserted | InsertedAfterEviction | Dropped

record 'q ring =
  queue :: 'q
  dropped :: "64 word"

definition with_capacity :: "('q, 'a) queue_ops \<Rightarrow> nat \<Rightarrow> capacity_error + 'q ring" where
  "with_capacity Q capacity =
     (if capacity < MIN_CAPACITY then Inl Zero
      else Inr \<lparr>queue = q_new Q capacity, dropped = 0\<rparr>)"

text \<open>The three queue operations of \<open>push\<close> and its counter update, each atomic.\<close>
definition try_push :: "('q, 'a) queue_ops \<Rightarrow> 'q ring \<Rightarrow> 'a \<Rightarrow> bool \<times> 'q ring" where
  "try_push Q r x =
     (case q_push Q (queue r) x of
        None \<Rightarrow> (False, r)
      | Some q \<Rightarrow> (True, r\<lparr>queue := q\<rparr>))"

definition ring_pop :: "('q, 'a) queue_ops \<Rightarrow> 'q ring \<Rightarrow> 'a option \<times> 'q ring" where
  "ring_pop Q r =
     (case q_pop Q (queue r) of
        None \<Rightarrow> (None, r)
      | Some (x, q) \<Rightarrow> (Some x, r\<lparr>queue := q\<rparr>))"

fun outcome_of :: "bool \<Rightarrow> bool \<Rightarrow> push_outcome \<times> nat" where
  "outcome_of True True = (InsertedAfterEviction, 1)"
| "outcome_of True False = (Dropped, 2)"
| "outcome_of False True = (Inserted, 0)"
| "outcome_of False False = (Dropped, 1)"

definition count_lost :: "'q ring \<Rightarrow> nat \<Rightarrow> 'q ring" where
  "count_lost r lost = (if 0 < lost then r\<lparr>dropped := dropped r + of_nat lost\<rparr> else r)"

text \<open>\<open>push\<close> when no other thread runs in between.\<close>
definition ring_push :: "('q, 'a) queue_ops \<Rightarrow> 'q ring \<Rightarrow> 'a \<Rightarrow> push_outcome \<times> 'q ring" where
  "ring_push Q r item =
     (case try_push Q r item of
        (True, r) \<Rightarrow> (Inserted, r)
      | (False, r) \<Rightarrow>
          let (evicted, r) = ring_pop Q r;
              (pushed, r) = try_push Q r item;
              (outcome, lost) = outcome_of (evicted \<noteq> None) pushed
          in (outcome, count_lost r lost))"

definition ring_len :: "('q, 'a) queue_ops \<Rightarrow> 'q ring \<Rightarrow> nat" where
  "ring_len Q r = q_len Q (queue r)"

definition ring_is_full :: "('q, 'a) queue_ops \<Rightarrow> 'q ring \<Rightarrow> bool" where
  "ring_is_full Q r \<longleftrightarrow> q_len Q (queue r) = q_capacity Q (queue r)"

subsection \<open>Interleaved producers and consumers\<close>

text \<open>Where a producer stands inside \<open>push\<close>.\<close>
datatype 'a pc =
    Idle
  | Bounced 'a              \<comment> \<open>the first push found the queue full\<close>
  | Probed bool 'a          \<comment> \<open>the eviction was tried; did it evict?\<close>
  | Counting push_outcome nat  \<comment> \<open>the retry was made; this many items are to be counted\<close>

record ('q, 'a) world =
  ring :: "'q ring"
  producers :: "'a pc list"
  submitted :: nat          \<comment> \<open>calls of \<open>push\<close> so far\<close>
  consumed :: nat           \<comment> \<open>items handed to consumers so far\<close>

inductive ring_step :: "('q, 'a) queue_ops \<Rightarrow> ('q, 'a) world \<Rightarrow> ('q, 'a) world \<Rightarrow> bool"
  for Q :: "('q, 'a) queue_ops" where
  push_first: "i < length (producers w) \<Longrightarrow> producers w ! i = Idle \<Longrightarrow>
     try_push Q (ring w) x = (ok, r) \<Longrightarrow>
     ring_step Q w (w\<lparr>ring := r, submitted := Suc (submitted w),
       producers := (producers w)[i := (if ok then Idle else Bounced x)]\<rparr>)"
| push_evict: "i < length (producers w) \<Longrightarrow> producers w ! i = Bounced x \<Longrightarrow>
     ring_pop Q (ring w) = (evicted, r) \<Longrightarrow>
     ring_step Q w (w\<lparr>ring := r, producers := (producers w)[i := Probed (evicted \<noteq> None) x]\<rparr>)"
| push_retry: "i < length (producers w) \<Longrightarrow> producers w ! i = Probed evicted x \<Longrightarrow>
     try_push Q (ring w) x = (pushed, r) \<Longrightarrow> outcome_of evicted pushed = (outcome, lost) \<Longrightarrow>
     ring_step Q w (w\<lparr>ring := r, producers := (producers w)[i := Counting outcome lost]\<rparr>)"
| push_count: "i < length (producers w) \<Longrightarrow> producers w ! i = Counting outcome lost \<Longrightarrow>
     ring_step Q w (w\<lparr>ring := count_lost (ring w) lost, producers := (producers w)[i := Idle]\<rparr>)"
| consume: "ring_pop Q (ring w) = (Some x, r) \<Longrightarrow>
     ring_step Q w (w\<lparr>ring := r, consumed := Suc (consumed w)\<rparr>)"
| consume_empty: "ring_pop Q (ring w) = (None, r) \<Longrightarrow> ring_step Q w (w\<lparr>ring := r\<rparr>)"

text \<open>The world just after construction, with n producers.\<close>
definition initial :: "'q ring \<Rightarrow> nat \<Rightarrow> ('q, 'a) world" where
  "initial r n = \<lparr>ring = r, producers = replicate n Idle, submitted = 0, consumed = 0\<rparr>"

definition reachable :: "('q, 'a) queue_ops \<Rightarrow> ('q, 'a) world \<Rightarrow> ('q, 'a) world \<Rightarrow> bool" where
  "reachable Q w w' \<longleftrightarrow> (ring_step Q)\<^sup>*\<^sup>* w w'"

text \<open>A queue as a list with its capacity, for the witnesses.\<close>
definition list_queue :: "(nat \<times> 'a list, 'a) queue_ops" where
  "list_queue = \<lparr>q_new = (\<lambda>c. (c, [])),
     q_push = (\<lambda>(c, xs) x. if c \<le> length xs then None else Some (c, xs @ [x])),
     q_pop = (\<lambda>(c, xs). case xs of [] \<Rightarrow> None | x # xs \<Rightarrow> Some (x, c, xs)),
     q_len = (\<lambda>(c, xs). length xs), q_capacity = fst\<rparr>"

lemma list_queue_lawful: "queue_lawful list_queue snd"
  by (auto simp: queue_lawful_def list_queue_def split: list.splits if_splits)

subsection \<open>One producer: the ring drops the oldest\<close>

lemma queue_lawfulD:
  assumes "queue_lawful Q items"
  shows "items (q_new Q c) = []" and "q_capacity Q (q_new Q c) = c"
    and "q_push Q q x = None \<longleftrightarrow> q_capacity Q q \<le> length (items q)"
    and "q_push Q q x = Some q' \<Longrightarrow> items q' = items q @ [x] \<and> q_capacity Q q' = q_capacity Q q"
    and "q_pop Q q = None \<longleftrightarrow> items q = []"
    and "q_pop Q q = Some (x, q') \<Longrightarrow> items q = x # items q' \<and> q_capacity Q q' = q_capacity Q q"
    and "q_len Q q = length (items q)"
  using assms unfolding queue_lawful_def by blast+

lemma try_pushD:
  assumes "queue_lawful Q items" and "try_push Q r x = (ok, r')"
  shows "ok \<longleftrightarrow> length (items (queue r)) < q_capacity Q (queue r)"
    and "items (queue r') = items (queue r) @ (if ok then [x] else [])"
    and "q_capacity Q (queue r') = q_capacity Q (queue r)" and "dropped r' = dropped r"
  using assms(2) queue_lawfulD(3,4) [OF assms(1), of "queue r" x]
  by (auto simp: try_push_def not_le split: option.splits)

lemma ring_popD:
  assumes "queue_lawful Q items" and "ring_pop Q r = (e, r')"
  shows "items (queue r) = (case e of None \<Rightarrow> [] | Some x \<Rightarrow> x # items (queue r'))"
    and "e = None \<Longrightarrow> r' = r"
    and "q_capacity Q (queue r') = q_capacity Q (queue r)" and "dropped r' = dropped r"
  using assms(2) queue_lawfulD(5,6) [OF assms(1)]
  by (auto simp: ring_pop_def split: option.splits)

text \<open>Without contention, pushing onto a ring of capacity n keeps the newest n items in
  order: an item goes to the back, a full ring loses exactly its oldest item and counts it, and
  the new item is never the one dropped.\<close>
theorem push_drops_oldest:
  assumes "queue_lawful Q items" and "0 < q_capacity Q (queue r)"
    and "length (items (queue r)) \<le> q_capacity Q (queue r)" and "ring_push Q r x = (outcome, r')"
  shows "(if length (items (queue r)) < q_capacity Q (queue r)
          then outcome = Inserted \<and> items (queue r') = items (queue r) @ [x] \<and> dropped r' = dropped r
          else outcome = InsertedAfterEviction \<and> items (queue r') = tl (items (queue r)) @ [x]
            \<and> dropped r' = dropped r + 1)
    \<and> q_capacity Q (queue r') = q_capacity Q (queue r)"
proof -
  obtain ok r1 where p1: "try_push Q r x = (ok, r1)" by fastforce
  obtain e r2 where p2: "ring_pop Q r1 = (e, r2)" by fastforce
  obtain ok2 r3 where p3: "try_push Q r2 x = (ok2, r3)" by fastforce
  note d1 = try_pushD [OF assms(1) p1] and d2 = ring_popD [OF assms(1) p2]
    and d3 = try_pushD [OF assms(1) p3]
  show ?thesis
  proof (cases ok)
    case True
    with assms(4) p1 d1 show ?thesis by (auto simp: ring_push_def)
  next
    case False
    then obtain y where e: "e = Some y"
      using d1 d2(1) assms(2) by (cases e) auto
    then have len: "items (queue r) = y # items (queue r2)" using d1 d2(1) False by simp
    then have ok2 using d1 d2 d3(1) False assms(3) by simp
    then show ?thesis
      using assms(4) p1 p2 p3 d1 d2 d3 False e len
      by (auto simp: ring_push_def count_lost_def)
  qed
qed

theorem push_drops_oldest_witness:
  "\<exists>outcome r'. ring_push list_queue \<lparr>queue = (2, [1, 2 :: nat]), dropped = 0\<rparr> 3 = (outcome, r')
     \<and> snd (queue r') = [2, 3] \<and> dropped r' = 1"
proof -
  let ?r = "\<lparr>queue = (2 :: nat, [1, 2 :: nat]), dropped = 0\<rparr>"
  obtain outcome r' where p: "ring_push list_queue ?r 3 = (outcome, r')" by fastforce
  from push_drops_oldest [OF list_queue_lawful _ _ p] show ?thesis
    unfolding p by (auto simp: list_queue_def)
qed

subsection \<open>Many threads: nothing is lost without being counted\<close>

text \<open>Items a producer holds that are in no queue and not yet counted.\<close>
fun in_flight :: "'a pc \<Rightarrow> nat" where
  "in_flight Idle = 0"
| "in_flight (Bounced x) = 1"
| "in_flight (Probed evicted x) = (if evicted then 2 else 1)"
| "in_flight (Counting outcome lost) = lost"

definition held :: "('q, 'a) world \<Rightarrow> nat" where
  "held w = sum_list (map in_flight (producers w))"

definition balanced :: "('q \<Rightarrow> 'a list) \<Rightarrow> ('q, 'a) world \<Rightarrow> bool" where
  "balanced items w \<longleftrightarrow>
     (of_nat (submitted w) :: 64 word) =
       of_nat (length (items (queue (ring w))) + consumed w + held w) + dropped (ring w)"

lemma held_update:
  assumes "i < length ps"
  shows "sum_list (map in_flight (ps[i := p])) + in_flight (ps ! i) = sum_list (map in_flight ps) + in_flight p"
  using assms
proof (induction ps arbitrary: i)
  case (Cons q ps)
  then show ?case by (cases i) auto
qed simp

lemma outcome_of_lost:
  "outcome_of e p = (oc, lost) \<Longrightarrow> lost + (if p then 1 else 0) = (if e then 2 else 1)"
  by (cases e; cases p) auto

text \<open>A step that moves items between queue, producers, consumers and counter.\<close>
lemma balanced_move:
  assumes "balanced items w"
    and "submitted w' + (length (items (queue (ring w))) + consumed w + held w)
       = submitted w + (length (items (queue (ring w'))) + consumed w' + held w' + n)"
    and "dropped (ring w') = dropped (ring w) + of_nat n"
  shows "balanced items w'"
proof -
  have "(of_nat (submitted w' + (length (items (queue (ring w))) + consumed w + held w)) :: 64 word)
      = of_nat (submitted w + (length (items (queue (ring w'))) + consumed w' + held w' + n))"
    using assms(2) by (rule arg_cong)
  then show ?thesis
    using assms(1,3) unfolding balanced_def by (simp add: algebra_simps)
qed

lemma ring_step_balanced:
  assumes "queue_lawful Q items" and "ring_step Q w w'" and "balanced items w"
  shows "balanced items w'"
  using assms(2,3)
proof (induction rule: ring_step.induct)
  case (push_first i w x ok r)
  note d = try_pushD [OF assms(1) push_first(3)] and h = held_update [OF push_first(1)]
  show ?case
    by (rule balanced_move [OF push_first.prems, of _ 0])
      (use d h [of Idle] h [of "Bounced x"] push_first in \<open>auto simp: held_def\<close>)
next
  case (push_evict i w x e r)
  note d = ring_popD [OF assms(1) push_evict(3)]
    and h = held_update [OF push_evict(1), of "Probed (e \<noteq> None) x"]
  show ?case
    by (rule balanced_move [OF push_evict.prems, of _ 0])
      (use d h push_evict in \<open>auto simp: held_def split: option.splits if_splits\<close>)
next
  case (push_retry i w e x p r oc lost)
  note d = try_pushD [OF assms(1) push_retry(3)]
    and h = held_update [OF push_retry(1), of "Counting oc lost"]
  show ?case
    by (rule balanced_move [OF push_retry.prems, of _ 0])
      (use d h push_retry outcome_of_lost [OF push_retry(4)] in \<open>auto simp: held_def split: if_splits\<close>)
next
  case (push_count i w oc lost)
  note h = held_update [OF push_count(1), of Idle]
  show ?case
    by (rule balanced_move [OF push_count.prems, of _ lost])
      (use h push_count in \<open>auto simp: held_def count_lost_def\<close>)
next
  case (consume w x r)
  note d = ring_popD [OF assms(1) consume(1)]
  show ?case
    by (rule balanced_move [OF consume.prems, of _ 0]) (use d in \<open>auto simp: held_def\<close>)
next
  case (consume_empty w r)
  note d = ring_popD [OF assms(1) consume_empty(1)]
  show ?case
    by (rule balanced_move [OF consume_empty.prems, of _ 0]) (use d in \<open>auto simp: held_def\<close>)
qed

text \<open>The queue never outgrows the capacity it was built with.\<close>
lemma ring_step_capacity:
  assumes "queue_lawful Q items" and "ring_step Q w w'"
    and "length (items (queue (ring w))) \<le> c \<and> q_capacity Q (queue (ring w)) = c"
  shows "length (items (queue (ring w'))) \<le> c \<and> q_capacity Q (queue (ring w')) = c"
  using assms(2,3)
proof (induction rule: ring_step.induct)
  case (push_first i w x ok r)
  with try_pushD [OF assms(1) push_first(3)] show ?case by auto
next
  case (push_evict i w x e r)
  with ring_popD [OF assms(1) push_evict(3)] show ?case by (auto split: option.splits)
next
  case (push_retry i w e x p r oc lost)
  with try_pushD [OF assms(1) push_retry(3)] show ?case by auto
next
  case (push_count i w oc lost)
  then show ?case by (simp add: count_lost_def)
next
  case (consume w x r)
  with ring_popD [OF assms(1) consume(1)] show ?case by auto
next
  case (consume_empty w r)
  with ring_popD [OF assms(1) consume_empty(1)] show ?case by auto
qed

lemma reachable_keeps:
  assumes "queue_lawful Q items" and "reachable Q w w'"
    and "balanced items w \<and> length (items (queue (ring w))) \<le> c \<and> q_capacity Q (queue (ring w)) = c"
  shows "balanced items w' \<and> length (items (queue (ring w'))) \<le> c
    \<and> q_capacity Q (queue (ring w')) = c"
  using assms(2) unfolding reachable_def
proof (induction rule: rtranclp_induct)
  case base
  show ?case by (rule assms(3))
next
  case (step y z)
  then show ?case
    using ring_step_balanced [OF assms(1) step(2)] ring_step_capacity [OF assms(1) step(2)] by blast
qed

text \<open>Under every interleaving of any number of producers and consumers, no item disappears
  uncounted: whenever no push is in progress, the items submitted are those still queued, those
  consumed and those in the drop counter (which wraps at 64 bits), and the queue never holds
  more than the capacity asked for.\<close>
theorem drop_count_exact:
  assumes law: "queue_lawful Q items" and new: "with_capacity Q c = Inr r"
    and reach: "reachable Q (initial r n) w" and quiet: "\<forall>p \<in> set (producers w). p = Idle"
  shows "(of_nat (submitted w) :: 64 word)
      = of_nat (length (items (queue (ring w))) + consumed w) + dropped (ring w)
    \<and> length (items (queue (ring w))) \<le> c"
proof -
  have "balanced items (initial r n)"
    and "length (items (queue (ring (initial r n)))) \<le> c \<and> q_capacity Q (queue (ring (initial r n))) = c"
    using new queue_lawfulD(1,2) [OF law]
    by (auto simp: with_capacity_def balanced_def initial_def held_def sum_list_replicate
        split: if_splits)
  then have "balanced items (initial r n) \<and> length (items (queue (ring (initial r n)))) \<le> c
      \<and> q_capacity Q (queue (ring (initial r n))) = c" by blast
  from reachable_keeps [OF law reach this] have "balanced items w"
    and "length (items (queue (ring w))) \<le> c" by simp_all
  moreover have "held w = 0"
    using quiet by (auto simp: held_def sum_list_eq_0_iff)
  ultimately show ?thesis by (simp add: balanced_def)
qed

theorem drop_count_exact_witness:
  "\<exists>w. reachable list_queue (initial \<lparr>queue = (1, [] :: nat list), dropped = 0\<rparr> 1) w \<and> submitted w = 1
     \<and> length (snd (queue (ring w))) \<le> 1"
proof -
  let ?r = "\<lparr>queue = (1 :: nat, [] :: nat list), dropped = 0\<rparr>"
  have new: "with_capacity list_queue 1 = Inr ?r"
    by (simp add: with_capacity_def MIN_CAPACITY_def list_queue_def)
  have p: "try_push list_queue ?r 7 = (True, ?r\<lparr>queue := (1, [7])\<rparr>)"
    by (simp add: try_push_def list_queue_def)
  let ?w = "\<lparr>ring = ?r\<lparr>queue := (1, [7])\<rparr>, producers = [Idle], submitted = 1, consumed = 0\<rparr>"
  have "ring_step list_queue (initial ?r 1) ?w"
    using ring_step.push_first [of 0 "initial ?r 1" list_queue 7 True] p by (simp add: initial_def)
  then have "reachable list_queue (initial ?r 1) ?w" by (simp add: reachable_def)
  moreover from drop_count_exact [OF list_queue_lawful new this]
  have "length (snd (queue (ring ?w))) \<le> 1" by simp
  ultimately show ?thesis by (intro exI [of _ ?w] conjI) simp_all
qed

end
