(* ===== verification/AttachmentStore.thy ===== *)
theory AttachmentStore
  imports Prelude
begin

unbundle bit_operations_syntax

text \<open>
  The crate \<^verbatim>\<open>core/crates/attachment-store\<close>: content addresses and their hexadecimal form
  (\<^verbatim>\<open>hash.rs\<close>), the store contract with its verified read (\<^verbatim>\<open>store.rs\<close>), the in-memory store
  (\<^verbatim>\<open>memory.rs\<close>) and the directory-tree store (\<^verbatim>\<open>local_fs.rs\<close>).  SHA-256 is a parameter.
  The file system is directory entries that name inodes: a file that is open keeps being
  written after its name is renamed, as on the systems the server runs on.
\<close>

subsection \<open>Hashes in hexadecimal\<close>

definition BLOB_HASH_BYTES :: nat where "BLOB_HASH_BYTES = 32"

datatype parse_error = WrongLength nat nat | NonHexCharacter byte

text \<open>A digit of \<open>{:02x}\<close>.\<close>
definition nibble :: "nat \<Rightarrow> char" where
  "nibble n = (if n < 10 then char_of (48 + n) else char_of (87 + n))"

definition to_hex :: "bytes \<Rightarrow> string" where
  "to_hex h = concat (map (\<lambda>b. [nibble (unat b div 16), nibble (unat b mod 16)]) h)"

definition decode_nibble :: "byte \<Rightarrow> parse_error + byte" where
  "decode_nibble b =
     (if 48 \<le> b \<and> b \<le> 57 then Inr (b - 48)
      else if 97 \<le> b \<and> b \<le> 102 then Inr (b - 97 + 10)
      else if 65 \<le> b \<and> b \<le> 70 then Inr (b - 65 + 10)
      else Inl (NonHexCharacter b))"

fun decode_pairs :: "bytes \<Rightarrow> parse_error + bytes" where
  "decode_pairs (a # b # s) =
     bind_res (decode_nibble a) (\<lambda>hi.
     bind_res (decode_nibble b) (\<lambda>lo.
     bind_res (decode_pairs s) (\<lambda>rest. Inr ((push_bit 4 hi OR lo) # rest))))"
| "decode_pairs _ = Inr []"

definition from_hex :: "string \<Rightarrow> parse_error + bytes" where
  "from_hex s =
     (if length s \<noteq> BLOB_HASH_BYTES * 2 then Inl (WrongLength (BLOB_HASH_BYTES * 2) (length s))
      else decode_pairs (bytes_of s))"

definition lower :: "char \<Rightarrow> char" where
  "lower c = (if 65 \<le> char_val c \<and> char_val c \<le> 90 then char_of (char_val c + 32) else c)"

lemma to_ascii_lowercase_lower: "to_ascii_lowercase s = map lower s"
  by (simp add: to_ascii_lowercase_def lower_def)

lemma char_val_char_of: "(n::nat) < 256 \<Longrightarrow> char_val (char_of n) = n"
  by (simp add: char_val_def)

lemma of_char_nat: "(of_char c :: byte) = of_nat (char_val c)"
  unfolding char_val_def by (rule of_nat_of_char [symmetric])

text \<open>The value of a hexadecimal digit, as a number.\<close>
definition digit_value :: "char \<Rightarrow> nat option" where
  "digit_value c =
    (if 48 \<le> char_val c \<and> char_val c \<le> 57 then Some (char_val c - 48)
     else if 97 \<le> char_val c \<and> char_val c \<le> 102 then Some (char_val c - 87)
     else if 65 \<le> char_val c \<and> char_val c \<le> 70 then Some (char_val c - 55)
     else None)"

lemma decode_nibble_char:
  "decode_nibble (of_char c) =
    (case digit_value c of Some n \<Rightarrow> Inr (of_nat n) | None \<Rightarrow> Inl (NonHexCharacter (of_char c)))"
proof -
  define v where "v = char_val c"
  have u: "unat (of_nat v :: byte) = v"
    unfolding v_def by (simp add: unat_of_nat)
  have le: "(x :: byte) \<le> of_nat v \<longleftrightarrow> unat x \<le> v" "of_nat v \<le> x \<longleftrightarrow> v \<le> unat x" for x
    unfolding word_le_nat_alt u by simp_all
  have sub: "n \<le> v \<Longrightarrow> (of_nat v :: byte) - of_nat n = of_nat (v - n)" for n
    by (simp add: of_nat_diff)
  have "48 \<le> v \<Longrightarrow> (of_nat v :: byte) - 48 = of_nat (v - 48)"
    and "97 \<le> v \<Longrightarrow> (of_nat v :: byte) - 97 + 10 = of_nat (v - 87)"
    and "65 \<le> v \<Longrightarrow> (of_nat v :: byte) - 65 + 10 = of_nat (v - 55)"
    using sub [of 48] sub [of 87] sub [of 55] by simp_all
  then show ?thesis
    unfolding decode_nibble_def digit_value_def of_char_nat v_def [symmetric]
    by (simp add: le del: of_nat_diff)
qed

lemma nibble_val: "n < 16 \<Longrightarrow> char_val (nibble n) = (if n < 10 then 48 + n else 87 + n)"
  by (simp add: nibble_def char_val_char_of)

lemma lower_val: "char_val (lower c) = (if 65 \<le> char_val c \<and> char_val c \<le> 90 then char_val c + 32 else char_val c)"
  by (simp add: lower_def char_val_char_of)

lemma digit_value_iff: "digit_value c = Some n \<longleftrightarrow> n < 16 \<and> lower c = nibble n"
proof -
  have "n < 16 \<Longrightarrow> lower c = nibble n \<longleftrightarrow> char_val (lower c) = (if n < 10 then 48 + n else 87 + n)"
    using nibble_val [of n] by (metis char_val_inject)
  then show ?thesis
    by (auto simp: digit_value_def lower_val split: if_splits)
qed

lemma decode_nibble_iff:
  "decode_nibble (of_char c) = Inr w \<longleftrightarrow> unat w < 16 \<and> lower c = nibble (unat w)"
proof -
  have e: "of_nat n = w \<longleftrightarrow> unat w = n" if "n < 16" for n
    using that by (auto simp: word_unat_eq_iff unat_of_nat)
  have "decode_nibble (of_char c) = Inr w \<longleftrightarrow> (\<exists>n. digit_value c = Some n \<and> of_nat n = w)"
    by (auto simp: decode_nibble_char split: option.splits)
  then show ?thesis using e by (auto simp: digit_value_iff)
qed

text \<open>A byte is its two nibbles.\<close>
lemma byte_of_nibbles:
  fixes b hi lo :: byte
  assumes "unat hi < 16" and "unat lo < 16"
  shows "push_bit 4 hi OR lo = b \<longleftrightarrow> unat hi = unat b div 16 \<and> unat lo = unat b mod 16"
proof -
  have "unat (push_bit 4 hi OR lo) = 16 * unat hi + unat lo"
  proof -
    have "unat (push_bit 4 hi) = push_bit 4 (unat hi)"
      using assms(1) by (simp add: push_bit_eq_mult unat_word_ariths mult.commute)
    moreover have "unat (push_bit 4 hi OR lo) = push_bit 4 (unat hi) OR unat lo"
      unfolding calculation [symmetric] by (rule unsigned_or_eq)
    moreover have "push_bit 4 (unat hi) OR unat lo = push_bit 4 (unat hi) + unat lo"
    proof (rule disjunctive_add_eq_or [symmetric])
      have "take_bit 4 (unat lo) = unat lo" using assms(2) by (simp add: take_bit_nat_eq_self)
      then have "push_bit 4 (unat hi) AND unat lo = push_bit 4 (unat hi) AND take_bit 4 (unat lo)"
        by simp
      also have "\<dots> = 0" by (auto simp: bit_eq_iff bit_simps)
      finally show "push_bit 4 (unat hi) AND unat lo = 0" .
    qed
    ultimately show ?thesis by (simp add: push_bit_eq_mult)
  qed
  then have "push_bit 4 hi OR lo = b \<longleftrightarrow> 16 * unat hi + unat lo = unat b"
    by (simp add: word_unat_eq_iff)
  also have "\<dots> \<longleftrightarrow> unat hi = unat b div 16 \<and> unat lo = unat b mod 16"
  proof
    assume "16 * unat hi + unat lo = unat b"
    from this [symmetric] show "unat hi = unat b div 16 \<and> unat lo = unat b mod 16"
      using assms(2) by simp
  next
    assume "unat hi = unat b div 16 \<and> unat lo = unat b mod 16"
    then show "16 * unat hi + unat lo = unat b" by simp
  qed
  finally show ?thesis .
qed

lemma to_hex_simps [simp]:
  "to_hex [] = []"
  "to_hex (b # h) = nibble (unat b div 16) # nibble (unat b mod 16) # to_hex h"
  by (simp_all add: to_hex_def)

lemma length_to_hex [simp]: "length (to_hex h) = 2 * length h"
  by (induction h) auto

lemma nibble_inject: "m < 16 \<Longrightarrow> n < 16 \<Longrightarrow> nibble m = nibble n \<longleftrightarrow> m = n"
  using nibble_val [of m] nibble_val [of n] char_val_inject [of "nibble m" "nibble n"]
  by (auto split: if_splits simp del: char_val_inject)

lemma byte_halves: "unat (b :: byte) div 16 < 16" "unat b mod 16 < 16"
  using unsigned_less [of b, where 'a = nat] by simp_all

lemma decode_pairs_iff:
  "even (length s) \<Longrightarrow> decode_pairs (bytes_of s) = Inr h \<longleftrightarrow> map lower s = to_hex h"
proof (induction s arbitrary: h rule: induct_list012)
  case 1
  show ?case by (cases h) (auto simp: bytes_of_def)
next
  case (2 c)
  then show ?case by simp
next
  case (3 c d s)
  have "decode_pairs (bytes_of (c # d # s)) = Inr h \<longleftrightarrow>
      (\<exists>hi lo rest. decode_nibble (of_char c) = Inr hi \<and> decode_nibble (of_char d) = Inr lo
        \<and> decode_pairs (bytes_of s) = Inr rest \<and> h = (push_bit 4 hi OR lo) # rest)"
    by (auto simp: bytes_of_def result_simps)
  also have "\<dots> \<longleftrightarrow> (\<exists>b rest. lower c = nibble (unat b div 16) \<and> lower d = nibble (unat b mod 16)
        \<and> map lower s = to_hex rest \<and> h = b # rest)" (is "?l \<longleftrightarrow> ?r")
  proof
    assume ?l
    then obtain hi lo rest where x: "unat hi < 16" "lower c = nibble (unat hi)" "unat lo < 16"
        "lower d = nibble (unat lo)" "map lower s = to_hex rest" "h = (push_bit 4 hi OR lo) # rest"
      using 3 by (auto simp: decode_nibble_iff)
    with byte_of_nibbles [of hi lo "push_bit 4 hi OR lo"] show ?r by auto
  next
    assume ?r
    then obtain b rest where x: "lower c = nibble (unat b div 16)" "lower d = nibble (unat b mod 16)"
        "map lower s = to_hex rest" "h = b # rest" by auto
    define hi lo :: byte where "hi = of_nat (unat b div 16)" and "lo = of_nat (unat b mod 16)"
    have u: "unat hi = unat b div 16" "unat lo = unat b mod 16"
      using byte_halves [of b] by (simp_all add: hi_def lo_def unat_of_nat)
    then have "push_bit 4 hi OR lo = b" using byte_halves [of b] by (simp add: byte_of_nibbles)
    moreover have "decode_nibble (of_char c) = Inr hi" "decode_nibble (of_char d) = Inr lo"
      using x u byte_halves [of b] by (simp_all add: decode_nibble_iff)
    moreover have "decode_pairs (bytes_of s) = Inr rest" using x(3) 3 by simp
    ultimately show ?l using x(4) by blast
  qed
  also have "\<dots> \<longleftrightarrow> map lower (c # d # s) = to_hex h"
    by (cases h) auto
  finally show ?case .
qed

text \<open>The hexadecimal form of a 32-byte hash round-trips, in either letter case and nothing
  else: a string parses to a hash exactly when its lower-case form is what the hash prints as.\<close>
theorem from_hex_iff:
  assumes "length h = BLOB_HASH_BYTES"
  shows "from_hex s = Inr h \<longleftrightarrow> to_ascii_lowercase s = to_hex h"
proof -
  have "to_ascii_lowercase s = to_hex h \<Longrightarrow> length s = 64"
    using assms length_to_hex [of h] length_map [of lower s]
    by (simp add: to_ascii_lowercase_lower BLOB_HASH_BYTES_def del: length_map length_to_hex)
  then show ?thesis
    by (auto simp: from_hex_def decode_pairs_iff to_ascii_lowercase_lower BLOB_HASH_BYTES_def)
qed

theorem from_hex_iff_witness:
  "from_hex (concat (replicate 32 ''aA'')) = Inr (replicate 32 170)"
proof -
  have h: "length (replicate 32 (170 :: byte)) = BLOB_HASH_BYTES" by (simp add: BLOB_HASH_BYTES_def)
  have "char_of (97 :: nat) = CHR ''a''" by code_simp
  then have "to_ascii_lowercase (concat (replicate n ''aA'')) = to_hex (replicate n 170)" for n
    by (induction n) (simp_all add: to_ascii_lowercase_def char_val_def nibble_def)
  then show ?thesis by (simp only: from_hex_iff [OF h])
qed

lemma to_hex_inject: "to_hex g = to_hex h \<longleftrightarrow> g = h"
proof (induction g arbitrary: h)
  case Nil
  show ?case by (cases h) auto
next
  case (Cons b g)
  have "unat b div 16 = unat c div 16 \<and> unat b mod 16 = unat c mod 16 \<longleftrightarrow> b = c" for c
    by (metis div_mult_mod_eq word_unat_eq_iff)
  with Cons show ?case
    by (cases h) (auto simp: nibble_inject [OF byte_halves(1) byte_halves(1)]
        nibble_inject [OF byte_halves(2) byte_halves(2)])
qed

subsection \<open>The store contract\<close>

datatype blob_error = NotFound | HashMismatch | InvalidHash parse_error | Backend string

text \<open>The trait's provided method, over a store's own \<open>get\<close>.\<close>
definition get_verified ::
  "(bytes \<Rightarrow> bytes) \<Rightarrow> ('s \<Rightarrow> bytes \<Rightarrow> blob_error + bytes) \<Rightarrow> 's \<Rightarrow> bytes \<Rightarrow> blob_error + bytes" where
  "get_verified sha256 get s hash =
     bind_res (get s hash) (\<lambda>bytes.
       let actual = sha256 bytes in if actual = hash then Inr bytes else Inl HashMismatch)"

text \<open>Every blob is stored under its own hash.\<close>
definition addressed ::
  "(bytes \<Rightarrow> bytes) \<Rightarrow> ('s \<Rightarrow> bytes \<Rightarrow> blob_error + bytes) \<Rightarrow> 's \<Rightarrow> bool" where
  "addressed sha256 get s \<longleftrightarrow> (\<forall>k b. get s k = Inr b \<longrightarrow> sha256 b = k)"

locale blob_store =
  fixes sha256 :: "bytes \<Rightarrow> bytes"
    and put :: "'s \<Rightarrow> bytes \<Rightarrow> (blob_error + bytes) \<times> 's"
    and get :: "'s \<Rightarrow> bytes \<Rightarrow> blob_error + bytes"
    and delete :: "'s \<Rightarrow> bytes \<Rightarrow> 's"
    and ok :: "'s \<Rightarrow> bool"
  assumes put_hash: "ok s \<Longrightarrow> fst (put s b) = Inr (sha256 b)"
    and put_ok: "ok s \<Longrightarrow> ok (snd (put s b))"
    and put_get: "ok s \<Longrightarrow> get (snd (put s b)) k =
      (if k = sha256 b \<and> get s k = Inl NotFound then Inr b else get s k)"
    and delete_ok: "ok s \<Longrightarrow> ok (delete s k)"
    and delete_get: "ok s \<Longrightarrow> get (delete s k) k' = (if k' = k then Inl NotFound else get s k')"
    and get_errors: "ok s \<Longrightarrow> get s k = Inl e \<Longrightarrow> e = NotFound"
begin

lemma put_addressed: "ok s \<Longrightarrow> addressed sha256 get s \<Longrightarrow> addressed sha256 get (snd (put s b))"
  by (auto simp: addressed_def put_get)

lemma delete_addressed: "ok s \<Longrightarrow> addressed sha256 get s \<Longrightarrow> addressed sha256 get (delete s k)"
  by (auto simp: addressed_def delete_get)

lemma verified_read:
  "addressed sha256 get s \<Longrightarrow> get_verified sha256 get s k = get s k"
  by (cases "get s k") (auto simp: get_verified_def addressed_def)

lemma put_then_get:
  assumes "ok s" and "addressed sha256 get s"
  obtains b' where "get_verified sha256 get (snd (put s b)) (sha256 b) = Inr b'" and "sha256 b' = sha256 b"
proof -
  have a: "addressed sha256 get (snd (put s b))" using assms by (rule put_addressed)
  obtain b' where g: "get (snd (put s b)) (sha256 b) = Inr b'"
    using get_errors [OF assms(1), of "sha256 b"] by (cases "get s (sha256 b)") (auto simp: put_get [OF assms(1)])
  then have "sha256 b' = sha256 b" using a by (auto simp: addressed_def)
  with g that verified_read [OF a] show ?thesis by simp
qed

lemma put_idempotent: "ok s \<Longrightarrow> get (snd (put (snd (put s b)) b)) k = get (snd (put s b)) k"
  using put_get [OF put_ok [of s b], of b k] put_get [of s b k] by auto

end

subsection \<open>The in-memory store\<close>

type_synonym memory_store = "(bytes \<times> bytes) list"

definition memory_store_new :: memory_store where "memory_store_new = []"

definition mem_put :: "(bytes \<Rightarrow> bytes) \<Rightarrow> memory_store \<Rightarrow> bytes \<Rightarrow> (blob_error + bytes) \<times> memory_store" where
  "mem_put sha256 s bytes =
     (let hash = sha256 bytes in
      (Inr hash, if map_of s hash = None then (hash, bytes) # s else s))"

definition mem_get :: "memory_store \<Rightarrow> bytes \<Rightarrow> blob_error + bytes" where
  "mem_get s hash = ok_or NotFound (map_of s hash)"

definition mem_exists :: "memory_store \<Rightarrow> bytes \<Rightarrow> blob_error + bool" where
  "mem_exists s hash = Inr (map_of s hash \<noteq> None)"

definition mem_len :: "memory_store \<Rightarrow> bytes \<Rightarrow> blob_error + nat option" where
  "mem_len s hash = Inr (map_option length (map_of s hash))"

definition mem_delete :: "memory_store \<Rightarrow> bytes \<Rightarrow> memory_store" where
  "mem_delete s hash = filter (\<lambda>(k, _). k \<noteq> hash) s"

definition mem_count :: "memory_store \<Rightarrow> nat" where
  "mem_count s = length s"

definition mem_total_bytes :: "memory_store \<Rightarrow> nat" where
  "mem_total_bytes s = sum_list (map (length \<circ> snd) s)"

definition mem_list :: "memory_store \<Rightarrow> instant \<Rightarrow> (bytes \<times> instant) list" where
  "mem_list s now = map (\<lambda>(k, _). (k, now)) s"

lemma map_of_filter_key:
  "map_of (filter (\<lambda>(k, _). k \<noteq> h) s) k' = (if k' = h then None else map_of s k')"
  by (induction s) auto

interpretation mem_blobs: blob_store sha256 "mem_put sha256" mem_get mem_delete "\<lambda>_. True"
  for sha256
  by unfold_locales
    (auto simp: mem_put_def mem_get_def mem_delete_def map_of_filter_key ok_or_def Let_def
      split: option.splits)

subsection \<open>The directory-tree store\<close>

record fs =
  links :: "string \<rightharpoonup> nat"
  contents :: "nat \<Rightarrow> bytes"
  next_inode :: nat

definition empty_fs :: fs where
  "empty_fs = \<lparr>links = Map.empty, contents = (\<lambda>_. []), next_inode = 0\<rparr>"

text \<open>\<open>File::create\<close>: an existing file is truncated in place.\<close>
definition fs_create :: "string \<Rightarrow> fs \<Rightarrow> nat \<times> fs" where
  "fs_create p s =
     (case links s p of
        Some i \<Rightarrow> (i, s\<lparr>contents := (contents s)(i := [])\<rparr>)
      | None \<Rightarrow> (next_inode s, s\<lparr>links := (links s)(p \<mapsto> next_inode s),
                  contents := (contents s)(next_inode s := []), next_inode := Suc (next_inode s)\<rparr>))"

definition fs_append :: "nat \<Rightarrow> bytes \<Rightarrow> fs \<Rightarrow> fs" where
  "fs_append i b s = s\<lparr>contents := (contents s)(i := contents s i @ b)\<rparr>"

definition fs_rename :: "string \<Rightarrow> string \<Rightarrow> fs \<Rightarrow> fs option" where
  "fs_rename a b s =
     (case links s a of None \<Rightarrow> None | Some i \<Rightarrow> Some (s\<lparr>links := (links s)(a := None, b := Some i)\<rparr>))"

definition fs_remove :: "string \<Rightarrow> fs \<Rightarrow> fs" where
  "fs_remove p s = s\<lparr>links := (links s)(p := None)\<rparr>"

definition fs_read :: "fs \<Rightarrow> string \<Rightarrow> bytes option" where
  "fs_read s p = map_option (contents s) (links s p)"

definition dir_for :: "string \<Rightarrow> bytes \<Rightarrow> string" where
  "dir_for root hash = root @ ''/'' @ take 2 (to_hex hash)"

definition path_for :: "string \<Rightarrow> bytes \<Rightarrow> string" where
  "path_for root hash = root @ ''/'' @ take 2 (to_hex hash) @ ''/'' @ drop 2 (to_hex hash) @ ''.bin''"

text \<open>\<open>with_extension("bin.tmp")\<close> of the final path.\<close>
definition tmp_for :: "string \<Rightarrow> bytes \<Rightarrow> string" where
  "tmp_for root hash = path_for root hash @ ''.tmp''"

text \<open>\<open>put\<close> when no file operation fails and no other writer runs.\<close>
definition local_put :: "(bytes \<Rightarrow> bytes) \<Rightarrow> string \<Rightarrow> fs \<Rightarrow> bytes \<Rightarrow> (blob_error + bytes) \<times> fs" where
  "local_put sha256 root s bytes =
     (let hash = sha256 bytes; final_path = path_for root hash; tmp_path = tmp_for root hash in
      if links s final_path \<noteq> None then (Inr hash, s)
      else
        let (i, s) = fs_create tmp_path s; s = fs_append i bytes s in
        case fs_rename tmp_path final_path s of
          None \<Rightarrow> (Inl (Backend ''rename''), fs_remove tmp_path s)
        | Some s \<Rightarrow> (Inr hash, s))"

definition local_get :: "string \<Rightarrow> fs \<Rightarrow> bytes \<Rightarrow> blob_error + bytes" where
  "local_get root s hash = ok_or NotFound (fs_read s (path_for root hash))"

definition local_exists :: "string \<Rightarrow> fs \<Rightarrow> bytes \<Rightarrow> blob_error + bool" where
  "local_exists root s hash = Inr (links s (path_for root hash) \<noteq> None)"

definition local_len :: "string \<Rightarrow> fs \<Rightarrow> bytes \<Rightarrow> blob_error + nat option" where
  "local_len root s hash = Inr (map_option length (fs_read s (path_for root hash)))"

definition local_delete :: "string \<Rightarrow> fs \<Rightarrow> bytes \<Rightarrow> fs" where
  "local_delete root s hash = fs_remove (path_for root hash) s"

text \<open>Names share no inode and name only inodes that exist.\<close>
definition fs_wf :: "fs \<Rightarrow> bool" where
  "fs_wf s \<longleftrightarrow> inj_on (links s) (dom (links s)) \<and> (\<forall>p i. links s p = Some i \<longrightarrow> i < next_inode s)"

lemma nibble_not_slash: "n < 16 \<Longrightarrow> CHR ''/'' \<noteq> nibble n"
proof
  assume n: "n < 16" and "CHR ''/'' = nibble n"
  then have "char_val (CHR ''/'') = char_val (nibble n)" by simp
  with nibble_val [OF n] show False by (simp add: char_val_def split: if_splits)
qed

lemma slash_not_hex: "CHR ''/'' \<notin> set (to_hex h)"
proof (induction h)
  case (Cons b h)
  with nibble_not_slash [OF byte_halves(1) [of b]] nibble_not_slash [OF byte_halves(2) [of b]]
  show ?case by simp
qed simp

lemma path_for_inject [simp]: "path_for root g = path_for root h \<longleftrightarrow> g = h"
proof
  assume "path_for root g = path_for root h"
  then have "take 2 (to_hex g) @ CHR ''/'' # drop 2 (to_hex g) @ ''.bin''
      = take 2 (to_hex h) @ CHR ''/'' # drop 2 (to_hex h) @ ''.bin''"
    by (simp add: path_for_def)
  moreover have "CHR ''/'' \<notin> set (take 2 (to_hex x))" for x
    using slash_not_hex in_set_takeD by metis
  ultimately have "take 2 (to_hex g) = take 2 (to_hex h)" "drop 2 (to_hex g) = drop 2 (to_hex h)"
    by (simp_all add: cut_at_separator)
  then have "to_hex g = to_hex h" by (metis append_take_drop_id)
  then show "g = h" by (simp add: to_hex_inject)
qed simp

lemma tmp_not_path [simp]: "tmp_for root g \<noteq> path_for root h" "path_for root h \<noteq> tmp_for root g"
proof -
  have "last (tmp_for root g) = CHR ''p''" "last (path_for root h) = CHR ''n''"
    by (simp_all add: tmp_for_def path_for_def)
  then show "tmp_for root g \<noteq> path_for root h" by force
  then show "path_for root h \<noteq> tmp_for root g" by simp
qed

lemma tmp_for_inject [simp]: "tmp_for root g = tmp_for root h \<longleftrightarrow> g = h"
  by (simp add: tmp_for_def)

lemma fs_wf_inject: "fs_wf s \<Longrightarrow> links s p = Some i \<Longrightarrow> links s q = Some i \<Longrightarrow> p = q"
  unfolding fs_wf_def by (metis domI inj_onD)

lemma fs_wf_fresh: "fs_wf s \<Longrightarrow> links s p \<noteq> Some (next_inode s)"
  unfolding fs_wf_def by blast

lemma fs_wfI:
  assumes "\<And>p q i. links s p = Some i \<Longrightarrow> links s q = Some i \<Longrightarrow> p = q"
    and "\<And>p i. links s p = Some i \<Longrightarrow> i < next_inode s"
  shows "fs_wf s"
  unfolding fs_wf_def inj_on_def dom_def using assms by (metis (mono_tags, lifting) mem_Collect_eq not_None_eq)

lemma fs_wf_less: "fs_wf s \<Longrightarrow> links s p = Some i \<Longrightarrow> i < next_inode s"
  unfolding fs_wf_def by blast

lemma fs_create_props:
  assumes "fs_wf s" and "fs_create p s = (i, s')"
  shows "fs_wf s'" and "links s' = (links s)(p \<mapsto> i)" and "contents s' i = []"
    and "q \<noteq> p \<Longrightarrow> fs_read s' q = fs_read s q"
proof -
  show l: "links s' = (links s)(p \<mapsto> i)" and "contents s' i = []"
    using assms(2) by (auto simp: fs_create_def fun_upd_idem split: option.splits)
  show "fs_wf s'"
  proof (rule fs_wfI)
    fix a b j
    assume "links s' a = Some j" "links s' b = Some j"
    then show "a = b"
      using assms fs_wf_inject [OF assms(1)] fs_wf_fresh [OF assms(1)] l
      by (auto simp: fs_create_def split: option.splits if_splits)
  next
    fix a j
    assume "links s' a = Some j"
    then show "j < next_inode s'"
      using assms fs_wf_less [OF assms(1)] l
      by (auto simp: fs_create_def less_Suc_eq split: option.splits if_splits)
  qed
  show "fs_read s' q = fs_read s q" if "q \<noteq> p"
  proof (cases "links s q")
    case None
    with that l show ?thesis by (simp add: fs_read_def)
  next
    case (Some j)
    then have "j \<noteq> i"
      using assms that fs_wf_inject [OF assms(1)] fs_wf_fresh [OF assms(1)]
      by (auto simp: fs_create_def split: option.splits)
    with that l Some assms(2) show ?thesis
      by (auto simp: fs_read_def fs_create_def split: option.splits)
  qed
qed

lemma fs_append_props:
  assumes "fs_wf s" and "links s p = Some i"
  shows "fs_wf (fs_append i b s)" and "links (fs_append i b s) = links s"
    and "contents (fs_append i b s) i = contents s i @ b"
    and "q \<noteq> p \<Longrightarrow> fs_read (fs_append i b s) q = fs_read s q"
proof -
  show "fs_read (fs_append i b s) q = fs_read s q" if "q \<noteq> p"
  proof (cases "links s q")
    case (Some j)
    then have "j \<noteq> i" using that fs_wf_inject [OF assms(1,2)] by blast
    with Some show ?thesis by (simp add: fs_read_def fs_append_def)
  qed (simp add: fs_read_def fs_append_def)
qed (use assms(1) in \<open>simp_all add: fs_append_def fs_wf_def\<close>)

lemma fs_rename_props:
  assumes "fs_wf s" and "fs_rename a b s = Some s'" and "a \<noteq> b"
  shows "fs_wf s'" and "links s' = (links s)(a := None, b := links s a)" and "contents s' = contents s"
    and "fs_read s' q = (if q = b then fs_read s a else if q = a then None else fs_read s q)"
proof -
  show l: "links s' = (links s)(a := None, b := links s a)" and "contents s' = contents s"
    using assms(2) by (auto simp: fs_rename_def split: option.splits)
  then show "fs_read s' q = (if q = b then fs_read s a else if q = a then None else fs_read s q)"
    using assms(3) by (simp add: fs_read_def)
  have n: "next_inode s' = next_inode s"
    using assms(2) by (auto simp: fs_rename_def split: option.splits)
  show "fs_wf s'"
    by (rule fs_wfI) (use l n fs_wf_inject [OF assms(1)] fs_wf_less [OF assms(1)] in \<open>auto split: if_splits\<close>)
qed

lemma fs_remove_props:
  assumes "fs_wf s"
  shows "fs_wf (fs_remove p s)" and "fs_read (fs_remove p s) q = (if q = p then None else fs_read s q)"
    and "links (fs_remove p s) = (links s)(p := None)"
proof -
  show "fs_wf (fs_remove p s)"
    by (rule fs_wfI)
      (use fs_wf_inject [OF assms] fs_wf_less [OF assms] in \<open>auto simp: fs_remove_def split: if_splits\<close>)
qed (simp_all add: fs_remove_def fs_read_def)

lemma local_put_props:
  assumes "fs_wf s"
  shows "fs_wf (snd (local_put sha256 root s b))"
    and "fst (local_put sha256 root s b) = Inr (sha256 b)"
    and "fs_read (snd (local_put sha256 root s b)) (path_for root k) =
      (if k = sha256 b \<and> fs_read s (path_for root k) = None then Some b else fs_read s (path_for root k))"
proof -
  let ?h = "sha256 b"
  let ?final = "path_for root ?h" and ?tmp = "tmp_for root ?h"
  have all: "fs_wf (snd (local_put sha256 root s b)) \<and> fst (local_put sha256 root s b) = Inr ?h
    \<and> fs_read (snd (local_put sha256 root s b)) (path_for root k) =
      (if k = ?h \<and> fs_read s (path_for root k) = None then Some b else fs_read s (path_for root k))"
  proof (cases "links s ?final")
    case (Some j)
    with assms show ?thesis by (auto simp: local_put_def fs_read_def)
  next
    case None
    obtain i s1 where c: "fs_create ?tmp s = (i, s1)" by fastforce
    note p1 = fs_create_props [OF assms c]
    have l1: "links s1 ?tmp = Some i" using p1(2) by simp
    note p2 = fs_append_props [OF p1(1) l1, where b = b]
    obtain s3 where r: "fs_rename ?tmp ?final (fs_append i b s1) = Some s3"
      using p2(2) l1 by (simp add: fs_rename_def)
    note p3 = fs_rename_props [OF p2(1) r]
    have tmp: "fs_read (fs_append i b s1) ?tmp = Some b"
      using p2(2,3) p1(3) l1 by (simp add: fs_read_def)
    have rest: "q \<noteq> ?tmp \<Longrightarrow> fs_read (fs_append i b s1) q = fs_read s q" for q
      using p2(4) p1(4) by simp
    have none: "fs_read s ?final = None" using None by (simp add: fs_read_def)
    show ?thesis
      using None c r p3 tmp rest none by (auto simp: local_put_def Let_def)
  qed
  then show "fs_wf (snd (local_put sha256 root s b))"
    and "fst (local_put sha256 root s b) = Inr (sha256 b)"
    and "fs_read (snd (local_put sha256 root s b)) (path_for root k) =
      (if k = sha256 b \<and> fs_read s (path_for root k) = None then Some b else fs_read s (path_for root k))"
    by blast+
qed

lemma local_get_fs_read:
  "local_get root s k = Inr b \<longleftrightarrow> fs_read s (path_for root k) = Some b"
  "local_get root s k = Inl e \<longleftrightarrow> e = NotFound \<and> fs_read s (path_for root k) = None"
  by (auto simp: local_get_def ok_or_def split: option.splits)

interpretation local_blobs: blob_store sha256 "local_put sha256 root" "local_get root"
    "local_delete root" fs_wf
  for sha256 root
proof
  fix s :: fs and b k k' :: bytes and e
  assume w: "fs_wf s"
  note p = local_put_props [OF w] and d = fs_remove_props [OF w]
  show "fst (local_put sha256 root s b) = Inr (sha256 b)" "fs_wf (snd (local_put sha256 root s b))"
    by (rule p)+
  show "local_get root (snd (local_put sha256 root s b)) k =
      (if k = sha256 b \<and> local_get root s k = Inl NotFound then Inr b else local_get root s k)"
    by (cases "fs_read s (path_for root k)"; cases "k = sha256 b")
      (simp_all add: local_get_def p(3) ok_or_def)
  show "fs_wf (local_delete root s k)" by (simp add: local_delete_def d)
  show "local_get root (local_delete root s k) k' = (if k' = k then Inl NotFound else local_get root s k')"
    by (simp add: local_get_def local_delete_def d ok_or_def)
  show "local_get root s k = Inl e \<Longrightarrow> e = NotFound"
    by (simp add: local_get_fs_read)
qed

text \<open>Both stores are content addressed: starting from a store in which every blob lies under
  its own hash, storing or deleting any blob keeps it so, a verified read never reports
  corruption but returns what the plain read does, and a blob just stored is found again under
  the returned hash, with bytes of that hash.\<close>
theorem stores_are_content_addressed:
  assumes "addressed sha256 mem_get m" and "addressed sha256 (local_get root) s" and "fs_wf s"
  shows "addressed sha256 mem_get (snd (mem_put sha256 m b)) \<and> addressed sha256 mem_get (mem_delete m k)
    \<and> addressed sha256 (local_get root) (snd (local_put sha256 root s b))
    \<and> addressed sha256 (local_get root) (local_delete root s k)
    \<and> get_verified sha256 mem_get m k = mem_get m k
    \<and> get_verified sha256 (local_get root) s k = local_get root s k
    \<and> (\<exists>b'. get_verified sha256 mem_get (snd (mem_put sha256 m b)) (sha256 b) = Inr b' \<and> sha256 b' = sha256 b)
    \<and> (\<exists>b'. get_verified sha256 (local_get root) (snd (local_put sha256 root s b)) (sha256 b) = Inr b'
          \<and> sha256 b' = sha256 b)"
proof (intro conjI)
  show "addressed sha256 mem_get (snd (mem_put sha256 m b))"
    by (rule mem_blobs.put_addressed [OF TrueI assms(1)])
  show "addressed sha256 mem_get (mem_delete m k)"
    by (rule mem_blobs.delete_addressed [OF TrueI assms(1)])
  show "addressed sha256 (local_get root) (snd (local_put sha256 root s b))"
    by (rule local_blobs.put_addressed [OF assms(3,2)])
  show "addressed sha256 (local_get root) (local_delete root s k)"
    by (rule local_blobs.delete_addressed [OF assms(3,2)])
  show "get_verified sha256 mem_get m k = mem_get m k"
    by (rule mem_blobs.verified_read [OF assms(1)])
  show "get_verified sha256 (local_get root) s k = local_get root s k"
    by (rule local_blobs.verified_read [OF assms(2)])
qed (use mem_blobs.put_then_get [OF TrueI assms(1)] local_blobs.put_then_get [OF assms(3,2)] in metis)+

theorem stores_are_content_addressed_witness:
  "addressed rev mem_get (snd (mem_put rev memory_store_new [1, 2]))
   \<and> addressed rev (local_get ''r'') (snd (local_put rev ''r'' empty_fs [1, 2]))"
proof -
  have "addressed rev mem_get memory_store_new" "addressed rev (local_get ''r'') empty_fs"
    and "fs_wf empty_fs"
    by (simp_all add: addressed_def memory_store_new_def mem_get_def local_get_def fs_read_def
        empty_fs_def fs_wf_def)
  from stores_are_content_addressed [OF this] show ?thesis by blast
qed

subsection \<open>Crashes and concurrent writers\<close>

text \<open>
  Where a \<open>put\<close> stands between its file operations.  Writing proceeds in pieces, any operation
  may fail, and a process that stops takes no further step.
\<close>
datatype writer =
    Ready bytes
  | Creating bytes
  | Writing bytes nat bytes   \<comment> \<open>the blob, the open inode, what is still to write\<close>
  | Renaming bytes
  | Finished "blob_error + bytes"

inductive put_step :: "(bytes \<Rightarrow> bytes) \<Rightarrow> string \<Rightarrow> fs \<Rightarrow> writer \<Rightarrow> fs \<Rightarrow> writer \<Rightarrow> bool"
  for sha256 :: "bytes \<Rightarrow> bytes" and root :: string where
  dir_fails: "put_step sha256 root s (Ready b) s (Finished (Inl (Backend ''failed to create fanout dir'')))"
| already_there: "links s (path_for root (sha256 b)) \<noteq> None \<Longrightarrow>
     put_step sha256 root s (Ready b) s (Finished (Inr (sha256 b)))"
| not_there: "links s (path_for root (sha256 b)) = None \<Longrightarrow>
     put_step sha256 root s (Ready b) s (Creating b)"
| exists_fails: "put_step sha256 root s (Ready b) s (Creating b)"
| create: "fs_create (tmp_for root (sha256 b)) s = (i, s') \<Longrightarrow>
     put_step sha256 root s (Creating b) s' (Writing b i b)"
| create_fails: "put_step sha256 root s (Creating b) s (Finished (Inl (Backend ''write tmp'')))"
| write_piece: "rest = piece @ rest' \<Longrightarrow>
     put_step sha256 root s (Writing b i rest) (fs_append i piece s) (Writing b i rest')"
| write_fails: "put_step sha256 root s (Writing b i rest) s (Finished (Inl (Backend ''write tmp'')))"
| written: "put_step sha256 root s (Writing b i []) s (Renaming b)"
| rename: "fs_rename (tmp_for root (sha256 b)) (path_for root (sha256 b)) s = Some s' \<Longrightarrow>
     put_step sha256 root s (Renaming b) s' (Finished (Inr (sha256 b)))"
| rename_missing: "fs_rename (tmp_for root (sha256 b)) (path_for root (sha256 b)) s = None \<Longrightarrow>
     put_step sha256 root s (Renaming b) (fs_remove (tmp_for root (sha256 b)) s)
       (Finished (Inl (Backend ''rename'')))"
| rename_fails: "put_step sha256 root s (Renaming b) (fs_remove (tmp_for root (sha256 b)) s)
       (Finished (Inl (Backend ''rename'')))"

text \<open>
  One writer at a time: it steps, or it is gone (finished or crashed, wherever it stood) and the
  next \<open>put\<close> begins, or a blob is deleted.
\<close>
inductive solo_reach :: "(bytes \<Rightarrow> bytes) \<Rightarrow> string \<Rightarrow> fs \<Rightarrow> writer \<Rightarrow> bool"
  for sha256 :: "bytes \<Rightarrow> bytes" and root :: string where
  start: "solo_reach sha256 root empty_fs (Ready b)"
| step: "solo_reach sha256 root s w \<Longrightarrow> put_step sha256 root s w s' w' \<Longrightarrow> solo_reach sha256 root s' w'"
| next_put: "solo_reach sha256 root s w \<Longrightarrow> solo_reach sha256 root s (Ready b)"
| deletes: "solo_reach sha256 root s w \<Longrightarrow> solo_reach sha256 root (local_delete root s k) w"

text \<open>Two writers, interleaved.\<close>
inductive pair_reach :: "(bytes \<Rightarrow> bytes) \<Rightarrow> string \<Rightarrow> fs \<Rightarrow> writer \<Rightarrow> writer \<Rightarrow> bool"
  for sha256 :: "bytes \<Rightarrow> bytes" and root :: string where
  start: "pair_reach sha256 root empty_fs (Ready a) (Ready b)"
| left: "pair_reach sha256 root s v w \<Longrightarrow> put_step sha256 root s v s' v' \<Longrightarrow> pair_reach sha256 root s' v' w"
| right: "pair_reach sha256 root s v w \<Longrightarrow> put_step sha256 root s w s' w' \<Longrightarrow> pair_reach sha256 root s' v w'"

text \<open>What a lone writer has on disk: published blobs are whole, the temporary file is its own.\<close>
definition on_disk :: "(bytes \<Rightarrow> bytes) \<Rightarrow> string \<Rightarrow> fs \<Rightarrow> writer \<Rightarrow> bool" where
  "on_disk sha256 root s w \<longleftrightarrow>
     fs_wf s \<and> (\<forall>k d. fs_read s (path_for root k) = Some d \<longrightarrow> sha256 d = k)
     \<and> (case w of
          Writing b i rest \<Rightarrow> links s (tmp_for root (sha256 b)) = Some i \<and> contents s i @ rest = b
        | Renaming b \<Rightarrow> fs_read s (tmp_for root (sha256 b)) = Some b
        | _ \<Rightarrow> True)"

lemma put_step_on_disk:
  assumes "put_step sha256 root s w s' w'" and "on_disk sha256 root s w"
  shows "on_disk sha256 root s' w'"
  using assms
proof (induction rule: put_step.induct)
  case (create b s i s')
  then have wf: "fs_wf s" by (simp add: on_disk_def)
  note p = fs_create_props [OF wf create(1)]
  show ?case using create.prems p by (simp add: on_disk_def)
next
  case (write_piece rest piece rest' s b i)
  then have wf: "fs_wf s" and l: "links s (tmp_for root (sha256 b)) = Some i"
    by (simp_all add: on_disk_def)
  note p = fs_append_props [OF wf l, where b = piece]
  show ?case using write_piece p by (simp add: on_disk_def)
next
  case (rename b s s')
  then have wf: "fs_wf s" by (simp add: on_disk_def)
  note p = fs_rename_props [OF wf rename(1)]
  show ?case using rename.prems p by (auto simp: on_disk_def split: if_splits)
next
  case (rename_missing b s)
  then have wf: "fs_wf s" by (simp add: on_disk_def)
  show ?case using rename_missing.prems fs_remove_props [OF wf] by (auto simp: on_disk_def split: if_splits)
next
  case (rename_fails s b)
  then have wf: "fs_wf s" by (simp add: on_disk_def)
  show ?case using rename_fails.prems fs_remove_props [OF wf] by (auto simp: on_disk_def split: if_splits)
qed (auto simp: on_disk_def fs_read_def)

lemma solo_reach_on_disk: "solo_reach sha256 root s w \<Longrightarrow> on_disk sha256 root s w"
proof (induction rule: solo_reach.induct)
  case (start b)
  show ?case by (simp add: on_disk_def empty_fs_def fs_wf_def fs_read_def)
next
  case (step s w s' w')
  then show ?case by (blast intro: put_step_on_disk)
next
  case (next_put s w b)
  then show ?case by (simp add: on_disk_def)
next
  case (deletes s w k)
  then have wf: "fs_wf s" by (simp add: on_disk_def)
  have "contents (fs_remove p s) = contents s" for p by (simp add: fs_remove_def)
  with deletes.IH fs_remove_props [OF wf] show ?case
    by (auto simp: on_disk_def local_delete_def split: writer.splits if_splits)
qed

text \<open>An undisturbed run of the steps is \<open>local_put\<close>.\<close>
lemma lone_put_runs:
  assumes "solo_reach sha256 root s w"
  shows "solo_reach sha256 root (snd (local_put sha256 root s b)) (Finished (fst (local_put sha256 root s b)))"
proof -
  let ?final = "path_for root (sha256 b)" and ?tmp = "tmp_for root (sha256 b)"
  have ready: "solo_reach sha256 root s (Ready b)" using assms by (rule solo_reach.next_put)
  show ?thesis
  proof (cases "links s ?final")
    case (Some i)
    with solo_reach.step [OF ready put_step.already_there [where ?sha256.0 = sha256 and b = b]] show ?thesis
      by (simp add: local_put_def)
  next
    case None
    obtain i s1 where c: "fs_create ?tmp s = (i, s1)" by fastforce
    have "solo_reach sha256 root s (Creating b)"
      by (rule solo_reach.step [OF ready put_step.not_there [where ?sha256.0 = sha256 and b = b, OF None]])
    from solo_reach.step [OF this put_step.create [where ?sha256.0 = sha256 and b = b, OF c]]
    have "solo_reach sha256 root s1 (Writing b i b)" .
    from solo_reach.step [OF this put_step.write_piece [of b b "[]"]]
    have "solo_reach sha256 root (fs_append i b s1) (Writing b i [])" by simp
    from solo_reach.step [OF this put_step.written]
    have ren: "solo_reach sha256 root (fs_append i b s1) (Renaming b)" .
    show ?thesis
      using None c solo_reach.step [OF ren put_step.rename [where ?sha256.0 = sha256 and b = b]] solo_reach.step [OF ren put_step.rename_missing [where ?sha256.0 = sha256 and b = b]]
      by (auto simp: local_put_def Let_def split: option.splits)
  qed
qed

text \<open>C30. A crash never exposes half a blob: however a lone writer stops, between any two file
  operations, in the middle of a write or on a failing one, and however many puts and deletes
  came before, a read finds either nothing or bytes that hash to the name they were asked
  by.\<close>
theorem crash_never_exposes_partial_blob:
  assumes "solo_reach sha256 root s w" and "local_get root s k = Inr d"
  shows "sha256 d = k"
  using solo_reach_on_disk [OF assms(1)] assms(2) by (auto simp: on_disk_def local_get_fs_read)

theorem crash_never_exposes_partial_blob_witness:
  "\<exists>s w. solo_reach rev ''r'' s w \<and> local_get ''r'' s [2, 1] = Inr [1, 2] \<and> rev [1, 2] = [2, 1 :: byte]"
proof -
  let ?s = "snd (local_put rev ''r'' empty_fs [1, 2])"
  have r: "solo_reach rev ''r'' ?s (Finished (fst (local_put rev ''r'' empty_fs [1, 2])))"
    by (rule lone_put_runs [OF solo_reach.start])
  have "fs_wf empty_fs" by (simp add: empty_fs_def fs_wf_def)
  then have g: "local_get ''r'' ?s [2, 1] = Inr [1, 2]"
    by (simp add: local_get_fs_read local_put_props) (simp add: fs_read_def empty_fs_def)
  from r g crash_never_exposes_partial_blob [OF r g] show ?thesis by blast
qed

text \<open>
  The temporary name is the same for every writer of a blob.  When two of them put the same
  blob at once, the second truncates the file the first is about to publish: a reader then gets
  an empty file under a name it does not hash to, and the second put fails although its blob is
  stored.
\<close>
lemma concurrent_puts_collide:
  assumes "b \<noteq> []"
  shows "\<exists>s. pair_reach sha256 root s (Finished (Inr (sha256 b))) (Writing b 0 b)
      \<and> local_get root s (sha256 b) = Inr []"
    and "\<exists>s. pair_reach sha256 root s (Finished (Inr (sha256 b))) (Finished (Inl (Backend ''rename'')))"
proof -
  let ?f = "path_for root (sha256 b)" and ?t = "tmp_for root (sha256 b)"
  define s1 where "s1 = \<lparr>links = [?t \<mapsto> 0], contents = (\<lambda>_. []), next_inode = Suc 0\<rparr>"
  define s2 where "s2 = fs_append 0 b s1"
  define s3 where "s3 = \<lparr>links = [?f \<mapsto> 0], contents = (\<lambda>_. []), next_inode = Suc 0\<rparr>"
  have none: "links empty_fs ?f = None" "links s2 ?f = None"
    by (simp_all add: empty_fs_def s2_def s1_def fs_append_def)
  have c1: "fs_create ?t empty_fs = (0, s1)"
    by (simp add: fs_create_def empty_fs_def s1_def fun_upd_idem)
  have c2: "fs_create ?t s2 = (0, s1)"
    by (simp add: fs_create_def s2_def s1_def fs_append_def fun_upd_idem)
  have r: "fs_rename ?t ?f s1 = Some s3"
    by (simp add: fs_rename_def s1_def s3_def fun_upd_twist)
  have m: "fs_rename ?t ?f (fs_append 0 b s3) = None"
    by (simp add: fs_rename_def s3_def fs_append_def)
  have "pair_reach sha256 root empty_fs (Creating b) (Ready b)"
    by (rule pair_reach.left [OF pair_reach.start put_step.not_there [where ?sha256.0 = sha256 and b = b, OF none(1)]])
  from pair_reach.left [OF this put_step.create [where ?sha256.0 = sha256 and b = b, OF c1]]
  have "pair_reach sha256 root s1 (Writing b 0 b) (Ready b)" .
  from pair_reach.left [OF this put_step.write_piece [of b b "[]"]]
  have "pair_reach sha256 root s2 (Writing b 0 []) (Ready b)" by (simp add: s2_def)
  from pair_reach.left [OF this put_step.written]
  have "pair_reach sha256 root s2 (Renaming b) (Ready b)" .
  from pair_reach.right [OF this put_step.not_there [where ?sha256.0 = sha256 and b = b, OF none(2)]]
  have "pair_reach sha256 root s2 (Renaming b) (Creating b)" .
  from pair_reach.right [OF this put_step.create [where ?sha256.0 = sha256 and b = b, OF c2]]
  have "pair_reach sha256 root s1 (Renaming b) (Writing b 0 b)" .
  from pair_reach.left [OF this put_step.rename [where ?sha256.0 = sha256 and b = b, OF r]]
  have s3: "pair_reach sha256 root s3 (Finished (Inr (sha256 b))) (Writing b 0 b)" .
  moreover have "local_get root s3 (sha256 b) = Inr []"
    by (simp add: local_get_fs_read fs_read_def s3_def)
  ultimately show "\<exists>s. pair_reach sha256 root s (Finished (Inr (sha256 b))) (Writing b 0 b)
      \<and> local_get root s (sha256 b) = Inr []" by blast
  from pair_reach.right [OF s3 put_step.write_piece [of b b "[]"]]
  have "pair_reach sha256 root (fs_append 0 b s3) (Finished (Inr (sha256 b))) (Writing b 0 [])" by simp
  from pair_reach.right [OF this put_step.written]
  have "pair_reach sha256 root (fs_append 0 b s3) (Finished (Inr (sha256 b))) (Renaming b)" .
  from pair_reach.right [OF this put_step.rename_missing [where ?sha256.0 = sha256 and b = b, OF m]]
  show "\<exists>s. pair_reach sha256 root s (Finished (Inr (sha256 b))) (Finished (Inl (Backend ''rename'')))"
    by blast
qed

end
