(* ===== verification/Json.thy ===== *)
theory Json
  imports Prelude "HOL-Library.AList"
begin

text \<open>
  JSON values as serde\_json represents them and the accessors the server uses.  A fractional
  number keeps its text; objects are association lists with one entry per key.
\<close>

datatype json =
    JNull
  | JBool bool
  | JInt int
  | JFloat string
  | JStr string
  | JArr "json list"
  | JObj "(string \<times> json) list"

definition I64_MAX :: int where "I64_MAX = 9223372036854775807"
definition I64_MIN :: int where "I64_MIN = -9223372036854775808"

text \<open>\<open>Value::get\<close> with a string key: only objects have members.\<close>
definition jget :: "string \<Rightarrow> json \<Rightarrow> json option" where
  "jget k v = (case v of JObj fs \<Rightarrow> map_of fs k | _ \<Rightarrow> None)"

definition as_str :: "json \<Rightarrow> string option" where
  "as_str v = (case v of JStr s \<Rightarrow> Some s | _ \<Rightarrow> None)"

definition as_bool :: "json \<Rightarrow> bool option" where
  "as_bool v = (case v of JBool b \<Rightarrow> Some b | _ \<Rightarrow> None)"

definition as_array :: "json \<Rightarrow> json list option" where
  "as_array v = (case v of JArr xs \<Rightarrow> Some xs | _ \<Rightarrow> None)"

definition as_object :: "json \<Rightarrow> (string \<times> json) list option" where
  "as_object v = (case v of JObj fs \<Rightarrow> Some fs | _ \<Rightarrow> None)"

definition as_i64 :: "json \<Rightarrow> int option" where
  "as_i64 v = (case v of JInt i \<Rightarrow> if I64_MIN \<le> i \<and> i \<le> I64_MAX then Some i else None | _ \<Rightarrow> None)"

definition as_u64 :: "json \<Rightarrow> nat option" where
  "as_u64 v = (case v of JInt i \<Rightarrow> if 0 \<le> i \<and> i < 18446744073709551616 then Some (nat i) else None
     | _ \<Rightarrow> None)"

lemmas json_access = jget_def as_str_def as_bool_def as_array_def as_object_def

abbreviation str_at :: "string \<Rightarrow> json \<Rightarrow> string option" where
  "str_at k v \<equiv> Option.bind (jget k v) as_str"

text \<open>\<open>unwrap_or\<close>\<close>
definition unwrap_or :: "'a \<Rightarrow> 'a option \<Rightarrow> 'a" where
  "unwrap_or d x = (case x of None \<Rightarrow> d | Some v \<Rightarrow> v)"

lemma unwrap_or_simps [simp]: "unwrap_or d None = d" "unwrap_or d (Some v) = v"
  by (simp_all add: unwrap_or_def)

text \<open>Replacing or adding a member of an object.\<close>
definition jset :: "string \<Rightarrow> json \<Rightarrow> json \<Rightarrow> json" where
  "jset k x v = (case v of JObj fs \<Rightarrow> JObj (AList.update k x fs) | _ \<Rightarrow> v)"

text \<open>\<open>Map::remove\<close>, on a value known to be an object.\<close>
definition jdel :: "string \<Rightarrow> json \<Rightarrow> json" where
  "jdel k v = (case v of JObj fs \<Rightarrow> JObj (filter (\<lambda>(j, _). j \<noteq> k) fs) | _ \<Rightarrow> v)"

definition is_object :: "json \<Rightarrow> bool" where
  "is_object v \<longleftrightarrow> (case v of JObj fs \<Rightarrow> True | _ \<Rightarrow> False)"

lemma is_object_simps [simp]: "is_object (JObj fs)" "is_object (jset k x v) = is_object v" "is_object (jdel k v) = is_object v"
  by (simp_all add: is_object_def jset_def jdel_def split: json.splits)

lemma jget_is_object: "jget k v = Some x \<Longrightarrow> is_object v"
  by (auto simp: jget_def is_object_def split: json.splits)

lemma jget_jset [simp]: "is_object v \<Longrightarrow> jget j (jset k x v) = (if j = k then Some x else jget j v)"
  by (auto simp: jget_def jset_def is_object_def update_Some_unfold update_conv split: json.splits)

lemma map_of_without: "map_of (filter (\<lambda>(j, _). j \<noteq> k) fs) i = (if i = k then None else map_of fs i)"
  by (induction fs) auto

lemma jget_jdel [simp]: "jget j (jdel k v) = (if j = k then None else jget j v)"
  by (auto simp: jget_def jdel_def map_of_without split: json.splits)

lemma update_same: "map_of fs k = Some x \<Longrightarrow> AList.update k x fs = fs"
  by (induction fs) (auto split: if_splits)

lemma jset_same: "jget k v = Some x \<Longrightarrow> jset k x v = v"
  by (auto simp: jget_def jset_def update_same split: json.splits)

lemma filter_update: "filter (\<lambda>(j, _). j \<noteq> k) (AList.update k x fs) = filter (\<lambda>(j, _). j \<noteq> k) fs"
  by (induction fs) auto

lemma jdel_jset [simp]: "jdel k (jset k x v) = jdel k v"
  by (auto simp: jdel_def jset_def filter_update split: json.splits)

text \<open>A member is smaller than the object that has it.\<close>
lemma map_of_size: "map_of fs k = Some v \<Longrightarrow> size v < size_list (size_prod (\<lambda>_. 0) size) fs"
  by (induction fs) (auto split: if_splits)

lemma jget_size: "jget k v = Some x \<Longrightarrow> size x < size v"
  by (auto simp: jget_def split: json.splits dest!: map_of_size)

end
