(* ===== verification/CloudQuota.thy ===== *)
theory CloudQuota
  imports Json
begin

text \<open>
  Cloud admission, \<^verbatim>\<open>self-hosted/server/src/cloud_quota.rs\<close>: the cached entitlement, its
  refresh from the control plane, and the quota checks made inside the transactions that accept
  data.  The tables it owns are the record \<open>quota_db\<close>.  A function that fails leaves no state:
  its transaction is dropped and rolled back.  The answer of the control plane and the calendar
  (\<open>date_trunc('month', ...)\<close>) are parameters; failures of the database itself are not
  modelled, except a bigint that overflows.
\<close>

subsection \<open>Entitlements\<close>

record limits =
  monthly_events :: int
  monthly_replays :: int
  monthly_ingest_bytes :: int
  artifact_bytes :: int
  projects :: int
  event_retention_days :: int
  replay_retention_days :: int
  events_per_second :: int

definition limits_valid :: "limits \<Rightarrow> bool" where
  "limits_valid l \<longleftrightarrow>
     list_all (\<lambda>n. 1 \<le> n \<and> n \<le> 9000000000000000)
       [monthly_events l, monthly_replays l, monthly_ingest_bytes l, artifact_bytes l, projects l,
        event_retention_days l, replay_retention_days l, events_per_second l]
     \<and> projects l \<le> 100000 \<and> event_retention_days l \<le> 3650
     \<and> replay_retention_days l \<le> event_retention_days l \<and> events_per_second l \<le> 1000000"

datatype quota_error = Database | Denied string | Exhausted string | Unavailable

text \<open>The status and error code answered to the client.\<close>
definition reply :: "quota_error \<Rightarrow> nat \<times> string" where
  "reply e = (case e of
     Database \<Rightarrow> (503, ''cloud_entitlement_unavailable'')
   | Unavailable \<Rightarrow> (503, ''cloud_entitlement_unavailable'')
   | Denied code \<Rightarrow> (403, code)
   | Exhausted code \<Rightarrow> (429, code))"

text \<open>What the control plane answers, and what is cached of it.\<close>
record entitlement =
  workspace_id :: uuid
  generation :: int
  ent_active :: bool
  ent_limits :: "limits option"
  issued_at :: instant
  valid_until :: instant
  paid_until :: "instant option"

record entitlement_row =
  row_active :: bool
  row_limits :: limits
  row_valid_until :: instant
  row_paid_until :: "instant option"
  row_issued_at :: instant

record usage =
  used_events :: int
  used_replays :: int
  used_bytes :: int

record quota_db =
  cloud_entitlement :: "entitlement_row option"
  monthly_usage :: "nat \<rightharpoonup> usage"
  second_usage :: "nat \<rightharpoonup> int"
  replay_usage :: "(uuid \<times> uuid) list"

text \<open>\<open>now()\<close> is the transaction's start; the wall clock is read at the lock and at the charge.\<close>
record times =
  tx_now :: instant
  lock_clock :: instant
  charge_clock :: instant
  month_of :: "instant \<Rightarrow> nat"

text \<open>The row a policy with usable limits becomes.\<close>
definition row_of :: "instant \<Rightarrow> entitlement \<Rightarrow> limits \<Rightarrow> entitlement_row" where
  "row_of now policy lim =
     \<lparr>row_active = ent_active policy
        \<and> (case paid_until policy of Some u \<Rightarrow> now < u | None \<Rightarrow> False) \<and> now < valid_until policy,
      row_limits = lim,
      row_valid_until = min (valid_until policy) (unwrap_or now (paid_until policy)),
      row_paid_until = paid_until policy, row_issued_at = issued_at policy\<rparr>"

text \<open>The upsert: an older statement never replaces a newer one.\<close>
definition cache_row :: "entitlement_row \<Rightarrow> quota_db \<Rightarrow> quota_db" where
  "cache_row row db = db\<lparr>cloud_entitlement :=
     (case cloud_entitlement db of
        None \<Rightarrow> Some row
      | Some old \<Rightarrow> if row_issued_at old \<le> row_issued_at row then Some row else Some old)\<rparr>"

text \<open>\<open>cloud\<close> is the workspace and generation this instance runs for, if it is a Cloud one.\<close>
definition refresh ::
  "(uuid \<times> int) option \<Rightarrow> entitlement option \<Rightarrow> instant \<Rightarrow> quota_db \<Rightarrow> quota_error + quota_db" where
  "refresh cloud answer now db =
     bind_res (ok_or Unavailable cloud) (\<lambda>(workspace, gen).
     bind_res (ok_or Unavailable answer) (\<lambda>policy.
       if workspace_id policy \<noteq> workspace \<or> generation policy \<noteq> gen
          \<or> now + secs 5 < issued_at policy \<or> issued_at policy + secs 60 < valid_until policy
       then Inl Unavailable
       else
         bind_res (ok_or Unavailable (case ent_limits policy of
             Some l \<Rightarrow> if limits_valid l then Some l else None | None \<Rightarrow> None)) (\<lambda>lim.
           Inr (cache_row (row_of now policy lim) db))))"

text \<open>\<open>coalesce(valid_until>clock AND paid_until>clock, false)\<close>\<close>
definition current_at :: "instant \<Rightarrow> entitlement_row \<Rightarrow> bool" where
  "current_at t r \<longleftrightarrow> t < row_valid_until r
     \<and> (case row_paid_until r of Some u \<Rightarrow> t < u | None \<Rightarrow> False)"

definition authorize :: "instant \<Rightarrow> quota_db \<Rightarrow> quota_error + unit" where
  "authorize t db =
     (case cloud_entitlement db of
        Some r \<Rightarrow> if row_active r then (if current_at t r then Inr () else Inl Unavailable)
                  else Inl (Denied ''workspace_suspended'')
      | None \<Rightarrow> Inl Unavailable)"

subsection \<open>Charging\<close>

definition quota_lock :: "times \<Rightarrow> quota_db \<Rightarrow> quota_error + limits" where
  "quota_lock tm db =
     bind_res (ok_or Unavailable (cloud_entitlement db)) (\<lambda>r.
       if \<not> row_active r then Inl (Denied ''workspace_suspended'')
       else if \<not> current_at (lock_clock tm) r then Inl Unavailable
       else if \<not> limits_valid (row_limits r) then Inl Unavailable
       else Inr (row_limits r))"

definition add_i64 :: "int \<Rightarrow> int \<Rightarrow> quota_error + int" where
  "add_i64 a b = (if I64_MIN \<le> a + b \<and> a + b \<le> I64_MAX then Inr (a + b) else Inl Database)"

definition no_usage :: usage where
  "no_usage = \<lparr>used_events = 0, used_replays = 0, used_bytes = 0\<rparr>"

definition charge :: "times \<Rightarrow> limits \<Rightarrow> int \<Rightarrow> int \<Rightarrow> int \<Rightarrow> quota_db \<Rightarrow> quota_error + quota_db" where
  "charge tm lim events replays bytes db =
     (let month = month_of tm (tx_now tm); old = unwrap_or no_usage (monthly_usage db month) in
      bind_res (add_i64 (used_events old) events) (\<lambda>total_events.
      bind_res (add_i64 (used_replays old) replays) (\<lambda>total_replays.
      bind_res (add_i64 (used_bytes old) bytes) (\<lambda>total_bytes.
        let db = db\<lparr>monthly_usage := (monthly_usage db)(month \<mapsto>
              \<lparr>used_events = total_events, used_replays = total_replays, used_bytes = total_bytes\<rparr>)\<rparr>
        in if 0 < events \<and> monthly_events lim < total_events then Inl (Exhausted ''monthly_event_quota'')
           else if 0 < replays \<and> monthly_replays lim < total_replays
           then Inl (Exhausted ''monthly_replay_quota'')
           else if 0 < bytes \<and> monthly_ingest_bytes lim < total_bytes
           then Inl (Exhausted ''monthly_ingest_quota'')
           else if 0 < events then
             let second = charge_clock tm div secs 1 in
             bind_res (add_i64 (unwrap_or 0 (second_usage db second)) events) (\<lambda>count.
               if events_per_second lim < count then Inl (Exhausted ''event_rate_quota'')
               else Inr (db\<lparr>second_usage := (second_usage db)(second \<mapsto> count)\<rparr>))
           else Inr db))))"

definition i64_of_usize :: "nat \<Rightarrow> quota_error + int" where
  "i64_of_usize n = (if int n \<le> I64_MAX then Inr (int n) else Inl Unavailable)"

text \<open>\<open>bytes\<close> is the length of the serialised value.\<close>
definition payload_charge :: "bool \<Rightarrow> times \<Rightarrow> nat \<Rightarrow> quota_db \<Rightarrow> quota_error + quota_db" where
  "payload_charge cloud tm bytes db =
     (if \<not> cloud then Inr db
      else bind_res (quota_lock tm db) (\<lambda>lim.
           bind_res (i64_of_usize bytes) (\<lambda>n. charge tm lim 0 0 n db)))"

text \<open>\<open>existing\<close>: the events table already holds this id.\<close>
definition event_charge :: "times \<Rightarrow> bool \<Rightarrow> quota_db \<Rightarrow> quota_error + quota_db" where
  "event_charge tm existing db =
     bind_res (quota_lock tm db) (\<lambda>lim. if existing then Inr db else charge tm lim 1 0 0 db)"

definition attachment_charge ::
  "times \<Rightarrow> uuid \<Rightarrow> uuid \<Rightarrow> string \<Rightarrow> nat \<Rightarrow> quota_db \<Rightarrow> quota_error + quota_db" where
  "attachment_charge tm project event kind bytes db =
     bind_res (quota_lock tm db) (\<lambda>lim.
       let fresh = (kind = ''replay'' \<or> kind = ''screens'') \<and> (project, event) \<notin> set (replay_usage db);
           db = (if fresh then db\<lparr>replay_usage := (project, event) # replay_usage db\<rparr> else db)
       in bind_res (i64_of_usize bytes) (\<lambda>n. charge tm lim 0 (if fresh then 1 else 0) n db))"

definition project_check :: "times \<Rightarrow> int \<Rightarrow> quota_db \<Rightarrow> quota_error + unit" where
  "project_check tm count db =
     bind_res (quota_lock tm db) (\<lambda>lim.
       if projects lim \<le> count then Inl (Exhausted ''project_quota'') else Inr ())"

type_synonym artifact_key = "uuid \<times> string \<times> string"

text \<open>\<open>used\<close> sums every stored artifact but the one being replaced.\<close>
definition artifact_charge ::
  "times \<Rightarrow> artifact_key \<Rightarrow> nat \<Rightarrow> (artifact_key \<times> int) list \<Rightarrow> quota_db \<Rightarrow> quota_error + quota_db" where
  "artifact_charge tm key bytes stored db =
     bind_res (quota_lock tm db) (\<lambda>lim.
     bind_res (i64_of_usize bytes) (\<lambda>n.
       let used = sum_list (map snd (filter (\<lambda>(k, _). k \<noteq> key) stored)) in
       if \<not> (used + n \<le> I64_MAX) \<or> artifact_bytes lim < used + n
       then Inl (Exhausted ''artifact_storage_quota'')
       else charge tm lim 0 0 n db))"

definition transfer_check :: "times \<Rightarrow> int \<Rightarrow> (artifact_key \<times> int) list \<Rightarrow> quota_db \<Rightarrow> quota_error + unit" where
  "transfer_check tm count stored db =
     bind_res (quota_lock tm db) (\<lambda>lim.
       if projects lim < count then Inl (Exhausted ''project_quota'')
       else if artifact_bytes lim < sum_list (map snd stored)
       then Inl (Exhausted ''artifact_storage_quota'')
       else Inr ())"

subsection \<open>Admission never outlives the entitlement\<close>

lemma ok_or_conv [result_simps]:
  "ok_or e x = Inr v \<longleftrightarrow> x = Some v" "ok_or e x = Inl f \<longleftrightarrow> x = None \<and> e = f"
  by (auto simp: ok_or_def split: option.splits)

text \<open>What refreshing keeps of the cached row.\<close>
definition entitlement_sound :: "quota_db \<Rightarrow> bool" where
  "entitlement_sound db \<longleftrightarrow> (case cloud_entitlement db of None \<Rightarrow> True
     | Some r \<Rightarrow> row_valid_until r \<le> row_issued_at r + secs 60 \<and> limits_valid (row_limits r))"

lemma refresh_cases:
  assumes "refresh cloud answer now db = Inr db'"
  obtains policy lim where "answer = Some policy" and "limits_valid lim"
    and "valid_until policy \<le> issued_at policy + secs 60" and "db' = cache_row (row_of now policy lim) db"
  using assms that
  by (auto simp: refresh_def result_simps split: if_splits option.splits)

lemma row_of_sound:
  "valid_until policy \<le> issued_at policy + secs 60 \<Longrightarrow>
   row_valid_until (row_of now policy lim) \<le> row_issued_at (row_of now policy lim) + secs 60"
  by (simp add: row_of_def min_le_iff_disj)

text \<open>Admission never outlives what the control plane granted: refreshing keeps the cached
  validity within 60 seconds of the statement's issue and within the paid period, never replaces
  a statement by an older one, and leaves the cache untouched on failure; a request is then
  authorised only while the workspace is active, before the end of the paid period and less than
  60 seconds after the statement in force was issued.\<close>
theorem authorize_within_entitlement:
  assumes "entitlement_sound db" and "refresh cloud answer now db = Inr db'"
  shows "entitlement_sound db'
    \<and> (\<forall>r r'. cloud_entitlement db = Some r \<and> cloud_entitlement db' = Some r'
          \<longrightarrow> row_issued_at r \<le> row_issued_at r')
    \<and> (authorize t db' = Inr () \<longrightarrow>
         (\<exists>r u. cloud_entitlement db' = Some r \<and> row_active r \<and> row_paid_until r = Some u
            \<and> t < u \<and> t < row_issued_at r + secs 60))"
proof -
  obtain policy lim where lim: "limits_valid lim" and v: "valid_until policy \<le> issued_at policy + secs 60"
    and db': "db' = cache_row (row_of now policy lim) db"
    using refresh_cases [OF assms(2)] by blast
  have "row_limits (row_of now policy lim) = lim" by (simp add: row_of_def)
  then have sound: "entitlement_sound db'"
    using assms(1) lim row_of_sound [OF v]
    unfolding db' entitlement_sound_def cache_row_def by (auto split: option.splits)
  moreover have "row_issued_at r \<le> row_issued_at r'"
    if "cloud_entitlement db = Some r" "cloud_entitlement db' = Some r'" for r r'
    using that unfolding db' cache_row_def by (auto split: if_splits)
  moreover have "\<exists>r u. cloud_entitlement db' = Some r \<and> row_active r \<and> row_paid_until r = Some u
      \<and> t < u \<and> t < row_issued_at r + secs 60" if "authorize t db' = Inr ()"
    using sound that
    by (auto simp: authorize_def current_at_def entitlement_sound_def split: option.splits if_splits)
  ultimately show ?thesis by blast
qed

definition sample_limits :: limits where
  "sample_limits = \<lparr>monthly_events = 2, monthly_replays = 1, monthly_ingest_bytes = 100,
     artifact_bytes = 100, projects = 1, event_retention_days = 30, replay_retention_days = 7,
     events_per_second = 1\<rparr>"

lemma sample_limits_valid: "limits_valid sample_limits"
  by (simp add: sample_limits_def limits_valid_def)

theorem authorize_within_entitlement_witness:
  "\<exists>db'. refresh (Some (1, 1)) (Some \<lparr>workspace_id = 1, generation = 1, ent_active = True,
      ent_limits = Some sample_limits, issued_at = secs 10, valid_until = secs 70,
      paid_until = Some (secs 40)\<rparr>) (secs 11)
      \<lparr>cloud_entitlement = None, monthly_usage = Map.empty, second_usage = Map.empty, replay_usage = []\<rparr>
      = Inr db' \<and> authorize (secs 39) db' = Inr () \<and> entitlement_sound db'"
proof -
  let ?db = "\<lparr>cloud_entitlement = None, monthly_usage = Map.empty, second_usage = Map.empty, replay_usage = []\<rparr>"
  let ?a = "Some \<lparr>workspace_id = 1, generation = 1, ent_active = True,
      ent_limits = Some sample_limits, issued_at = secs 10, valid_until = secs 70,
      paid_until = Some (secs 40)\<rparr>"
  have s: "entitlement_sound ?db" by (simp add: entitlement_sound_def)
  obtain db' where r: "refresh (Some (1, 1)) ?a (secs 11) ?db = Inr db'"
    and c: "cloud_entitlement db' = Some \<lparr>row_active = True, row_limits = sample_limits,
      row_valid_until = secs 40, row_paid_until = Some (secs 40), row_issued_at = secs 10\<rparr>"
    by (simp add: refresh_def sample_limits_valid secs_def cache_row_def row_of_def)
  have "authorize (secs 39) db' = Inr ()"
    by (simp add: authorize_def c current_at_def secs_def)
  with r conjunct1 [OF authorize_within_entitlement [OF s r]] show ?thesis by blast
qed

subsection \<open>Quotas are never exceeded\<close>

lemma quota_lock_Inr:
  "quota_lock tm db = Inr lim \<longleftrightarrow>
   (\<exists>r. cloud_entitlement db = Some r \<and> row_active r \<and> current_at (lock_clock tm) r
      \<and> limits_valid lim \<and> row_limits r = lim)"
  by (auto simp: quota_lock_def result_simps)

lemma charge_Inr:
  assumes "charge tm lim e r b db = Inr db'"
  shows "unwrap_or no_usage (monthly_usage db' (month_of tm (tx_now tm)))
      = (let old = unwrap_or no_usage (monthly_usage db (month_of tm (tx_now tm))) in
         \<lparr>used_events = used_events old + e, used_replays = used_replays old + r,
          used_bytes = used_bytes old + b\<rparr>)"
    and "0 < e \<Longrightarrow> used_events (unwrap_or no_usage (monthly_usage db' (month_of tm (tx_now tm)))) \<le> monthly_events lim"
    and "0 < r \<Longrightarrow> used_replays (unwrap_or no_usage (monthly_usage db' (month_of tm (tx_now tm)))) \<le> monthly_replays lim"
    and "0 < b \<Longrightarrow> used_bytes (unwrap_or no_usage (monthly_usage db' (month_of tm (tx_now tm)))) \<le> monthly_ingest_bytes lim"
    and "0 < e \<Longrightarrow> unwrap_or 0 (second_usage db' (charge_clock tm div secs 1)) \<le> events_per_second lim"
    and "cloud_entitlement db' = cloud_entitlement db" and "replay_usage db' = replay_usage db"
    and "m \<noteq> month_of tm (tx_now tm) \<Longrightarrow> monthly_usage db' m = monthly_usage db m"
  using assms
  by (auto simp: charge_def result_simps Let_def add_i64_def split: if_splits)

text \<open>C4. No accepted event takes a workspace over its quota: when the event check of a
  transaction succeeds for an event not stored before, exactly one event was added to the
  month's tally, the tally is within the monthly quota in force and the second's tally within
  the rate; a retransmission of a stored event is charged nothing; and both are refused while no
  valid entitlement is in force.\<close>
theorem event_charge_within_quota:
  assumes "event_charge tm existing db = Inr db'"
  shows "\<exists>r. cloud_entitlement db = Some r \<and> row_active r \<and> current_at (lock_clock tm) r
    \<and> (let month = month_of tm (tx_now tm);
           n = used_events (unwrap_or no_usage (monthly_usage db month));
           n' = used_events (unwrap_or no_usage (monthly_usage db' month)) in
       if existing then db' = db
       else n' = n + 1 \<and> n' \<le> monthly_events (row_limits r)
         \<and> unwrap_or 0 (second_usage db' (charge_clock tm div secs 1)) \<le> events_per_second (row_limits r))"
proof -
  from assms obtain lim where l: "quota_lock tm db = Inr lim"
    and c: "if existing then db' = db else charge tm lim 1 0 0 db = Inr db'"
    by (auto simp: event_charge_def result_simps split: if_splits)
  from l obtain r where r: "cloud_entitlement db = Some r" "row_active r"
      "current_at (lock_clock tm) r" "row_limits r = lim"
    by (auto simp: quota_lock_Inr)
  show ?thesis
  proof (cases existing)
    case True
    with r c show ?thesis by (intro exI [of _ r]) simp
  next
    case False
    with c have ch: "charge tm lim 1 0 0 db = Inr db'" by simp
    show ?thesis
      using r False charge_Inr(1,2,5) [OF ch]
      by (intro exI [of _ r]) (simp add: Let_def)
  qed
qed

definition sample_db :: quota_db where
  "sample_db = \<lparr>cloud_entitlement = Some \<lparr>row_active = True, row_limits = sample_limits,
      row_valid_until = secs 60, row_paid_until = Some (secs 90), row_issued_at = 0\<rparr>,
    monthly_usage = Map.empty, second_usage = Map.empty, replay_usage = []\<rparr>"

definition sample_times :: times where
  "sample_times = \<lparr>tx_now = secs 1, lock_clock = secs 1, charge_clock = secs 1, month_of = (\<lambda>_. 0)\<rparr>"

theorem event_charge_within_quota_witness:
  "\<exists>db'. event_charge sample_times False sample_db = Inr db'
     \<and> used_events (unwrap_or no_usage (monthly_usage db' 0)) = 1"
proof -
  obtain db' where e: "event_charge sample_times False sample_db = Inr db'"
    using sample_limits_valid
    by (simp add: event_charge_def quota_lock_def sample_db_def sample_times_def current_at_def
        charge_def add_i64_def I64_MAX_def I64_MIN_def no_usage_def Let_def secs_def)
      (simp add: sample_limits_def add_i64_def I64_MAX_def I64_MIN_def)
  from event_charge_within_quota [OF e] have "used_events (unwrap_or no_usage (monthly_usage db' 0)) = 1"
    by (auto simp: sample_times_def sample_db_def no_usage_def Let_def)
  with e show ?thesis by blast
qed

text \<open>
  Attachments: a replay is charged once per event however many of its parts arrive, and every
  byte is charged.
\<close>
lemma attachment_charge_once:
  assumes "attachment_charge tm p e k n db = Inr db'"
  shows "used_replays (unwrap_or no_usage (monthly_usage db' (month_of tm (tx_now tm))))
      = used_replays (unwrap_or no_usage (monthly_usage db (month_of tm (tx_now tm))))
        + (if (k = ''replay'' \<or> k = ''screens'') \<and> (p, e) \<notin> set (replay_usage db) then 1 else 0)"
  using assms charge_Inr(1)
  by (auto simp: attachment_charge_def result_simps i64_of_usize_def Let_def split: if_splits)

end
