(* ===== verification/AuditLog.thy ===== *)
theory AuditLog
  imports Json
begin

text \<open>
  The append-only audit log, \<^verbatim>\<open>self-hosted/server/src/audit.rs\<close>.  A record written in the
  caller's transaction commits or is lost with it.  The address of the request
  (\<open>sentori_request_origin\<close>) is left out.
\<close>

record audit_row =
  au_project :: "uuid option"
  au_actor :: "uuid option"
  au_action :: string
  au_target_type :: string
  au_target :: string
  au_payload :: json

definition record_in_transaction ::
  "uuid option \<Rightarrow> uuid option \<Rightarrow> string \<Rightarrow> string \<Rightarrow> string \<Rightarrow> json \<Rightarrow> audit_row list \<Rightarrow> audit_row list" where
  "record_in_transaction project actor act target_type target payload log = log @
     [\<lparr>au_project = project, au_actor = actor, au_action = act, au_target_type = target_type,
       au_target = target, au_payload = payload\<rparr>]"

end
