(* ===== verification/NotificationQueue.thy ===== *)
theory NotificationQueue
  imports AuditLog
begin

text \<open>
  Capturing events for notification inside the transactions that cause them:
  \<^verbatim>\<open>self-hosted/server/src/notification_queue.rs\<close> (\<open>enqueue\<close>, \<open>issue\<close>, \<open>task\<close>) and the task
  side of a regression, \<^verbatim>\<open>self-hosted/server/src/team.rs\<close> (\<open>event\<close>, \<open>regress\<close>).  Tables are
  lists of rows; identifiers drawn by the code (\<open>Uuid::now_v7\<close>) are supplied by the caller;
  \<open>uuid_text\<close> is how the uuid crate prints one.  The only database error is a query for exactly
  one row that finds none.
\<close>

subsection \<open>The queue of events\<close>

record notif_event =
  ne_id :: uuid
  ne_project :: uuid
  ne_key :: string
  ne_kind :: string
  ne_payload :: json
  ne_issue :: "uuid option"
  ne_actor :: "uuid option"
  ne_target :: "uuid option"
  ne_generation :: int

datatype db_error = RowNotFound

text \<open>\<open>Event\<close>: what a caller asks to be announced.\<close>
record event_request =
  rq_project :: uuid
  rq_key :: string
  rq_kind :: string
  rq_payload :: json
  rq_issue :: "uuid option"
  rq_actor :: "uuid option"
  rq_target :: "uuid option"

text \<open>
  The upsert on \<open>(project_id, source_key)\<close> leaves a present row as it is and returns its id.
  \<open>generation\<close> is that of the instance settings row, if there is one.
\<close>
definition enqueue ::
  "int option \<Rightarrow> uuid \<Rightarrow> event_request \<Rightarrow> notif_event list \<Rightarrow> db_error + uuid \<times> notif_event list" where
  "enqueue generation fresh rq q =
     (case generation of
        None \<Rightarrow> Inl RowNotFound
      | Some gen \<Rightarrow>
          (case List.find (\<lambda>e. ne_project e = rq_project rq \<and> ne_key e = rq_key rq) q of
             Some e \<Rightarrow> Inr (ne_id e, q)
           | None \<Rightarrow> Inr (fresh, q @
               [\<lparr>ne_id = fresh, ne_project = rq_project rq, ne_key = rq_key rq, ne_kind = rq_kind rq,
                 ne_payload = rq_payload rq, ne_issue = rq_issue rq, ne_actor = rq_actor rq,
                 ne_target = rq_target rq, ne_generation = gen\<rparr>])))"

text \<open>The row read is the issue's kind, title and message sample.\<close>
definition issue_event ::
  "(uuid \<Rightarrow> string) \<Rightarrow> int option \<Rightarrow> uuid \<Rightarrow> uuid \<Rightarrow> (string \<times> string \<times> string) option \<Rightarrow> uuid \<Rightarrow> uuid
     \<Rightarrow> bool \<Rightarrow> notif_event list \<Rightarrow> db_error + notif_event list" where
  "issue_event uuid_text generation fresh project row issue event new q =
     bind_res (ok_or RowNotFound row) (\<lambda>(issue_kind, group_title, message_sample).
       let kind = (if new then ''issue.new'' else ''issue.regressed'');
           title = ''[sentori] '' @ issue_kind @ '': '' @ group_title;
           body = take_chars 4000 message_sample
       in bind_res (enqueue generation fresh
            \<lparr>rq_project = project, rq_key = kind @ '':'' @ uuid_text issue @ '':'' @ uuid_text event,
             rq_kind = kind,
             rq_payload = JObj [(''event'', JStr kind), (''title'', JStr title), (''body'', JStr body),
               (''route'', JStr (''/issues/'' @ uuid_text issue @ ''?project='' @ uuid_text project))],
             rq_issue = Some issue, rq_actor = None, rq_target = None\<rparr> q)
          (\<lambda>(_, q). Inr q))"

subsection \<open>Tasks\<close>

record task =
  ta_id :: uuid
  ta_issue :: "uuid option"
  ta_project :: uuid
  ta_title :: string
  ta_stage :: string
  ta_verified :: bool
  ta_fix_release :: string
  ta_version :: nat
  ta_assignee :: "uuid option"
  ta_created_by :: "uuid option"
  ta_kind :: string
  ta_priority :: string
  ta_description :: string
  ta_reproduction :: string
  ta_root_cause :: string
  ta_due :: "string option"
  ta_automation :: json
  ta_created :: instant
  ta_updated :: instant

record task_event =
  te_id :: uuid
  te_task :: uuid
  te_actor :: "uuid option"
  te_action :: string
  te_body :: string
  te_notify :: "uuid option"
  te_category :: string

record team_db =
  tasks :: "task list"
  task_events :: "task_event list"
  outbox :: "uuid list"              \<comment> \<open>the task events a \<open>task.changed\<close> message announces\<close>
  audit :: "audit_row list"
  notifications :: "notif_event list"

definition task_notification ::
  "(uuid \<Rightarrow> string) \<Rightarrow> int option \<Rightarrow> uuid \<Rightarrow> uuid \<Rightarrow> uuid \<Rightarrow> uuid option \<Rightarrow> bool \<Rightarrow> team_db
     \<Rightarrow> db_error + team_db" where
  "task_notification uuid_text generation fresh tid event actor assigned db =
     bind_res (ok_or RowNotFound (List.find (\<lambda>t. ta_id t = tid) (tasks db))) (\<lambda>t.
       let kind = (if assigned then ''task.assigned'' else ''task.updated'') in
       bind_res (enqueue generation fresh
         \<lparr>rq_project = ta_project t, rq_key = ''task:'' @ uuid_text event, rq_kind = kind,
          rq_payload = JObj [(''event'', JStr kind), (''title'', JStr (ta_title t)),
            (''body'', JStr (ta_stage t)),
            (''route'', JStr (''/tasks?project='' @ uuid_text (ta_project t) @ ''&id='' @ uuid_text tid))],
          rq_issue = None, rq_actor = actor, rq_target = None\<rparr> (notifications db))
       (\<lambda>(_, q). Inr (db\<lparr>notifications := q\<rparr>)))"

text \<open>\<open>event_id\<close> and \<open>fresh\<close> are the ids drawn for the task event and for its notification.\<close>
definition team_event ::
  "(uuid \<Rightarrow> string) \<Rightarrow> int option \<Rightarrow> uuid \<Rightarrow> uuid \<Rightarrow> uuid \<Rightarrow> uuid option \<Rightarrow> string \<Rightarrow> string
     \<Rightarrow> uuid option \<Rightarrow> string \<Rightarrow> team_db \<Rightarrow> db_error + team_db" where
  "team_event uuid_text generation event_id fresh tid actor action body recipient category db =
     (let notify = (case recipient of Some u \<Rightarrow> if Some u \<noteq> actor then Some u else None | None \<Rightarrow> None);
          db = db\<lparr>task_events := task_events db @
                 [\<lparr>te_id = event_id, te_task = tid, te_actor = actor, te_action = action,
                   te_body = body, te_notify = notify, te_category = category\<rparr>],
               outbox := outbox db @ [event_id]\<rparr>
      in task_notification uuid_text generation fresh tid event_id actor
           (category = ''assignment'' \<and> recipient \<noteq> None) db)"

text \<open>\<open>stamp\<close>: what \<open>clock_timestamp()\<close> prints as, inside the JSON the barrier is kept in.\<close>
definition barrier_json :: "string \<Rightarrow> json" where
  "barrier_json stamp = JObj [(''regressionAt'', JStr stamp)]"

text \<open>\<open>UPDATE tasks SET stage=..,verified=false,fix_release='',automation=..,version=version+1,updated_at=now()\<close>\<close>
definition restage_task :: "string \<Rightarrow> instant \<Rightarrow> string \<Rightarrow> task \<Rightarrow> task" where
  "restage_task stage now stamp t = t\<lparr>ta_stage := stage, ta_verified := False, ta_fix_release := [],
     ta_automation := barrier_json stamp, ta_version := Suc (ta_version t), ta_updated := now\<rparr>"

text \<open>The clock is read for each row.\<close>
definition reopen_task :: "instant \<Rightarrow> (uuid \<Rightarrow> string) \<Rightarrow> task \<Rightarrow> task" where
  "reopen_task now stamp t = restage_task ''inProgress'' now (stamp (ta_id t)) t"

definition regressing :: "uuid \<Rightarrow> task \<Rightarrow> bool" where
  "regressing issue t \<longleftrightarrow> ta_issue t = Some issue \<and> ta_stage t \<noteq> ''cancelled''"

definition audit_regression :: "(uuid \<Rightarrow> string) \<Rightarrow> uuid \<Rightarrow> task \<Rightarrow> team_db \<Rightarrow> team_db" where
  "audit_regression uuid_text issue t db = db\<lparr>audit := record_in_transaction (Some (ta_project t)) None
     ''task.regressed'' ''task'' (uuid_text (ta_id t)) (JObj [(''issueId'', JStr (uuid_text issue))]) (audit db)\<rparr>"

fun regress_rows ::
  "(uuid \<Rightarrow> string) \<Rightarrow> int option \<Rightarrow> uuid \<Rightarrow> (uuid \<times> uuid) list \<Rightarrow> task list \<Rightarrow> team_db \<Rightarrow> db_error + team_db" where
  "regress_rows uuid_text generation issue ids [] db = Inr db"
| "regress_rows uuid_text generation issue [] (t # ts) db = Inr db"
| "regress_rows uuid_text generation issue ((e, n) # ids) (t # ts) db =
     bind_res (team_event uuid_text generation e n (ta_id t) None ''issue.regressed'' []
         (ta_assignee t) ''task'' db) (\<lambda>db.
       regress_rows uuid_text generation issue ids ts
         (audit_regression uuid_text issue t db))"

text \<open>\<open>ids k\<close> are the ids drawn for the k-th task reopened.\<close>
definition team_regress ::
  "(uuid \<Rightarrow> string) \<Rightarrow> int option \<Rightarrow> (nat \<Rightarrow> uuid \<times> uuid) \<Rightarrow> instant \<Rightarrow> (uuid \<Rightarrow> string) \<Rightarrow> uuid
     \<Rightarrow> team_db \<Rightarrow> db_error + team_db" where
  "team_regress uuid_text generation ids now stamp issue db =
     (let rows = filter (regressing issue) (tasks db);
          db = db\<lparr>tasks := map (\<lambda>t. if regressing issue t then reopen_task now stamp t else t) (tasks db)\<rparr>
      in regress_rows uuid_text generation issue (map ids [0..<length rows]) rows db)"

subsection \<open>Properties\<close>

text \<open>The row an announcement becomes.\<close>
definition queued_row :: "int \<Rightarrow> uuid \<Rightarrow> event_request \<Rightarrow> notif_event" where
  "queued_row gen i rq = \<lparr>ne_id = i, ne_project = rq_project rq, ne_key = rq_key rq,
     ne_kind = rq_kind rq, ne_payload = rq_payload rq, ne_issue = rq_issue rq,
     ne_actor = rq_actor rq, ne_target = rq_target rq, ne_generation = gen\<rparr>"

lemma enqueue_cases:
  assumes "enqueue gen fresh rq q = Inr (i, q')"
  obtains (present) e where "q' = q" and "i = ne_id e"
      and "List.find (\<lambda>e. ne_project e = rq_project rq \<and> ne_key e = rq_key rq) q = Some e"
  | (appended) g where "gen = Some g" and "i = fresh" and "q' = q @ [queued_row g fresh rq]"
      and "\<forall>e \<in> set q. \<not> (ne_project e = rq_project rq \<and> ne_key e = rq_key rq)"
proof (cases "List.find (\<lambda>e. ne_project e = rq_project rq \<and> ne_key e = rq_key rq) q")
  case (Some e)
  with assms have "q' = q" "i = ne_id e" by (simp_all add: enqueue_def split: option.splits)
  with Some show ?thesis by (intro present)
next
  case None
  then have "\<forall>e \<in> set q. \<not> (ne_project e = rq_project rq \<and> ne_key e = rq_key rq)"
    by (auto simp: find_None_iff)
  moreover obtain g where "gen = Some g" using assms by (auto simp: enqueue_def split: option.splits)
  moreover from this None assms have "i = fresh" "q' = q @ [queued_row g fresh rq]"
    by (auto simp: enqueue_def queued_row_def)
  ultimately show ?thesis by (intro appended)
qed

lemma find_snoc: "\<forall>e \<in> set xs. \<not> P e \<Longrightarrow> P x \<Longrightarrow> List.find P (xs @ [x]) = Some x"
  by (induction xs) auto

text \<open>An event announced twice is queued once.\<close>
lemma enqueue_idempotent:
  assumes "enqueue gen fresh rq q = Inr (i, q')"
  shows "enqueue gen fresh' rq q' = Inr (i, q')"
  using assms
proof (cases rule: enqueue_cases)
  case (present e)
  with assms show ?thesis by (simp add: enqueue_def split: option.splits)
next
  case (appended g)
  then show ?thesis by (simp add: enqueue_def find_snoc queued_row_def)
qed

text \<open>Keys stay unique.\<close>
definition keys_unique :: "notif_event list \<Rightarrow> bool" where
  "keys_unique q \<longleftrightarrow> distinct (map (\<lambda>e. (ne_project e, ne_key e)) q)"

lemma enqueue_keys_unique:
  assumes "keys_unique q" and "enqueue gen fresh rq q = Inr (i, q')"
  shows "keys_unique q'"
  using assms(2)
proof (cases rule: enqueue_cases)
  case (appended g)
  with assms(1) show ?thesis by (auto simp: keys_unique_def queued_row_def)
qed (use assms(1) in simp)

text \<open>A task event touches neither the tasks nor the uniqueness of notification keys.\<close>
lemma team_event_frame:
  assumes "team_event ut gen e n tid actor action body rcp cat db = Inr db'"
  shows "tasks db' = tasks db" and "keys_unique (notifications db) \<Longrightarrow> keys_unique (notifications db')"
  using assms enqueue_keys_unique
  by (fastforce simp: team_event_def task_notification_def result_simps Let_def)+

lemma regress_rows_frame:
  "regress_rows ut gen issue ids ts db = Inr db' \<Longrightarrow>
   tasks db' = tasks db \<and> (keys_unique (notifications db) \<longrightarrow> keys_unique (notifications db'))"
proof (induction ut gen issue ids ts db rule: regress_rows.induct)
  case (3 ut gen issue e n ids t ts db)
  then obtain db1 where d: "team_event ut gen e n (ta_id t) None ''issue.regressed'' [] (ta_assignee t) ''task'' db = Inr db1"
    and r: "regress_rows ut gen issue ids ts
         (audit_regression ut issue t db1) = Inr db'"
    by (auto simp: result_simps)
  with "3.IH" [OF r] team_event_frame [OF d] show ?case by (simp add: audit_regression_def)
qed auto

end
