(* ===== verification/Pipeline.thy ===== *)
theory Pipeline
  imports CloudQuota NotificationQueue
begin

text \<open>
  The ingest pipeline, \<^verbatim>\<open>self-hosted/server/src/pipeline.rs\<close>: which issue an event belongs to
  (\<open>group_identity\<close>, \<open>compute_fingerprint\<close>), whether that issue regressed (\<open>is_regression\<close>)
  and the one transaction that persists it (\<open>ingest\<close>).  The tables are lists of rows in the
  record \<open>db\<close>; an \<open>UPDATE ... WHERE\<close> maps over them and an \<open>ON CONFLICT\<close> looks the key up
  first.  What other transactions commit between the first read of the issue and the insert, and
  between a lost insert and the second read, are the functions \<open>race 0\<close> and \<open>race 1\<close> of the
  environment; a rolled-back transaction leaves their effect alone.  SHA-256, hexadecimal
  encoding, the printing of ids and the drawing of fresh ids are parameters, as are two
  components with tables of their own that are not modelled: discovering the app of an event
  (\<open>apps::observe\<close>) and the cutover evidence of a project transfer.
\<close>

subsection \<open>Kinds and events\<close>

datatype kind = Error | Warn | Trace | Assert | Probe

definition from_db_str :: "string \<Rightarrow> kind option" where
  "from_db_str s =
     (if s = ''error'' then Some Error else if s = ''warn'' then Some Warn
      else if s = ''trace'' then Some Trace else if s = ''assert'' then Some Assert
      else if s = ''probe'' then Some Probe else None)"

fun as_db_str :: "kind \<Rightarrow> string" where
  "as_db_str Error = ''error''"
| "as_db_str Warn = ''warn''"
| "as_db_str Trace = ''trace''"
| "as_db_str Assert = ''assert''"
| "as_db_str Probe = ''probe''"

record incoming_event =
  ev_id :: uuid
  ev_project :: uuid
  ev_kind :: kind
  ev_platform :: string
  ev_occurred_at :: instant
  ev_release :: string
  ev_environment :: string
  ev_name :: "string option"
  ev_surface :: json
  ev_user_key :: "string option"
  ev_payload :: json

record ingest_outcome =
  out_event :: uuid
  out_issue :: uuid
  is_new_issue :: bool
  regressed :: bool

datatype ingest_error = Quota quota_error | Db db_error | Invalid string

subsection \<open>Which issue\<close>

text \<open>Replace every run of digits by one \<open>#\<close>.\<close>
fun collapse_from :: "bool \<Rightarrow> string \<Rightarrow> string" where
  "collapse_from in_digits [] = []"
| "collapse_from in_digits (c # s) =
     (if is_ascii_digit c then (if \<not> in_digits then CHR ''#'' # collapse_from True s
                                else collapse_from True s)
      else c # collapse_from False s)"

definition collapse_numbers :: "string \<Rightarrow> string" where
  "collapse_numbers msg = collapse_from False msg"

abbreviation sep :: string where "sep \<equiv> [CHR 0x1F]"
abbreviation newline :: string where "newline \<equiv> [CHR 0x0A]"

definition in_app_signature :: "json list \<Rightarrow> string" where
  "in_app_signature frames = concat (map (\<lambda>f.
     if Option.bind (jget ''inApp'' f) as_bool = Some True then
       unwrap_or ''?'' (str_at ''file'' f) @ '':'' @ unwrap_or ''?'' (str_at ''function'' f) @ newline
     else []) frames)"

definition function_signature :: "json list \<Rightarrow> string" where
  "function_signature frames = concat (map (\<lambda>f.
     case str_at ''function'' f of Some func \<Rightarrow> func @ newline | None \<Rightarrow> []) frames)"

text \<open>Group title, message sample and fingerprint input.\<close>
definition group_identity :: "incoming_event \<Rightarrow> ingest_error + string \<times> string \<times> string" where
  "group_identity ev =
     (case ev_kind ev of
        Error \<Rightarrow>
          let err = jget ''error'' (ev_payload ev);
              etype = unwrap_or ''Error'' (Option.bind err (str_at ''type''));
              message = unwrap_or [] (Option.bind err (str_at ''message''));
              frames = Option.bind (Option.bind err (jget ''stack'')) as_array;
              sig = (case frames of Some fs \<Rightarrow> in_app_signature fs | None \<Rightarrow> []);
              sig = (if sig = [] then (case frames of Some fs \<Rightarrow> function_signature fs | None \<Rightarrow> [])
                     else sig);
              fp_input = (if sig = [] then ''error'' @ sep @ etype @ sep @ collapse_numbers message
                          else ''error'' @ sep @ etype @ sep @ sig)
          in Inr (etype, message, fp_input)
      | Warn \<Rightarrow>
          bind_res (ok_or (Invalid ''warn requires name'') (ev_name ev)) (\<lambda>name.
            let screen = unwrap_or [] (str_at ''screen'' (ev_surface ev));
                element = unwrap_or [] (str_at ''element'' (ev_surface ev))
            in Inr (name, [], ''warn'' @ sep @ name @ sep @ screen @ sep @ element))
      | Probe \<Rightarrow>
          bind_res (ok_or (Invalid ''probe requires ref'') (ev_name ev)) (\<lambda>r.
            Inr (r, [], ''probe'' @ sep @ r))
      | k \<Rightarrow>
          bind_res (ok_or (Invalid ''trace/assert requires name'') (ev_name ev)) (\<lambda>name.
            Inr (name, [], as_db_str k @ sep @ name)))"

definition compute_fingerprint ::
  "(bytes \<Rightarrow> bytes) \<Rightarrow> (bytes \<Rightarrow> string) \<Rightarrow> string \<Rightarrow> string \<Rightarrow> string \<Rightarrow> string" where
  "compute_fingerprint sha256 hex environment platform fp_input =
     hex (take 16 (sha256 (bytes_of (environment @ sep @ platform @ sep @ fp_input))))"

subsection \<open>The tables\<close>

record issue =
  is_project :: uuid
  is_fingerprint :: string
  is_kind :: string
  is_title :: string
  is_message :: string
  is_surface :: json
  is_status :: string
  is_first_seen :: instant
  is_last_seen :: instant
  is_event_count :: nat
  is_users_count :: nat
  is_max_per_user :: nat
  is_last_environment :: string
  is_last_release :: string
  is_environment :: string
  is_platform :: string
  is_resolved_in :: "string option"
  is_resolved_at :: "instant option"
  is_regressed_at :: "instant option"
  is_regressed_in :: "string option"
  is_assignee :: "uuid option"

record event_row =
  er_project :: uuid
  er_issue :: uuid
  er_kind :: string
  er_platform :: string
  er_occurred_at :: instant
  er_release :: string
  er_environment :: string
  er_user_key :: "string option"
  er_payload :: json
  er_app :: "uuid option"
  er_received :: instant

record probe =
  pr_issue :: "uuid option"
  pr_first_release :: "string option"
  pr_last_release :: string
  pr_last_fired :: "instant option"
  pr_fires :: nat

record 'x db =
  quota :: quota_db
  issues :: "(uuid \<times> issue) list"
  events :: "(uuid \<times> event_row) list"
  user_hits :: "((uuid \<times> string) \<times> nat) list"
  probes :: "((uuid \<times> string) \<times> probe) list"
  releases :: "((uuid \<times> string) \<times> instant) list"
  activity :: "(uuid \<times> string \<times> json \<times> uuid option) list"   \<comment> \<open>issue, kind, body, actor\<close>
  team :: team_db
  generation_row :: "int option"
  others :: 'x

record 'x env =
  cloud :: bool
  times :: times
  sha256 :: "bytes \<Rightarrow> bytes"
  hex :: "bytes \<Rightarrow> string"
  uuid_text :: "uuid \<Rightarrow> string"
  new_issue :: uuid
  task_ids :: "nat \<Rightarrow> uuid \<times> uuid"
  guard_task_ids :: "nat \<Rightarrow> uuid \<times> uuid"
  task_stamp :: "uuid \<Rightarrow> string"
  note_id :: uuid
  guard_note_id :: uuid
  race :: "nat \<Rightarrow> 'x db \<Rightarrow> 'x db"
  observe :: "uuid \<Rightarrow> string \<Rightarrow> string \<Rightarrow> json \<Rightarrow> 'x \<Rightarrow> uuid \<times> 'x"
  cutover :: "uuid \<Rightarrow> uuid \<Rightarrow> (uuid \<times> event_row) list \<Rightarrow> 'x \<Rightarrow> 'x"

definition find_issue :: "uuid \<Rightarrow> string \<Rightarrow> (uuid \<times> issue) list \<Rightarrow> (uuid \<times> issue) option" where
  "find_issue project fp is = List.find (\<lambda>(_, r). is_project r = project \<and> is_fingerprint r = fp) is"

definition update_issue :: "uuid \<Rightarrow> (issue \<Rightarrow> issue) \<Rightarrow> 'x db \<Rightarrow> 'x db" where
  "update_issue i f db = db\<lparr>issues := map (\<lambda>(k, r). if k = i then (k, f r) else (k, r)) (issues db)\<rparr>"

definition db_result :: "db_error + 'a \<Rightarrow> ingest_error + 'a" where
  "db_result r = (case r of Inl e \<Rightarrow> Inl (Db e) | Inr v \<Rightarrow> Inr v)"

subsection \<open>Regressions\<close>

text \<open>\<open>pair.iter().find(|(n, _)| n == release)\<close> over the project's rows of the two names.\<close>
definition release_at :: "((uuid \<times> string) \<times> instant) list \<Rightarrow> uuid \<Rightarrow> string \<Rightarrow> instant option" where
  "release_at rels project name = map_of rels (project, name)"

definition is_regression ::
  "((uuid \<times> string) \<times> instant) list \<Rightarrow> uuid \<Rightarrow> string \<Rightarrow> string option \<Rightarrow> instant option \<Rightarrow> instant
     \<Rightarrow> bool" where
  "is_regression rels project event_release resolved_in resolved_at occurred_at =
     (let by_time = (case resolved_at of Some t \<Rightarrow> t < occurred_at | None \<Rightarrow> False) in
      case resolved_in of
        Some resolved_release \<Rightarrow>
          if event_release \<noteq> [] then
            (case (release_at rels project event_release, release_at rels project resolved_release) of
               (Some ev_at, Some res_at) \<Rightarrow> res_at \<le> ev_at
             | _ \<Rightarrow> by_time)
          else by_time
      | None \<Rightarrow> by_time)"

subsection \<open>The transaction\<close>

definition fresh_issue :: "incoming_event \<Rightarrow> string \<Rightarrow> string \<Rightarrow> string \<Rightarrow> issue" where
  "fresh_issue ev fingerprint group_title message_sample =
     \<lparr>is_project = ev_project ev, is_fingerprint = fingerprint, is_kind = as_db_str (ev_kind ev),
      is_title = group_title, is_message = message_sample, is_surface = ev_surface ev,
      is_status = ''open'', is_first_seen = ev_occurred_at ev, is_last_seen = ev_occurred_at ev,
      is_event_count = 0, is_users_count = 0, is_max_per_user = 0,
      is_last_environment = ev_environment ev, is_last_release = ev_release ev,
      is_environment = ev_environment ev, is_platform = ev_platform ev, is_resolved_in = None,
      is_resolved_at = None, is_regressed_at = None, is_regressed_in = None,
      is_assignee = None\<rparr>"

text \<open>The two updates of an issue's row that a recurrence makes.\<close>
definition reopened :: "instant \<Rightarrow> incoming_event \<Rightarrow> issue \<Rightarrow> issue" where
  "reopened now ev r = r\<lparr>is_status := ''open'', is_regressed_at := Some now,
     is_regressed_in := Some (ev_release ev), is_last_seen := ev_occurred_at ev,
     is_last_environment := ev_environment ev, is_last_release := ev_release ev\<rparr>"

definition refreshed :: "incoming_event \<Rightarrow> issue \<Rightarrow> issue" where
  "refreshed ev r = r\<lparr>is_last_seen := max (is_last_seen r) (ev_occurred_at ev),
     is_last_environment := ev_environment ev, is_last_release := ev_release ev\<rparr>"

text \<open>The issue exists and its row is locked: reopen it or refresh it.\<close>
definition touch_issue ::
  "'x env \<Rightarrow> incoming_event \<Rightarrow> uuid \<times> issue \<Rightarrow> 'x db \<Rightarrow> ingest_error + (uuid \<times> bool \<times> bool) \<times> 'x db" where
  "touch_issue env ev row db =
     (let (i, r) = row;
          regress = is_status r = ''resolved''
            \<and> is_regression (releases db) (ev_project ev) (ev_release ev) (is_resolved_in r)
                (is_resolved_at r) (ev_occurred_at ev)
      in if regress then
           bind_res (db_result (team_regress (uuid_text env) (generation_row db) (task_ids env)
               (tx_now (times env)) (task_stamp env) i (team db)))
             (\<lambda>tm.
              let db = update_issue i (reopened (tx_now (times env)) ev) (db\<lparr>team := tm\<rparr>);
                  db = db\<lparr>activity := activity db @ [(i, ''regression'',
                    JObj [(''in_release'', JStr (ev_release ev)),
                      (''trigger'', JStr (if ev_kind ev = Probe then ''probe'' else ''recurrence''))], None)]\<rparr>
              in Inr ((i, False, True), db))
         else Inr ((i, False, False), update_issue i (refreshed ev) db))"

text \<open>Find the issue, or create it, or lose the race to create it and find the winner's.\<close>
definition attach_issue ::
  "'x env \<Rightarrow> incoming_event \<Rightarrow> string \<Rightarrow> string \<Rightarrow> string \<Rightarrow> 'x db
     \<Rightarrow> ingest_error + (uuid \<times> bool \<times> bool) \<times> 'x db" where
  "attach_issue env ev fingerprint group_title message_sample db =
     (case find_issue (ev_project ev) fingerprint (issues db) of
        Some row \<Rightarrow> touch_issue env ev row db
      | None \<Rightarrow>
          let db = race env 0 db in
          (case find_issue (ev_project ev) fingerprint (issues db) of
             None \<Rightarrow> Inr ((new_issue env, True, False),
               db\<lparr>issues := issues db @ [(new_issue env, fresh_issue ev fingerprint group_title message_sample)]\<rparr>)
           | Some _ \<Rightarrow>
               let db = race env 1 db in
               (case find_issue (ev_project ev) fingerprint (issues db) of
                  None \<Rightarrow> Inl (Invalid
                    ''the issue this event groups into disappeared mid-write; retry'')
                | Some row \<Rightarrow> touch_issue env ev row db)))"

text \<open>What the other transactions alone have committed by then.\<close>
definition others_only :: "'x env \<Rightarrow> uuid \<Rightarrow> string \<Rightarrow> 'x db \<Rightarrow> 'x db" where
  "others_only env project fp db =
     (if find_issue project fp (issues db) \<noteq> None then db
      else let db = race env 0 db in
           if find_issue project fp (issues db) = None then db else race env 1 db)"

definition record_hit :: "uuid \<Rightarrow> string option \<Rightarrow> 'x db \<Rightarrow> 'x db" where
  "record_hit i user_key db =
     (case user_key of
        None \<Rightarrow> db
      | Some u \<Rightarrow>
          let n = Suc (unwrap_or 0 (map_of (user_hits db) (i, u)));
              db = db\<lparr>user_hits := AList.update (i, u) n (user_hits db)\<rparr>
          in update_issue i (\<lambda>r. r\<lparr>
               is_users_count := length (filter (\<lambda>((k, _), _). k = i) (user_hits db)),
               is_max_per_user := max (is_max_per_user r) n\<rparr>) db)"

definition event_row_of :: "instant \<Rightarrow> incoming_event \<Rightarrow> uuid \<Rightarrow> event_row" where
  "event_row_of now ev i =
     \<lparr>er_project = ev_project ev, er_issue = i, er_kind = as_db_str (ev_kind ev),
      er_platform = ev_platform ev, er_occurred_at = ev_occurred_at ev, er_release = ev_release ev,
      er_environment = ev_environment ev, er_user_key = ev_user_key ev, er_payload = ev_payload ev,
      er_app = None, er_received = now\<rparr>"

definition notify ::
  "'x env \<Rightarrow> uuid \<Rightarrow> uuid \<Rightarrow> uuid \<Rightarrow> uuid \<Rightarrow> bool \<Rightarrow> 'x db \<Rightarrow> ingest_error + 'x db" where
  "notify env fresh project i event new db =
     (let row = (case map_of (issues db) i of
            Some r \<Rightarrow> if is_project r = project then Some (is_kind r, is_title r, is_message r) else None
          | None \<Rightarrow> None)
      in bind_res (db_result (issue_event (uuid_text env) (generation_row db) fresh project row i event new
             (notifications (team db))))
           (\<lambda>q. Inr (db\<lparr>team := (team db)\<lparr>notifications := q\<rparr>\<rparr>)))"

text \<open>A probe that fires: its registry row, and the issue it guards.\<close>
definition fire_probe :: "'x env \<Rightarrow> incoming_event \<Rightarrow> uuid \<Rightarrow> string \<Rightarrow> 'x db \<Rightarrow> ingest_error + 'x db" where
  "fire_probe env ev i r db =
     (let key = (ev_project ev, r); now = tx_now (times env);
          row = (case map_of (probes db) key of
              None \<Rightarrow> \<lparr>pr_issue = None, pr_first_release = None, pr_last_release = ev_release ev,
                  pr_last_fired = Some now, pr_fires = 1\<rparr>
            | Some p \<Rightarrow> p\<lparr>pr_last_release := ev_release ev, pr_last_fired := Some now,
                pr_fires := Suc (pr_fires p)\<rparr>);
          db = db\<lparr>probes := AList.update key row (probes db)\<rparr>
      in case pr_issue row of
           None \<Rightarrow> Inr db
         | Some g \<Rightarrow>
             if g = i \<or> \<not> (\<exists>x \<in> set (issues db). fst x = g \<and> is_status (snd x) = ''resolved'') then Inr db
             else
               let db = update_issue g (\<lambda>r. if is_status r = ''resolved'' then
                     r\<lparr>is_status := ''open'', is_regressed_at := Some now,
                       is_regressed_in := Some (ev_release ev), is_last_seen := now\<rparr> else r) db
               in bind_res (db_result (team_regress (uuid_text env) (generation_row db)
                      (guard_task_ids env) now (task_stamp env) g (team db))) (\<lambda>tm.
                  bind_res (notify env (guard_note_id env) (ev_project ev) g (ev_id ev) False
                      (db\<lparr>team := tm\<rparr>)) (\<lambda>db.
                  Inr (db\<lparr>activity := activity db @ [(g, ''regression'',
                    JObj [(''in_release'', JStr (ev_release ev)), (''trigger'', JStr ''probe''),
                      (''probe_ref'', JStr r)], None)]\<rparr>))))"

definition set_app :: "'x env \<Rightarrow> incoming_event \<Rightarrow> 'x db \<Rightarrow> 'x db" where
  "set_app env ev db =
     (let (app, o') = observe env (ev_project ev) (ev_platform ev) (ev_release ev) (ev_payload ev) (others db)
      in db\<lparr>others := o',
           events := map (\<lambda>(k, e). if k = ev_id ev \<and> er_project e = ev_project ev
               then (k, e\<lparr>er_app := Some app\<rparr>) else (k, e)) (events db)\<rparr>)"

text \<open>Everything after the event row went in.\<close>
definition finish_event ::
  "'x env \<Rightarrow> incoming_event \<Rightarrow> uuid \<times> bool \<times> bool \<Rightarrow> 'x db \<Rightarrow> ingest_error + 'x db" where
  "finish_event env ev meta db =
     (let (i, new, regr) = meta in
      bind_res (case (ev_kind ev, ev_name ev) of
          (Probe, Some r) \<Rightarrow> fire_probe env ev i r db | _ \<Rightarrow> Inr db) (\<lambda>db.
      let db = db\<lparr>others := cutover env (ev_project ev) (ev_id ev) (events db) (others db)\<rparr> in
      bind_res (if new \<or> regr then notify env (note_id env) (ev_project ev) i (ev_id ev) new db
                else Inr db) (\<lambda>db.
      Inr (set_app env ev db))))"

text \<open>The transaction up to its commit; \<open>None\<close> is the duplicate that rolls it back.\<close>
definition ingest_tx ::
  "'x env \<Rightarrow> incoming_event \<Rightarrow> string \<Rightarrow> string \<Rightarrow> string \<Rightarrow> 'x db
     \<Rightarrow> ingest_error + (ingest_outcome \<times> 'x db) option" where
  "ingest_tx env ev fingerprint group_title message_sample db =
     bind_res (if cloud env then
         (case event_charge (times env) (map_of (events db) (ev_id ev) \<noteq> None) (quota db) of
            Inl e \<Rightarrow> Inl (Quota e) | Inr q \<Rightarrow> Inr (db\<lparr>quota := q\<rparr>))
       else Inr db) (\<lambda>db.
     bind_res (attach_issue env ev fingerprint group_title message_sample db) (\<lambda>(meta, db).
       let (i, new, regr) = meta;
           db = update_issue i (\<lambda>r. r\<lparr>is_event_count := Suc (is_event_count r)\<rparr>) db;
           db = record_hit i (ev_user_key ev) db
       in if map_of (events db) (ev_id ev) \<noteq> None then Inr None
          else
            bind_res (finish_event env ev meta
                (db\<lparr>events := events db @ [(ev_id ev, event_row_of (tx_now (times env)) ev i)]\<rparr>)) (\<lambda>db.
              Inr (Some (\<lparr>out_event = ev_id ev, out_issue = i, is_new_issue = new, regressed = regr\<rparr>, db)))))"

definition ingest :: "'x env \<Rightarrow> incoming_event \<Rightarrow> 'x db \<Rightarrow> (ingest_error + ingest_outcome) \<times> 'x db" where
  "ingest env ev db =
     (case group_identity ev of
        Inl e \<Rightarrow> (Inl e, db)
      | Inr (group_title, message_sample, fp_input) \<Rightarrow>
          let fp = compute_fingerprint (sha256 env) (hex env) (ev_environment ev) (ev_platform ev) fp_input;
              rolled_back = others_only env (ev_project ev) fp db
          in case ingest_tx env ev fp group_title message_sample db of
               Inl (Quota e) \<Rightarrow> (Inl (Quota e), db)
             | Inl e \<Rightarrow> (Inl e, rolled_back)
             | Inr (Some (out, db')) \<Rightarrow> (Inr out, db')
             | Inr None \<Rightarrow>
                 (case map_of (events rolled_back) (ev_id ev) of
                    Some e \<Rightarrow>
                      if er_project e = ev_project ev then
                        (Inr \<lparr>out_event = ev_id ev, out_issue = er_issue e, is_new_issue = False,
                              regressed = False\<rparr>, rolled_back)
                      else (Inl (Invalid
                        ''event id is already in use; omit `id` and let the server assign one''), rolled_back)
                  | None \<Rightarrow> (Inl (Invalid
                        ''event id is already in use; omit `id` and let the server assign one''), rolled_back)))"

subsection \<open>Grouping\<close>

lemma collapse_from_append_digit:
  "collapse_from b (s @ d # t) = collapse_from b s @ collapse_from (s \<noteq> [] \<and> is_ascii_digit (last s) \<or> s = [] \<and> b) (d # t)"
  by (induction b s rule: collapse_from.induct) auto

lemma collapse_digits:
  "list_all is_ascii_digit ds \<Longrightarrow> collapse_from True (ds @ t) = collapse_from True t"
  by (induction ds) auto

lemma collapse_from_cong:
  "collapse_from True t = collapse_from True t' \<Longrightarrow> collapse_from b (s @ d # t) = collapse_from b (s @ d' # t')"
  if "is_ascii_digit d" "is_ascii_digit d'"
  using that by (simp add: collapse_from_append_digit)

text \<open>Messages that differ in one run of digits collapse alike.\<close>
lemma collapse_numbers_run:
  assumes "ds \<noteq> []" and "list_all is_ascii_digit ds" and "ds' \<noteq> []" and "list_all is_ascii_digit ds'"
  shows "collapse_numbers (a @ ds @ b) = collapse_numbers (a @ ds' @ b)"
proof -
  obtain d r d' r' where "ds = d # r" "ds' = d' # r'"
    using assms(1,3) by (cases ds; cases ds') auto
  with assms show ?thesis
    unfolding collapse_numbers_def by (auto intro: collapse_from_cong simp: collapse_digits)
qed

text \<open>The stack's contribution to the fingerprint input.\<close>
definition stack_signature :: "incoming_event \<Rightarrow> string" where
  "stack_signature ev =
     (case Option.bind (Option.bind (jget ''error'' (ev_payload ev)) (jget ''stack'')) as_array of
        None \<Rightarrow> []
      | Some fs \<Rightarrow> if in_app_signature fs \<noteq> [] then in_app_signature fs else function_signature fs)"

lemma group_identity_error:
  assumes "ev_kind ev = Error"
  shows "group_identity ev =
    (let err = jget ''error'' (ev_payload ev); etype = unwrap_or ''Error'' (Option.bind err (str_at ''type''));
         message = unwrap_or [] (Option.bind err (str_at ''message''))
     in Inr (etype, message, ''error'' @ sep @ etype @ sep @
          (if stack_signature ev = [] then collapse_numbers message else stack_signature ev)))"
  using assms
  by (auto simp: group_identity_def stack_signature_def Let_def split: option.splits)

lemma sep_cut: "CHR 0x1F \<notin> set a \<Longrightarrow> CHR 0x1F \<notin> set b \<Longrightarrow>
    a @ sep @ u = b @ sep @ v \<longleftrightarrow> a = b \<and> u = v"
  using cut_at_separator [of "CHR 0x1F" a b u v] by simp


definition sample_error :: "string \<Rightarrow> incoming_event" where
  "sample_error msg = \<lparr>ev_id = 1, ev_project = 7, ev_kind = Error, ev_platform = ''ios'', ev_occurred_at = 5,
     ev_release = ''t@1'', ev_environment = ''test'', ev_name = None, ev_surface = JObj [],
     ev_user_key = Some ''u'', ev_payload = JObj [(''error'',
       JObj [(''type'', JStr ''Error''), (''message'', JStr msg)])]\<rparr>"


subsection \<open>Regressions follow the release\<close>

text \<open>Updating a row by id keeps the row found for a key, when the update keeps the key.\<close>
lemma find_issue_map:
  assumes "\<And>k r. is_project (f k r) = is_project r" and "\<And>k r. is_fingerprint (f k r) = is_fingerprint r"
  shows "find_issue p fp (map (\<lambda>(k, r). (k, f k r)) is) = map_option (\<lambda>(k, r). (k, f k r)) (find_issue p fp is)"
  unfolding find_issue_def by (induction "is") (auto simp: assms)

lemma update_issue_map: "issues (update_issue i f db) = map (\<lambda>(k, r). (k, if k = i then f r else r)) (issues db)"
  unfolding update_issue_def by (auto intro: map_cong)

lemma update_issue_frame [simp]:
  "quota (update_issue i f db) = quota db" "events (update_issue i f db) = events db"
  "user_hits (update_issue i f db) = user_hits db" "probes (update_issue i f db) = probes db"
  "releases (update_issue i f db) = releases db" "activity (update_issue i f db) = activity db"
  "team (update_issue i f db) = team db" "generation_row (update_issue i f db) = generation_row db"
  "others (update_issue i f db) = others db"
  by (simp_all add: update_issue_def)

lemma find_update_issue:
  assumes "\<And>r. is_project (f r) = is_project r" and "\<And>r. is_fingerprint (f r) = is_fingerprint r"
  shows "find_issue p fp (issues (update_issue i f db))
    = map_option (\<lambda>(k, r). (k, if k = i then f r else r)) (find_issue p fp (issues db))"
  unfolding update_issue_map by (rule find_issue_map) (simp_all add: assms)

text \<open>What a later step leaves of the row of issue i: everything that decides a regression.\<close>
definition status_kept :: "uuid \<Rightarrow> 'x db \<Rightarrow> 'x db \<Rightarrow> bool" where
  "status_kept i db db' \<longleftrightarrow> releases db' = releases db
     \<and> (\<forall>p fp r. find_issue p fp (issues db) = Some (i, r) \<longrightarrow>
          (\<exists>r'. find_issue p fp (issues db') = Some (i, r') \<and> is_status r' = is_status r
             \<and> is_resolved_in r' = is_resolved_in r \<and> is_resolved_at r' = is_resolved_at r))"

lemma status_kept_refl: "releases db' = releases db \<Longrightarrow> issues db' = issues db \<Longrightarrow> status_kept i db db'"
  by (simp add: status_kept_def)

lemma status_kept_trans: "status_kept i a b \<Longrightarrow> status_kept i b c \<Longrightarrow> status_kept i a c"
  unfolding status_kept_def by metis

lemma status_kept_update:
  assumes "\<And>r. is_project (f r) = is_project r" "\<And>r. is_fingerprint (f r) = is_fingerprint r"
    and "j \<noteq> i \<or> (\<forall>r. is_status (f r) = is_status r \<and> is_resolved_in (f r) = is_resolved_in r
           \<and> is_resolved_at (f r) = is_resolved_at r)"
  shows "status_kept i db (update_issue j f db)"
  using assms(3) by (auto simp: status_kept_def find_update_issue [OF assms(1,2)])

lemma notify_frame:
  "notify env fresh p i e new db = Inr db' \<Longrightarrow> \<exists>t. db' = db\<lparr>team := t\<rparr>"
  by (auto simp: notify_def result_simps Let_def)

lemma fire_probe_cases:
  assumes "fire_probe env ev i r db = Inr db'"
  obtains (quiet) ps where "db' = db\<lparr>probes := ps\<rparr>"
  | (guard) g ps t b where "g \<noteq> i" and "db' = (update_issue g (\<lambda>r. if is_status r = ''resolved'' then
        r\<lparr>is_status := ''open'', is_regressed_at := Some (tx_now (times env)),
          is_regressed_in := Some (ev_release ev), is_last_seen := tx_now (times env)\<rparr> else r)
        (db\<lparr>probes := ps\<rparr>))\<lparr>team := t, activity := activity db @ [(g, ''regression'', b, None)]\<rparr>"
      and "\<exists>x \<in> set (issues db). fst x = g \<and> is_status (snd x) = ''resolved''"
  using assms unfolding fire_probe_def Let_def
  by (auto simp: result_simps split: option.splits if_splits dest!: notify_frame intro: quiet guard)

text \<open>The part of the state the counters live in.\<close>
definition tallies :: "'x db \<Rightarrow> (uuid \<times> uuid \<times> string \<times> nat \<times> nat \<times> nat) list" where
  "tallies db = map (\<lambda>(k, r). (k, is_project r, is_fingerprint r, is_event_count r, is_users_count r,
     is_max_per_user r)) (issues db)"

definition event_keys :: "'x db \<Rightarrow> (uuid \<times> uuid \<times> uuid) list" where
  "event_keys db = map (\<lambda>(k, e). (k, er_issue e, er_project e)) (events db)"

lemma tallies_update:
  assumes "\<And>r. is_project (f r) = is_project r" "\<And>r. is_fingerprint (f r) = is_fingerprint r"
    and "\<And>r. is_event_count (f r) = is_event_count r" "\<And>r. is_users_count (f r) = is_users_count r"
    and "\<And>r. is_max_per_user (f r) = is_max_per_user r"
  shows "tallies (update_issue i f db) = tallies db"
  unfolding tallies_def update_issue_map by (auto simp: assms)

text \<open>What follows the insertion of the event row changes no counter and no other key.\<close>
definition bystander :: "uuid \<Rightarrow> 'x db \<Rightarrow> 'x db \<Rightarrow> bool" where
  "bystander i db db' \<longleftrightarrow> status_kept i db db' \<and> tallies db' = tallies db
     \<and> event_keys db' = event_keys db \<and> user_hits db' = user_hits db \<and> quota db' = quota db"

lemma bystander_trans: "bystander i a b \<Longrightarrow> bystander i b c \<Longrightarrow> bystander i a c"
  unfolding bystander_def using status_kept_trans by metis

lemma bystander_same:
  "issues db' = issues db \<Longrightarrow> releases db' = releases db \<Longrightarrow> event_keys db' = event_keys db \<Longrightarrow>
   user_hits db' = user_hits db \<Longrightarrow> quota db' = quota db \<Longrightarrow> bystander i db db'"
  by (simp add: bystander_def status_kept_refl tallies_def)

lemma notify_bystander: "notify env fresh p j e new db = Inr db' \<Longrightarrow> bystander i db db'"
  by (drule notify_frame) (auto intro!: bystander_same simp: event_keys_def)

lemma fire_probe_bystander:
  assumes "fire_probe env ev i r db = Inr db'"
  shows "bystander i db db'"
  using assms
proof (cases rule: fire_probe_cases)
  case (quiet ps)
  then show ?thesis by (auto intro!: bystander_same simp: event_keys_def)
next
  case (guard g ps t b)
  let ?f = "\<lambda>r. if is_status r = ''resolved'' then
        r\<lparr>is_status := ''open'', is_regressed_at := Some (tx_now (times env)),
          is_regressed_in := Some (ev_release ev), is_last_seen := tx_now (times env)\<rparr> else r"
  have "bystander i (db\<lparr>probes := ps\<rparr>) (update_issue g ?f (db\<lparr>probes := ps\<rparr>))"
    using guard(1) by (auto simp: bystander_def event_keys_def intro!: status_kept_update tallies_update)
  moreover have "bystander i db (db\<lparr>probes := ps\<rparr>)"
    by (intro bystander_same) (auto simp: event_keys_def)
  moreover have "bystander i (update_issue g ?f (db\<lparr>probes := ps\<rparr>)) db'"
    unfolding guard(2) by (intro bystander_same) (auto simp: event_keys_def)
  ultimately show ?thesis by (blast intro: bystander_trans)
qed

lemma finish_event_bystander:
  assumes "finish_event env ev (i, new, regr) db = Inr db'"
  shows "bystander i db db'"
proof -
  from assms obtain d1 d2 where
    p: "(case (ev_kind ev, ev_name ev) of (Probe, Some r) \<Rightarrow> fire_probe env ev i r db | _ \<Rightarrow> Inr db) = Inr d1"
    and n: "(if new \<or> regr then notify env (note_id env) (ev_project ev) i (ev_id ev) new
        (d1\<lparr>others := cutover env (ev_project ev) (ev_id ev) (events d1) (others d1)\<rparr>)
      else Inr (d1\<lparr>others := cutover env (ev_project ev) (ev_id ev) (events d1) (others d1)\<rparr>)) = Inr d2"
    and o: "db' = set_app env ev d2"
    by (auto simp: finish_event_def result_simps Let_def)
  have "bystander i db d1"
    using p fire_probe_bystander by (auto split: kind.splits option.splits intro: bystander_same)
  moreover have "bystander i d1 (d1\<lparr>others := cutover env (ev_project ev) (ev_id ev) (events d1) (others d1)\<rparr>)"
    by (intro bystander_same) (auto simp: event_keys_def)
  moreover have "bystander i (d1\<lparr>others := cutover env (ev_project ev) (ev_id ev) (events d1) (others d1)\<rparr>) d2"
    using n by (auto split: if_splits intro: notify_bystander bystander_same)
  moreover have "bystander i d2 db'"
    unfolding o by (intro bystander_same) (auto simp: event_keys_def set_app_def split_beta)
  ultimately show ?thesis by (blast intro: bystander_trans)
qed

text \<open>What touching the issue that was found does.\<close>
lemma touched_fields [simp]:
  "is_project (reopened t ev r) = is_project r" "is_fingerprint (reopened t ev r) = is_fingerprint r"
  "is_event_count (reopened t ev r) = is_event_count r" "is_users_count (reopened t ev r) = is_users_count r"
  "is_max_per_user (reopened t ev r) = is_max_per_user r" "is_resolved_in (reopened t ev r) = is_resolved_in r"
  "is_resolved_at (reopened t ev r) = is_resolved_at r" "is_status (reopened t ev r) = ''open''"
  "is_project (refreshed ev r) = is_project r" "is_fingerprint (refreshed ev r) = is_fingerprint r"
  "is_event_count (refreshed ev r) = is_event_count r" "is_users_count (refreshed ev r) = is_users_count r"
  "is_max_per_user (refreshed ev r) = is_max_per_user r" "is_resolved_in (refreshed ev r) = is_resolved_in r"
  "is_resolved_at (refreshed ev r) = is_resolved_at r" "is_status (refreshed ev r) = is_status r"
  by (simp_all add: reopened_def refreshed_def)

text \<open>Does the event reopen this row?\<close>
definition reopens :: "'x db \<Rightarrow> incoming_event \<Rightarrow> issue \<Rightarrow> bool" where
  "reopens db ev r \<longleftrightarrow> is_status r = ''resolved'' \<and> is_regression (releases db) (ev_project ev)
      (ev_release ev) (is_resolved_in r) (is_resolved_at r) (ev_occurred_at ev)"

lemma touch_issue_result:
  assumes "touch_issue env ev (i, r) db = Inr (meta, db')"
  shows "meta = (i, False, reopens db ev r)" and "releases db' = releases db"
    and "events db' = events db" and "user_hits db' = user_hits db" and "quota db' = quota db"
    and "issues db' = issues (update_issue i
      (if reopens db ev r then reopened (tx_now (times env)) ev else refreshed ev) db)"
  using assms
  by (auto simp: touch_issue_def reopens_def result_simps Let_def update_issue_def split: if_splits)

lemma touch_issue_found:
  assumes "touch_issue env ev (i, r) db = Inr (meta, db')" and "find_issue p fp (issues db) = Some (i, r)"
  shows "tallies db' = tallies db" and "event_keys db' = event_keys db"
    and "\<exists>r'. find_issue p fp (issues db') = Some (i, r') \<and> is_resolved_in r' = is_resolved_in r
      \<and> is_resolved_at r' = is_resolved_at r \<and> is_status r' = (if reopens db ev r then ''open'' else is_status r)"
proof -
  note t = touch_issue_result [OF assms(1)]
  show "event_keys db' = event_keys db" by (simp add: event_keys_def t(3))
  have "tallies db' = tallies (update_issue i
      (if reopens db ev r then reopened (tx_now (times env)) ev else refreshed ev) db)"
    using t(6) by (simp add: tallies_def)
  also have "\<dots> = tallies db" by (rule tallies_update) simp_all
  finally show "tallies db' = tallies db" .
  show "\<exists>r'. find_issue p fp (issues db') = Some (i, r') \<and> is_resolved_in r' = is_resolved_in r
      \<and> is_resolved_at r' = is_resolved_at r \<and> is_status r' = (if reopens db ev r then ''open'' else is_status r)"
    using assms(2) unfolding t(6) by (auto simp: find_update_issue)
qed

lemma find_issue_append:
  "find_issue p fp is = None \<Longrightarrow> is_project r = p \<Longrightarrow> is_fingerprint r = fp \<Longrightarrow>
   find_issue p fp (is @ [(k, r)]) = Some (k, r)"
  unfolding find_issue_def by (rule find_snoc) (auto simp: find_None_iff)

text \<open>However the issue is reached, the event leaves it in a state it would not reopen again.\<close>
lemma attach_issue_settled:
  assumes "attach_issue env ev fp gt ms db = Inr ((i, new, regr), db')"
    and "\<And>k d. map_of (events (race env k d)) e = map_of (events d) e"
  shows "\<exists>r. find_issue (ev_project ev) fp (issues db') = Some (i, r) \<and> \<not> reopens db' ev r"
    and "map_of (events db') e = map_of (events db) e"
proof -
  have touched: "(\<exists>r. find_issue (ev_project ev) fp (issues db') = Some (i, r) \<and> \<not> reopens db' ev r)
      \<and> map_of (events db') e = map_of (events d) e"
    if "touch_issue env ev (j, r) d = Inr ((i, new, regr), db')"
      "find_issue (ev_project ev) fp (issues d) = Some (j, r)" for d j r
    using touch_issue_result [OF that(1)] touch_issue_found(3) [OF that]
    by (auto simp: reopens_def split: if_splits)
  have "(\<exists>r. find_issue (ev_project ev) fp (issues db') = Some (i, r) \<and> \<not> reopens db' ev r)
      \<and> map_of (events db') e = map_of (events db) e"
  proof (cases "find_issue (ev_project ev) fp (issues db)")
    case (Some row)
    with assms(1) touched [of "fst row" "snd row" db] show ?thesis by (simp add: attach_issue_def)
  next
    case None
    let ?d = "race env 0 db"
    show ?thesis
    proof (cases "find_issue (ev_project ev) fp (issues ?d)")
      case None
      with \<open>find_issue (ev_project ev) fp (issues db) = None\<close> assms(1)
      have db': "db' = ?d\<lparr>issues := issues ?d @ [(i, fresh_issue ev fp gt ms)]\<rparr>"
        by (auto simp: attach_issue_def Let_def)
      have "is_project (fresh_issue ev fp gt ms) = ev_project ev"
        "is_fingerprint (fresh_issue ev fp gt ms) = fp" "is_status (fresh_issue ev fp gt ms) = ''open''"
        by (simp_all add: fresh_issue_def)
      with find_issue_append [OF None this(1,2), of i] assms(2) [of 0 db] show ?thesis
        by (simp add: db' reopens_def)
    next
      case (Some row)
      from \<open>find_issue (ev_project ev) fp (issues db) = None\<close> Some assms(1)
      obtain row' where f: "find_issue (ev_project ev) fp (issues (race env 1 ?d)) = Some row'"
        and t: "touch_issue env ev row' (race env 1 ?d) = Inr ((i, new, regr), db')"
        by (auto simp: attach_issue_def Let_def split: option.splits)
      with touched [of "fst row'" "snd row'" "race env 1 ?d"] assms(2) show ?thesis by simp
    qed
  qed
  then show "\<exists>r. find_issue (ev_project ev) fp (issues db') = Some (i, r) \<and> \<not> reopens db' ev r"
    and "map_of (events db') e = map_of (events db) e" by blast+
qed

text \<open>The two columns a hit updates.\<close>
definition hit_counts :: "uuid \<Rightarrow> nat \<Rightarrow> ((uuid \<times> string) \<times> nat) list \<Rightarrow> issue \<Rightarrow> issue" where
  "hit_counts i n hits r = r\<lparr>is_users_count := length (filter (\<lambda>((k, _), _). k = i) hits),
     is_max_per_user := max (is_max_per_user r) n\<rparr>"

lemma hit_counts_fields [simp]:
  "is_project (hit_counts i n h r) = is_project r" "is_fingerprint (hit_counts i n h r) = is_fingerprint r"
  "is_status (hit_counts i n h r) = is_status r" "is_resolved_in (hit_counts i n h r) = is_resolved_in r"
  "is_resolved_at (hit_counts i n h r) = is_resolved_at r" "is_event_count (hit_counts i n h r) = is_event_count r"
  "is_users_count (hit_counts i n h r) = length (filter (\<lambda>((k, _), _). k = i) h)"
  "is_max_per_user (hit_counts i n h r) = max (is_max_per_user r) n"
  by (simp_all add: hit_counts_def)

lemma record_hit_Some:
  "record_hit i (Some u) db =
    (let n = Suc (unwrap_or 0 (map_of (user_hits db) (i, u))); hits = AList.update (i, u) n (user_hits db)
     in update_issue i (hit_counts i n hits) (db\<lparr>user_hits := hits\<rparr>))"
  by (simp add: record_hit_def hit_counts_def [abs_def] Let_def)

lemma record_hit_kept: "status_kept i db (record_hit j u db)" "events (record_hit j u db) = events db"
  "releases (record_hit j u db) = releases db" "quota (record_hit j u db) = quota db"
proof -
  have upd: "status_kept i db (update_issue j (hit_counts j n h) (db\<lparr>user_hits := h\<rparr>))" for n h
    by (rule status_kept_trans [OF status_kept_refl status_kept_update]) simp_all
  show "status_kept i db (record_hit j u db)"
    by (cases u) (simp add: record_hit_def status_kept_refl, simp add: record_hit_Some Let_def upd)
qed (auto simp: record_hit_def Let_def split: option.splits)

text \<open>A committed transaction, step by step.\<close>
lemma ingest_tx_Commit:
  assumes "ingest_tx env ev fp gt ms db = Inr (Some (out, db'))"
  obtains q i new regr d1 d2 where
    "(if cloud env then event_charge (times env) (map_of (events db) (ev_id ev) \<noteq> None) (quota db) = Inr q
      else q = quota db)"
    and "attach_issue env ev fp gt ms (db\<lparr>quota := q\<rparr>) = Inr ((i, new, regr), d1)"
    and "d2 = record_hit i (ev_user_key ev) (update_issue i (\<lambda>r. r\<lparr>is_event_count := Suc (is_event_count r)\<rparr>) d1)"
    and "map_of (events d2) (ev_id ev) = None"
    and "finish_event env ev (i, new, regr) (d2\<lparr>events := events d2 @ [(ev_id ev, event_row_of (tx_now (times env)) ev i)]\<rparr>) = Inr db'"
    and "out = \<lparr>out_event = ev_id ev, out_issue = i, is_new_issue = new, regressed = regr\<rparr>"
proof -
  define e where "e = (if cloud env then
         (case event_charge (times env) (map_of (events db) (ev_id ev) \<noteq> None) (quota db) of
            Inl e \<Rightarrow> Inl (Quota e) | Inr q \<Rightarrow> Inr (db\<lparr>quota := q\<rparr>))
       else Inr db)"
  from assms obtain d i new regr d1 where e: "e = Inr d"
    and a: "attach_issue env ev fp gt ms d = Inr ((i, new, regr), d1)"
    and r: "(let d2 = record_hit i (ev_user_key ev)
          (update_issue i (\<lambda>r. r\<lparr>is_event_count := Suc (is_event_count r)\<rparr>) d1)
        in if map_of (events d2) (ev_id ev) \<noteq> None then Inr None
           else bind_res (finish_event env ev (i, new, regr)
                (d2\<lparr>events := events d2 @ [(ev_id ev, event_row_of (tx_now (times env)) ev i)]\<rparr>)) (\<lambda>db.
              Inr (Some (\<lparr>out_event = ev_id ev, out_issue = i, is_new_issue = new, regressed = regr\<rparr>, db))))
        = Inr (Some (out, db'))"
    unfolding ingest_tx_def e_def [symmetric] by (auto simp: result_simps)
  from e obtain q where q: "if cloud env then event_charge (times env) (map_of (events db) (ev_id ev) \<noteq> None) (quota db) = Inr q
      else q = quota db" and d: "d = db\<lparr>quota := q\<rparr>"
    by (auto simp: e_def split: if_splits sum.splits)
  show ?thesis
    using r by (intro that [OF q a [unfolded d] refl])
      (auto simp: Let_def result_simps split: if_splits)
qed

lemma map_of_event_keys:
  "map_of (event_keys db) k = map_option (\<lambda>e. (er_issue e, er_project e)) (map_of (events db) k)"
proof -
  have "map_of (map (\<lambda>(k, e). (k, er_issue e, er_project e)) es) k =
      map_option (\<lambda>e. (er_issue e, er_project e)) (map_of es k)" for es
    by (induction es) auto
  then show ?thesis by (simp add: event_keys_def)
qed

lemma reopens_kept:
  assumes "status_kept i db db'" and "find_issue p fp (issues db) = Some (i, r)" and "\<not> reopens db ev r"
  obtains r' where "find_issue p fp (issues db') = Some (i, r')" and "\<not> reopens db' ev r'"
  using assms unfolding status_kept_def reopens_def by metis

text \<open>C5. Retries are idempotent: once an event was stored, delivering the same event again, at
  any later time and whatever else the environment holds, is accepted with the same issue, is
  reported neither as a new issue nor as a regression, and leaves the database exactly as it
  was.  No other transaction stores an event under the same id meanwhile; on Cloud the
  entitlement must still be in force.\<close>
theorem ingest_retry_idempotent:
  assumes first: "ingest env ev db = (Inr out, db')" and fresh: "map_of (events db) (ev_id ev) = None"
    and alone: "\<forall>k d. map_of (events (race env k d)) (ev_id ev) = map_of (events d) (ev_id ev)"
    and same: "sha256 env' = sha256 env" "hex env' = hex env"
    and paid: "cloud env' \<longrightarrow> event_charge (times env') True (quota db') = Inr (quota db')"
  shows "ingest env' ev db' =
    (Inr \<lparr>out_event = ev_id ev, out_issue = out_issue out, is_new_issue = False, regressed = False\<rparr>, db')"
proof -
  obtain gt ms fpi where g: "group_identity ev = Inr (gt, ms, fpi)"
    using first by (auto simp: ingest_def split: sum.splits)
  define fp where "fp = compute_fingerprint (sha256 env) (hex env) (ev_environment ev) (ev_platform ev) fpi"
  let ?oth = "others_only env (ev_project ev) fp db"
  have oth: "map_of (events ?oth) (ev_id ev) = None"
    using fresh alone by (simp add: others_only_def Let_def)
  have tx: "ingest_tx env ev fp gt ms db = Inr (Some (out, db'))"
    using first oth
    by (auto simp: ingest_def g fp_def [symmetric] Let_def split: sum.splits option.splits ingest_error.splits)
  obtain q i new regr d1 d2 where
    att: "attach_issue env ev fp gt ms (db\<lparr>quota := q\<rparr>) = Inr ((i, new, regr), d1)"
    and d2: "d2 = record_hit i (ev_user_key ev) (update_issue i (\<lambda>r. r\<lparr>is_event_count := Suc (is_event_count r)\<rparr>) d1)"
    and none: "map_of (events d2) (ev_id ev) = None"
    and fin: "finish_event env ev (i, new, regr) (d2\<lparr>events := events d2 @ [(ev_id ev, event_row_of (tx_now (times env)) ev i)]\<rparr>) = Inr db'"
    and out: "out = \<lparr>out_event = ev_id ev, out_issue = i, is_new_issue = new, regressed = regr\<rparr>"
    by (rule ingest_tx_Commit [OF tx])
  let ?d3 = "d2\<lparr>events := events d2 @ [(ev_id ev, event_row_of (tx_now (times env)) ev i)]\<rparr>"
  note bys = finish_event_bystander [OF fin]
  from attach_issue_settled(1) [OF att] alone obtain r1 where
    r1: "find_issue (ev_project ev) fp (issues d1) = Some (i, r1)" "\<not> reopens d1 ev r1" by blast
  have "status_kept i d1 d2"
    unfolding d2 by (rule status_kept_trans [OF status_kept_update record_hit_kept(1)]) simp_all
  moreover have "status_kept i d2 ?d3" by (rule status_kept_refl) simp_all
  ultimately have "status_kept i d1 db'"
    using bys unfolding bystander_def by (blast intro: status_kept_trans)
  then obtain r where r: "find_issue (ev_project ev) fp (issues db') = Some (i, r)" "\<not> reopens db' ev r"
    using r1 by (rule reopens_kept)
  have "map_of (event_keys ?d3) (ev_id ev) = Some (i, ev_project ev)"
    using none by (simp add: map_of_event_keys map_add_def event_row_of_def)
  then obtain e where e: "map_of (events db') (ev_id ev) = Some e" "er_issue e = i" "er_project e = ev_project ev"
  proof -
    have "map_of (event_keys db') (ev_id ev) = Some (i, ev_project ev)"
      using bys \<open>map_of (event_keys ?d3) (ev_id ev) = Some (i, ev_project ev)\<close> by (simp add: bystander_def)
    then show ?thesis using that by (auto simp: map_of_event_keys)
  qed
  have oth': "others_only env' (ev_project ev) fp db' = db'"
    using r(1) by (simp add: others_only_def)
  have "ingest_tx env' ev fp gt ms db' = Inr None"
    using paid r e(1)
    by (auto simp: ingest_tx_def attach_issue_def touch_issue_def reopens_def Let_def record_hit_kept)
  then show ?thesis
    using e out unfolding ingest_def by (simp add: g same fp_def [symmetric] oth' Let_def)
qed

definition empty_db :: "unit db" where
  "empty_db = \<lparr>quota = sample_db, issues = [], events = [], user_hits = [], probes = [], releases = [],
     activity = [], team = \<lparr>tasks = [], task_events = [], outbox = [], audit = [], notifications = []\<rparr>,
     generation_row = Some 1, others = ()\<rparr>"

definition sample_env :: "unit env" where
  "sample_env = \<lparr>cloud = False, times = sample_times, sha256 = (\<lambda>_. []), hex = (\<lambda>_. ''f''),
     uuid_text = show_nat, new_issue = 100, task_ids = (\<lambda>k. (k, k)), guard_task_ids = (\<lambda>k. (k, k)), task_stamp = (\<lambda>_. []),
     note_id = 5, guard_note_id = 6, race = (\<lambda>_ d. d), observe = (\<lambda>_ _ _ _ x. (9, x)),
     cutover = (\<lambda>_ _ _ x. x)\<rparr>"

lemma sample_ingest:
  obtains out db' where "ingest sample_env (sample_error ''boom'') empty_db = (Inr out, db')"
proof -
  have "map_sum id (\<lambda>_. ()) (fst (ingest sample_env (sample_error ''boom'') empty_db)) = Inr ()"
    by (simp add: ingest_def group_identity_def sample_error_def json_access Let_def
        in_app_signature_def function_signature_def collapse_numbers_def is_ascii_digit_def char_val_def
        others_only_def find_issue_def empty_db_def sample_env_def ingest_tx_def attach_issue_def
        record_hit_def update_issue_def finish_event_def notify_def issue_event_def fresh_issue_def
        enqueue_def db_result_def set_app_def event_row_of_def)
  then show ?thesis
    using that by (cases "ingest sample_env (sample_error ''boom'') empty_db"; cases "fst (ingest sample_env (sample_error ''boom'') empty_db)") auto
qed

theorem ingest_retry_idempotent_witness:
  "\<exists>out db'. ingest sample_env (sample_error ''boom'') empty_db = (Inr out, db')
     \<and> ingest sample_env (sample_error ''boom'') db'
       = (Inr \<lparr>out_event = 1, out_issue = out_issue out, is_new_issue = False, regressed = False\<rparr>, db')"
proof -
  obtain out db' where f: "ingest sample_env (sample_error ''boom'') empty_db = (Inr out, db')"
    by (rule sample_ingest)
  have "map_of (events empty_db) (ev_id (sample_error ''boom'')) = None"
    and "\<forall>k d. map_of (events (race sample_env k d)) (ev_id (sample_error ''boom'')) =
      map_of (events d) (ev_id (sample_error ''boom''))"
    and "cloud sample_env \<longrightarrow> event_charge (times sample_env) True (quota db') = Inr (quota db')"
    by (simp_all add: empty_db_def sample_env_def)
  from ingest_retry_idempotent [OF f this(1,2) refl refl this(3)] f show ?thesis
    by (auto simp: sample_error_def)
qed

subsection \<open>The importance counters\<close>

definition hits_of :: "uuid \<Rightarrow> ((uuid \<times> string) \<times> nat) list \<Rightarrow> ((uuid \<times> string) \<times> nat) list" where
  "hits_of i hs = filter (\<lambda>((k, _), _). k = i) hs"

text \<open>
  Keys are unique, every event counter is the number of the issue's stored events, the breadth
  is the number of its users and the depth the most hits of one of them.
\<close>
definition counts_ok :: "'x db \<Rightarrow> bool" where
  "counts_ok db \<longleftrightarrow>
     distinct (map fst (tallies db)) \<and> distinct (map (\<lambda>(_, p, fp, _). (p, fp)) (tallies db))
     \<and> distinct (map fst (user_hits db))
     \<and> (\<forall>(i, p, fp, n, u, m) \<in> set (tallies db).
          n = length (filter (\<lambda>(_, j, _). j = i) (event_keys db))
          \<and> u = length (hits_of i (user_hits db))
          \<and> (\<forall>x \<in> set (hits_of i (user_hits db)). snd x \<le> m)
          \<and> (m = 0 \<or> m \<in> snd ` set (hits_of i (user_hits db))))"

text \<open>Nothing refers to an id that is about to be drawn.\<close>
definition unused :: "uuid \<Rightarrow> 'x db \<Rightarrow> bool" where
  "unused i db \<longleftrightarrow> i \<notin> fst ` set (tallies db) \<and> hits_of i (user_hits db) = []
     \<and> filter (\<lambda>(_, j, _). j = i) (event_keys db) = []"

lemma counts_ok_cong:
  "tallies db' = tallies db \<Longrightarrow> event_keys db' = event_keys db \<Longrightarrow> user_hits db' = user_hits db \<Longrightarrow>
   counts_ok db' = counts_ok db"
  by (simp add: counts_ok_def)

lemma find_issue_tallies:
  "find_issue p fp (issues db) = Some (i, r) \<Longrightarrow>
   (i, p, fp, is_event_count r, is_users_count r, is_max_per_user r) \<in> set (tallies db)"
  unfolding find_issue_def tallies_def by (force simp: find_Some_iff set_conv_nth)

lemma find_issue_None_tallies:
  "find_issue p fp (issues db) = None \<Longrightarrow> (i, p, fp, x) \<notin> set (tallies db)"
  unfolding find_issue_def tallies_def by (auto simp: find_None_iff)

lemma counts_ok_insert:
  assumes "counts_ok db" and "unused i db" and "find_issue p fp (issues db) = None"
    and "is_project r = p" "is_fingerprint r = fp" "is_event_count r = 0" "is_users_count r = 0"
      "is_max_per_user r = 0"
  shows "counts_ok (db\<lparr>issues := issues db @ [(i, r)]\<rparr>)"
proof -
  have t: "tallies (db\<lparr>issues := issues db @ [(i, r)]\<rparr>) = tallies db @ [(i, p, fp, 0, 0, 0)]"
    using assms(4-8) by (simp add: tallies_def)
  have e: "event_keys (db\<lparr>issues := issues db @ [(i, r)]\<rparr>) = event_keys db" by (simp add: event_keys_def)
  have "(p, fp) \<notin> (\<lambda>(_, p, fp, _). (p, fp)) ` set (tallies db)"
    using find_issue_None_tallies [OF assms(3)] by auto
  then show ?thesis
    using assms(1,2) unfolding counts_ok_def t e unused_def by auto
qed

lemma hits_of_update_other:
  "k \<noteq> i \<Longrightarrow> hits_of k (AList.update (i, u) n hs) = hits_of k hs"
  unfolding hits_of_def by (induction hs) auto

lemma set_update_distinct:
  "distinct (map fst hs) \<Longrightarrow> set (AList.update k v hs) = insert (k, v) {x \<in> set hs. fst x \<noteq> k}"
proof (induction hs)
  case (Cons h hs)
  obtain a b where h: "h = (a, b)" by (cases h)
  show ?case
  proof (cases "a = k")
    case True
    with Cons.prems h show ?thesis by (auto simp: image_iff)
  next
    case False
    with Cons h show ?thesis by auto
  qed
qed simp

lemma hits_of_update_same:
  assumes "distinct (map fst hs)"
  shows "set (hits_of i (AList.update (i, u) n hs)) =
      insert ((i, u), n) {x \<in> set (hits_of i hs). fst x \<noteq> (i, u)}"
  unfolding hits_of_def by (auto simp: set_update_distinct [OF assms])

text \<open>Counting one more event and its user's hit.\<close>
lemma counts_ok_bump:
  assumes ok: "counts_ok db" and new: "map_of (events db) (ev_id ev) = None"
    and d: "d = record_hit i (ev_user_key ev) (update_issue i (\<lambda>r. r\<lparr>is_event_count := Suc (is_event_count r)\<rparr>) db)"
  shows "counts_ok (d\<lparr>events := events d @ [(ev_id ev, event_row_of now ev i)]\<rparr>)"
proof -
  let ?d = "d\<lparr>events := events d @ [(ev_id ev, event_row_of now ev i)]\<rparr>"
  have keys: "event_keys ?d = event_keys db @ [(ev_id ev, i, ev_project ev)]"
    unfolding d by (simp add: event_keys_def record_hit_kept event_row_of_def)
  have inc: "tallies (update_issue i (\<lambda>r. r\<lparr>is_event_count := Suc (is_event_count r)\<rparr>) db) =
      map (\<lambda>(k, p, fp, n, u, m). (k, p, fp, if k = i then Suc n else n, u, m)) (tallies db)"
    by (auto simp: tallies_def update_issue_map)
  show ?thesis
  proof (cases "ev_user_key ev")
    case None
    then have tal: "tallies ?d = map (\<lambda>(k, p, fp, n, u, m). (k, p, fp, if k = i then Suc n else n, u, m)) (tallies db)"
      and hits: "user_hits ?d = user_hits db"
      using inc unfolding d by (simp_all add: record_hit_def tallies_def)
    have f1: "map fst (tallies ?d) = map fst (tallies db)"
      and f2: "map (\<lambda>(_, p, fp, _). (p, fp)) (tallies ?d) = map (\<lambda>(_, p, fp, _). (p, fp)) (tallies db)"
      unfolding tal by auto
    have each: "c = length (filter (\<lambda>(_, j, _). j = k) (event_keys ?d)) \<and> u = length (hits_of k (user_hits db))
        \<and> (\<forall>y \<in> set (hits_of k (user_hits db)). snd y \<le> m)
        \<and> (m = 0 \<or> m \<in> snd ` set (hits_of k (user_hits db)))"
      if mem: "(k, p, fp, c, u, m) \<in> set (tallies ?d)" for k p fp c u m
    proof -
      from mem obtain c0 where t0: "(k, p, fp, c0, u, m) \<in> set (tallies db)"
        and v: "c = (if k = i then Suc c0 else c0)"
        unfolding tal by (auto split: if_splits)
      from ok t0 have "c0 = length (filter (\<lambda>(_, j, _). j = k) (event_keys db))"
          "u = length (hits_of k (user_hits db))" "\<forall>y \<in> set (hits_of k (user_hits db)). snd y \<le> m"
          "m = 0 \<or> m \<in> snd ` set (hits_of k (user_hits db))"
        unfolding counts_ok_def by fastforce+
      with v show ?thesis unfolding keys by auto
    qed
    show ?thesis
      using ok each unfolding counts_ok_def hits f1 f2 by blast
  next
    case (Some x)
    define n where "n = Suc (unwrap_or 0 (map_of (user_hits db) (i, x)))"
    define hs where "hs = AList.update (i, x) n (user_hits db)"
    have hits: "user_hits ?d = hs"
      using Some unfolding d by (simp add: record_hit_Some Let_def hs_def n_def)
    have tal: "tallies ?d = map (\<lambda>(k, p, fp, c, u, m). if k = i then (k, p, fp, Suc c, length (hits_of i hs), max m n)
        else (k, p, fp, c, u, m)) (tallies db)"
      using Some inc unfolding d
      by (auto simp: record_hit_Some Let_def hs_def n_def tallies_def update_issue_map hits_of_def)
    have dist: "distinct (map fst (user_hits db))" using ok by (simp add: counts_ok_def)
    have set_hs: "set (hits_of i hs) = insert ((i, x), n) {y \<in> set (hits_of i (user_hits db)). fst y \<noteq> (i, x)}"
      unfolding hs_def by (rule hits_of_update_same [OF dist])
    have old: "((i, x), k) \<in> set (hits_of i (user_hits db)) \<Longrightarrow> k < n" for k
      using dist by (auto simp: hits_of_def n_def)
    have depth: "(\<forall>y \<in> set (hits_of i hs). snd y \<le> max m n) \<and> max m n \<in> snd ` set (hits_of i hs)"
      if "\<forall>y \<in> set (hits_of i (user_hits db)). snd y \<le> m" "m = 0 \<or> m \<in> snd ` set (hits_of i (user_hits db))" for m
    proof
      show "\<forall>y \<in> set (hits_of i hs). snd y \<le> max m n"
        using that(1) by (auto simp: set_hs le_max_iff_disj)
      show "max m n \<in> snd ` set (hits_of i hs)"
      proof (cases "m \<le> n")
        case True
        then show ?thesis by (auto simp: set_hs max_def image_iff)
      next
        case False
        with that(2) obtain y where y: "y \<in> set (hits_of i (user_hits db))" "snd y = m" by auto
        have "fst y \<noteq> (i, x)" using old [of m] y False by (cases y) auto
        with y False show ?thesis by (force simp: set_hs max_def)
      qed
    qed
    have other: "k \<noteq> i \<Longrightarrow> hits_of k hs = hits_of k (user_hits db)" for k
      unfolding hs_def by (rule hits_of_update_other)
    have d1: "distinct (map fst hs)" unfolding hs_def by (rule distinct_update [OF dist])
    have f1: "map fst (tallies ?d) = map fst (tallies db)"
      and f2: "map (\<lambda>(_, p, fp, _). (p, fp)) (tallies ?d) = map (\<lambda>(_, p, fp, _). (p, fp)) (tallies db)"
      unfolding tal by auto
    have each: "c = length (filter (\<lambda>(_, j, _). j = k) (event_keys ?d)) \<and> u = length (hits_of k hs)
        \<and> (\<forall>y \<in> set (hits_of k hs). snd y \<le> m) \<and> (m = 0 \<or> m \<in> snd ` set (hits_of k hs))"
      if mem: "(k, p, fp, c, u, m) \<in> set (tallies ?d)" for k p fp c u m
    proof -
      from mem obtain c0 u0 m0 where t0: "(k, p, fp, c0, u0, m0) \<in> set (tallies db)"
        and v: "(c, u, m) = (if k = i then (Suc c0, length (hits_of i hs), max m0 n) else (c0, u0, m0))"
        unfolding tal by (auto split: if_splits)
      from ok t0 have o: "c0 = length (filter (\<lambda>(_, j, _). j = k) (event_keys db))"
          "u0 = length (hits_of k (user_hits db))" "\<forall>y \<in> set (hits_of k (user_hits db)). snd y \<le> m0"
          "m0 = 0 \<or> m0 \<in> snd ` set (hits_of k (user_hits db))"
        unfolding counts_ok_def by fastforce+
      show ?thesis
        using v o depth other unfolding keys by (auto split: if_splits)
    qed
    show ?thesis
      using ok d1 each unfolding counts_ok_def hits f1 f2 by blast
  qed
qed

text \<open>What the counters need of the other transactions and of the ids drawn.\<close>
definition sound_state :: "'x env \<Rightarrow> 'x db \<Rightarrow> bool" where
  "sound_state env db \<longleftrightarrow> counts_ok db \<and> unused (new_issue env) db"

lemma sound_state_quota [simp]: "sound_state env (db\<lparr>quota := q\<rparr>) = sound_state env db"
  by (simp add: sound_state_def counts_ok_def unused_def tallies_def event_keys_def)

lemma touch_issue_counts:
  assumes "touch_issue env ev row db = Inr (meta, db')"
  shows "counts_ok db' = counts_ok db"
proof -
  obtain i r where row: "row = (i, r)" by (cases row)
  note t = touch_issue_result [OF assms [unfolded row]]
  have "tallies db' = tallies (update_issue i
      (if reopens db ev r then reopened (tx_now (times env)) ev else refreshed ev) db)"
    using t(6) by (simp add: tallies_def)
  also have "\<dots> = tallies db" by (rule tallies_update) simp_all
  finally show ?thesis by (rule counts_ok_cong) (simp_all add: event_keys_def t)
qed

lemma attach_issue_counts:
  assumes "attach_issue env ev fp gt ms db = Inr (meta, db')" and "sound_state env db"
    and "\<And>k d. sound_state env d \<Longrightarrow> sound_state env (race env k d)"
  shows "counts_ok db'"
proof (cases "find_issue (ev_project ev) fp (issues db)")
  case (Some row)
  with assms(1,2) touch_issue_counts [of env ev row db meta db'] show ?thesis
    by (simp add: attach_issue_def sound_state_def)
next
  case None
  let ?d = "race env 0 db"
  have s: "sound_state env ?d" "sound_state env (race env 1 ?d)" using assms(2,3) by blast+
  show ?thesis
  proof (cases "find_issue (ev_project ev) fp (issues ?d)")
    case None
    with \<open>find_issue (ev_project ev) fp (issues db) = None\<close> assms(1)
    have "db' = ?d\<lparr>issues := issues ?d @ [(new_issue env, fresh_issue ev fp gt ms)]\<rparr>"
      by (auto simp: attach_issue_def Let_def)
    with counts_ok_insert [OF _ _ None] s(1) show ?thesis
      by (simp add: sound_state_def fresh_issue_def)
  next
    case (Some row)
    with \<open>find_issue (ev_project ev) fp (issues db) = None\<close> assms(1)
    obtain row' where "touch_issue env ev row' (race env 1 ?d) = Inr (meta, db')"
      by (auto simp: attach_issue_def Let_def split: option.splits)
    with touch_issue_counts [of env ev row' "race env 1 ?d" meta db'] s(2) show ?thesis
      by (simp add: sound_state_def)
  qed
qed

lemma ingest_counts:
  assumes "sound_state env db" and "\<forall>k d. sound_state env d \<longrightarrow> sound_state env (race env k d)"
    and "ingest env ev db = (res, db')"
  shows "counts_ok db'"
proof -
  have oth: "counts_ok (others_only env p fp db)" for p fp
    using assms(1,2) by (simp add: others_only_def Let_def sound_state_def)
  have ok: "counts_ok db" using assms(1) by (simp add: sound_state_def)
  have commit: "counts_ok d'" if tx: "ingest_tx env ev fp gt ms db = Inr (Some (out, d'))" for fp gt ms out d'
    using tx
  proof (rule ingest_tx_Commit)
    fix q i new regr d1 d2
    assume att: "attach_issue env ev fp gt ms (db\<lparr>quota := q\<rparr>) = Inr ((i, new, regr), d1)"
      and d2: "d2 = record_hit i (ev_user_key ev) (update_issue i (\<lambda>r. r\<lparr>is_event_count := Suc (is_event_count r)\<rparr>) d1)"
      and none: "map_of (events d2) (ev_id ev) = None"
      and fin: "finish_event env ev (i, new, regr) (d2\<lparr>events := events d2 @ [(ev_id ev, event_row_of (tx_now (times env)) ev i)]\<rparr>) = Inr d'"
    have "counts_ok d1"
      by (rule attach_issue_counts [OF att]) (use assms(1,2) in simp_all)
    moreover have "map_of (events d1) (ev_id ev) = None"
      using none unfolding d2 by (simp add: record_hit_kept)
    ultimately have "counts_ok (d2\<lparr>events := events d2 @ [(ev_id ev, event_row_of (tx_now (times env)) ev i)]\<rparr>)"
      using d2 by (rule counts_ok_bump)
    with finish_event_bystander [OF fin] show "counts_ok d'"
      using counts_ok_cong unfolding bystander_def by blast
  qed
  from assms(3) show ?thesis
    using oth ok commit
    by (auto simp: ingest_def Let_def split: sum.splits prod.splits option.splits ingest_error.splits if_splits)
qed



subsection \<open>Resolved issues\<close>

text \<open>C6. Regression detection follows the release, not the clock: when a resolved issue's event is
  stored and both its release and the release the fix is anchored to are registered, the issue
  reopens and the outcome says so if the event's release was registered no earlier, and stays
  resolved if it was registered earlier, however late the event occurred; a stale build's long
  tail never reopens a fix.\<close>
theorem regression_follows_release:
  assumes "ingest env ev db = (Inr out, db')" and "group_identity ev = Inr (gt, ms, fpi)"
    and "find_issue (ev_project ev) (compute_fingerprint (sha256 env) (hex env) (ev_environment ev)
        (ev_platform ev) fpi) (issues db) = Some (i, r)"
    and "map_of (events db) (ev_id ev) = None"
    and "is_status r = ''resolved''" and "is_resolved_in r = Some rel" and "ev_release ev \<noteq> []"
    and "release_at (releases db) (ev_project ev) (ev_release ev) = Some t"
    and "release_at (releases db) (ev_project ev) rel = Some t0"
  shows "out_issue out = i \<and> \<not> is_new_issue out \<and> (regressed out \<longleftrightarrow> t0 \<le> t)
    \<and> (\<exists>r'. find_issue (ev_project ev) (compute_fingerprint (sha256 env) (hex env) (ev_environment ev)
        (ev_platform ev) fpi) (issues db') = Some (i, r')
        \<and> is_status r' = (if t0 \<le> t then ''open'' else ''resolved''))"
proof -
  define fp where "fp = compute_fingerprint (sha256 env) (hex env) (ev_environment ev) (ev_platform ev) fpi"
  note found = assms(3) [folded fp_def]
  have oth: "others_only env (ev_project ev) fp db = db" using found by (simp add: others_only_def)
  have tx: "ingest_tx env ev fp gt ms db = Inr (Some (out, db'))"
    using assms(1,2,4) oth
    by (auto simp: ingest_def fp_def [symmetric] Let_def split: sum.splits option.splits ingest_error.splits)
  from tx show ?thesis
    unfolding fp_def [symmetric]
  proof (rule ingest_tx_Commit)
    fix q j new regr d1 d2
    assume att: "attach_issue env ev fp gt ms (db\<lparr>quota := q\<rparr>) = Inr ((j, new, regr), d1)"
      and d2: "d2 = record_hit j (ev_user_key ev) (update_issue j (\<lambda>r. r\<lparr>is_event_count := Suc (is_event_count r)\<rparr>) d1)"
      and fin: "finish_event env ev (j, new, regr) (d2\<lparr>events := events d2 @ [(ev_id ev, event_row_of (tx_now (times env)) ev j)]\<rparr>) = Inr db'"
      and out: "out = \<lparr>out_event = ev_id ev, out_issue = j, is_new_issue = new, regressed = regr\<rparr>"
    have t: "touch_issue env ev (i, r) (db\<lparr>quota := q\<rparr>) = Inr ((j, new, regr), d1)"
      using att found by (simp add: attach_issue_def)
    have re: "reopens (db\<lparr>quota := q\<rparr>) ev r \<longleftrightarrow> t0 \<le> t"
      using assms(5-9) by (simp add: reopens_def is_regression_def)
    have m: "j = i" "\<not> new" "regr \<longleftrightarrow> t0 \<le> t"
      using touch_issue_result(1) [OF t] re by auto
    from found have "find_issue (ev_project ev) fp (issues (db\<lparr>quota := q\<rparr>)) = Some (i, r)" by simp
    from touch_issue_found(3) [OF t this] re assms(5) obtain r1 where
      r1: "find_issue (ev_project ev) fp (issues d1) = Some (i, r1)"
        "is_status r1 = (if t0 \<le> t then ''open'' else ''resolved'')" by auto
    have "status_kept i d1 d2"
      unfolding d2 m(1) by (rule status_kept_trans [OF status_kept_update record_hit_kept(1)]) simp_all
    moreover have "status_kept i d2 (d2\<lparr>events := events d2 @ [(ev_id ev, event_row_of (tx_now (times env)) ev j)]\<rparr>)"
      by (rule status_kept_refl) simp_all
    ultimately have "status_kept i d1 db'"
      using finish_event_bystander [OF fin] unfolding bystander_def m(1) by (blast intro: status_kept_trans)
    with r1 obtain r' where "find_issue (ev_project ev) fp (issues db') = Some (i, r')"
      "is_status r' = is_status r1" unfolding status_kept_def by blast
    with r1(2) m out show "out_issue out = i \<and> \<not> is_new_issue out \<and> (regressed out \<longleftrightarrow> t0 \<le> t)
      \<and> (\<exists>r'. find_issue (ev_project ev) fp (issues db') = Some (i, r')
        \<and> is_status r' = (if t0 \<le> t then ''open'' else ''resolved''))" by auto
  qed
qed

definition resolved_issue :: issue where
  "resolved_issue = (fresh_issue (sample_error ''boom'') ''f'' ''Error'' ''boom'')
     \<lparr>is_status := ''resolved'', is_resolved_in := Some ''t@2'', is_resolved_at := Some 1\<rparr>"

definition resolved_db :: "unit db" where
  "resolved_db = empty_db\<lparr>issues := [(42, resolved_issue)],
     releases := [((7, ''t@1''), 10), ((7, ''t@2''), 20)]\<rparr>"

theorem regression_follows_release_witness:
  "\<exists>out db'. ingest sample_env (sample_error ''boom'') resolved_db = (Inr out, db')
     \<and> out_issue out = 42 \<and> \<not> regressed out"
proof -
  have g: "group_identity (sample_error ''boom'') = Inr (''Error'', ''boom'', ''error'' @ sep @ ''Error'' @ sep @ ''boom'')"
    by (simp add: group_identity_def sample_error_def json_access collapse_numbers_def
        is_ascii_digit_def char_val_def Let_def in_app_signature_def function_signature_def)
  have f: "find_issue (ev_project (sample_error ''boom'')) (compute_fingerprint (sha256 sample_env) (hex sample_env)
      (ev_environment (sample_error ''boom'')) (ev_platform (sample_error ''boom'')) x) (issues resolved_db)
      = Some (42, resolved_issue)" for x
    by (simp add: find_issue_def resolved_db_def resolved_issue_def fresh_issue_def
        sample_error_def sample_env_def compute_fingerprint_def)
  have n: "map_of (events resolved_db) (ev_id (sample_error ''boom'')) = None"
    by (simp add: resolved_db_def empty_db_def)
  have r: "is_status resolved_issue = ''resolved''" "is_resolved_in resolved_issue = Some ''t@2''"
    "ev_release (sample_error ''boom'') \<noteq> []"
    "release_at (releases resolved_db) (ev_project (sample_error ''boom'')) (ev_release (sample_error ''boom'')) = Some 10"
    "release_at (releases resolved_db) (ev_project (sample_error ''boom'')) ''t@2'' = Some 20"
    by (simp_all add: resolved_issue_def resolved_db_def sample_error_def release_at_def)
  obtain out db' where i: "ingest sample_env (sample_error ''boom'') resolved_db = (Inr out, db')"
  proof -
    have "map_sum id (\<lambda>_. ()) (fst (ingest sample_env (sample_error ''boom'') resolved_db)) = Inr ()"
      using g f n by (simp add: ingest_def Let_def others_only_def ingest_tx_def attach_issue_def
          touch_issue_def r is_regression_def finish_event_def sample_env_def record_hit_kept)
        (simp add: sample_error_def)
    then show ?thesis
      using that by (cases "ingest sample_env (sample_error ''boom'') resolved_db";
        cases "fst (ingest sample_env (sample_error ''boom'') resolved_db)") auto
  qed
  from regression_follows_release [OF i g f n r] i show ?thesis by auto
qed

text \<open>
  Reopening sets \<open>last_seen\<close> to the time of the event, which may lie before what it was: only
  the other branch keeps the greater of the two.
\<close>
lemma reopening_can_move_last_seen_back:
  "is_last_seen (reopened now ev r) = ev_occurred_at ev"
  "is_last_seen r \<le> is_last_seen (refreshed ev r)"
  by (simp_all add: reopened_def refreshed_def)

subsection \<open>Assert totals\<close>

record assert_stat =
  as_name :: string
  as_release :: string
  pass_delta :: int
  fail_delta :: int

record assert_row =
  pass_count :: int
  fail_count :: int
  last_pass_at :: "instant option"
  last_fail_at :: "instant option"

type_synonym assert_table = "((uuid \<times> string \<times> string) \<times> assert_row) list"

definition record_assert_stat :: "instant \<Rightarrow> uuid \<Rightarrow> assert_stat \<Rightarrow> assert_table \<Rightarrow> assert_table" where
  "record_assert_stat now project s tab =
     (let key = (project, as_name s, as_release s); p = max (pass_delta s) 0; f = max (fail_delta s) 0;
          row = (case map_of tab key of
              None \<Rightarrow> \<lparr>pass_count = p, fail_count = f, last_pass_at = (if 0 < p then Some now else None),
                last_fail_at = (if 0 < f then Some now else None)\<rparr>
            | Some r \<Rightarrow> \<lparr>pass_count = pass_count r + p, fail_count = fail_count r + f,
                last_pass_at = (if 0 < p then Some now else last_pass_at r),
                last_fail_at = (if 0 < f then Some now else last_fail_at r)\<rparr>)
      in AList.update key row tab)"

definition record_assert_stats :: "instant \<Rightarrow> uuid \<Rightarrow> assert_stat list \<Rightarrow> assert_table \<Rightarrow> assert_table" where
  "record_assert_stats now project stats tab = fold (record_assert_stat now project) stats tab"

text \<open>Totals add up over a batch, and a negative delta counts for nothing.\<close>
lemma record_assert_stats_total:
  "(case map_of (record_assert_stats now project stats tab) (project, n, rel) of
      None \<Rightarrow> 0 | Some r \<Rightarrow> pass_count r) =
   (case map_of tab (project, n, rel) of None \<Rightarrow> 0 | Some r \<Rightarrow> pass_count r)
     + (\<Sum>s \<leftarrow> filter (\<lambda>s. as_name s = n \<and> as_release s = rel) stats. max (pass_delta s) 0)"
proof (induction stats arbitrary: tab)
  case Nil
  show ?case by (simp add: record_assert_stats_def)
next
  case (Cons s stats)
  have "record_assert_stats now project (s # stats) tab =
      record_assert_stats now project stats (record_assert_stat now project s tab)"
    by (simp add: record_assert_stats_def)
  moreover have "(case map_of (record_assert_stat now project s tab) (project, n, rel) of
      None \<Rightarrow> 0 | Some r \<Rightarrow> pass_count r) =
    (case map_of tab (project, n, rel) of None \<Rightarrow> 0 | Some r \<Rightarrow> pass_count r)
     + (if as_name s = n \<and> as_release s = rel then max (pass_delta s) 0 else 0)"
    by (auto simp: record_assert_stat_def Let_def update_conv' split: option.splits)
  ultimately show ?case using Cons.IH by simp
qed

text \<open>An id that nothing refers to stays so, unless the ingest draws it for a new issue.\<close>
lemma tallies_fst: "fst ` set (tallies db) = fst ` set (issues db)"
  by (force simp: tallies_def)

lemma find_issue_fst: "find_issue p fp (issues db) = Some (i, r) \<Longrightarrow> i \<in> fst ` set (tallies db)"
  using find_issue_tallies by force

lemma touch_issue_unused:
  assumes "touch_issue env ev row db = Inr (meta, db')" and "unused j db"
  shows "fst meta = fst row" and "unused j db'"
proof -
  obtain i r where row: "row = (i, r)" by (cases row)
  note t = touch_issue_result [OF assms(1) [unfolded row]]
  show "fst meta = fst row" using t row by (cases meta) auto
  have "tallies db' = tallies (update_issue i
      (if reopens db ev r then reopened (tx_now (times env)) ev else refreshed ev) db)"
    using t(6) by (simp add: tallies_def)
  also have "\<dots> = tallies db" by (rule tallies_update) simp_all
  finally show "unused j db'" using assms(2) by (simp add: unused_def event_keys_def t)
qed

lemma attach_issue_unused:
  assumes "attach_issue env ev fp gt ms db = Inr ((i, new, regr), db')" and "unused j db" and "j \<noteq> new_issue env"
    and "\<And>k d. unused j d \<Longrightarrow> unused j (race env k d)"
  shows "i \<noteq> j \<and> unused j db'"
proof -
  have touched: "i \<noteq> j \<and> unused j db'"
    if "touch_issue env ev (a, r) d = Inr ((i, new, regr), db')"
      "find_issue (ev_project ev) fp (issues d) = Some (a, r)" "unused j d" for a r d
    using touch_issue_unused [OF that(1,3)] find_issue_fst [OF that(2)] that(3) by (auto simp: unused_def)
  show ?thesis
  proof (cases "find_issue (ev_project ev) fp (issues db)")
    case (Some row)
    with assms(1,2) touched [of "fst row" "snd row" db] show ?thesis by (simp add: attach_issue_def)
  next
    case None
    let ?d = "race env 0 db"
    have u: "unused j ?d" "unused j (race env 1 ?d)" using assms(2,4) by blast+
    show ?thesis
    proof (cases "find_issue (ev_project ev) fp (issues ?d)")
      case None
      with \<open>find_issue (ev_project ev) fp (issues db) = None\<close> assms(1)
      have "db' = ?d\<lparr>issues := issues ?d @ [(i, fresh_issue ev fp gt ms)]\<rparr>" and "i = new_issue env"
        by (auto simp: attach_issue_def Let_def)
      with u(1) assms(3) show ?thesis by (auto simp: unused_def tallies_def event_keys_def)
    next
      case (Some row)
      with \<open>find_issue (ev_project ev) fp (issues db) = None\<close> assms(1)
      obtain row' where "find_issue (ev_project ev) fp (issues (race env 1 ?d)) = Some row'"
        and "touch_issue env ev row' (race env 1 ?d) = Inr ((i, new, regr), db')"
        by (auto simp: attach_issue_def Let_def split: option.splits)
      with touched [of "fst row'" "snd row'" "race env 1 ?d"] u(2) show ?thesis by simp
    qed
  qed
qed

lemma record_hit_unused:
  assumes "unused j db" and "i \<noteq> j"
  shows "unused j (record_hit i u (update_issue i (\<lambda>r. r\<lparr>is_event_count := Suc (is_event_count r)\<rparr>) db))"
proof -
  have upd: "unused j (update_issue i f d)" if "unused j d" for f and d :: "'a db"
  proof -
    have "fst ` set (tallies (update_issue i f d)) = fst ` set (tallies d)"
      unfolding tallies_fst by (force simp: update_issue_map)
    with that show ?thesis by (simp add: unused_def event_keys_def)
  qed
  show ?thesis
  proof (cases u)
    case None
    then show ?thesis using upd assms(1) by (simp add: record_hit_def)
  next
    case (Some x)
    have "unused j (d\<lparr>user_hits := AList.update (i, x) n (user_hits d)\<rparr>)" if "unused j d" for d :: "'a db" and n
      using that assms(2) hits_of_update_other [of j i x n] by (simp add: unused_def tallies_def event_keys_def)
    then show ?thesis unfolding Some record_hit_Some Let_def by (intro upd) (use upd assms(1) in blast)
  qed
qed

lemma ingest_unused:
  assumes "unused j db" and "j \<noteq> new_issue env" and "\<And>k d. unused j d \<Longrightarrow> unused j (race env k d)"
    and "ingest env ev db = (res, db')"
  shows "unused j db'"
proof -
  have oth: "unused j (others_only env p fp db)" for p fp
    using assms(1,3) by (simp add: others_only_def Let_def)
  have commit: "unused j d'" if tx: "ingest_tx env ev fp gt ms db = Inr (Some (out, d'))" for fp gt ms out d'
    using tx
  proof (rule ingest_tx_Commit)
    fix q i new regr d1 d2
    assume att: "attach_issue env ev fp gt ms (db\<lparr>quota := q\<rparr>) = Inr ((i, new, regr), d1)"
      and d2: "d2 = record_hit i (ev_user_key ev) (update_issue i (\<lambda>r. r\<lparr>is_event_count := Suc (is_event_count r)\<rparr>) d1)"
      and fin: "finish_event env ev (i, new, regr) (d2\<lparr>events := events d2 @ [(ev_id ev, event_row_of (tx_now (times env)) ev i)]\<rparr>) = Inr d'"
    have "unused j (db\<lparr>quota := q\<rparr>)" using assms(1) by (simp add: unused_def tallies_def event_keys_def)
    from attach_issue_unused [OF att this assms(2,3)] have i: "i \<noteq> j" and "unused j d1" by blast+
    then have "unused j d2" unfolding d2 by (intro record_hit_unused)
    then have "unused j (d2\<lparr>events := events d2 @ [(ev_id ev, event_row_of (tx_now (times env)) ev i)]\<rparr>)"
      using i by (simp add: unused_def tallies_def event_keys_def event_row_of_def)
    with finish_event_bystander [OF fin] show "unused j d'" by (simp add: bystander_def unused_def)
  qed
  from assms(4) show ?thesis
    using oth commit assms(1)
    by (auto simp: ingest_def Let_def split: sum.splits prod.splits option.splits ingest_error.splits if_splits)
qed

text \<open>An accepted event is in the table, under its own project.\<close>
lemma ingest_stored:
  assumes "ingest env ev db = (Inr out, db')"
  shows "out_event out = ev_id ev \<and> (\<exists>e. map_of (events db') (ev_id ev) = Some e \<and> er_project e = ev_project ev)"
proof -
  have commit: "out_event out = ev_id ev \<and> (\<exists>e. map_of (events d') (ev_id ev) = Some e \<and> er_project e = ev_project ev)"
    if tx: "ingest_tx env ev fp gt ms db = Inr (Some (out, d'))" for fp gt ms d'
    using tx
  proof (rule ingest_tx_Commit)
    fix q i new regr d1 d2
    assume none: "map_of (events d2) (ev_id ev) = None"
      and fin: "finish_event env ev (i, new, regr) (d2\<lparr>events := events d2 @ [(ev_id ev, event_row_of (tx_now (times env)) ev i)]\<rparr>) = Inr d'"
      and out: "out = \<lparr>out_event = ev_id ev, out_issue = i, is_new_issue = new, regressed = regr\<rparr>"
    let ?d = "d2\<lparr>events := events d2 @ [(ev_id ev, event_row_of (tx_now (times env)) ev i)]\<rparr>"
    have "map_of (event_keys ?d) (ev_id ev) = Some (i, ev_project ev)"
      using none by (simp add: map_of_event_keys map_add_def event_row_of_def)
    with finish_event_bystander [OF fin] have "map_of (event_keys d') (ev_id ev) = Some (i, ev_project ev)"
      by (simp add: bystander_def)
    then show ?thesis using out by (auto simp: map_of_event_keys)
  qed
  from assms show ?thesis
    using commit
    by (auto simp: ingest_def Let_def split: sum.splits prod.splits option.splits ingest_error.splits if_splits)
qed

end
