(* ===== verification/PublicHttp.thy ===== *)
theory PublicHttp
  imports Prelude
begin

text \<open>
  Outbound HTTP to addresses a user chose, \<^verbatim>\<open>self-hosted/server/src/public_http.rs\<close>: which IP
  addresses count as public, which URLs are accepted, the client pinned to the resolved
  addresses, the monitor's probe with its redirects and the single write of an integration.
  The URL crate, the resolver and the HTTP client are parameters (records of functions); parsing
  an address literal is the standard library's and is defined here.  Both entry points return,
  beside their result, the requests they made.
\<close>

subsection \<open>Addresses\<close>

datatype ip_addr =
    V4 byte byte byte byte
  | V6 "16 word" "16 word" "16 word" "16 word" "16 word" "16 word" "16 word" "16 word"

fun public_ip :: "ip_addr \<Rightarrow> bool" where
  "public_ip (V4 a b c d) \<longleftrightarrow>
     \<not> ((a = 0 \<or> a = 10 \<or> a = 127)
        \<or> 224 \<le> a
        \<or> (a = 100 \<and> (64 \<le> b \<and> b \<le> 127))
        \<or> (a = 169 \<and> b = 254)
        \<or> (a = 172 \<and> (16 \<le> b \<and> b \<le> 31))
        \<or> (a = 192 \<and> (b = 168 \<or> (b = 0 \<and> (c = 0 \<or> c = 2)) \<or> (b = 88 \<and> c = 99)))
        \<or> (a = 198 \<and> ((b = 18 \<or> b = 19) \<or> (b = 51 \<and> c = 100)))
        \<or> (a = 203 \<and> b = 0 \<and> c = 113))"
| "public_ip (V6 s0 s1 s2 s3 s4 s5 s6 s7) \<longleftrightarrow>
     Bit_Operations.and s0 0xe000 = 0x2000
     \<and> \<not> (s0 = 0x2001 \<and> (s1 < 0x0200 \<or> s1 = 0x0db8))
     \<and> s0 \<noteq> 0x2002
     \<and> \<not> (s0 = 0x3fff \<and> s1 < 0x1000)"

text \<open>The standard library's reader of address literals: a value and the rest of the text.\<close>

definition digit_value :: "nat \<Rightarrow> char \<Rightarrow> nat option" where
  "digit_value radix c =
     (let v = (if is_ascii_digit c then Some (char_val c - 48)
               else if is_ascii_hexdigit c then Some (char_val c mod 32 + 9) else None)
      in case v of Some n \<Rightarrow> if n < radix then Some n else None | None \<Rightarrow> None)"

fun read_digits :: "nat \<Rightarrow> string \<Rightarrow> nat list \<times> string" where
  "read_digits radix [] = ([], [])"
| "read_digits radix (c # s) =
     (case digit_value radix c of
        Some d \<Rightarrow> (let (ds, r) = read_digits radix s in (d # ds, r))
      | None \<Rightarrow> ([], c # s))"

definition read_number :: "nat \<Rightarrow> nat \<Rightarrow> bool \<Rightarrow> nat \<Rightarrow> string \<Rightarrow> (nat \<times> string) option" where
  "read_number radix max_digits allow_zero_prefix bound s =
     (let (ds, r) = read_digits radix s; n = fold (\<lambda>d n. n * radix + d) ds 0 in
      if ds = [] \<or> max_digits < length ds \<or> (\<not> allow_zero_prefix \<and> hd ds = 0 \<and> 1 < length ds)
         \<or> bound < n then None
      else Some (n, r))"

definition read_char :: "char \<Rightarrow> string \<Rightarrow> string option" where
  "read_char c s = (case s of [] \<Rightarrow> None | x # r \<Rightarrow> if x = c then Some r else None)"

text \<open>Every element but the first is preceded by the separator.\<close>
definition read_separated :: "char \<Rightarrow> nat \<Rightarrow> (string \<Rightarrow> ('a \<times> string) option) \<Rightarrow> string \<Rightarrow> ('a \<times> string) option" where
  "read_separated c i p s =
     (if i = 0 then p s else case read_char c s of Some r \<Rightarrow> p r | None \<Rightarrow> None)"

definition read_octet :: "nat \<Rightarrow> string \<Rightarrow> (nat \<times> string) option" where
  "read_octet i s = read_separated (CHR ''.'') i (read_number 10 3 False 255) s"

definition read_ipv4 :: "string \<Rightarrow> ((nat \<times> nat \<times> nat \<times> nat) \<times> string) option" where
  "read_ipv4 s =
     (case read_octet 0 s of None \<Rightarrow> None | Some (a, s) \<Rightarrow>
     (case read_octet 1 s of None \<Rightarrow> None | Some (b, s) \<Rightarrow>
     (case read_octet 2 s of None \<Rightarrow> None | Some (c, s) \<Rightarrow>
     (case read_octet 3 s of None \<Rightarrow> None | Some (d, s) \<Rightarrow> Some ((a, b, c, d), s)))))"

text \<open>At most \<open>limit\<close> groups from the i-th on, the last two possibly as an IPv4 address.\<close>
fun read_groups :: "nat \<Rightarrow> nat \<Rightarrow> string \<Rightarrow> nat list \<times> bool \<times> string" where
  "read_groups i 0 s = ([], False, s)"
| "read_groups i (Suc left) s =
     (case (if left = 0 then None else read_separated (CHR '':'') i read_ipv4 s) of
        Some ((a, b, c, d), r) \<Rightarrow> ([a * 256 + b, c * 256 + d], True, r)
      | None \<Rightarrow>
          (case read_separated (CHR '':'') i (read_number 16 4 True 65535) s of
             Some (g, r) \<Rightarrow> (let (gs, v4, r) = read_groups (Suc i) left r in (g # gs, v4, r))
           | None \<Rightarrow> ([], False, s)))"

definition v6_of :: "nat list \<Rightarrow> ip_addr" where
  "v6_of gs = V6 (of_nat (gs ! 0)) (of_nat (gs ! 1)) (of_nat (gs ! 2)) (of_nat (gs ! 3))
     (of_nat (gs ! 4)) (of_nat (gs ! 5)) (of_nat (gs ! 6)) (of_nat (gs ! 7))"

definition read_ipv6 :: "string \<Rightarrow> (ip_addr \<times> string) option" where
  "read_ipv6 s =
     (let (head, v4, r) = read_groups 0 8 s in
      if length head = 8 then Some (v6_of head, r)
      else if v4 then None
      else
        (case Option.bind (read_char (CHR '':'') r) (read_char (CHR '':'')) of
           None \<Rightarrow> None
         | Some r \<Rightarrow>
             let (tail, _, r) = read_groups 0 (8 - (length head + 1)) r
             in Some (v6_of (head @ replicate (8 - length head - length tail) 0 @ tail), r)))"

definition parse_ip :: "string \<Rightarrow> ip_addr option" where
  "parse_ip s =
     (case read_ipv4 s of
        Some ((a, b, c, d), r) \<Rightarrow>
          if r = [] then Some (V4 (of_nat a) (of_nat b) (of_nat c) (of_nat d)) else None
      | None \<Rightarrow> (case read_ipv6 s of Some (v, r) \<Rightarrow> if r = [] then Some v else None | None \<Rightarrow> None))"

subsection \<open>URLs\<close>

text \<open>The parts of a parsed URL the code reads, as the URL crate gives them.\<close>
record 'u url_api =
  url_parse :: "string \<Rightarrow> 'u option"
  url_join :: "'u \<Rightarrow> string \<Rightarrow> 'u option"
  url_str :: "'u \<Rightarrow> string"
  scheme :: "'u \<Rightarrow> string"
  username :: "'u \<Rightarrow> string"
  password :: "'u \<Rightarrow> string option"
  fragment :: "'u \<Rightarrow> string option"
  host_str :: "'u \<Rightarrow> string option"
  port_or_default :: "'u \<Rightarrow> nat option"
  url_path :: "'u \<Rightarrow> string"
  url_query :: "'u \<Rightarrow> string option"

definition bare_host :: "string \<Rightarrow> string" where
  "bare_host host = trim_matches [''['', '']''] host"

definition reserved_suffixes :: "string list" where
  "reserved_suffixes = [''localhost'', ''.localhost'', ''.local'', ''.internal'', ''.invalid'', ''.test'']"

definition trim_end_dots :: "string \<Rightarrow> string" where
  "trim_end_dots s = rev (dropWhile (\<lambda>c. c = CHR ''.'') (rev s))"

definition http_parse :: "'u url_api \<Rightarrow> string \<Rightarrow> string + 'u" where
  "http_parse U value =
     (if 2048 < length value then Inl ''invalid_url''
      else bind_res (ok_or ''invalid_url'' (url_parse U value)) (\<lambda>url.
        if scheme U url \<notin> {''http'', ''https''} \<or> username U url \<noteq> [] \<or> password U url \<noteq> None
           \<or> fragment U url \<noteq> None \<or> host_str U url = None
           \<or> port_or_default U url \<notin> {Some 80, Some 443}
        then Inl ''invalid_url''
        else bind_res (ok_or ''invalid_url'' (host_str U url)) (\<lambda>host.
          let host = bare_host host in
          case parse_ip host of
            Some ip \<Rightarrow> if public_ip ip then Inr url else Inl ''non_public_address''
          | None \<Rightarrow>
              if CHR ''.'' \<notin> set host \<or> (\<exists>s \<in> set reserved_suffixes. suffix s (trim_end_dots host))
              then Inl ''non_public_address'' else Inr url)))"

subsection \<open>The pinned client\<close>

text \<open>
  The network as one run of the code meets it: the k-th lookup and the k-th request are given
  their number, so that nothing is assumed to be stable.  A chunk is its bytes; \<open>None\<close> is a
  read that fails.
\<close>
record response =
  status :: nat
  location :: "string option"
  chunks :: "bytes option list"

datatype send_result = Response response | Connect_error | Other_error

record 'u net =
  lookup_host :: "nat \<Rightarrow> string \<Rightarrow> nat \<Rightarrow> ip_addr list option"
  build_client :: "nat \<Rightarrow> bool"
  http_get :: "nat \<Rightarrow> ip_addr list \<Rightarrow> 'u \<Rightarrow> response option"
  http_post :: "ip_addr list \<Rightarrow> 'u \<Rightarrow> (string \<times> string) list \<Rightarrow> bytes \<Rightarrow> send_result"

text \<open>The addresses the client is pinned to stand for the client.\<close>
definition pinned_client :: "'u url_api \<Rightarrow> 'u net \<Rightarrow> nat \<Rightarrow> 'u \<Rightarrow> string + ip_addr list" where
  "pinned_client U N k url =
     bind_res (ok_or ''invalid_url'' (host_str U url)) (\<lambda>host.
     bind_res (ok_or ''invalid_url'' (port_or_default U url)) (\<lambda>port.
     bind_res (ok_or ''dns_failed'' (lookup_host N k (bare_host host) port)) (\<lambda>found.
       let addresses = take 33 found in
       if addresses = [] \<or> 32 < length addresses \<or> \<not> list_all public_ip addresses
       then Inl ''non_public_address''
       else if build_client N k then Inr addresses else Inl ''http_client_failed'')))"

subsection \<open>Probing a monitor\<close>

definition is_redirection :: "response \<Rightarrow> bool" where
  "is_redirection r \<longleftrightarrow> 300 \<le> status r \<and> status r < 400"

fun read_bounded :: "nat \<Rightarrow> bytes option list \<Rightarrow> string + unit" where
  "read_bounded sz [] = Inr ()"
| "read_bounded sz (None # cs) = Inl ''body_failed''"
| "read_bounded sz (Some c # cs) =
     (let sz = sz + length c in
      if 65536 < sz then Inl ''response_too_large'' else read_bounded sz cs)"

text \<open>The hops left, this one included; with the result, the requests made.\<close>
fun probe_hops :: "'u url_api \<Rightarrow> 'u net \<Rightarrow> nat \<Rightarrow> nat \<Rightarrow> 'u \<Rightarrow> (string + nat) \<times> (ip_addr list \<times> 'u) list" where
  "probe_hops U N hop 0 url = (Inl ''too_many_redirects'', [])"
| "probe_hops U N hop (Suc left) url =
     (case pinned_client U N hop url of
        Inl e \<Rightarrow> (Inl e, [])
      | Inr client \<Rightarrow>
          (case http_get N hop client url of
             None \<Rightarrow> (Inl ''request_failed'', [(client, url)])
           | Some response \<Rightarrow>
               if is_redirection response then
                 (if hop = 3 then (Inl ''too_many_redirects'', [(client, url)])
                  else
                    (case bind_res (ok_or ''invalid_redirect'' (location response)) (\<lambda>loc.
                          bind_res (ok_or ''invalid_redirect'' (url_join U url loc)) (\<lambda>j.
                          bind_res (http_parse U (url_str U j)) (\<lambda>next.
                            if scheme U url = ''https'' \<and> scheme U next \<noteq> ''https''
                            then Inl ''insecure_redirect'' else Inr next))) of
                       Inl e \<Rightarrow> (Inl e, [(client, url)])
                     | Inr next \<Rightarrow>
                         (let (res, sent) = probe_hops U N (Suc hop) left next
                          in (res, (client, url) # sent))))
               else
                 (bind_res (read_bounded 0 (chunks response)) (\<lambda>_. Inr (status response)),
                  [(client, url)])))"

text \<open>\<open>expired\<close>: how many requests were out when the deadline passed, if it did.\<close>
definition http_probe ::
  "'u url_api \<Rightarrow> 'u net \<Rightarrow> nat option \<Rightarrow> string \<Rightarrow> (string + nat) \<times> (ip_addr list \<times> 'u) list" where
  "http_probe U N expired value =
     (let (res, sent) = (case http_parse U value of
            Inl e \<Rightarrow> (Inl e, []) | Inr url \<Rightarrow> probe_hops U N 0 4 url)
      in case expired of None \<Rightarrow> (res, sent) | Some n \<Rightarrow> (Inl ''timeout'', take n sent))"

subsection \<open>The write of an integration\<close>

record post_failure =
  code :: string
  may_have_sent :: bool

record post_response =
  post_status :: nat
  post_body :: bytes

definition failed_post :: "string \<Rightarrow> bool \<Rightarrow> post_failure" where
  "failed_post c m = \<lparr>code = c, may_have_sent = m\<rparr>"

fun read_body_of :: "bytes \<Rightarrow> bytes option list \<Rightarrow> post_failure + bytes" where
  "read_body_of body [] = Inr body"
| "read_body_of body (None # cs) = Inl (failed_post ''body_failed'' True)"
| "read_body_of body (Some c # cs) =
     (if 65536 < length body + length c then Inl (failed_post ''response_too_large'' True)
      else read_body_of (body @ c) cs)"

definition is_success :: "response \<Rightarrow> bool" where
  "is_success r \<longleftrightarrow> 200 \<le> status r \<and> status r < 300"

definition post_with_client ::
  "'u net \<Rightarrow> ip_addr list \<Rightarrow> 'u \<Rightarrow> (string \<times> string) list \<Rightarrow> bytes \<Rightarrow> bool
     \<Rightarrow> post_failure + post_response" where
  "post_with_client N client url headers body read_body =
     (case http_post N client url headers body of
        Connect_error \<Rightarrow> Inl (failed_post ''request_failed'' False)
      | Other_error \<Rightarrow> Inl (failed_post ''request_failed'' True)
      | Response r \<Rightarrow>
          if \<not> read_body \<or> \<not> is_success r then Inr \<lparr>post_status = status r, post_body = []\<rparr>
          else bind_res (read_body_of [] (chunks r)) (\<lambda>b. Inr \<lparr>post_status = status r, post_body = b\<rparr>))"

text \<open>
  With the result, the requests that reached a server: a connection that fails reaches none.
  \<open>late\<close> says whether the deadline passed before the result was there, and if so whether the
  request was out by then.
\<close>
definition post ::
  "'u url_api \<Rightarrow> 'u net \<Rightarrow> bool option \<Rightarrow> string \<Rightarrow> (string \<times> string) list \<Rightarrow> bytes \<Rightarrow> bool
     \<Rightarrow> (post_failure + post_response) \<times> (ip_addr list \<times> 'u) list" where
  "post U N late value headers body read_body =
     (let (res, sent) =
        (case http_parse U value of
           Inl e \<Rightarrow> (Inl (failed_post e False), [])
         | Inr url \<Rightarrow>
             (case pinned_client U N 0 url of
                Inl e \<Rightarrow> (Inl (failed_post e False), [])
              | Inr client \<Rightarrow>
                  (post_with_client N client url headers body read_body,
                   if http_post N client url headers body = Connect_error then [] else [(client, url)])))
      in case late of
           None \<Rightarrow> (res, sent)
         | Some out \<Rightarrow> (Inl (failed_post ''timeout'' True), if out then sent else []))"

subsection \<open>The ranges of the registries\<close>

text \<open>An address as a number and a block of a registry as its first address and prefix length.\<close>
definition in_block :: "nat \<Rightarrow> nat \<Rightarrow> nat \<times> nat \<Rightarrow> bool" where
  "in_block width ip b = (case b of (net, len) \<Rightarrow> ip div 2 ^ (width - len) = net div 2 ^ (width - len))"

definition v4_num :: "nat \<Rightarrow> nat \<Rightarrow> nat \<Rightarrow> nat \<Rightarrow> nat" where
  "v4_num a b c d = a * 16777216 + b * 65536 + c * 256 + d"

text \<open>The special-purpose IPv4 blocks, multicast and the reserved space above it.\<close>
definition special_v4 :: "(nat \<times> nat) list" where
  "special_v4 = [(v4_num 0 0 0 0, 8), (v4_num 10 0 0 0, 8), (v4_num 100 64 0 0, 10), (v4_num 127 0 0 0, 8),
     (v4_num 169 254 0 0, 16), (v4_num 172 16 0 0, 12), (v4_num 192 0 0 0, 24), (v4_num 192 0 2 0, 24),
     (v4_num 192 88 99 0, 24), (v4_num 192 168 0 0, 16), (v4_num 198 18 0 0, 15),
     (v4_num 198 51 100 0, 24), (v4_num 203 0 113 0, 24), (v4_num 224 0 0 0, 4), (v4_num 240 0 0 0, 4)]"

text \<open>Of IPv6 only the first two segments matter: the blocks are prefixes of at most 32 bits.\<close>
definition v6_prefix :: "nat \<Rightarrow> nat \<Rightarrow> nat" where
  "v6_prefix s0 s1 = s0 * 65536 + s1"

definition global_v6 :: "nat \<times> nat" where
  "global_v6 = (v6_prefix 0x2000 0, 3)"

definition special_v6 :: "(nat \<times> nat) list" where
  "special_v6 = [(v6_prefix 0x2001 0, 23), (v6_prefix 0x2001 0x0db8, 32), (v6_prefix 0x2002 0, 16),
     (v6_prefix 0x3fff 0, 20)]"

fun registry_public :: "ip_addr \<Rightarrow> bool" where
  "registry_public (V4 a b c d) \<longleftrightarrow>
     \<not> list_ex (in_block 32 (v4_num (unat a) (unat b) (unat c) (unat d))) special_v4"
| "registry_public (V6 s0 s1 s2 s3 s4 s5 s6 s7) \<longleftrightarrow>
     in_block 32 (v6_prefix (unat s0) (unat s1)) global_v6
     \<and> \<not> list_ex (in_block 32 (v6_prefix (unat s0) (unat s1))) special_v6"

lemma v4_num_div:
  assumes "b < 256" and "c < 256" and "d < 256"
  shows "v4_num a b c d div 268435456 = a div 16" "v4_num a b c d div 16777216 = a"
    "v4_num a b c d div 4194304 = a * 4 + b div 64" "v4_num a b c d div 1048576 = a * 16 + b div 16"
    "v4_num a b c d div 131072 = a * 128 + b div 2" "v4_num a b c d div 65536 = a * 256 + b"
    "v4_num a b c d div 256 = a * 65536 + b * 256 + c"
  using assms by (simp_all add: v4_num_def)

lemma v6_prefix_div:
  assumes "s1 < 65536"
  shows "v6_prefix s0 s1 div 536870912 = s0 div 8192" "v6_prefix s0 s1 div 65536 = s0"
    "v6_prefix s0 s1 div 4096 = s0 * 16 + s1 div 4096" "v6_prefix s0 s1 div 512 = s0 * 128 + s1 div 512"
  using assms by (simp_all add: v6_prefix_def)

lemma unat_less_pow: "unat (a :: byte) < 256" "unat (s :: 16 word) < 65536"
  using unsigned_less [of a, where 'a = nat] unsigned_less [of s, where 'a = nat] by simp_all

lemma global_mask: "Bit_Operations.and (s :: 16 word) 0xe000 = 0x2000 \<longleftrightarrow> unat s div 8192 = 1"
proof -
  have m: "(0xe000 :: 16 word) = Bit_Operations.not (mask 13)" by (simp add: mask_eq_exp_minus_1)
  have "Bit_Operations.and s 0xe000 = push_bit 13 (drop_bit 13 s)"
    unfolding m by (rule bit_eqI) (auto simp: bit_simps)
  moreover have "unat (push_bit 13 (drop_bit 13 s)) = 8192 * (unat s div 8192)"
    using unat_less_pow(2) [of s]
    by (simp only: unsigned_push_bit_eq unsigned_drop_bit_eq)
      (simp add: push_bit_eq_mult drop_bit_eq_div take_bit_eq_mod mult.commute)
  ultimately have u: "unat (Bit_Operations.and s 0xe000) = 8192 * (unat s div 8192)" by simp
  show ?thesis unfolding word_unat_eq_iff u by simp
qed

lemma digit_iff: "b < m \<Longrightarrow> a * m + b = k \<longleftrightarrow> a = k div m \<and> b = k mod (m::nat)"
  by (metis add.commute add.right_neutral div_mod_decomp div_mult_self4 less_nat_zero_code
      mod_mult_self3 mod_less mult.commute div_less)

lemma special_v4_ranges:
  assumes "a < 256" and "b < 256" and "c < 256" and "d < 256"
  shows "list_ex (in_block 32 (v4_num a b c d)) special_v4 \<longleftrightarrow>
    (a = 0 \<or> a = 10 \<or> a = 127) \<or> 224 \<le> a \<or> (a = 100 \<and> (64 \<le> b \<and> b \<le> 127))
    \<or> (a = 169 \<and> b = 254) \<or> (a = 172 \<and> (16 \<le> b \<and> b \<le> 31))
    \<or> (a = 192 \<and> (b = 168 \<or> (b = 0 \<and> (c = 0 \<or> c = 2)) \<or> (b = 88 \<and> c = 99)))
    \<or> (a = 198 \<and> ((b = 18 \<or> b = 19) \<or> (b = 51 \<and> c = 100))) \<or> (a = 203 \<and> b = 0 \<and> c = 113)"
proof -
  have small: "b div 64 < 4" "b div 16 < 16" "b div 2 < 128" "b * 256 + c < 65536" using assms by auto
  have two: "a * 4 + b div 64 = 401 \<longleftrightarrow> a = 100 \<and> b div 64 = 1"
    "a * 16 + b div 16 = 2753 \<longleftrightarrow> a = 172 \<and> b div 16 = 1"
    "a * 128 + b div 2 = 25353 \<longleftrightarrow> a = 198 \<and> b div 2 = 9"
    "a * 256 + b = k \<longleftrightarrow> a = k div 256 \<and> b = k mod 256"
    "a * 65536 + b * 256 + c = k \<longleftrightarrow> a = k div 65536 \<and> b = k mod 65536 div 256 \<and> c = k mod 256" for k
    using digit_iff [OF small(1), of a 401] digit_iff [OF small(2), of a 2753]
      digit_iff [OF small(3), of a 25353] digit_iff [OF assms(2), of a k]
      digit_iff [OF small(4), of a k] digit_iff [OF assms(3), of b "k mod 65536"]
    by (simp_all add: add.assoc mod_mod_cancel)
  have one: "b div 64 = Suc 0 \<longleftrightarrow> 64 \<le> b \<and> b \<le> 127" "b div 16 = Suc 0 \<longleftrightarrow> 16 \<le> b \<and> b \<le> 31"
    "b div 2 = 9 \<longleftrightarrow> b = 18 \<or> b = 19"
    by auto
  have top: "a div 16 = 14 \<or> a div 16 = 15 \<longleftrightarrow> 224 \<le> a" using assms(1) by auto
  show ?thesis
    unfolding special_v4_def in_block_def
    by (simp add: v4_num_div assms two one top) (intro iffI; elim disjE conjE; simp)
qed


subsection \<open>What goes out\<close>

definition safe_url :: "'u url_api \<Rightarrow> 'u \<Rightarrow> bool" where
  "safe_url U url \<longleftrightarrow> scheme U url \<in> {''http'', ''https''} \<and> username U url = [] \<and> password U url = None
     \<and> port_or_default U url \<in> {Some 80, Some 443}
     \<and> (\<exists>h. host_str U url = Some h \<and> (\<forall>ip. parse_ip (bare_host h) = Some ip \<longrightarrow> public_ip ip))"

definition safe_request :: "'u url_api \<Rightarrow> ip_addr list \<times> 'u \<Rightarrow> bool" where
  "safe_request U rq \<longleftrightarrow> fst rq \<noteq> [] \<and> length (fst rq) \<le> 32 \<and> list_all public_ip (fst rq)
     \<and> safe_url U (snd rq)"

lemma http_parse_safe:
  assumes "http_parse U value = Inr url"
  shows "safe_url U url" and "length value \<le> 2048"
  using assms
  by (auto simp: http_parse_def safe_url_def result_simps Let_def split: if_splits option.splits)

lemma pinned_client_public:
  assumes "pinned_client U N k url = Inr client"
  shows "client \<noteq> [] \<and> length client \<le> 32 \<and> list_all public_ip client"
  using assms unfolding pinned_client_def by (auto simp: result_simps Let_def split: if_splits)

text \<open>What one redirect is worth following for.\<close>
definition hop_ok :: "'u url_api \<Rightarrow> 'u \<Rightarrow> 'u \<Rightarrow> bool" where
  "hop_ok U url next \<longleftrightarrow> (scheme U url = ''https'' \<longrightarrow> scheme U next = ''https'')"

lemma probe_hops_safe:
  assumes "safe_url U url" and "probe_hops U N hop left url = (res, sent)"
  shows "list_all (safe_request U) sent \<and> length sent \<le> left
    \<and> sorted_wrt (hop_ok U) (map snd sent) \<and> (\<forall>rq \<in> set sent. hop_ok U url (snd rq))
    \<and> (\<forall>c. res = Inr c \<longrightarrow> \<not> (300 \<le> c \<and> c < 400))"
  using assms
proof (induction left arbitrary: hop url res sent)
  case (Suc left)
  note client = pinned_client_public [of U N hop url]
  show ?case
  proof (cases "\<exists>client r next. pinned_client U N hop url = Inr client \<and> http_get N hop client url = Some r
      \<and> is_redirection r \<and> hop \<noteq> 3 \<and> bind_res (ok_or ''invalid_redirect'' (location r)) (\<lambda>loc.
          bind_res (ok_or ''invalid_redirect'' (url_join U url loc)) (\<lambda>j.
          bind_res (http_parse U (url_str U j)) (\<lambda>next.
            if scheme U url = ''https'' \<and> scheme U next \<noteq> ''https''
            then Inl ''insecure_redirect'' else Inr next))) = Inr next")
    case True
    then obtain client r "next" where c: "pinned_client U N hop url = Inr client" and
      g: "http_get N hop client url = Some r" "is_redirection r" "hop \<noteq> 3" and
      n: "bind_res (ok_or ''invalid_redirect'' (location r)) (\<lambda>loc.
          bind_res (ok_or ''invalid_redirect'' (url_join U url loc)) (\<lambda>j.
          bind_res (http_parse U (url_str U j)) (\<lambda>next.
            if scheme U url = ''https'' \<and> scheme U next \<noteq> ''https''
            then Inl ''insecure_redirect'' else Inr next))) = Inr next" by blast
    obtain rest where rest: "probe_hops U N (Suc hop) left next = (res, rest)" "sent = (client, url) # rest"
      using Suc.prems(2) c g n by (auto split: prod.splits)
    have "safe_url U next" and ok: "hop_ok U url next"
      using n http_parse_safe(1) by (auto simp: result_simps hop_ok_def split: if_splits)
    from Suc.IH [OF this(1) rest(1)] show ?thesis
      using client [OF c] Suc.prems(1) ok unfolding rest(2) safe_request_def by (auto simp: hop_ok_def)
  next
    case False
    with Suc.prems client show ?thesis
      by (auto simp: safe_request_def hop_ok_def is_redirection_def result_simps
          split: sum.splits option.splits if_splits)
  qed
qed auto

text \<open>C19. A probe makes at most four requests, each to a plain http or https address on port 80
  or 443 without credentials, over a connection pinned to at most 32 addresses that are all
  public; once a request was encrypted all later ones are; and a redirect is never reported as
  the monitored status, whatever the target, the resolver, the redirects and the deadline are.\<close>
theorem probe_stays_public:
  assumes "http_probe U N expired value = (res, sent)"
  shows "list_all (safe_request U) sent \<and> length sent \<le> 4 \<and> sorted_wrt (hop_ok U) (map snd sent)
    \<and> (\<forall>c. res = Inr c \<longrightarrow> \<not> (300 \<le> c \<and> c < 400))"
proof (cases "http_parse U value")
  case (Inl e)
  with assms show ?thesis by (auto simp: http_probe_def split: option.splits)
next
  case (Inr url)
  obtain r s where h: "probe_hops U N 0 4 url = (r, s)" by fastforce
  from probe_hops_safe [OF http_parse_safe(1) [OF Inr] h] assms Inr h show ?thesis
    by (cases expired) (auto simp: http_probe_def list_all_iff sorted_wrt_take simp flip: take_map dest: in_set_takeD)
qed

definition toy_url :: "string url_api" where
  "toy_url = \<lparr>url_parse = Some, url_join = (\<lambda>_ s. Some s), url_str = id, scheme = (\<lambda>_. ''https''),
     username = (\<lambda>_. []), password = (\<lambda>_. None), fragment = (\<lambda>_. None), host_str = Some,
     port_or_default = (\<lambda>_. Some 443), url_path = (\<lambda>_. ''/''), url_query = (\<lambda>_. None)\<rparr>"

definition toy_net :: "string net" where
  "toy_net = \<lparr>lookup_host = (\<lambda>_ _ _. Some [V4 1 1 1 1]), build_client = (\<lambda>_. True),
     http_get = (\<lambda>k _ _. Some (if k = 0 then \<lparr>status = 302, location = Some ''b.io'', chunks = []\<rparr>
        else \<lparr>status = 204, location = None, chunks = []\<rparr>)),
     http_post = (\<lambda>_ _ _ _. Response \<lparr>status = 201, location = None, chunks = []\<rparr>)\<rparr>"

theorem probe_stays_public_witness:
  "\<exists>res sent. http_probe toy_url toy_net None ''a.io'' = (res, sent) \<and> list_all (safe_request toy_url) sent"
proof -
  obtain res sent where "http_probe toy_url toy_net None ''a.io'' = (res, sent)" by fastforce
  with probe_stays_public [OF this] show ?thesis by blast
qed

text \<open>An integration's write makes at most one request, to public addresses and with no
  redirect followed; a failure that is marked as not sent reached no server, and a response
  means that exactly one request was made.\<close>
theorem post_single_request:
  assumes "post U N late value headers body read_body = (res, sent)"
  shows "list_all (safe_request U) sent \<and> length sent \<le> 1
    \<and> (\<forall>f. res = Inl f \<and> \<not> may_have_sent f \<longrightarrow> sent = [])
    \<and> (\<forall>r. res = Inr r \<longrightarrow> length sent = 1)"
proof (cases "http_parse U value")
  case (Inl e)
  with assms show ?thesis by (auto simp: post_def failed_post_def split: option.splits)
next
  case (Inr url)
  have body: "read_body_of b cs = Inl f \<Longrightarrow> may_have_sent f" for b cs f
    by (induction b cs rule: read_body_of.induct) (auto simp: failed_post_def split: if_splits)
  have sent: "post_with_client N client url headers body read_body = Inl f \<Longrightarrow> \<not> may_have_sent f
      \<Longrightarrow> http_post N client url headers body = Connect_error"
    "post_with_client N client url headers body read_body = Inr r
      \<Longrightarrow> http_post N client url headers body \<noteq> Connect_error" for client f r
    using body unfolding post_with_client_def
    by (fastforce simp: failed_post_def result_simps split: send_result.splits if_splits)+
  from assms Inr sent pinned_client_public [of U N 0 url] http_parse_safe(1) [OF Inr] show ?thesis
    by (auto simp: post_def failed_post_def safe_request_def split: option.splits sum.splits if_splits)
qed

theorem post_single_request_witness:
  "\<exists>res sent. post toy_url toy_net None ''a.io'' [] [] False = (res, sent)
     \<and> list_all (safe_request toy_url) sent \<and> length sent \<le> 1"
proof -
  obtain res sent where "post toy_url toy_net None ''a.io'' [] [] False = (res, sent)" by fastforce
  with post_single_request [OF this] show ?thesis by blast
qed

end
