(* ===== verification/Integrations.thy ===== *)
theory Integrations
  imports SecretsVault PublicHttp Json
begin

text \<open>
  The outbound adapters, \<^verbatim>\<open>self-hosted/server/src/integrations.rs\<close>: validation of an
  integration's settings, their sealing under an identity binding, the request each kind of
  integration makes and the link to what the provider created.  The JSON text format, header
  values, HMAC and base64 are the crates' and are fields of the record \<open>api\<close>.
\<close>

subsection \<open>Settings\<close>

record settings =
  st_endpoint :: string
  st_token :: string
  st_repository :: string
  st_recipient :: string
  st_email :: string
  st_project_key :: string
  st_issue_type_id :: string

definition default_settings :: settings where
  "default_settings = \<lparr>st_endpoint = [], st_token = [], st_repository = [], st_recipient = [],
     st_email = [], st_project_key = [], st_issue_type_id = []\<rparr>"

definition is_ascii_graphic :: "char \<Rightarrow> bool" where
  "is_ascii_graphic c \<longleftrightarrow> 33 \<le> char_val c \<and> char_val c \<le> 126"

definition split_once :: "char \<Rightarrow> string \<Rightarrow> (string \<times> string) option" where
  "split_once c s = (if c \<in> set s
     then Some (takeWhile (\<lambda>x. x \<noteq> c) s, tl (dropWhile (\<lambda>x. x \<noteq> c) s)) else None)"

definition slug :: "string \<Rightarrow> bool" where
  "slug value \<longleftrightarrow> value \<noteq> [] \<and> length value \<le> 100 \<and> value \<noteq> ''.'' \<and> value \<noteq> ''..''
     \<and> list_all (\<lambda>b. is_ascii_alphanumeric b \<or> b \<in> set ''._-'') value"

definition email_ok :: "string \<Rightarrow> bool" where
  "email_ok value \<longleftrightarrow> length value \<le> 254
     \<and> (case split_once (CHR ''@'') value of
          Some (user, host) \<Rightarrow> user \<noteq> [] \<and> CHR ''.'' \<in> set host | None \<Rightarrow> False)
     \<and> list_all (\<lambda>b. is_ascii_graphic b \<and> b \<notin> set ''<>,;\"'' \<and> b \<noteq> CHR 0x5C) value"

definition merge_secrets :: "settings \<Rightarrow> settings \<Rightarrow> settings" where
  "merge_secrets s previous =
     (let s = (if st_endpoint s = [] then s\<lparr>st_endpoint := st_endpoint previous\<rparr> else s)
      in if st_token s = [] \<and> st_endpoint s = st_endpoint previous
         then s\<lparr>st_token := st_token previous\<rparr> else s)"

definition validate :: "'u url_api \<Rightarrow> settings \<Rightarrow> string \<Rightarrow> string + unit" where
  "validate U s kind =
     (if CHR 0x0D \<in> set (st_token s) \<or> CHR 0x0A \<in> set (st_token s) then Inl ''invalid_credential''
      else if \<exists>v \<in> set [st_endpoint s, st_token s, st_repository s, st_recipient s, st_email s,
             st_project_key s, st_issue_type_id s]. 4096 < length v
      then Inl ''invalid_integration''
      else if kind = ''email'' \<and> email_ok (st_recipient s) then Inr ()
      else if kind = ''github''
          \<and> (case split_once (CHR ''/'') (st_repository s) of Some (a, b) \<Rightarrow> slug a \<and> slug b | None \<Rightarrow> False)
          \<and> st_token s \<noteq> [] then Inr ()
      else if kind = ''webhook'' \<or> kind = ''jira'' then
        bind_res (http_parse U (st_endpoint s)) (\<lambda>url.
          if scheme U url \<noteq> ''https'' \<or> length (st_token s) < 16 then Inl ''https_and_secret_required''
          else if kind = ''jira''
            \<and> (url_path U url \<noteq> ''/'' \<or> url_query U url \<noteq> None \<or> \<not> email_ok (st_email s)
               \<or> \<not> slug (st_project_key s) \<or> st_issue_type_id s = [] \<or> 20 < length (st_issue_type_id s)
               \<or> \<not> list_all is_ascii_digit (st_issue_type_id s))
          then Inl ''invalid_jira_settings''
          else Inr ())
      else Inl ''invalid_integration'')"

subsection \<open>Sealing\<close>

text \<open>The crates the adapters call.\<close>
record api =
  ob_uuid_text :: "uuid \<Rightarrow> string"
  ob_json_to_vec :: "json \<Rightarrow> bytes option"
  ob_json_from_slice :: "bytes \<Rightarrow> json option"
  ob_header_value :: "string \<Rightarrow> string option"
  ob_hmac_sha256 :: "bytes \<Rightarrow> bytes \<Rightarrow> bytes option"
  ob_hex :: "bytes \<Rightarrow> string"
  ob_base64 :: "bytes \<Rightarrow> string"
  ob_origin :: "string \<Rightarrow> string option"
  ob_unix_now :: int

definition settings_json :: "settings \<Rightarrow> json" where
  "settings_json s = JObj [(''endpoint'', JStr (st_endpoint s)), (''token'', JStr (st_token s)),
     (''repository'', JStr (st_repository s)), (''recipient'', JStr (st_recipient s)),
     (''email'', JStr (st_email s)), (''projectKey'', JStr (st_project_key s)),
     (''issueTypeId'', JStr (st_issue_type_id s))]"

definition settings_keys :: "string list" where
  "settings_keys = [''endpoint'', ''token'', ''repository'', ''recipient'', ''email'', ''projectKey'',
     ''issueTypeId'']"

text \<open>A field of the derived reader: absent is the default, present must be a string.\<close>
definition field :: "json option \<Rightarrow> string option" where
  "field v = (case v of None \<Rightarrow> Some [] | Some j \<Rightarrow> as_str j)"

definition settings_from :: "(nat \<Rightarrow> json option) \<Rightarrow> settings option" where
  "settings_from at =
     (case (field (at 0), field (at 1), field (at 2), field (at 3), field (at 4), field (at 5), field (at 6)) of
        (Some a, Some b, Some c, Some d, Some e, Some f, Some g) \<Rightarrow>
          Some \<lparr>st_endpoint = a, st_token = b, st_repository = c, st_recipient = d, st_email = e,
                st_project_key = f, st_issue_type_id = g\<rparr>
      | _ \<Rightarrow> None)"

text \<open>\<open>deny_unknown_fields\<close>; a derived reader also takes the fields in order from an array.\<close>
definition settings_of_json :: "json \<Rightarrow> settings option" where
  "settings_of_json v =
     (case v of
        JObj fs \<Rightarrow> if \<forall>k \<in> fst ` set fs. k \<in> set settings_keys
          then settings_from (\<lambda>i. map_of fs (settings_keys ! i)) else None
      | JArr xs \<Rightarrow> if length xs \<le> 7
          then settings_from (\<lambda>i. if i < length xs then Some (xs ! i) else None) else None
      | _ \<Rightarrow> None)"

definition sealed_value :: "api \<Rightarrow> uuid \<Rightarrow> string \<Rightarrow> settings \<Rightarrow> json" where
  "sealed_value X project kind s =
     JObj [(''project'', JStr (ob_uuid_text X project)), (''kind'', JStr kind),
       (''settings'', settings_json s)]"

definition integ_seal ::
  "api \<Rightarrow> aead \<Rightarrow> rng \<Rightarrow> vault \<Rightarrow> uuid \<Rightarrow> string \<Rightarrow> settings \<Rightarrow> string + bytes" where
  "integ_seal X A rng v project kind s =
     bind_res (ok_or ''invalid_integration'' (ob_json_to_vec X (sealed_value X project kind s))) (\<lambda>value.
       case vault_seal A rng v value of Inl _ \<Rightarrow> Inl ''encryption_failed'' | Inr b \<Rightarrow> Inr b)"

text \<open>The outer option is the panic of the vault.\<close>
definition integ_open ::
  "api \<Rightarrow> aead \<Rightarrow> vault \<Rightarrow> uuid \<Rightarrow> string \<Rightarrow> bytes \<Rightarrow> (string + settings) option" where
  "integ_open X A v project kind blob =
     map_option (\<lambda>r. case r of
         Inl _ \<Rightarrow> Inl ''decryption_failed''
       | Inr bs \<Rightarrow>
           bind_res (ok_or ''decryption_failed'' (ob_json_from_slice X bs)) (\<lambda>value.
             if str_at ''project'' value \<noteq> Some (ob_uuid_text X project) \<or> str_at ''kind'' value \<noteq> Some kind
             then Inl ''credential_scope_mismatch''
             else ok_or ''decryption_failed''
                    (settings_of_json (unwrap_or JNull (jget ''settings'' value)))))
       (vault_open A v blob)"

definition trim_end_slashes :: "string \<Rightarrow> string" where
  "trim_end_slashes s = rev (dropWhile (\<lambda>c. c = CHR ''/'') (rev s))"

text \<open>What of an integration's settings may be shown.\<close>
definition settings_summary :: "api \<Rightarrow> settings \<Rightarrow> string \<Rightarrow> json" where
  "settings_summary X s kind =
     (if kind = ''email'' then JObj [(''recipient'', JStr (st_recipient s))]
      else if kind = ''github'' then JObj [(''repository'', JStr (st_repository s))]
      else if kind = ''jira'' then JObj [(''endpoint'', JStr (st_endpoint s)), (''email'', JStr (st_email s)),
        (''projectKey'', JStr (st_project_key s)), (''issueTypeId'', JStr (st_issue_type_id s))]
      else JObj [(''endpointOrigin'', case ob_origin X (st_endpoint s) of Some u \<Rightarrow> JStr u | None \<Rightarrow> JNull)])"

subsection \<open>Requests\<close>

record prepared =
  pp_endpoint :: string
  pp_headers :: "(string \<times> string) list"
  pp_body :: bytes

text \<open>\<open>headers.insert(name, text.parse()?)\<close>\<close>
definition header :: "api \<Rightarrow> string \<Rightarrow> string \<Rightarrow> string \<Rightarrow> string + (string \<times> string) list" where
  "header X name text err = bind_res (ok_or err (ob_header_value X text)) (\<lambda>v. Inr [(name, v)])"

definition message_body :: "api \<Rightarrow> uuid \<Rightarrow> json \<Rightarrow> string \<Rightarrow> string" where
  "message_body X delivery payload base_url =
     unwrap_or [] (str_at ''body'' payload) @ [CHR 0x0A, CHR 0x0A] @ base_url
       @ unwrap_or ''/'' (str_at ''route'' payload) @ [CHR 0x0A, CHR 0x0A]
       @ ''Sentori delivery: '' @ ob_uuid_text X delivery"

definition message_title :: "json \<Rightarrow> string" where
  "message_title payload = unwrap_or ''Sentori notification'' (str_at ''title'' payload)"

text \<open>Endpoint, extra headers and JSON body of each kind.\<close>
definition wire_request ::
  "api \<Rightarrow> string \<Rightarrow> settings \<Rightarrow> uuid \<Rightarrow> json \<Rightarrow> string \<Rightarrow> string + string \<times> (string \<times> string) list \<times> json" where
  "wire_request X kind s delivery payload base_url =
     (let title = JStr (message_title payload); body = JStr (message_body X delivery payload base_url) in
      if kind = ''github'' then
        bind_res (header X ''authorization'' (''Bearer '' @ st_token s) ''invalid_credential'') (\<lambda>auth.
          Inr (''https://api.github.com/repos/'' @ st_repository s @ ''/issues'',
            [(''accept'', ''application/vnd.github+json''), (''x-github-api-version'', ''2026-03-10'')] @ auth,
            JObj [(''title'', title), (''body'', body)]))
      else if kind = ''jira'' then
        bind_res (header X ''authorization''
            (''Basic '' @ ob_base64 X (bytes_of (st_email s @ '':'' @ st_token s))) ''invalid_credential'') (\<lambda>auth.
          Inr (trim_end_slashes (st_endpoint s) @ ''/rest/api/3/issue'', auth,
            JObj [(''fields'', JObj [(''summary'', title),
              (''project'', JObj [(''key'', JStr (st_project_key s))]),
              (''issuetype'', JObj [(''id'', JStr (st_issue_type_id s))]),
              (''description'', JObj [(''type'', JStr ''doc''), (''version'', JInt 1),
                (''content'', JArr [JObj [(''type'', JStr ''paragraph''),
                  (''content'', JArr [JObj [(''type'', JStr ''text''), (''text'', body)]])]])])])]))
      else if kind = ''webhook'' \<or> kind = ''legacy_webhook'' then
        Inr (st_endpoint s, [], JObj [(''id'', JStr (ob_uuid_text X delivery)),
          (''event'', unwrap_or JNull (jget ''event'' payload)), (''subject'', title), (''body'', body),
          (''metadata'', payload)])
      else Inl ''invalid_integration'')"

definition show_int :: "int \<Rightarrow> string" where
  "show_int i = (if i < 0 then ''-'' @ show_nat (nat (- i)) else show_nat (nat i))"

definition signature_headers :: "api \<Rightarrow> settings \<Rightarrow> bytes \<Rightarrow> string + (string \<times> string) list" where
  "signature_headers X s body =
     (let timestamp = show_int (ob_unix_now X) in
      bind_res (ok_or ''invalid_credential''
          (ob_hmac_sha256 X (bytes_of (st_token s)) (bytes_of (timestamp @ ''.'') @ body))) (\<lambda>mac.
      bind_res (header X ''x-sentori-timestamp'' timestamp ''invalid_header'') (\<lambda>h1.
      bind_res (header X ''x-sentori-signature'' (''sha256='' @ ob_hex X mac) ''invalid_header'') (\<lambda>h2.
        Inr (h1 @ h2)))))"

definition prepare ::
  "api \<Rightarrow> string \<Rightarrow> settings \<Rightarrow> uuid \<Rightarrow> json \<Rightarrow> string \<Rightarrow> string + prepared" where
  "prepare X kind s delivery payload base_url =
     bind_res (header X ''x-sentori-delivery'' (ob_uuid_text X delivery) ''invalid_header'') (\<lambda>id.
     bind_res (wire_request X kind s delivery payload base_url) (\<lambda>(endpoint, extra, wire).
     bind_res (ok_or ''invalid_payload'' (ob_json_to_vec X wire)) (\<lambda>body.
     bind_res (if kind = ''webhook'' then signature_headers X s body else Inr []) (\<lambda>signed.
       Inr \<lparr>pp_endpoint = endpoint,
            pp_headers = [(''content-type'', ''application/json'')] @ id @ extra @ signed,
            pp_body = body\<rparr>))))"

text \<open>\<open>value["number"]\<close>: indexing anything but an object gives null.\<close>
definition external_url :: "api \<Rightarrow> string \<Rightarrow> settings \<Rightarrow> bytes \<Rightarrow> string option" where
  "external_url X kind s body =
     (case ob_json_from_slice X body of
        None \<Rightarrow> None
      | Some value \<Rightarrow>
          if kind = ''github'' then
            (case Option.bind (jget ''number'' value) as_u64 of
               Some n \<Rightarrow> if 0 < n then Some (''https://github.com/'' @ st_repository s @ ''/issues/'' @ show_nat n)
                 else None
             | None \<Rightarrow> None)
          else if kind = ''jira'' then
            (case str_at ''key'' value of
               Some key \<Rightarrow> if slug key then Some (trim_end_slashes (st_endpoint s) @ ''/browse/'' @ key) else None
             | None \<Rightarrow> None)
          else None)"

subsection \<open>Properties\<close>

lemma slug_plain:
  assumes "slug s" shows "CHR ''/'' \<notin> set s" "CHR ''?'' \<notin> set s" "CHR ''#'' \<notin> set s" "CHR ''@'' \<notin> set s"
  using assms by (auto simp: slug_def list_all_iff is_ascii_alphanumeric_def is_ascii_digit_def char_val_def)

lemma split_once_Some: "split_once c s = Some (a, b) \<Longrightarrow> s = a @ c # b \<and> c \<notin> set a"
proof -
  assume s: "split_once c s = Some (a, b)"
  then have c: "c \<in> set s" and a: "a = takeWhile (\<lambda>x. x \<noteq> c) s" and b: "b = tl (dropWhile (\<lambda>x. x \<noteq> c) s)"
    by (auto simp: split_once_def split: if_splits)
  from c have "dropWhile (\<lambda>x. x \<noteq> c) s \<noteq> []" by (simp add: dropWhile_eq_Nil_conv)
  with hd_dropWhile [OF this] obtain u where "dropWhile (\<lambda>x. x \<noteq> c) s = c # u"
    by (cases "dropWhile (\<lambda>x. x \<noteq> c) s") auto
  then show ?thesis
    unfolding a b using takeWhile_dropWhile_id [of "\<lambda>x. x \<noteq> c" s] set_takeWhileD by force
qed

text \<open>A token left blank is carried over only to the endpoint it was given for.\<close>
lemma merge_keeps_token_home:
  assumes "st_token s = []" and "st_token (merge_secrets s previous) \<noteq> []"
  shows "st_endpoint (merge_secrets s previous) = st_endpoint previous"
  using assms by (auto simp: merge_secrets_def Let_def split: if_splits)

text \<open>The link shown for a created ticket stays under the repository or site configured.\<close>
lemma external_url_links:
  assumes "external_url X kind s body = Some u"
  obtains (github) n where "kind = ''github''" "0 < n"
      "u = ''https://github.com/'' @ st_repository s @ ''/issues/'' @ show_nat n"
  | (jira) key where "kind = ''jira''" "slug key" "u = trim_end_slashes (st_endpoint s) @ ''/browse/'' @ key"
  using assms by (auto simp: external_url_def split: option.splits if_splits)

lemma settings_round_trip [simp]: "settings_of_json (settings_json s) = Some s"
  by (simp add: settings_of_json_def settings_json_def settings_keys_def settings_from_def field_def
      as_str_def)

lemma sealed_value_access [simp]:
  "str_at ''project'' (sealed_value X p k s) = Some (ob_uuid_text X p)"
  "str_at ''kind'' (sealed_value X p k s) = Some k"
  "jget ''settings'' (sealed_value X p k s) = Some (settings_json s)"
  by (simp_all add: sealed_value_def json_access)

definition reads_back :: "api \<Rightarrow> bool" where
  "reads_back X \<longleftrightarrow> (\<forall>p k s b. ob_json_to_vec X (sealed_value X p k s) = Some b
     \<longrightarrow> ob_json_from_slice X b = Some (sealed_value X p k s))"

text \<open>Sealed settings open unchanged for the project and kind they were sealed for, and for
  no other project and no other kind, provided the cipher decrypts what it encrypted, the JSON
  reader reads what the writer wrote and ids print differently.\<close>
theorem credentials_stay_in_scope:
  assumes "aead_lawful A" and "rng_fills rng" and "key_id_new i = Inr (vault_key_id v)"
    and "reads_back X" and "inj (ob_uuid_text X)"
    and "integ_seal X A rng v project kind s = Inr blob"
  shows "integ_open X A v project kind blob = Some (Inr s)
    \<and> (\<forall>p k. p \<noteq> project \<or> k \<noteq> kind
          \<longrightarrow> integ_open X A v p k blob = Some (Inl ''credential_scope_mismatch''))"
proof -
  obtain b where b: "ob_json_to_vec X (sealed_value X project kind s) = Some b"
    and v: "vault_seal A rng v b = Inr blob"
    using assms(6) by (cases "ob_json_to_vec X (sealed_value X project kind s)")
      (auto simp: integ_seal_def split: sum.splits)
  note o = vault_open_sealed [OF assms(1-3) v]
  have r: "ob_json_from_slice X b = Some (sealed_value X project kind s)"
    using assms(4) b unfolding reads_back_def by blast
  show ?thesis using assms(5) by (auto simp: integ_open_def o r inj_eq)
qed

definition toy_settings :: settings where
  "toy_settings = default_settings\<lparr>st_token := ''t'', st_repository := ''a/b''\<rparr>"

definition toy_json :: json where
  "toy_json = JObj [(''project'', JStr (show_nat 1)), (''kind'', JStr ''github''),
     (''settings'', settings_json toy_settings)]"

text \<open>A reader and a writer of one value.\<close>
definition toy_api :: api where
  "toy_api = \<lparr>ob_uuid_text = show_nat, ob_json_to_vec = (\<lambda>v. if v = toy_json then Some [1] else None),
     ob_json_from_slice = (\<lambda>b. if b = [1] then Some toy_json else None), ob_header_value = Some,
     ob_hmac_sha256 = (\<lambda>k m. Some k), ob_hex = chars_of, ob_base64 = chars_of,
     ob_origin = Some, ob_unix_now = 1\<rparr>"

theorem credentials_stay_in_scope_witness:
  "\<exists>blob v. integ_open toy_api toy_aead v 1 ''github'' blob = Some (Inr toy_settings)
     \<and> integ_open toy_api toy_aead v 2 ''github'' blob = Some (Inl ''credential_scope_mismatch'')"
proof -
  let ?v = "\<lparr>master = MasterKey (replicate 32 7), vault_key_id = KeyId ''k1''\<rparr>"
  have k: "key_id_new ''k1'' = Inr (vault_key_id ?v)"
    by (simp add: key_id_new_def KEY_ID_MAX_LEN_def char_val_def)
  have r: "reads_back toy_api" by (simp add: reads_back_def toy_api_def)
  have i: "inj (ob_uuid_text toy_api)" by (simp add: toy_api_def inj_def)
  have "sealed_value toy_api 1 ''github'' toy_settings = toy_json"
    by (simp add: sealed_value_def toy_json_def toy_api_def)
  then obtain blob where s: "integ_seal toy_api toy_aead toy_rng ?v 1 ''github'' toy_settings = Inr blob"
    by (simp add: integ_seal_def toy_api_def vault_seal_def toy_rng_def toy_aead_def)
  note c = credentials_stay_in_scope [OF toy_aead_lawful toy_rng_fills k r i s]
  have "integ_open toy_api toy_aead ?v 2 ''github'' blob = Some (Inl ''credential_scope_mismatch'')"
    using spec [OF spec [OF conjunct2 [OF c], of 2], of "''github''"] by simp
  with conjunct1 [OF c] show ?thesis by blast
qed

text \<open>C39. A validated integration writes to where its settings say and nowhere else: a GitHub one
  to the issues of one owner's repository, whose names hold no further path, query or user part;
  a Jira or webhook one to its own https endpoint, which the egress guard accepts; an email
  integration makes no request at all.\<close>
theorem validated_destination:
  assumes "validate U s kind = Inr ()" and "prepare X kind s delivery payload base_url = Inr p"
  shows "kind = ''github'' \<and> (\<exists>owner name. slug owner \<and> slug name
          \<and> CHR ''/'' \<notin> set owner \<union> set name \<and> CHR ''?'' \<notin> set owner \<union> set name
          \<and> CHR ''@'' \<notin> set owner \<union> set name
          \<and> pp_endpoint p = ''https://api.github.com/repos/'' @ owner @ ''/'' @ name @ ''/issues'')
    \<or> (kind = ''jira'' \<or> kind = ''webhook'')
      \<and> (\<exists>url. http_parse U (st_endpoint s) = Inr url \<and> scheme U url = ''https'')
      \<and> pp_endpoint p = (if kind = ''jira'' then trim_end_slashes (st_endpoint s) @ ''/rest/api/3/issue''
          else st_endpoint s)"
proof -
  have k: "kind \<in> {''github'', ''jira'', ''webhook'', ''legacy_webhook''}"
    using assms(2) by (auto simp: prepare_def wire_request_def Let_def result_simps split: if_splits)
  consider (github) "kind = ''github''" | (url) "kind = ''jira'' \<or> kind = ''webhook''"
    using k assms(1) by (auto simp: validate_def split: if_splits)
  then show ?thesis
  proof cases
    case github
    with assms(1) obtain a b where ab: "split_once (CHR ''/'') (st_repository s) = Some (a, b)" "slug a" "slug b"
      by (auto simp: validate_def split: if_splits option.splits)
    have "pp_endpoint p = ''https://api.github.com/repos/'' @ st_repository s @ ''/issues''"
      using assms(2) github by (auto simp: prepare_def wire_request_def Let_def result_simps)
    with split_once_Some [OF ab(1)] github ab slug_plain [OF ab(2)] slug_plain [OF ab(3)]
    show ?thesis by (intro disjI1 conjI exI [of _ a] exI [of _ b]) simp_all
  next
    case url
    then have "\<exists>u. http_parse U (st_endpoint s) = Inr u \<and> scheme U u = ''https''"
      using assms(1) unfolding validate_def
      by (elim disjE; cases "http_parse U (st_endpoint s)"; simp split: if_split_asm)
    moreover have "pp_endpoint p = (if kind = ''jira'' then trim_end_slashes (st_endpoint s) @ ''/rest/api/3/issue''
        else st_endpoint s)"
      using assms(2) url by (auto simp: prepare_def wire_request_def Let_def result_simps split: if_splits)
    ultimately show ?thesis using url by blast
  qed
qed

theorem validated_destination_witness:
  "\<exists>p. prepare (toy_api\<lparr>ob_json_to_vec := \<lambda>_. Some []\<rparr>) ''github'' toy_settings 5 JNull ''https://s'' = Inr p
     \<and> (\<exists>owner name. slug owner \<and> slug name
       \<and> pp_endpoint p = ''https://api.github.com/repos/'' @ owner @ ''/'' @ name @ ''/issues'')"
proof -
  have v: "validate toy_url toy_settings ''github'' = Inr ()"
    by (simp add: validate_def toy_settings_def default_settings_def split_once_def slug_def
        is_ascii_alphanumeric_def is_ascii_digit_def char_val_def)
  obtain p where p: "prepare (toy_api\<lparr>ob_json_to_vec := \<lambda>_. Some []\<rparr>) ''github'' toy_settings 5 JNull ''https://s'' = Inr p"
    by (simp add: prepare_def wire_request_def header_def toy_api_def)
  from validated_destination [OF v p] p show ?thesis by auto
qed

end
