(* ===== verification/Tables.thy ===== *)
theory Tables
  imports Prelude
begin

text \<open>
  Database tables as association lists from the primary key to the row, the row update that a
  SQL \<open>UPDATE\<close> by key makes, and facts on lists of outstanding work that workers take entries from.
\<close>

definition update_row :: "uuid \<Rightarrow> ('r \<Rightarrow> 'r) \<Rightarrow> (uuid \<times> 'r) list \<Rightarrow> (uuid \<times> 'r) list" where
  "update_row i f rows = map (\<lambda>(k, r). (k, if k = i then f r else r)) rows"

lemma map_of_update_row: "map_of (update_row i f rows) j = map_option (if j = i then f else id) (map_of rows j)"
  unfolding update_row_def by (induction rows) auto

lemma fst_update_row [simp]: "map fst (update_row i f rows) = map fst rows"
  by (induction rows) (auto simp: update_row_def)

lemma in_update_row:
  assumes "(k, r) \<in> set (update_row i f rows)"
  obtains q where "(k, q) \<in> set rows" and "r = (if k = i then f q else q)"
  using assms unfolding update_row_def by auto

lemma map_of_map_if: "map_of (map (\<lambda>(k, r). (k, if P k r then f r else r)) xs) i
    = map_option (\<lambda>r. if P i r then f r else r) (map_of xs i)"
  by (induction xs) auto

lemma fst_map_if [simp]: "map (fst \<circ> (\<lambda>(k, r). (k, g k r))) xs = map fst xs"
  by (induction xs) auto

lemma remove1_subset: "x \<in> set (remove1 y xs) \<Longrightarrow> x \<in> set xs"
  using set_remove1_subset by fast

lemma map_remove1_distinct:
  assumes "distinct (map f xs)" and "x \<in> set xs" and "y \<in> set (remove1 x xs)"
  shows "f y \<noteq> f x"
  using assms by (induction xs) (auto split: if_splits simp: image_iff dest: remove1_subset)

lemma distinct_map_remove1: "distinct (map f xs) \<Longrightarrow> distinct (map f (remove1 x xs))"
  by (induction xs) (auto dest: remove1_subset)

lemma distinct_remove1s:
  assumes "distinct (map f xs @ map g ys)"
  shows "distinct (map f (remove1 x xs) @ map g (remove1 y ys))"
    and "distinct (map f (remove1 x xs) @ map g ys)" and "distinct (map f xs @ map g (remove1 y ys))"
    and "x \<in> set xs \<Longrightarrow> f x \<notin> set (map f (remove1 x xs) @ map g ys)"
    and "y \<in> set ys \<Longrightarrow> g y \<notin> set (map f xs @ map g (remove1 y ys))"
proof -
  have sub: "f ` set (remove1 x xs) \<subseteq> f ` set xs" "g ` set (remove1 y ys) \<subseteq> g ` set ys"
    by (auto dest: remove1_subset)
  then show "distinct (map f (remove1 x xs) @ map g (remove1 y ys))"
    "distinct (map f (remove1 x xs) @ map g ys)" "distinct (map f xs @ map g (remove1 y ys))"
    using assms by (simp_all add: distinct_map_remove1) blast+
  show "x \<in> set xs \<Longrightarrow> f x \<notin> set (map f (remove1 x xs) @ map g ys)"
    using map_remove1_distinct [of f xs x] assms by (auto simp: image_iff) metis+
  show "y \<in> set ys \<Longrightarrow> g y \<notin> set (map f xs @ map g (remove1 y ys))"
    using map_remove1_distinct [of g ys y] assms by (auto simp: image_iff) metis+
qed

subsection \<open>Leased rows\<close>

text \<open>
  The protocol by which workers share a table: a free row is taken under a fresh token for a span
  of time, and its outcome is stored only while the lease is held.  The laws say what the claims
  and updates of each table must satisfy; the lemmas are what the workers rely on.
\<close>
locale leased_rows =
  fixes available :: "instant \<Rightarrow> 'r \<Rightarrow> bool"
    and grab :: "uuid \<Rightarrow> instant \<Rightarrow> 'r \<Rightarrow> 'r"
    and held :: "uuid \<Rightarrow> instant \<Rightarrow> 'r \<Rightarrow> bool"
    and settle :: "'o \<Rightarrow> instant \<Rightarrow> 'r \<Rightarrow> 'r"
    and span :: duration
  assumes grab_held: "available now r \<Longrightarrow> held t n (grab t now r) \<longleftrightarrow> n < now + span"
    and one_holder: "held t n r \<Longrightarrow> held u m r \<Longrightarrow> t = u"
    and settle_releases: "held t n r \<Longrightarrow> \<not> held u m (settle x n r)"
    and available_unheld: "available n r \<Longrightarrow> \<not> held t n r"
begin

definition stored :: "uuid \<Rightarrow> instant \<Rightarrow> 'o \<Rightarrow> 'r \<Rightarrow> 'r" where
  "stored t n x r = (if held t n r then settle x n r else r)"

lemma stored_once: "held t n r \<Longrightarrow> stored u m y (stored t n x r) = stored t n x r"
  using settle_releases by (simp add: stored_def)

lemma held_by_other: "available now r \<Longrightarrow> u \<noteq> t \<Longrightarrow> 0 < span \<Longrightarrow> \<not> held u n (grab t now r)"
  using grab_held [of now r t now] one_holder by fastforce

lemma stored_stale: "available now r \<Longrightarrow> u \<noteq> t \<Longrightarrow> 0 < span \<Longrightarrow> stored u n x (grab t now r) = grab t now r"
  using held_by_other by (simp add: stored_def)

lemma stored_late: "available now r \<Longrightarrow> now + span \<le> n \<Longrightarrow> stored t n x (grab t now r) = grab t now r"
  using grab_held by (simp add: stored_def)

lemma grabbed_unavailable: "available now r \<Longrightarrow> n < now + span \<Longrightarrow> \<not> available n (grab t now r)"
  using grab_held available_unheld by blast

end

end
