(* ===== verification/NotificationDelivery.thy ===== *)
theory NotificationDelivery
  imports NotificationQueue Integrations Tables "HOL-Library.Product_Lexorder"
begin

text \<open>
  Durable outbound notifications, \<^verbatim>\<open>self-hosted/server/src/notification_delivery.rs\<close>: the
  checks repeated before a send (\<open>target\<close>), the send and how its result is classified (\<open>send\<close>),
  and the lease cycle of a worker (\<open>cycle\<close>, \<open>complete\<close>).  The second half is the transition
  system of any number of workers over the shared table, with time passing, workers dying and
  configuration changing between any two steps.  SMTP, HTTP, the vault's cipher and the text
  formats are parameters.
\<close>

subsection \<open>Rows\<close>

record delivery =
  dl_project :: uuid
  dl_event :: uuid
  dl_integration :: "uuid option"
  dl_user :: "uuid option"
  dl_destination :: string
  dl_config_version :: int
  dl_state :: string
  dl_attempt :: nat
  dl_next_attempt :: instant
  dl_lease_owner :: "uuid option"
  dl_lease_until :: "instant option"
  dl_error :: "string option"
  dl_status :: "nat option"
  dl_external :: "string option"
  dl_finished :: "instant option"

record claim =
  cl_id :: uuid
  cl_project :: uuid
  cl_integration :: "uuid option"
  cl_user :: "uuid option"
  cl_destination :: string
  cl_config_version :: int
  cl_attempt :: nat
  cl_event_kind :: string
  cl_payload :: json
  cl_generation :: int
  cl_actor :: "uuid option"
  cl_target :: "uuid option"

record target =
  tg_kind :: string
  tg_settings :: settings

record outcome =
  oc_state :: string
  oc_error :: "string option"
  oc_status :: "nat option"
  oc_external :: "string option"

definition failure :: "string \<Rightarrow> string \<Rightarrow> outcome" where
  "failure state err = \<lparr>oc_state = state, oc_error = Some err, oc_status = None, oc_external = None\<rparr>"

definition delivered :: outcome where
  "delivered = \<lparr>oc_state = ''delivered'', oc_error = None, oc_status = None, oc_external = None\<rparr>"

subsection \<open>The checks before a send\<close>

text \<open>The tables the checks read.\<close>
record directory =
  dir_generation :: "int option"
  dir_users :: "(uuid \<times> string \<times> string) list"             \<comment> \<open>email, role\<close>
  dir_prefs :: "((uuid \<times> uuid) \<times> bool option \<times> bool option) list"
  dir_assigned :: "(uuid \<times> uuid) list"                     \<comment> \<open>user, project\<close>
  dir_webhooks :: "(uuid \<times> int \<times> bytes option) list"       \<comment> \<open>version, sealed secret\<close>
  dir_integrations :: "(uuid \<times> uuid \<times> string \<times> int \<times> bool \<times> bytes) list"

record notification =
  nt_recipient :: string
  nt_title :: string
  nt_body :: string
  nt_project :: uuid

datatype smtp_result = Smtp_ok | Smtp_error | Smtp_timeout

record 'u services =
  sv_vault :: "vault option"
  sv_aead :: aead
  sv_api :: api
  sv_url :: "'u url_api"
  sv_net :: "'u net"
  sv_late :: "bool option"
  sv_smtp :: "(notification \<Rightarrow> smtp_result) option"
  sv_base_url :: string

text \<open>A query for one row that finds none, or the vault's panic: the cycle ends there.\<close>
datatype abort = Database | Panic

definition is_superadmin :: "directory \<Rightarrow> uuid option \<Rightarrow> bool" where
  "is_superadmin D u =
     (case Option.bind u (map_of (dir_users D)) of Some (_, role) \<Rightarrow> role = ''superadmin'' | None \<Rightarrow> False)"

definition email_recipient :: "directory \<Rightarrow> uuid option \<Rightarrow> uuid \<Rightarrow> string \<Rightarrow> string option" where
  "email_recipient D user project kind =
     (case user of None \<Rightarrow> None | Some u \<Rightarrow>
     (case map_of (dir_users D) u of None \<Rightarrow> None | Some (email, role) \<Rightarrow>
       let prefs = map_of (dir_prefs D) (u, project);
           wants = (if kind = ''issue.new'' then Option.bind prefs fst else Option.bind prefs snd)
       in if (role = ''superadmin'' \<or> (u, project) \<in> set (dir_assigned D)) \<and> unwrap_or True wants
          then Some email else None))"

definition delivery_target :: "'u services \<Rightarrow> directory \<Rightarrow> claim \<Rightarrow> abort + outcome + target" where
  "delivery_target S D row =
     (case dir_generation D of
        None \<Rightarrow> Inl Database
      | Some current \<Rightarrow>
          if current \<noteq> cl_generation row then Inr (Inl (failure ''cancelled'' ''instance_changed''))
          else if cl_target row \<noteq> None \<and> \<not> is_superadmin D (cl_actor row) then
            Inr (Inl (failure ''cancelled'' ''permission_revoked''))
          else if cl_destination row = ''user_email'' then
            (case email_recipient D (cl_user row) (cl_project row) (cl_event_kind row) of
               Some recipient \<Rightarrow>
                 Inr (Inr \<lparr>tg_kind = ''email'', tg_settings = default_settings\<lparr>st_recipient := recipient\<rparr>\<rparr>)
             | None \<Rightarrow> Inr (Inl (failure ''cancelled'' ''subscription_revoked'')))
          else
            (case sv_vault S of
               None \<Rightarrow> Inr (Inl (failure ''failed'' ''vault_unconfigured''))
             | Some v \<Rightarrow>
                 let config =
                   (if cl_destination row = ''legacy_webhook'' then
                      (case map_of (dir_webhooks D) (cl_project row) of
                         Some (ver, Some blob) \<Rightarrow>
                           if ver = cl_config_version row then Some (''legacy_webhook'', blob) else None
                       | _ \<Rightarrow> None)
                    else
                      (case Option.bind (cl_integration row) (map_of (dir_integrations D)) of
                         Some (project, kind, ver, enabled, blob) \<Rightarrow>
                           if project = cl_project row \<and> ver = cl_config_version row \<and> enabled
                           then Some (kind, blob) else None
                       | None \<Rightarrow> None))
                 in case config of
                      None \<Rightarrow> Inr (Inl (failure ''cancelled'' ''integration_changed''))
                    | Some (kind, blob) \<Rightarrow>
                        (case integ_open (sv_api S) (sv_aead S) v (cl_project row) kind blob of
                           None \<Rightarrow> Inl Panic
                         | Some (Inl c) \<Rightarrow> Inr (Inl (failure ''failed'' c))
                         | Some (Inr s) \<Rightarrow> Inr (Inr \<lparr>tg_kind = kind, tg_settings = s\<rparr>))))"

subsection \<open>The send\<close>

definition retryable :: "string \<Rightarrow> bool" where
  "retryable kind \<longleftrightarrow> kind \<in> {''webhook'', ''legacy_webhook''}"

definition issue_tracker :: "string \<Rightarrow> bool" where
  "issue_tracker kind \<longleftrightarrow> kind \<in> {''github'', ''jira''}"

text \<open>What the result of the write means for the delivery.\<close>
definition classify_post :: "api \<Rightarrow> target \<Rightarrow> post_failure + post_response \<Rightarrow> outcome" where
  "classify_post X tg result =
     (case result of
        Inr r \<Rightarrow>
          if 200 \<le> post_status r \<and> post_status r < 300 then
            (let external = external_url X (tg_kind tg) (tg_settings tg) (post_body r) in
             if issue_tracker (tg_kind tg) \<and> external = None
             then failure ''uncertain'' ''invalid_provider_response''
             else \<lparr>oc_state = ''delivered'', oc_error = None, oc_status = Some (post_status r),
                   oc_external = external\<rparr>)
          else
            (let transient = (post_status r = 429 \<or> 500 \<le> post_status r) in
             \<lparr>oc_state = (if retryable (tg_kind tg) \<and> transient then ''retry_wait''
                else if 500 \<le> post_status r then ''uncertain'' else ''failed''),
              oc_error = Some (if 300 \<le> post_status r \<and> post_status r < 400 then ''redirect_refused''
                else ''http_rejected''),
              oc_status = Some (post_status r), oc_external = None\<rparr>)
      | Inl f \<Rightarrow>
          failure (if retryable (tg_kind tg) \<and> may_have_sent f then ''retry_wait''
             else if may_have_sent f then ''uncertain'' else ''failed'') (code f))"

definition send :: "'u services \<Rightarrow> claim \<Rightarrow> target \<Rightarrow> outcome" where
  "send S row tg =
     (let X = sv_api S; payload = cl_payload row in
      if tg_kind tg = ''email'' then
        (case sv_smtp S of
           None \<Rightarrow> failure ''failed'' ''smtp_unconfigured''
         | Some transport \<Rightarrow>
             (case transport \<lparr>nt_recipient = st_recipient (tg_settings tg),
                 nt_title = message_title payload,
                 nt_body = message_body X (cl_id row) payload (sv_base_url S),
                 nt_project = cl_project row\<rparr> of
                Smtp_ok \<Rightarrow> delivered
              | Smtp_error \<Rightarrow> failure ''uncertain'' ''smtp_delivery_uncertain''
              | Smtp_timeout \<Rightarrow> failure ''uncertain'' ''timeout''))
      else
        (case prepare X (tg_kind tg) (tg_settings tg) (cl_id row) payload (sv_base_url S) of
           Inl err \<Rightarrow> failure ''failed'' err
         | Inr p \<Rightarrow> classify_post X tg (fst (post (sv_url S) (sv_net S) (sv_late S) (pp_endpoint p)
               (pp_headers p) (pp_body p) (issue_tracker (tg_kind tg))))))"

subsection \<open>The cycle\<close>

definition MAX_ATTEMPTS :: nat where "MAX_ATTEMPTS = 5"

definition interrupted :: "instant \<Rightarrow> delivery \<Rightarrow> delivery" where
  "interrupted now r = r\<lparr>dl_state := ''uncertain'', dl_error := Some ''worker_interrupted'',
     dl_lease_owner := None, dl_lease_until := None, dl_finished := Some now\<rparr>"

definition lapsed :: "instant \<Rightarrow> delivery \<Rightarrow> bool" where
  "lapsed now r \<longleftrightarrow> dl_state r = ''running'' \<and> (case dl_lease_until r of Some t \<Rightarrow> t < now | None \<Rightarrow> False)"

text \<open>\<open>picked\<close>: the rows, at most 32, that the limit and the locks of others leave.\<close>
definition expire_rows :: "instant \<Rightarrow> (uuid \<Rightarrow> bool) \<Rightarrow> (uuid \<times> delivery) list \<Rightarrow> (uuid \<times> delivery) list" where
  "expire_rows now picked rows =
     map (\<lambda>(k, r). (k, if picked k \<and> lapsed now r then interrupted now r else r)) rows"

definition ready :: "instant \<Rightarrow> delivery \<Rightarrow> bool" where
  "ready now r \<longleftrightarrow> dl_state r \<in> {''queued'', ''retry_wait''} \<and> dl_attempt r < MAX_ATTEMPTS
     \<and> dl_next_attempt r \<le> now"

definition next_ready :: "instant \<Rightarrow> (uuid \<Rightarrow> bool) \<Rightarrow> (uuid \<times> delivery) list \<Rightarrow> (uuid \<times> delivery) option" where
  "next_ready now locked rows =
     (case sort_key (\<lambda>(k, r). (dl_next_attempt r, k)) (filter (\<lambda>(k, r). ready now r \<and> \<not> locked k) rows) of
        [] \<Rightarrow> None | kr # _ \<Rightarrow> Some kr)"

definition started :: "uuid \<Rightarrow> instant \<Rightarrow> delivery \<Rightarrow> delivery" where
  "started token now r = r\<lparr>dl_state := ''running'', dl_attempt := Suc (dl_attempt r),
     dl_lease_owner := Some token, dl_lease_until := Some (now + secs 30)\<rparr>"

definition claim_of :: "uuid \<Rightarrow> delivery \<Rightarrow> notif_event \<Rightarrow> claim" where
  "claim_of i r e = \<lparr>cl_id = i, cl_project = dl_project r, cl_integration = dl_integration r,
     cl_user = dl_user r, cl_destination = dl_destination r, cl_config_version = dl_config_version r,
     cl_attempt = dl_attempt r, cl_event_kind = ne_kind e, cl_payload = ne_payload e,
     cl_generation = ne_generation e, cl_actor = ne_actor e, cl_target = ne_target e\<rparr>"

text \<open>The row is taken whether or not the join then finds its event.\<close>
definition claim_row ::
  "notif_event list \<Rightarrow> uuid \<Rightarrow> instant \<Rightarrow> (uuid \<Rightarrow> bool) \<Rightarrow> (uuid \<times> delivery) list
     \<Rightarrow> claim option \<times> (uuid \<times> delivery) list" where
  "claim_row evs token now locked rows =
     (case next_ready now locked rows of
        None \<Rightarrow> (None, rows)
      | Some (i, r) \<Rightarrow>
          (map_option (claim_of i (started token now r)) (List.find (\<lambda>e. ne_id e = dl_event r) evs),
           update_row i (started token now) rows))"

definition exhaust :: "claim \<Rightarrow> outcome \<Rightarrow> outcome" where
  "exhaust row oc = (if oc_state oc = ''retry_wait'' \<and> MAX_ATTEMPTS \<le> cl_attempt row
     then oc\<lparr>oc_state := ''uncertain'', oc_error := Some ''retry_exhausted''\<rparr> else oc)"

definition holds_lease :: "uuid \<Rightarrow> instant \<Rightarrow> delivery \<Rightarrow> bool" where
  "holds_lease token now r \<longleftrightarrow> dl_state r = ''running'' \<and> dl_lease_owner r = Some token
     \<and> (case dl_lease_until r of Some t \<Rightarrow> now < t | None \<Rightarrow> False)"

definition settled :: "outcome \<Rightarrow> instant \<Rightarrow> delivery \<Rightarrow> delivery" where
  "settled oc now r = r\<lparr>dl_state := oc_state oc, dl_error := oc_error oc, dl_status := oc_status oc,
     dl_external := oc_external oc, dl_lease_owner := None, dl_lease_until := None,
     dl_next_attempt := now + secs (min 300 (dl_attempt r * dl_attempt r * 5)),
     dl_finished := (if oc_state oc = ''retry_wait'' then None else Some now)\<rparr>"

record log_row =
  lg_project :: uuid
  lg_channel :: string
  lg_recipient :: string
  lg_subject :: string
  lg_metadata :: json
  lg_status :: string
  lg_retries :: int
  lg_error :: "string option"
  lg_dedup :: string
  lg_sent_at :: "instant option"

definition log_of :: "(uuid \<Rightarrow> string) \<Rightarrow> instant \<Rightarrow> claim \<Rightarrow> outcome \<Rightarrow> target \<Rightarrow> log_row" where
  "log_of uuid_text now row oc tg =
     \<lparr>lg_project = cl_project row, lg_channel = (if tg_kind tg = ''email'' then ''email'' else ''webhook''),
      lg_recipient = (if tg_kind tg = ''email'' then st_recipient (tg_settings tg) else tg_kind tg),
      lg_subject = message_title (cl_payload row),
      lg_metadata = JObj [(''deliveryId'', JStr (uuid_text (cl_id row))), (''outcome'', JStr (oc_state oc))],
      lg_status = (if oc_state oc = ''delivered'' then ''delivered'' else ''failed''),
      lg_retries = int (cl_attempt row) - 1, lg_error = oc_error oc,
      lg_dedup = ''notification:'' @ uuid_text (cl_id row) @ '':'' @ show_nat (cl_attempt row),
      lg_sent_at = (if oc_state oc = ''delivered'' then Some now else None)\<rparr>"

definition complete ::
  "(uuid \<Rightarrow> string) \<Rightarrow> instant \<Rightarrow> claim \<Rightarrow> uuid \<Rightarrow> outcome \<Rightarrow> target option
     \<Rightarrow> (uuid \<times> delivery) list \<times> log_row list \<Rightarrow> (uuid \<times> delivery) list \<times> log_row list" where
  "complete uuid_text now row token oc tg db =
     (let (rows, log) = db;
          changed = (\<exists>r \<in> set rows. fst r = cl_id row \<and> holds_lease token now (snd r))
      in (update_row (cl_id row) (\<lambda>r. if holds_lease token now r then settled oc now r else r) rows,
          case tg of
            Some t \<Rightarrow> if changed then log @ [log_of uuid_text now row oc t] else log
          | None \<Rightarrow> log))"

text \<open>
  One turn of a worker with the table to itself: \<open>t0\<close> is when it starts and \<open>t1\<close> when it
  completes.  With the result, the tables.
\<close>
definition delivery_cycle ::
  "'u services \<Rightarrow> directory \<Rightarrow> notif_event list \<Rightarrow> uuid \<Rightarrow> instant \<Rightarrow> instant \<Rightarrow> (uuid \<Rightarrow> bool) \<Rightarrow> (uuid \<Rightarrow> bool)
     \<Rightarrow> (uuid \<times> delivery) list \<times> log_row list \<Rightarrow> (abort + bool) \<times> (uuid \<times> delivery) list \<times> log_row list" where
  "delivery_cycle S D evs token t0 t1 picked locked db =
     (let (rows, log) = db;
          (row, rows) = claim_row evs token t0 locked (expire_rows t0 picked rows)
      in case row of
           None \<Rightarrow> (Inr False, rows, log)
         | Some row \<Rightarrow>
             (case delivery_target S D row of
                Inl e \<Rightarrow> (Inl e, rows, log)
              | Inr t \<Rightarrow>
                  let (tg, oc) = (case t of Inr tg \<Rightarrow> (Some tg, send S row tg) | Inl oc \<Rightarrow> (None, oc))
                  in (Inr True, complete (ob_uuid_text (sv_api S)) t1 row token (exhaust row oc) tg (rows, log))))"

subsection \<open>Workers and the table\<close>

text \<open>
  Ghost \<open>w_sent\<close>: every send a worker made, newest first, as delivery, attempt and kind of
  target.  \<open>w_working\<close> are the claims not yet sent, \<open>w_done\<close> those whose outcome is not yet stored.
\<close>
record delivery_world =
  w_now :: instant
  w_rows :: "(uuid \<times> delivery) list"
  w_log :: "log_row list"
  w_events :: "notif_event list"
  w_working :: "(claim \<times> uuid) list"
  w_done :: "(claim \<times> uuid \<times> outcome \<times> target option) list"
  w_sent :: "(uuid \<times> nat \<times> string) list"

inductive dstep :: "'u services set \<Rightarrow> delivery_world \<Rightarrow> delivery_world \<Rightarrow> bool" for Ss where
  tick: "w_now w \<le> t \<Longrightarrow> dstep Ss w (w\<lparr>w_now := t\<rparr>)"
| capture: "dstep Ss w (w\<lparr>w_events := w_events w @ [e]\<rparr>)"
| route: "map_of (w_rows w) i = None \<Longrightarrow> dl_state r = ''queued'' \<Longrightarrow> dl_attempt r = 0
    \<Longrightarrow> dstep Ss w (w\<lparr>w_rows := w_rows w @ [(i, r)]\<rparr>)"
| expire: "dstep Ss w (w\<lparr>w_rows := expire_rows (w_now w) picked (w_rows w)\<rparr>)"
| claim: "claim_row (w_events w) token (w_now w) locked (w_rows w) = (c, rows)
    \<Longrightarrow> dstep Ss w (w\<lparr>w_rows := rows,
          w_working := (case c of Some c \<Rightarrow> (c, token) # w_working w | None \<Rightarrow> w_working w)\<rparr>)"
| refuse: "(c, token) \<in> set (w_working w) \<Longrightarrow> S \<in> Ss \<Longrightarrow> delivery_target S D c = Inr (Inl oc)
    \<Longrightarrow> dstep Ss w (w\<lparr>w_working := remove1 (c, token) (w_working w),
          w_done := (c, token, exhaust c oc, None) # w_done w\<rparr>)"
| dispatch: "(c, token) \<in> set (w_working w) \<Longrightarrow> S \<in> Ss \<Longrightarrow> delivery_target S D c = Inr (Inr tg)
    \<Longrightarrow> dstep Ss w (w\<lparr>w_working := remove1 (c, token) (w_working w),
          w_sent := (cl_id c, cl_attempt c, tg_kind tg) # w_sent w,
          w_done := (c, token, exhaust c (send S c tg), Some tg) # w_done w\<rparr>)"
| die: "dstep Ss w (w\<lparr>w_working := remove1 x (w_working w), w_done := remove1 y (w_done w)\<rparr>)"
| complete: "(c, token, oc, tg) \<in> set (w_done w)
    \<Longrightarrow> complete ut (w_now w) c token oc tg (w_rows w, w_log w) = (rows, log)
    \<Longrightarrow> dstep Ss w (w\<lparr>w_done := remove1 (c, token, oc, tg) (w_done w), w_rows := rows, w_log := log\<rparr>)"

inductive_cases dstepE [consumes 1, case_names tick capture route expire claim refuse dispatch die complete]:
  "dstep Ss w w'"

definition final_state :: "string \<Rightarrow> bool" where
  "final_state s \<longleftrightarrow> s \<in> {''delivered'', ''failed'', ''uncertain'', ''cancelled''}"

lemma final_state_simps [simp]:
  "final_state ''delivered''" "final_state ''failed''" "final_state ''uncertain''" "final_state ''cancelled''"
  "\<not> final_state ''queued''" "\<not> final_state ''retry_wait''" "\<not> final_state ''running''"
  by (simp_all add: final_state_def)

lemma failure_simps [simp]: "oc_state (failure s e) = s" "oc_state delivered = ''delivered''"
  by (simp_all add: failure_def delivered_def)

lemma refusal_final: "delivery_target S D c = Inr (Inl oc) \<Longrightarrow> final_state (oc_state oc)"
  by (auto simp: delivery_target_def Let_def split: option.splits if_splits sum.splits prod.splits)

lemma classify_post_states:
  "final_state (oc_state (classify_post X tg r))
   \<or> oc_state (classify_post X tg r) = ''retry_wait'' \<and> retryable (tg_kind tg)"
  by (auto simp: classify_post_def Let_def split: sum.splits)

lemma send_states:
  "final_state (oc_state (send S c tg)) \<or> oc_state (send S c tg) = ''retry_wait'' \<and> retryable (tg_kind tg)"
  using classify_post_states by (auto simp: send_def Let_def split: option.splits smtp_result.splits sum.splits)

lemma exhaust_states:
  assumes "final_state (oc_state oc) \<or> oc_state oc = ''retry_wait'' \<and> P"
  shows "final_state (oc_state (exhaust c oc))
    \<or> oc_state (exhaust c oc) = ''retry_wait'' \<and> P \<and> cl_attempt c < MAX_ATTEMPTS"
  using assms by (auto simp: exhaust_def)

lemma map_of_expire_rows:
  "map_of (expire_rows now picked rows) j =
     map_option (\<lambda>r. if picked j \<and> lapsed now r then interrupted now r else r) (map_of rows j)"
  unfolding expire_rows_def by (induction rows) auto

lemma next_ready_Some:
  assumes "next_ready now locked rows = Some (i, r)"
  shows "(i, r) \<in> set rows" and "ready now r" and "\<not> locked i"
proof -
  let ?c = "filter (\<lambda>(k, r). ready now r \<and> \<not> locked k) rows"
  let ?s = "sort_key (\<lambda>(k, r). (dl_next_attempt r, k)) ?c"
  have "(i, r) \<in> set ?s"
    using assms by (cases ?s) (simp_all add: next_ready_def)
  then show "(i, r) \<in> set rows" "ready now r" "\<not> locked i" by auto
qed

lemma fst_expire_rows [simp]: "map fst (expire_rows now picked rows) = map fst rows"
  by (induction rows) (auto simp: expire_rows_def)

text \<open>What is known of a delivery's row, its outstanding claims and its sends.\<close>
definition row_ok :: "delivery \<Rightarrow> bool" where
  "row_ok r \<longleftrightarrow> dl_attempt r \<le> MAX_ATTEMPTS
     \<and> (final_state (dl_state r) \<or> dl_state r \<in> {''queued'', ''retry_wait'', ''running''})"

definition claim_ok :: "(uuid \<rightharpoonup> delivery) \<Rightarrow> claim \<Rightarrow> uuid \<Rightarrow> bool" where
  "claim_ok rows c token \<longleftrightarrow> (\<exists>r. rows (cl_id c) = Some r \<and> 0 < cl_attempt c \<and> cl_attempt c = dl_attempt r
     \<and> (final_state (dl_state r) \<or> dl_state r = ''running'' \<and> dl_lease_owner r = Some token))"

definition outcome_ok :: "claim \<Rightarrow> outcome \<Rightarrow> target option \<Rightarrow> bool" where
  "outcome_ok c oc tg \<longleftrightarrow> final_state (oc_state oc)
     \<or> oc_state oc = ''retry_wait'' \<and> (\<exists>t. tg = Some t \<and> retryable (tg_kind t))"

definition outstanding :: "delivery_world \<Rightarrow> uuid list" where
  "outstanding w = map (cl_id \<circ> fst) (w_working w) @ map (cl_id \<circ> fst) (w_done w)"

definition sends_of :: "uuid \<Rightarrow> delivery_world \<Rightarrow> (uuid \<times> nat \<times> string) list" where
  "sends_of i w = filter (\<lambda>(j, _). j = i) (w_sent w)"

definition rows_inv :: "delivery_world \<Rightarrow> bool" where
  "rows_inv w \<longleftrightarrow> distinct (map fst (w_rows w)) \<and> distinct (outstanding w)
     \<and> (\<forall>i r. map_of (w_rows w) i = Some r \<longrightarrow> row_ok r)"

definition working_inv :: "delivery_world \<Rightarrow> bool" where
  "working_inv w \<longleftrightarrow> (\<forall>c token. (c, token) \<in> set (w_working w) \<longrightarrow>
     claim_ok (map_of (w_rows w)) c token
     \<and> (\<forall>n k. (cl_id c, n, k) \<in> set (w_sent w) \<longrightarrow> n < cl_attempt c \<and> retryable k))"

definition done_inv :: "delivery_world \<Rightarrow> bool" where
  "done_inv w \<longleftrightarrow> (\<forall>c token oc tg. (c, token, oc, tg) \<in> set (w_done w) \<longrightarrow>
     claim_ok (map_of (w_rows w)) c token \<and> outcome_ok c oc tg
     \<and> (oc_state oc = ''retry_wait'' \<longrightarrow> (\<forall>n k. (cl_id c, n, k) \<in> set (w_sent w) \<longrightarrow> retryable k)))"

definition sent_inv :: "delivery_world \<Rightarrow> bool" where
  "sent_inv w \<longleftrightarrow> (\<forall>i n k. (i, n, k) \<in> set (w_sent w) \<longrightarrow> (\<exists>r. map_of (w_rows w) i = Some r \<and> 0 < n
     \<and> n \<le> dl_attempt r \<and> (retryable k \<or> dl_state r \<notin> {''queued'', ''retry_wait''})))"

definition order_inv :: "delivery_world \<Rightarrow> bool" where
  "order_inv w \<longleftrightarrow> (\<forall>i. sorted_wrt (\<lambda>a b. fst (snd b) < fst (snd a) \<and> retryable (snd (snd b))) (sends_of i w))"

definition delivery_inv :: "delivery_world \<Rightarrow> bool" where
  "delivery_inv w \<longleftrightarrow> rows_inv w \<and> working_inv w \<and> done_inv w \<and> sent_inv w \<and> order_inv w"

lemmas delivery_inv_defs = delivery_inv_def rows_inv_def working_inv_def done_inv_def sent_inv_def order_inv_def

lemma delivery_invE:
  assumes "delivery_inv w"
  shows "distinct (map fst (w_rows w))" and "distinct (outstanding w)"
    and "map_of (w_rows w) i = Some r \<Longrightarrow> row_ok r"
    and "(c, token) \<in> set (w_working w) \<Longrightarrow> claim_ok (map_of (w_rows w)) c token"
    and "(c, token) \<in> set (w_working w) \<Longrightarrow> (cl_id c, n, k) \<in> set (w_sent w) \<Longrightarrow> n < cl_attempt c \<and> retryable k"
    and "(c, token, oc, tg) \<in> set (w_done w) \<Longrightarrow> claim_ok (map_of (w_rows w)) c token \<and> outcome_ok c oc tg"
    and "(c, token, oc, tg) \<in> set (w_done w) \<Longrightarrow> oc_state oc = ''retry_wait''
      \<Longrightarrow> (cl_id c, n, k) \<in> set (w_sent w) \<Longrightarrow> retryable k"
    and "(i, n, k) \<in> set (w_sent w) \<Longrightarrow> \<exists>r. map_of (w_rows w) i = Some r \<and> 0 < n \<and> n \<le> dl_attempt r
          \<and> (retryable k \<or> dl_state r \<notin> {''queued'', ''retry_wait''})"
    and "sorted_wrt (\<lambda>a b. fst (snd b) < fst (snd a) \<and> retryable (snd (snd b))) (sends_of i w)"
proof -
  have r: "rows_inv w" and k: "working_inv w" and d: "done_inv w" and s: "sent_inv w" and o: "order_inv w"
    using assms by (simp_all add: delivery_inv_def)
  show "distinct (map fst (w_rows w))" "distinct (outstanding w)"
    "map_of (w_rows w) i = Some r \<Longrightarrow> row_ok r"
    using r by (simp_all only: rows_inv_def)
  show "(c, token) \<in> set (w_working w) \<Longrightarrow> claim_ok (map_of (w_rows w)) c token"
    "(c, token) \<in> set (w_working w) \<Longrightarrow> (cl_id c, n, k) \<in> set (w_sent w) \<Longrightarrow> n < cl_attempt c \<and> retryable k"
    using k unfolding working_inv_def by blast+
  show "(c, token, oc, tg) \<in> set (w_done w) \<Longrightarrow> claim_ok (map_of (w_rows w)) c token \<and> outcome_ok c oc tg"
    "(c, token, oc, tg) \<in> set (w_done w) \<Longrightarrow> oc_state oc = ''retry_wait''
      \<Longrightarrow> (cl_id c, n, k) \<in> set (w_sent w) \<Longrightarrow> retryable k"
    using d unfolding done_inv_def by blast+
  show "(i, n, k) \<in> set (w_sent w) \<Longrightarrow> \<exists>r. map_of (w_rows w) i = Some r \<and> 0 < n \<and> n \<le> dl_attempt r
          \<and> (retryable k \<or> dl_state r \<notin> {''queued'', ''retry_wait''})"
    using s unfolding sent_inv_def by blast
  show "sorted_wrt (\<lambda>a b. fst (snd b) < fst (snd a) \<and> retryable (snd (snd b))) (sends_of i w)"
    using o unfolding order_inv_def by blast
qed

text \<open>Rows may appear, and running rows may become final, without disturbing the rest.\<close>
definition rows_evolve :: "(uuid \<times> delivery) list \<Rightarrow> (uuid \<times> delivery) list \<Rightarrow> bool" where
  "rows_evolve rows rows' \<longleftrightarrow> distinct (map fst rows')
     \<and> (\<forall>i r'. map_of rows' i = Some r' \<longrightarrow> row_ok r')
     \<and> (\<forall>i r. map_of rows i = Some r \<longrightarrow> (\<exists>r'. map_of rows' i = Some r' \<and> dl_attempt r' = dl_attempt r
          \<and> (r' = r \<or> dl_state r = ''running'' \<and> final_state (dl_state r'))))"

lemma claim_ok_evolve:
  assumes "rows_evolve rows rows'" and "claim_ok (map_of rows) c token"
  shows "claim_ok (map_of rows') c token"
proof -
  obtain r where r: "map_of rows (cl_id c) = Some r" "0 < cl_attempt c" "cl_attempt c = dl_attempt r"
    "final_state (dl_state r) \<or> dl_state r = ''running'' \<and> dl_lease_owner r = Some token"
    using assms(2) unfolding claim_ok_def by blast
  moreover obtain r' where "map_of rows' (cl_id c) = Some r'" "dl_attempt r' = dl_attempt r"
    "r' = r \<or> dl_state r = ''running'' \<and> final_state (dl_state r')"
    using assms(1) r(1) unfolding rows_evolve_def by blast
  ultimately show ?thesis unfolding claim_ok_def by auto
qed

lemma final_not_waiting: "final_state s \<Longrightarrow> s \<noteq> ''queued'' \<and> s \<noteq> ''retry_wait'' \<and> s \<noteq> ''running''"
  by (auto simp: final_state_def)

lemma delivery_inv_evolve:
  assumes "delivery_inv w" and "rows_evolve (w_rows w) rows'"
  shows "delivery_inv (w\<lparr>w_rows := rows'\<rparr>)"
proof -
  have "\<exists>r. map_of rows' i = Some r \<and> 0 < n \<and> n \<le> dl_attempt r
      \<and> (retryable k \<or> dl_state r \<notin> {''queued'', ''retry_wait''})" if s: "(i, n, k) \<in> set (w_sent w)" for i n k
  proof -
    obtain r where r: "map_of (w_rows w) i = Some r" "0 < n" "n \<le> dl_attempt r"
      "retryable k \<or> dl_state r \<notin> {''queued'', ''retry_wait''}"
      using delivery_invE(8) [OF assms(1) s] by blast
    moreover obtain r' where "map_of rows' i = Some r'" "dl_attempt r' = dl_attempt r"
      "r' = r \<or> dl_state r = ''running'' \<and> final_state (dl_state r')"
      using assms(2) r(1) unfolding rows_evolve_def by blast
    ultimately show ?thesis using final_not_waiting by auto
  qed
  then have "sent_inv (w\<lparr>w_rows := rows'\<rparr>)" unfolding sent_inv_def by simp
  moreover have "rows_inv (w\<lparr>w_rows := rows'\<rparr>)"
    using assms by (simp add: delivery_inv_def rows_inv_def rows_evolve_def outstanding_def)
  moreover have "working_inv (w\<lparr>w_rows := rows'\<rparr>)" "done_inv (w\<lparr>w_rows := rows'\<rparr>)"
    using assms(1) claim_ok_evolve [OF assms(2)]
    by (simp_all add: delivery_inv_def working_inv_def done_inv_def)
  moreover have "order_inv (w\<lparr>w_rows := rows'\<rparr>)"
    using assms(1) by (simp add: delivery_inv_def order_inv_def sends_of_def)
  ultimately show ?thesis by (simp add: delivery_inv_def)
qed

lemma started_simps [simp]:
  "dl_attempt (started token now r) = Suc (dl_attempt r)" "dl_state (started token now r) = ''running''"
  "dl_lease_owner (started token now r) = Some token"
  by (simp_all add: started_def)

lemma row_ok_interrupted [simp]:
  "row_ok r \<Longrightarrow> row_ok (interrupted now r)" "final_state (dl_state (interrupted now r))"
  "dl_attempt (interrupted now r) = dl_attempt r"
  by (simp_all add: row_ok_def interrupted_def)

lemma row_ok_settled [simp]:
  "row_ok r \<Longrightarrow> final_state (oc_state oc) \<or> oc_state oc = ''retry_wait'' \<Longrightarrow> row_ok (settled oc now r)"
  "dl_state (settled oc now r) = oc_state oc" "dl_attempt (settled oc now r) = dl_attempt r"
  by (auto simp: row_ok_def settled_def)

lemma rows_evolve_route:
  assumes "distinct (map fst rows)" and "\<And>i r. map_of rows i = Some r \<Longrightarrow> row_ok r"
    and "map_of rows i = None" and "row_ok r"
  shows "rows_evolve rows (rows @ [(i, r)])"
  using assms by (auto simp: rows_evolve_def map_add_def map_of_eq_None_iff split: option.splits if_splits)

lemma rows_evolve_expire:
  assumes "distinct (map fst rows)" and "\<And>i r. map_of rows i = Some r \<Longrightarrow> row_ok r"
  shows "rows_evolve rows (expire_rows now picked rows)"
  unfolding rows_evolve_def using assms
  by (auto simp: map_of_expire_rows lapsed_def row_ok_interrupted simp del: map_of_eq_Some_iff)

lemma rows_evolve_settle:
  assumes "distinct (map fst rows)" and "\<And>i r. map_of rows i = Some r \<Longrightarrow> row_ok r"
    and "final_state (oc_state oc)"
  shows "rows_evolve rows (update_row i (\<lambda>r. if holds_lease token now r then settled oc now r else r) rows)"
  unfolding rows_evolve_def using assms
  by (auto simp: map_of_update_row holds_lease_def row_ok_settled simp del: map_of_eq_Some_iff)

lemma claim_of_simps [simp]: "cl_id (claim_of i r e) = i" "cl_attempt (claim_of i r e) = dl_attempt r"
  by (simp_all add: claim_of_def)

lemma outstanding_in:
  "(c, token) \<in> set (w_working w) \<Longrightarrow> cl_id c \<in> set (outstanding w)"
  "(c, token, oc, tg) \<in> set (w_done w) \<Longrightarrow> cl_id c \<in> set (outstanding w)"
  unfolding outstanding_def by force+

lemma outstanding_held:
  assumes "delivery_inv w" and "i \<in> set (outstanding w)"
  obtains r where "map_of (w_rows w) i = Some r" "final_state (dl_state r) \<or> dl_state r = ''running''"
proof -
  from assms(2) obtain c token where "claim_ok (map_of (w_rows w)) c token" "cl_id c = i"
    unfolding outstanding_def using delivery_invE(4,6) [OF assms(1)] by fastforce
  with that show ?thesis unfolding claim_ok_def by blast
qed

lemma delivery_inv_start:
  assumes inv: "delivery_inv w" and n: "next_ready (w_now w) locked (w_rows w) = Some (i, r)"
  shows "delivery_inv (w\<lparr>w_rows := update_row i (started token now) (w_rows w)\<rparr>)"
    and "i \<notin> set (outstanding w)"
proof -
  have r: "map_of (w_rows w) i = Some r" "ready (w_now w) r"
    using next_ready_Some [OF n] delivery_invE(1) [OF inv] by simp_all
  show free: "i \<notin> set (outstanding w)"
  proof
    assume "i \<in> set (outstanding w)"
    from outstanding_held [OF inv this] obtain r' where "map_of (w_rows w) i = Some r'"
      "final_state (dl_state r') \<or> dl_state r' = ''running''" by blast
    with r final_not_waiting show False unfolding ready_def by auto
  qed
  have ne: "cl_id c \<noteq> i" if "(c, token) \<in> set (w_working w) \<or> (c, token, oc, tg) \<in> set (w_done w)"
    for c token oc tg using that free outstanding_in by metis
  let ?rows = "update_row i (started token now) (w_rows w)"
  have keep: "claim_ok (map_of ?rows) c t = claim_ok (map_of (w_rows w)) c t" if "cl_id c \<noteq> i" for c t
    using that unfolding claim_ok_def by (simp add: map_of_update_row)
  have "row_ok (started token now r)"
    using r(2) by (simp add: row_ok_def ready_def)
  then have ok: "row_ok r'" if "map_of ?rows j = Some r'" for j r'
    using that r(1) delivery_invE(3) [OF inv] by (auto simp: map_of_update_row split: if_splits)
  have "\<exists>r. map_of ?rows j = Some r \<and> 0 < n \<and> n \<le> dl_attempt r
      \<and> (retryable k \<or> dl_state r \<notin> {''queued'', ''retry_wait''})" if "(j, n, k) \<in> set (w_sent w)" for j n k
    using delivery_invE(8) [OF inv that] r(1) by (cases "j = i") (auto simp: map_of_update_row)
  then have "sent_inv (w\<lparr>w_rows := ?rows\<rparr>)" unfolding sent_inv_def by simp
  moreover have "rows_inv (w\<lparr>w_rows := ?rows\<rparr>)"
    using inv ok by (simp add: delivery_inv_def rows_inv_def outstanding_def)
  moreover have "working_inv (w\<lparr>w_rows := ?rows\<rparr>)" "done_inv (w\<lparr>w_rows := ?rows\<rparr>)"
    using inv keep ne unfolding delivery_inv_def working_inv_def done_inv_def by simp_all metis+
  moreover have "order_inv (w\<lparr>w_rows := ?rows\<rparr>)"
    using inv by (simp add: delivery_inv_def order_inv_def sends_of_def)
  ultimately show "delivery_inv (w\<lparr>w_rows := ?rows\<rparr>)" by (simp add: delivery_inv_def)
qed

lemma delivery_inv_take:
  assumes inv: "delivery_inv w" and "cl_id c \<notin> set (outstanding w)"
    and "claim_ok (map_of (w_rows w)) c token"
    and "\<And>n k. (cl_id c, n, k) \<in> set (w_sent w) \<Longrightarrow> n < cl_attempt c \<and> retryable k"
  shows "delivery_inv (w\<lparr>w_working := (c, token) # w_working w\<rparr>)"
proof -
  let ?w = "w\<lparr>w_working := (c, token) # w_working w\<rparr>"
  have "rows_inv ?w" using assms(1,2) by (simp add: delivery_inv_def rows_inv_def outstanding_def)
  moreover have "working_inv ?w" using assms(1,3,4) by (simp add: delivery_inv_def working_inv_def)
  moreover have "done_inv ?w" "sent_inv ?w" "order_inv ?w"
    using assms(1) by (simp_all add: delivery_inv_def done_inv_def sent_inv_def order_inv_def sends_of_def)
  ultimately show ?thesis by (simp add: delivery_inv_def)
qed

lemma delivery_inv_claim:
  assumes inv: "delivery_inv w"
    and c: "claim_row (w_events w) token (w_now w) locked (w_rows w) = (c, rows)"
  shows "delivery_inv (w\<lparr>w_rows := rows,
    w_working := (case c of Some c \<Rightarrow> (c, token) # w_working w | None \<Rightarrow> w_working w)\<rparr>)"
proof (cases "next_ready (w_now w) locked (w_rows w)")
  case None
  with c inv show ?thesis by (auto simp: claim_row_def)
next
  case (Some ir)
  obtain i r where ir: "ir = (i, r)" by (cases ir)
  note n = Some [unfolded ir]
  have rows: "rows = update_row i (started token (w_now w)) (w_rows w)" and
    cv: "c = map_option (claim_of i (started token (w_now w) r)) (List.find (\<lambda>e. ne_id e = dl_event r) (w_events w))"
    using c n by (simp_all add: claim_row_def)
  have r: "map_of (w_rows w) i = Some r" "ready (w_now w) r"
    using next_ready_Some [OF n] delivery_invE(1) [OF inv] by simp_all
  note s = delivery_inv_start(1) [OF inv n, of token "w_now w", folded rows]
  note free = delivery_inv_start(2) [OF inv n]
  have sent: "m < Suc (dl_attempt r) \<and> retryable k" if "(i, m, k) \<in> set (w_sent w)" for m k
    using delivery_invE(8) [OF inv that] r by (auto simp: ready_def)
  show ?thesis
  proof (cases c)
    case None
    with s show ?thesis by simp
  next
    case (Some c')
    with cv have c': "cl_id c' = i" "cl_attempt c' = Suc (dl_attempt r)"
      by (cases "List.find (\<lambda>e. ne_id e = dl_event r) (w_events w)"; simp)+
    have "claim_ok (map_of rows) c' token"
      using r(1) c' by (simp add: claim_ok_def rows map_of_update_row)
    with delivery_inv_take [OF s, of c' token] free c' sent Some show ?thesis
      by (simp add: outstanding_def)
  qed
qed

lemma delivery_inv_fewer:
  assumes inv: "delivery_inv w" and "set xs \<subseteq> set (w_working w)" and "set ys \<subseteq> set (w_done w)"
    and "distinct (map (cl_id \<circ> fst) xs @ map (cl_id \<circ> fst) ys)"
  shows "delivery_inv (w\<lparr>w_working := xs, w_done := ys\<rparr>)"
proof -
  let ?w = "w\<lparr>w_working := xs, w_done := ys\<rparr>"
  have "rows_inv ?w" using inv assms(4) by (simp add: delivery_inv_def rows_inv_def outstanding_def)
  moreover have "working_inv ?w" "done_inv ?w"
    using inv assms(2,3) unfolding delivery_inv_def working_inv_def done_inv_def by (simp_all) (meson subsetD)+
  moreover have "sent_inv ?w" "order_inv ?w"
    using inv by (simp_all add: delivery_inv_def sent_inv_def order_inv_def sends_of_def)
  ultimately show ?thesis by (simp add: delivery_inv_def)
qed

lemma delivery_inv_drop:
  assumes inv: "delivery_inv w"
  shows "delivery_inv (w\<lparr>w_working := remove1 x (w_working w), w_done := remove1 y (w_done w)\<rparr>)"
  using delivery_inv_fewer [OF inv set_remove1_subset set_remove1_subset
      distinct_remove1s(1) [OF delivery_invE(2) [OF inv, unfolded outstanding_def]]] .

lemma delivery_inv_done:
  assumes inv: "delivery_inv w" and "cl_id c \<notin> set (outstanding w)"
    and "claim_ok (map_of (w_rows w)) c token" and "outcome_ok c oc tg"
    and "\<And>n k. oc_state oc = ''retry_wait'' \<Longrightarrow> (cl_id c, n, k) \<in> set (w_sent w) \<Longrightarrow> retryable k"
  shows "delivery_inv (w\<lparr>w_done := (c, token, oc, tg) # w_done w\<rparr>)"
proof -
  let ?w = "w\<lparr>w_done := (c, token, oc, tg) # w_done w\<rparr>"
  have "rows_inv ?w" using assms(1,2) by (simp add: delivery_inv_def rows_inv_def outstanding_def)
  moreover have "done_inv ?w" using assms(1,3-5) by (simp add: delivery_inv_def done_inv_def)
  moreover have "working_inv ?w" "sent_inv ?w" "order_inv ?w"
    using assms(1) by (simp_all add: delivery_inv_def working_inv_def sent_inv_def order_inv_def sends_of_def)
  ultimately show ?thesis by (simp add: delivery_inv_def)
qed

text \<open>A claim or an outcome leaves, and is the last of its delivery to be outstanding.\<close>
lemma delivery_inv_leave:
  assumes inv: "delivery_inv w"
  shows "delivery_inv (w\<lparr>w_working := remove1 x (w_working w)\<rparr>)"
    and "x \<in> set (w_working w) \<Longrightarrow> cl_id (fst x) \<notin> set (outstanding (w\<lparr>w_working := remove1 x (w_working w)\<rparr>))"
    and "delivery_inv (w\<lparr>w_done := remove1 y (w_done w)\<rparr>)"
    and "y \<in> set (w_done w) \<Longrightarrow> cl_id (fst y) \<notin> set (outstanding (w\<lparr>w_done := remove1 y (w_done w)\<rparr>))"
proof -
  note d = distinct_remove1s [OF delivery_invE(2) [OF inv, unfolded outstanding_def]]
  show "delivery_inv (w\<lparr>w_working := remove1 x (w_working w)\<rparr>)"
    using delivery_inv_fewer [OF inv set_remove1_subset order_refl d(2)] by simp
  show "delivery_inv (w\<lparr>w_done := remove1 y (w_done w)\<rparr>)"
    using delivery_inv_fewer [OF inv order_refl set_remove1_subset d(3)] by simp
  show "x \<in> set (w_working w) \<Longrightarrow> cl_id (fst x) \<notin> set (outstanding (w\<lparr>w_working := remove1 x (w_working w)\<rparr>))"
    using d(4) [of x] by (simp add: outstanding_def)
  show "y \<in> set (w_done w) \<Longrightarrow> cl_id (fst y) \<notin> set (outstanding (w\<lparr>w_done := remove1 y (w_done w)\<rparr>))"
    using d(5) [of y] by (simp add: outstanding_def)
qed

lemma delivery_inv_sent:
  assumes inv: "delivery_inv w" and free: "cl_id c \<notin> set (outstanding w)"
    and ok: "claim_ok (map_of (w_rows w)) c token"
    and old: "\<And>n k. (cl_id c, n, k) \<in> set (w_sent w) \<Longrightarrow> n < cl_attempt c \<and> retryable k"
  shows "delivery_inv (w\<lparr>w_sent := (cl_id c, cl_attempt c, kind) # w_sent w\<rparr>)"
proof -
  let ?w = "w\<lparr>w_sent := (cl_id c, cl_attempt c, kind) # w_sent w\<rparr>"
  have ne: "cl_id c' \<noteq> cl_id c" if "(c', t) \<in> set (w_working w) \<or> (c', t, oc, tg) \<in> set (w_done w)"
    for c' t oc tg using that free outstanding_in by metis
  obtain r where r: "map_of (w_rows w) (cl_id c) = Some r" "0 < cl_attempt c" "cl_attempt c = dl_attempt r"
    "final_state (dl_state r) \<or> dl_state r = ''running''" using ok unfolding claim_ok_def by blast
  have "rows_inv ?w" using inv by (simp add: delivery_inv_def rows_inv_def outstanding_def)
  moreover have "working_inv ?w" "done_inv ?w"
    using inv ne by (auto simp: delivery_inv_def working_inv_def done_inv_def)
  moreover have "sent_inv ?w"
  proof -
    have "\<exists>r. map_of (w_rows w) (cl_id c) = Some r \<and> 0 < cl_attempt c \<and> cl_attempt c \<le> dl_attempt r
        \<and> (retryable kind \<or> dl_state r \<notin> {''queued'', ''retry_wait''})"
      using r final_not_waiting by auto
    with inv show ?thesis unfolding delivery_inv_def sent_inv_def by simp
  qed
  moreover have "order_inv ?w"
  proof -
    have "\<forall>e \<in> set (sends_of (cl_id c) w). fst (snd e) < cl_attempt c \<and> retryable (snd (snd e))"
      using old by (auto simp: sends_of_def)
    with inv show ?thesis by (auto simp: delivery_inv_def order_inv_def sends_of_def)
  qed
  ultimately show ?thesis by (simp add: delivery_inv_def)
qed

lemma delivery_inv_refuse:
  assumes inv: "delivery_inv w" and c: "(c, token) \<in> set (w_working w)" and oc: "final_state (oc_state oc)"
  shows "delivery_inv (w\<lparr>w_working := remove1 (c, token) (w_working w), w_done := (c, token, oc, tg) # w_done w\<rparr>)"
  using delivery_inv_done [OF delivery_inv_leave(1) [OF inv], of c "(c, token)" token oc tg]
    delivery_inv_leave(2) [OF inv c] delivery_invE(4) [OF inv c] oc final_not_waiting [OF oc]
  by (simp add: outcome_ok_def)

lemma delivery_inv_send:
  assumes inv: "delivery_inv w" and c: "(c, token) \<in> set (w_working w)"
    and oc: "final_state (oc_state oc) \<or> oc_state oc = ''retry_wait'' \<and> retryable (tg_kind tg)"
  shows "delivery_inv (w\<lparr>w_working := remove1 (c, token) (w_working w),
    w_sent := (cl_id c, cl_attempt c, tg_kind tg) # w_sent w, w_done := (c, token, oc, Some tg) # w_done w\<rparr>)"
proof -
  let ?w = "w\<lparr>w_working := remove1 (c, token) (w_working w)\<rparr>"
  note old = delivery_invE(5) [OF inv c]
  have f: "cl_id c \<notin> set (outstanding ?w)" using delivery_inv_leave(2) [OF inv c] by simp
  have s: "delivery_inv (?w\<lparr>w_sent := (cl_id c, cl_attempt c, tg_kind tg) # w_sent w\<rparr>)"
    using delivery_inv_sent [OF delivery_inv_leave(1) [OF inv] f, of token] old
      delivery_invE(4) [OF inv c] by simp
  have "delivery_inv (?w\<lparr>w_sent := (cl_id c, cl_attempt c, tg_kind tg) # w_sent w,
      w_done := (c, token, oc, Some tg) # w_done w\<rparr>)"
    using delivery_inv_done [OF s, of c token oc "Some tg"] f old delivery_invE(4) [OF inv c] oc final_not_waiting
    by (auto simp: outcome_ok_def outstanding_def)
  then show ?thesis by simp
qed

lemma delivery_inv_complete:
  assumes inv: "delivery_inv w" and d: "(c, token, oc, tg) \<in> set (w_done w)"
  shows "delivery_inv (w\<lparr>w_done := remove1 (c, token, oc, tg) (w_done w),
    w_rows := update_row (cl_id c)
      (\<lambda>r. if holds_lease token now r then settled oc now r else r) (w_rows w)\<rparr>)"
proof (cases "final_state (oc_state oc)")
  case True
  let ?y = "(c, token, oc, tg)"
  have "rows_evolve (w_rows (w\<lparr>w_done := remove1 ?y (w_done w)\<rparr>)) (update_row (cl_id c)
      (\<lambda>r. if holds_lease token now r then settled oc now r else r) (w_rows w))"
    using rows_evolve_settle [OF delivery_invE(1,3) [OF inv] True] by simp
  from delivery_inv_evolve [OF delivery_inv_leave(3) [OF inv] this] show ?thesis by simp
next
  case False
  let ?rows = "update_row (cl_id c) (\<lambda>r. if holds_lease token now r then settled oc now r else r) (w_rows w)"
  let ?w = "w\<lparr>w_done := remove1 (c, token, oc, tg) (w_done w)\<rparr>"
  note ok = delivery_invE(6) [OF inv d] and left = delivery_inv_leave(3,4) [OF inv, of "(c, token, oc, tg)"]
  have retry: "oc_state oc = ''retry_wait''" using ok False by (simp add: outcome_ok_def)
  have free: "cl_id c \<notin> set (outstanding ?w)" using left(2) d by simp
  have ne: "cl_id c' \<noteq> cl_id c" if "(c', t) \<in> set (w_working ?w) \<or> (c', t, o', g) \<in> set (w_done ?w)"
    for c' t o' g using that free outstanding_in by metis
  have keep: "claim_ok (map_of ?rows) c' t" if "claim_ok (map_of (w_rows w)) c' t" "cl_id c' \<noteq> cl_id c" for c' t
    using that unfolding claim_ok_def by (simp add: map_of_update_row)
  have rok: "row_ok r'" if "map_of ?rows j = Some r'" for j r'
    using that retry delivery_invE(3) [OF inv] by (auto simp: map_of_update_row split: if_splits)
  have "\<exists>r. map_of ?rows j = Some r \<and> 0 < n \<and> n \<le> dl_attempt r
      \<and> (retryable k \<or> dl_state r \<notin> {''queued'', ''retry_wait''})" if s: "(j, n, k) \<in> set (w_sent w)" for j n k
  proof -
    obtain r where r: "map_of (w_rows w) j = Some r" "0 < n" "n \<le> dl_attempt r"
      "retryable k \<or> dl_state r \<notin> {''queued'', ''retry_wait''}"
      using delivery_invE(8) [OF inv s] by blast
    have a: "dl_attempt (if holds_lease token now r then settled oc now r else r) = dl_attempt r" by simp
    show ?thesis
    proof (cases "j = cl_id c")
      case True
      with s have "retryable k" using delivery_invE(7) [OF inv d retry] by blast
      with r a True show ?thesis by (auto simp: map_of_update_row)
    qed (use r in \<open>simp add: map_of_update_row\<close>)
  qed
  then have "sent_inv (?w\<lparr>w_rows := ?rows\<rparr>)" unfolding sent_inv_def by simp
  moreover have "rows_inv (?w\<lparr>w_rows := ?rows\<rparr>)"
    using left(1) rok by (simp add: delivery_inv_def rows_inv_def outstanding_def)
  moreover have "working_inv (?w\<lparr>w_rows := ?rows\<rparr>)"
    unfolding working_inv_def
  proof (intro allI impI)
    fix c' t assume "(c', t) \<in> set (w_working (?w\<lparr>w_rows := ?rows\<rparr>))"
    then have m: "(c', t) \<in> set (w_working ?w)" by simp
    from delivery_invE(4,5) [OF left(1) m] keep ne [of c' t] m
    show "claim_ok (map_of (w_rows (?w\<lparr>w_rows := ?rows\<rparr>))) c' t \<and> (\<forall>n k. (cl_id c', n, k)
        \<in> set (w_sent (?w\<lparr>w_rows := ?rows\<rparr>)) \<longrightarrow> n < cl_attempt c' \<and> retryable k)" by simp
  qed
  moreover have "done_inv (?w\<lparr>w_rows := ?rows\<rparr>)"
    unfolding done_inv_def
  proof (intro allI impI)
    fix c' t o' g assume "(c', t, o', g) \<in> set (w_done (?w\<lparr>w_rows := ?rows\<rparr>))"
    then have m: "(c', t, o', g) \<in> set (w_done ?w)" by simp
    have "claim_ok (map_of (w_rows w)) c' t" using conjunct1 [OF delivery_invE(6) [OF left(1) m]] by simp
    moreover have "cl_id c' \<noteq> cl_id c" by (rule ne [OF disjI2 [OF m]])
    ultimately have "claim_ok (map_of ?rows) c' t" by (rule keep)
    moreover have "outcome_ok c' o' g" using delivery_invE(6) [OF left(1) m] by blast
    moreover have "retryable k" if "oc_state o' = ''retry_wait''" "(cl_id c', n, k) \<in> set (w_sent w)" for n k
      using delivery_invE(7) [OF left(1) m that(1)] that(2) by simp
    ultimately show "claim_ok (map_of (w_rows (?w\<lparr>w_rows := ?rows\<rparr>))) c' t \<and> outcome_ok c' o' g
      \<and> (oc_state o' = ''retry_wait'' \<longrightarrow> (\<forall>n k. (cl_id c', n, k)
        \<in> set (w_sent (?w\<lparr>w_rows := ?rows\<rparr>)) \<longrightarrow> retryable k))" by simp
  qed
  moreover have "order_inv (?w\<lparr>w_rows := ?rows\<rparr>)"
    using left(1) by (simp add: delivery_inv_def order_inv_def sends_of_def)
  ultimately have "delivery_inv (?w\<lparr>w_rows := ?rows\<rparr>)" by (simp add: delivery_inv_def)
  then show ?thesis by simp
qed

lemma delivery_inv_log: "delivery_inv (w\<lparr>w_log := l\<rparr>) = delivery_inv w" "delivery_inv (w\<lparr>w_now := t\<rparr>) = delivery_inv w"
  "delivery_inv (w\<lparr>w_events := es\<rparr>) = delivery_inv w"
  by (simp_all add: delivery_inv_defs outstanding_def sends_of_def)

lemma dstep_inv: "dstep Ss w w' \<Longrightarrow> delivery_inv w \<Longrightarrow> delivery_inv w'"
proof (induction rule: dstep.induct)
  case (tick w t)
  then show ?case by (simp add: delivery_inv_log)
next
  case (capture w e)
  then show ?case by (simp add: delivery_inv_log)
next
  case (route w i r)
  have "row_ok r" using route by (simp add: row_ok_def MAX_ATTEMPTS_def)
  from rows_evolve_route [OF delivery_invE(1,3) [OF route(4)] route(1) this] route(4)
  show ?case by (rule delivery_inv_evolve [rotated])
next
  case (expire w picked)
  from delivery_inv_evolve [OF this rows_evolve_expire [OF delivery_invE(1,3) [OF this]]] show ?case .
next
  case (claim w token locked c rows)
  from delivery_inv_claim [OF claim(2,1)] show ?case .
next
  case (refuse c token w S D oc)
  from exhaust_states [of oc False c] refusal_final [OF refuse(3)]
  have "final_state (oc_state (exhaust c oc))" by blast
  from delivery_inv_refuse [OF refuse(4,1) this] show ?case .
next
  case (dispatch c token w S D tg)
  from exhaust_states [OF send_states [of S c tg], of c]
  have "final_state (oc_state (exhaust c (send S c tg)))
      \<or> oc_state (exhaust c (send S c tg)) = ''retry_wait'' \<and> retryable (tg_kind tg)" by blast
  from delivery_inv_send [OF dispatch(4,1) this] show ?case .
next
  case (die w x y)
  from delivery_inv_drop [OF this] show ?case .
next
  case (complete c token oc tg w ut rows log)
  have "rows = update_row (cl_id c) (\<lambda>r. if holds_lease token (w_now w) r then settled oc (w_now w) r else r) (w_rows w)"
    using complete(2) by (simp add: complete_def Let_def)
  with delivery_inv_complete [OF complete(3,1), of "w_now w"]
  show ?case using delivery_inv_log(1) by simp
qed

subsection \<open>Sends are bounded, and final states are final\<close>

text \<open>Before anything was routed.\<close>
definition delivery_start :: "delivery_world \<Rightarrow> bool" where
  "delivery_start w \<longleftrightarrow> w_rows w = [] \<and> w_working w = [] \<and> w_done w = [] \<and> w_sent w = []"

lemma delivery_inv_reach:
  assumes "(dstep Ss)\<^sup>*\<^sup>* w w'" and "delivery_start w"
  shows "delivery_inv w'"
  using assms(1)
proof (induction rule: rtranclp_induct)
  case base
  show ?case
    using assms(2) by (simp add: delivery_inv_defs delivery_start_def outstanding_def sends_of_def)
qed (rule dstep_inv)

lemma in_sends_of:
  assumes "x \<in> set (sends_of i w)"
  obtains n k where "x = (i, n, k)" "(i, n, k) \<in> set (w_sent w)"
proof -
  obtain j n k where "x = (j, n, k)" by (cases x)
  with assms that [of n k] show thesis by (auto simp: sends_of_def)
qed

lemma descending_length:
  fixes xs :: "('a \<times> nat \<times> 'b) list"
  assumes "sorted_wrt (\<lambda>a b. fst (snd b) < fst (snd a) \<and> P b) xs" and "\<forall>x \<in> set xs. 0 < fst (snd x) \<and> fst (snd x) \<le> m"
  shows "length xs \<le> m"
  using assms
proof (induction xs arbitrary: m)
  case (Cons x xs)
  have "length xs \<le> fst (snd x) - 1" using Cons.prems by (intro Cons.IH) auto
  with Cons.prems(2) show ?case by auto
qed simp


lemma final_row_step:
  assumes "dstep Ss w w'" and inv: "delivery_inv w" and r: "map_of (w_rows w) i = Some r"
    and f: "final_state (dl_state r)"
  shows "map_of (w_rows w') i = Some r"
  using assms(1)
proof (cases rule: dstepE)
  case (route j q)
  with r show ?thesis by (auto simp: map_add_def)
next
  case (expire picked)
  with r f show ?thesis by (auto simp: map_of_expire_rows lapsed_def final_state_def)
next
  case (claim token locked c rows)
  show ?thesis
  proof (cases "next_ready (w_now w) locked (w_rows w)")
    case None
    with claim r show ?thesis by (simp add: claim_row_def)
  next
    case (Some jq)
    obtain j q where jq: "jq = (j, q)" by (cases jq)
    from next_ready_Some [OF Some [unfolded jq]] delivery_invE(1) [OF inv]
    have "map_of (w_rows w) j = Some q" "ready (w_now w) q" by simp_all
    with r f have "j \<noteq> i" by (auto simp: ready_def final_state_def)
    with claim Some jq r show ?thesis by (auto simp: claim_row_def map_of_update_row)
  qed
next
  case (complete c token oc tg ut rows log)
  with r f show ?thesis
    by (auto simp: complete_def Let_def map_of_update_row holds_lease_def final_state_def)
qed (use r in auto)


subsection \<open>A run\<close>

definition toy_services :: "string services" where
  "toy_services = \<lparr>sv_vault = None, sv_aead = toy_aead, sv_api = toy_api, sv_url = toy_url, sv_net = toy_net,
     sv_late = None, sv_smtp = Some (\<lambda>_. Smtp_ok), sv_base_url = ''https://s''\<rparr>"

definition toy_directory :: directory where
  "toy_directory = \<lparr>dir_generation = Some 1, dir_users = [(9, ''a@b.c'', ''superadmin'')], dir_prefs = [],
     dir_assigned = [], dir_webhooks = [], dir_integrations = []\<rparr>"

definition toy_event :: notif_event where
  "toy_event = \<lparr>ne_id = 4, ne_project = 7, ne_key = ''k'', ne_kind = ''issue.new'', ne_payload = JNull,
     ne_issue = None, ne_actor = None, ne_target = None, ne_generation = 1\<rparr>"

definition toy_row :: delivery where
  "toy_row = \<lparr>dl_project = 7, dl_event = 4, dl_integration = None, dl_user = Some 9,
     dl_destination = ''user_email'', dl_config_version = 0, dl_state = ''queued'', dl_attempt = 0,
     dl_next_attempt = 0, dl_lease_owner = None, dl_lease_until = None, dl_error = None,
     dl_status = None, dl_external = None, dl_finished = None\<rparr>"

definition empty_world :: delivery_world where
  "empty_world = \<lparr>w_now = 1, w_rows = [], w_log = [], w_events = [], w_working = [], w_done = [], w_sent = []\<rparr>"

definition toy_claim :: claim where
  "toy_claim = claim_of 3 (started 5 1 toy_row) toy_event"

definition toy_target :: target where
  "toy_target = \<lparr>tg_kind = ''email'', tg_settings = default_settings\<lparr>st_recipient := ''a@b.c''\<rparr>\<rparr>"

text \<open>One delivery by mail, up to its outcome and up to its being stored.\<close>
lemma toy_delivery:
  defines "w3 \<equiv> empty_world\<lparr>w_events := [toy_event], w_rows := [(3, started 5 1 toy_row)], w_working := [],
    w_sent := [(3, 1, ''email'')], w_done := [(toy_claim, 5, delivered, Some toy_target)]\<rparr>"
  shows "(dstep {toy_services})\<^sup>*\<^sup>* empty_world w3"
    and "\<exists>w4 r. (dstep {toy_services})\<^sup>*\<^sup>* empty_world w4 \<and> map_of (w_rows w4) 3 = Some r
      \<and> dl_state r = ''delivered''"
proof -
  let ?w1 = "empty_world\<lparr>w_events := [toy_event], w_rows := [(3, toy_row)]\<rparr>"
  let ?w2 = "empty_world\<lparr>w_events := [toy_event], w_rows := [(3, started 5 1 toy_row)], w_working := [(toy_claim, 5)]\<rparr>"
  have a: "dstep {toy_services} empty_world (empty_world\<lparr>w_events := [toy_event]\<rparr>)"
    using dstep.capture [of "{toy_services}" empty_world toy_event] by (simp add: empty_world_def)
  have b: "dstep {toy_services} (empty_world\<lparr>w_events := [toy_event]\<rparr>) ?w1"
    using dstep.route [of "empty_world\<lparr>w_events := [toy_event]\<rparr>" 3 toy_row "{toy_services}"]
    by (simp add: empty_world_def toy_row_def)
  have "claim_row (w_events ?w1) 5 (w_now ?w1) (\<lambda>_. False) (w_rows ?w1)
      = (Some toy_claim, [(3, started 5 1 toy_row)])"
    by (simp add: claim_row_def next_ready_def ready_def MAX_ATTEMPTS_def toy_row_def toy_event_def
        empty_world_def toy_claim_def update_row_def started_def)
  from dstep.claim [OF this, of "{toy_services}"] have c: "dstep {toy_services} ?w1 ?w2"
    by (simp add: empty_world_def)
  have t: "delivery_target toy_services toy_directory toy_claim = Inr (Inr toy_target)"
    by (simp add: delivery_target_def toy_directory_def toy_claim_def claim_of_def toy_event_def toy_row_def
        started_def email_recipient_def toy_target_def)
  have "exhaust toy_claim (send toy_services toy_claim toy_target) = delivered"
    by (simp add: exhaust_def send_def toy_services_def toy_target_def)
  with dstep.dispatch [of toy_claim 5 ?w2 toy_services "{toy_services}", OF _ _ t]
  have d: "dstep {toy_services} ?w2 w3"
    by (simp add: w3_def empty_world_def toy_target_def toy_claim_def toy_row_def)
  from a b c d show r: "(dstep {toy_services})\<^sup>*\<^sup>* empty_world w3"
    by (meson converse_rtranclp_into_rtranclp rtranclp.rtrancl_refl)
  obtain rows log where e: "complete show_nat (w_now w3) toy_claim 5 delivered (Some toy_target) (w_rows w3, w_log w3)
      = (rows, log)" by fastforce
  have "map_of rows 3 = Some (settled delivered 1 (started 5 1 toy_row))"
    using e by (simp add: complete_def Let_def w3_def toy_claim_def update_row_def holds_lease_def started_def
        secs_def empty_world_def toy_row_def split: if_splits) auto
  moreover have "dstep {toy_services} w3 (w3\<lparr>w_done := remove1 (toy_claim, 5, delivered, Some toy_target) (w_done w3),
      w_rows := rows, w_log := log\<rparr>)"
    by (rule dstep.complete [OF _ e]) (simp add: w3_def)
  ultimately show "\<exists>w4 r. (dstep {toy_services})\<^sup>*\<^sup>* empty_world w4 \<and> map_of (w_rows w4) 3 = Some r
      \<and> dl_state r = ''delivered''"
    using rtranclp.rtrancl_into_rtrancl [OF r] by (metis delivery_world.select_convs(2)
        delivery_world.surjective delivery_world.update_convs(2,3,6) failure_simps(2) row_ok_settled(2))
qed

lemma empty_world_start: "delivery_start empty_world"
  by (simp add: delivery_start_def empty_world_def)



subsection \<open>The lease of a delivery\<close>

interpretation delivery_lease: leased_rows ready started holds_lease settled "secs 30"
  by unfold_locales
    (auto simp: ready_def started_def holds_lease_def settled_def secs_def split: option.splits)

text \<open>A worker that comes back after another took the delivery over, or after its lease, stores nothing.\<close>
lemma complete_stale:
  assumes "rows = [(cl_id c, started t now r)]" and "ready now r" and "token \<noteq> t \<or> now + secs 30 \<le> n"
  shows "complete ut n c token oc tg (rows, log) = (rows, log)"
proof -
  have "\<not> holds_lease token n (started t now r)"
  proof (cases "token = t")
    case True
    with assms(3) delivery_lease.grab_held [OF assms(2)] show ?thesis by simp
  next
    case False
    from delivery_lease.held_by_other [OF assms(2) False] show ?thesis by (simp add: secs_def)
  qed
  with assms(1) show ?thesis by (auto simp: complete_def Let_def update_row_def split: option.splits)
qed

end
