(* ===== verification/Audience.thy ===== *)
theory Audience
  imports Json Complex_Main "HOL-Library.List_Lexorder"
begin

text \<open>
  Who a push is for: \<^verbatim>\<open>self-hosted/server/src/audience.rs\<close> reads an expression over the facts
  a device row carries (\<open>from_request\<close>, \<open>parse\<close>) and compiles it to the condition of a query
  with its bind values (\<open>compile\<close>, \<open>to_sql\<close>); \<^verbatim>\<open>identity.rs\<close> computes the key of an app user.
  The text the compiler writes is then shown to be that of a small structured condition, which
  is given the meaning SQL gives it, nulls included, and compared with what the expression says.
  Parsing and printing of 64-bit floats, uuid parsing, SHA-256 and Unicode lower-casing are
  fields of \<open>lib\<close>.
\<close>

record 'f lib =
  uuid_parse :: "string \<Rightarrow> uuid option"
  f64_of :: "json \<Rightarrow> 'f option"
  f64_text :: "'f \<Rightarrow> string"
  sha256_of :: "bytes \<Rightarrow> bytes"
  hex_of :: "bytes \<Rightarrow> string"
  lowercase :: "string \<Rightarrow> string"

subsection \<open>The identity key\<close>

text \<open>The no-break space is white space already; the byte order mark is not.\<close>
definition trim_like_the_others :: "string \<Rightarrow> string" where
  "trim_like_the_others raw =
     trim_matches (white_space @ [[CHR 0xC2, CHR 0xA0], [CHR 0xEF, CHR 0xBB, CHR 0xBF]]) raw"

definition normalise :: "'f lib \<Rightarrow> string \<Rightarrow> string \<Rightarrow> string" where
  "normalise L key_type raw =
     (if key_type = ''email'' \<or> key_type = ''username'' then lowercase L (trim_like_the_others raw)
      else if key_type = ''phone'' then filter (\<lambda>c. c = CHR ''+'' \<or> is_ascii_digit c) raw
      else if key_type \<in> {''googleSub'', ''appleSub'', ''metaSub''} then raw
      else trim_like_the_others raw)"

definition identity_hash :: "'f lib \<Rightarrow> string \<Rightarrow> string \<Rightarrow> string option" where
  "identity_hash L key_type value =
     (let normalised = normalise L key_type value in
      if normalised = [] then None else Some (hex_of L (sha256_of L (bytes_of normalised))))"

definition user_key_for_app_user_id :: "'f lib \<Rightarrow> string \<Rightarrow> string option" where
  "user_key_for_app_user_id L app_user_id = identity_hash L ''id'' app_user_id"

subsection \<open>Expressions\<close>

definition MAX_DEPTH :: nat where "MAX_DEPTH = 8"
definition MAX_NODES :: nat where "MAX_NODES = 64"

datatype bind = BText string | BJson json | BUuid uuid

datatype source = Trait | Device

definition column :: "source \<Rightarrow> string" where
  "column s = (case s of Trait \<Rightarrow> ''COALESCE(dt.traits, '' @ [CHR 0x27] @ ''{}'' @ [CHR 0x27] @ ''::jsonb)''
     | Device \<Rightarrow> ''COALESCE(dt.metadata, '' @ [CHR 0x27] @ ''{}'' @ [CHR 0x27] @ ''::jsonb)'')"

datatype cmp = Gte | Gt | Lte | Lt

definition cmp_op :: "cmp \<Rightarrow> string" where
  "cmp_op c = (case c of Gte \<Rightarrow> ''>='' | Gt \<Rightarrow> ''>'' | Lte \<Rightarrow> ''<='' | Lt \<Rightarrow> ''<'')"

datatype 'f node =
    AllOf "'f node list"
  | AnyOf "'f node list"
  | Negated "'f node"
  | UserKey string
  | Issue uuid
  | Exists source string
  | Is source string json
  | Prefix source string string
  | Number source string cmp 'f
  | Version source string cmp string
  | Never

text \<open>One constructor for each message.\<close>
datatype audience_error =
    SeveralGiven | AppUserIdEmpty | TraitsNotObject | TraitsEmpty | TooDeep | TooMany
  | ConditionNotObject | NotAList string | UserNotString | UserEmpty | NotAnIssueId | UserKeyEmpty
  | BothSources | NamesNothing "string list" | KeyEmpty | InNotList | ExistsNotBool | PrefixNotString
  | NotAVersion string | NotANumber string | NoComparison string

subsection \<open>Reading a condition\<close>

definition non_empty :: "string option \<Rightarrow> string option" where
  "non_empty s = (case s of Some (c # cs) \<Rightarrow> Some (c # cs) | _ \<Rightarrow> None)"

text \<open>The first of the names that is present decides.\<close>
fun first_key :: "(string \<times> json) list \<Rightarrow> (string \<times> cmp) list \<Rightarrow> (string \<times> cmp \<times> json) option" where
  "first_key obj [] = None"
| "first_key obj ((name, c) # rest) =
     (case map_of obj name of Some v \<Rightarrow> Some (name, c, v) | None \<Rightarrow> first_key obj rest)"

definition parse_comparison ::
  "'f lib \<Rightarrow> (string \<times> json) list \<Rightarrow> source \<Rightarrow> string \<Rightarrow> audience_error + 'f node" where
  "parse_comparison L obj source key =
     (case map_of obj ''is'' of Some v \<Rightarrow> Inr (Is source key v) | None \<Rightarrow>
     (case map_of obj ''isNot'' of Some v \<Rightarrow> Inr (Negated (Is source key v)) | None \<Rightarrow>
     (case map_of obj ''exists'' of
        Some v \<Rightarrow> bind_res (ok_or ExistsNotBool (as_bool v)) (\<lambda>want.
          Inr (if want then Exists source key else Negated (Exists source key)))
      | None \<Rightarrow>
     (case map_of obj ''prefix'' of
        Some v \<Rightarrow> bind_res (ok_or PrefixNotString (as_str v)) (\<lambda>s. Inr (Prefix source key s))
      | None \<Rightarrow>
     (case first_key obj [(''versionGte'', Gte), (''versionGt'', Gt), (''versionLte'', Lte), (''versionLt'', Lt)] of
        Some (name, c, v) \<Rightarrow> bind_res (ok_or (NotAVersion name) (non_empty (as_str v))) (\<lambda>s.
          Inr (Version source key c s))
      | None \<Rightarrow>
     (case first_key obj [(''gte'', Gte), (''gt'', Gt), (''lte'', Lte), (''lt'', Lt)] of
        Some (name, c, v) \<Rightarrow> bind_res (ok_or (NotANumber name) (f64_of L v)) (\<lambda>n.
          Inr (Number source key c n))
      | None \<Rightarrow> Inl (NoComparison key)))))))"

definition parse_leaf ::
  "'f lib \<Rightarrow> (string \<times> json) list \<Rightarrow> nat \<Rightarrow> nat \<Rightarrow> audience_error + 'f node \<times> nat" where
  "parse_leaf L obj depth budget =
     bind_res (case (map_of obj ''trait'', map_of obj ''device'') of
         (Some _, Some _) \<Rightarrow> Inl BothSources
       | (Some k, None) \<Rightarrow> Inr (Trait, k)
       | (None, Some k) \<Rightarrow> Inr (Device, k)
       | (None, None) \<Rightarrow> Inl (NamesNothing (map fst obj))) (\<lambda>(source, key).
     bind_res (ok_or KeyEmpty (non_empty (as_str key))) (\<lambda>key.
     case map_of obj ''in'' of
       Some list \<Rightarrow>
         bind_res (ok_or InNotList (as_array list)) (\<lambda>items.
           if items = [] then Inr (Never, budget)
           else if budget < length items then Inl TooMany
           else if MAX_DEPTH < depth + 1 then Inl TooDeep
           else Inr (AnyOf (map (Is source key) items), budget - length items))
     | None \<Rightarrow> bind_res (parse_comparison L obj source key) (\<lambda>n. Inr (n, budget))))"

lemma bind_res_cong [fundef_cong]:
  "r = r' \<Longrightarrow> (\<And>x. r' = Inr x \<Longrightarrow> f x = g x) \<Longrightarrow> bind_res r f = bind_res r' g"
  by (cases r') simp_all

lemma ok_or_Inr_iff: "ok_or e x = Inr v \<longleftrightarrow> x = Some v"
  by (cases x) simp_all

lemma member_size: "as_object v = Some fs \<Longrightarrow> map_of fs k = Some x \<Longrightarrow> size x < size v"
proof -
  assume "as_object v = Some fs" and m: "map_of fs k = Some x"
  then have v: "v = JObj fs" by (simp add: as_object_def split: json.splits)
  from map_of_SomeD [OF m] have "size x < Suc (size_list (size_prod (\<lambda>_. 0) size) fs)"
    by (induction fs) auto
  with v show ?thesis by simp
qed

lemma elements_size: "as_array v = Some xs \<Longrightarrow> size_list size xs < size v"
  by (auto simp: as_array_def split: json.splits)

text \<open>\<open>parse_items\<close> is the loop of \<open>parse_branches\<close>; the budget left is threaded through.\<close>
function parse :: "'f lib \<Rightarrow> json \<Rightarrow> nat \<Rightarrow> nat \<Rightarrow> audience_error + 'f node \<times> nat"
  and parse_branches :: "'f lib \<Rightarrow> json \<Rightarrow> nat \<Rightarrow> nat \<Rightarrow> string \<Rightarrow> audience_error + 'f node list \<times> nat"
  and parse_items :: "'f lib \<Rightarrow> json list \<Rightarrow> nat \<Rightarrow> nat \<Rightarrow> audience_error + 'f node list \<times> nat" where
  "parse L v depth budget =
     (if MAX_DEPTH < depth then Inl TooDeep
      else if budget = 0 then Inl TooMany
      else
        (case as_object v of
           None \<Rightarrow> Inl ConditionNotObject
         | Some obj \<Rightarrow>
     (case map_of obj ''all'' of
        Some list \<Rightarrow> bind_res (parse_branches L list depth (budget - 1) ''all'') (\<lambda>(ns, b). Inr (AllOf ns, b))
      | None \<Rightarrow>
     (case map_of obj ''any'' of
        Some list \<Rightarrow> bind_res (parse_branches L list depth (budget - 1) ''any'') (\<lambda>(ns, b).
          Inr (if ns = [] then Never else AnyOf ns, b))
      | None \<Rightarrow>
     (case map_of obj ''not'' of
        Some inner \<Rightarrow> bind_res (parse L inner (Suc depth) (budget - 1)) (\<lambda>(n, b). Inr (Negated n, b))
      | None \<Rightarrow>
     (case map_of obj ''user'' of
        Some i \<Rightarrow> bind_res (ok_or UserNotString (as_str i)) (\<lambda>i.
          bind_res (ok_or UserEmpty (user_key_for_app_user_id L i)) (\<lambda>key. Inr (UserKey key, budget - 1)))
      | None \<Rightarrow>
     (case map_of obj ''issue'' of
        Some i \<Rightarrow> bind_res (ok_or NotAnIssueId (Option.bind (as_str i) (uuid_parse L))) (\<lambda>u.
          Inr (Issue u, budget - 1))
      | None \<Rightarrow>
     (case map_of obj ''userKey'' of
        Some k \<Rightarrow> bind_res (ok_or UserKeyEmpty (non_empty (as_str k))) (\<lambda>k. Inr (UserKey k, budget - 1))
      | None \<Rightarrow> parse_leaf L obj depth (budget - 1)))))))))"
| "parse_branches L list depth budget name =
     bind_res (ok_or (NotAList name) (as_array list)) (\<lambda>items. parse_items L items (Suc depth) budget)"
| "parse_items L [] depth budget = Inr ([], budget)"
| "parse_items L (v # vs) depth budget =
     bind_res (parse L v depth budget) (\<lambda>(n, b).
     bind_res (parse_items L vs depth b) (\<lambda>(ns, b). Inr (n # ns, b)))"
  by pat_completeness auto
termination
  by (relation "measure (\<lambda>x. case x of Inl (_, v, _) \<Rightarrow> size v | Inr (Inl (_, v, _)) \<Rightarrow> size v
       | Inr (Inr (_, vs, _)) \<Rightarrow> size_list size vs)")
    (auto simp: ok_or_Inr_iff dest!: member_size elements_size)

subsection \<open>Naming an audience\<close>

definition from_request ::
  "'f lib \<Rightarrow> string option \<Rightarrow> json option \<Rightarrow> json option \<Rightarrow> audience_error + 'f node option" where
  "from_request L app_user_id traits audience =
     (let given = of_bool (app_user_id \<noteq> None) + of_bool (traits \<noteq> None) + of_bool (audience \<noteq> None) :: nat in
      if 1 < given then Inl SeveralGiven
      else
        (case app_user_id of
           Some i \<Rightarrow> bind_res (ok_or AppUserIdEmpty (user_key_for_app_user_id L i)) (\<lambda>key. Inr (Some (UserKey key)))
         | None \<Rightarrow>
        (case traits of
           Some t \<Rightarrow> bind_res (ok_or TraitsNotObject (as_object t)) (\<lambda>m.
             if m = [] then Inl TraitsEmpty
             else Inr (Some (AllOf (map (\<lambda>(k, v). Is Trait k v) m))))
         | None \<Rightarrow>
        (case audience of
           Some v \<Rightarrow> bind_res (parse L v 0 MAX_NODES) (\<lambda>(root, _). Inr (Some root))
         | None \<Rightarrow> Inr None))))"

subsection \<open>Compiling\<close>

text \<open>A placeholder: its number, the counter after it and the binds with the new one at the end.\<close>
definition take_bind :: "nat \<Rightarrow> bind list \<Rightarrow> bind \<Rightarrow> string \<times> nat \<times> bind list" where
  "take_bind n binds b = (CHR ''$'' # show_nat n, n + 1, binds @ [b])"

definition compound :: "json \<Rightarrow> bool" where
  "compound v \<longleftrightarrow> as_object v \<noteq> None \<or> as_array v \<noteq> None"

fun intersperse_text :: "string \<Rightarrow> string list \<Rightarrow> string" where
  "intersperse_text s [] = []"
| "intersperse_text s [p] = p"
| "intersperse_text s (p # q # ps) = p @ s @ intersperse_text s (q # ps)"

abbreviation quote :: string where "quote \<equiv> [CHR 0x27]"
abbreviation backslash :: string where "backslash \<equiv> [CHR 0x5C]"

text \<open>The texts of the leaves, from the column and the placeholders.\<close>
definition user_sql :: "string \<Rightarrow> string" where
  "user_sql p = ''dt.user_key = ('' @ p @ '')::text''"

definition issue_sql :: "string \<Rightarrow> string" where
  "issue_sql p = ''EXISTS (SELECT 1 FROM issue_user_hits ih                  JOIN issues i ON i.id = ih.issue_id                  WHERE ih.issue_id = ('' @ p @
     '')::uuid                  AND i.project_id = dt.project_id                  AND ih.user_key = dt.user_key)''"

definition exists_sql :: "string \<Rightarrow> string \<Rightarrow> string" where
  "exists_sql col k = col @ '' -> ('' @ k @ '')::text IS NOT NULL''"

definition equals_sql :: "string \<Rightarrow> string \<Rightarrow> string \<Rightarrow> string" where
  "equals_sql col k v = col @ '' -> ('' @ k @ '')::text = ('' @ v @ '')::jsonb''"

definition contains_sql :: "string \<Rightarrow> string \<Rightarrow> string" where
  "contains_sql col p = col @ '' @> ('' @ p @ '')::jsonb''"

definition prefix_sql :: "string \<Rightarrow> string \<Rightarrow> string \<Rightarrow> string" where
  "prefix_sql col k v = ''COALESCE(starts_with('' @ col @ '' ->> ('' @ k @ '')::text, ('' @ v @ '')::text), false)''"

definition number_sql :: "string \<Rightarrow> string \<Rightarrow> string \<Rightarrow> string \<Rightarrow> string" where
  "number_sql col op k v = ''CASE WHEN '' @ col @ '' ->> ('' @ k @ '')::text ~ '' @ quote @ ''^-?[0-9]+('' @ backslash
     @ ''.[0-9]+)?$'' @ quote @ '' THEN ('' @ col @ '' ->> ('' @ k @ '')::text)::numeric '' @ op @ '' ('' @ v
     @ '')::numeric ELSE false END''"

definition version_sql :: "string \<Rightarrow> string \<Rightarrow> string \<Rightarrow> string \<Rightarrow> string" where
  "version_sql col op k v = ''COALESCE(sentori_version_key('' @ col @ '' ->> ('' @ k @ '')::text) '' @ op
     @ '' sentori_version_key(('' @ v @ '')::text), false)''"

fun compile :: "'f lib \<Rightarrow> 'f node \<Rightarrow> nat \<Rightarrow> bind list \<Rightarrow> string \<times> nat \<times> bind list"
  and compile_all :: "'f lib \<Rightarrow> 'f node list \<Rightarrow> nat \<Rightarrow> bind list \<Rightarrow> string list \<times> nat \<times> bind list" where
  "compile L (AllOf items) n binds =
     (if items = [] then (''true'', n, binds)
      else let (parts, n, binds) = compile_all L items n binds
           in (''('' @ intersperse_text '' AND '' parts @ '')'', n, binds))"
| "compile L (AnyOf items) n binds =
     (let (parts, n, binds) = compile_all L items n binds
      in (''('' @ intersperse_text '' OR '' parts @ '')'', n, binds))"
| "compile L (Negated inner) n binds =
     (let (s, n, binds) = compile L inner n binds in (''NOT ('' @ s @ '')'', n, binds))"
| "compile L Never n binds = (''false'', n, binds)"
| "compile L (UserKey key) n binds =
     (let (p, n, binds) = take_bind n binds (BText key) in (user_sql p, n, binds))"
| "compile L (Issue i) n binds =
     (let (p, n, binds) = take_bind n binds (BUuid i) in (issue_sql p, n, binds))"
| "compile L (Exists source key) n binds =
     (let (p, n, binds) = take_bind n binds (BText key) in (exists_sql (column source) p, n, binds))"
| "compile L (Is source key value) n binds =
     (if compound value then
        let (k, n, binds) = take_bind n binds (BText key); (v, n, binds) = take_bind n binds (BJson value)
        in (equals_sql (column source) k v, n, binds)
      else
        let (p, n, binds) = take_bind n binds (BJson (JObj [(key, value)]))
        in (contains_sql (column source) p, n, binds))"
| "compile L (Prefix source key value) n binds =
     (let (k, n, binds) = take_bind n binds (BText key); (v, n, binds) = take_bind n binds (BText value)
      in (prefix_sql (column source) k v, n, binds))"
| "compile L (Number source key c value) n binds =
     (let (k, n, binds) = take_bind n binds (BText key); (v, n, binds) = take_bind n binds (BText (f64_text L value))
      in (number_sql (column source) (cmp_op c) k v, n, binds))"
| "compile L (Version source key c value) n binds =
     (let (k, n, binds) = take_bind n binds (BText key); (v, n, binds) = take_bind n binds (BText value)
      in (version_sql (column source) (cmp_op c) k v, n, binds))"
| "compile_all L [] n binds = ([], n, binds)"
| "compile_all L (i # is) n binds =
     (let (s, n, binds) = compile L i n binds; (ss, n, binds) = compile_all L is n binds
      in (s # ss, n, binds))"

definition to_sql :: "'f lib \<Rightarrow> 'f node \<Rightarrow> nat \<Rightarrow> string \<times> bind list" where
  "to_sql L e next = (let (s, n, binds) = compile L e next [] in (s, binds))"

subsection \<open>The condition behind the text\<close>

text \<open>What the text says, with the numbers of its placeholders.\<close>
datatype cond =
    CTrue | CFalse
  | CAnd "cond list"
  | COr "cond list"
  | CNot cond
  | CUser nat
  | CIssue nat
  | CExists source nat
  | CEquals source nat nat
  | CContains source nat
  | CPrefix source nat nat
  | CNumber source cmp nat nat
  | CVersion source cmp nat nat

definition hole :: "nat \<Rightarrow> string" where
  "hole n = CHR ''$'' # show_nat n"

fun print_cond :: "cond \<Rightarrow> string" where
  "print_cond CTrue = ''true''"
| "print_cond CFalse = ''false''"
| "print_cond (CAnd cs) = ''('' @ intersperse_text '' AND '' (map print_cond cs) @ '')''"
| "print_cond (COr cs) = ''('' @ intersperse_text '' OR '' (map print_cond cs) @ '')''"
| "print_cond (CNot c) = ''NOT ('' @ print_cond c @ '')''"
| "print_cond (CUser p) = user_sql (hole p)"
| "print_cond (CIssue p) = issue_sql (hole p)"
| "print_cond (CExists s p) = exists_sql (column s) (hole p)"
| "print_cond (CEquals s k v) = equals_sql (column s) (hole k) (hole v)"
| "print_cond (CContains s p) = contains_sql (column s) (hole p)"
| "print_cond (CPrefix s k v) = prefix_sql (column s) (hole k) (hole v)"
| "print_cond (CNumber s c k v) = number_sql (column s) (cmp_op c) (hole k) (hole v)"
| "print_cond (CVersion s c k v) = version_sql (column s) (cmp_op c) (hole k) (hole v)"

text \<open>The binds of an expression, in order.\<close>
fun binds_of :: "'f lib \<Rightarrow> 'f node \<Rightarrow> bind list" where
  "binds_of L (AllOf items) = concat (map (binds_of L) items)"
| "binds_of L (AnyOf items) = concat (map (binds_of L) items)"
| "binds_of L (Negated inner) = binds_of L inner"
| "binds_of L Never = []"
| "binds_of L (UserKey key) = [BText key]"
| "binds_of L (Issue i) = [BUuid i]"
| "binds_of L (Exists source key) = [BText key]"
| "binds_of L (Is source key value) =
     (if compound value then [BText key, BJson value] else [BJson (JObj [(key, value)])])"
| "binds_of L (Prefix source key value) = [BText key, BText value]"
| "binds_of L (Number source key c value) = [BText key, BText (f64_text L value)]"
| "binds_of L (Version source key c value) = [BText key, BText value]"

text \<open>An expression without its attribute names and values.\<close>
datatype shape =
    SAll "shape list" | SAny "shape list" | SNot shape | SNever | SUser | SIssue
  | SExists source | SIs source bool | SPrefix source | SNumber source cmp | SVersion source cmp

fun shape_of :: "'f node \<Rightarrow> shape" where
  "shape_of (AllOf items) = SAll (map shape_of items)"
| "shape_of (AnyOf items) = SAny (map shape_of items)"
| "shape_of (Negated inner) = SNot (shape_of inner)"
| "shape_of Never = SNever"
| "shape_of (UserKey key) = SUser"
| "shape_of (Issue i) = SIssue"
| "shape_of (Exists source key) = SExists source"
| "shape_of (Is source key value) = SIs source (compound value)"
| "shape_of (Prefix source key value) = SPrefix source"
| "shape_of (Number source key c value) = SNumber source c"
| "shape_of (Version source key c value) = SVersion source c"

text \<open>How many placeholders a shape has, and its condition with them numbered from \<open>n\<close>.\<close>
fun holes :: "shape \<Rightarrow> nat" where
  "holes (SAll ss) = sum_list (map holes ss)"
| "holes (SAny ss) = sum_list (map holes ss)"
| "holes (SNot s) = holes s"
| "holes SNever = 0"
| "holes SUser = 1"
| "holes SIssue = 1"
| "holes (SExists s) = 1"
| "holes (SIs s b) = (if b then 2 else 1)"
| "holes (SPrefix s) = 2"
| "holes (SNumber s c) = 2"
| "holes (SVersion s c) = 2"

fun cond_of :: "shape \<Rightarrow> nat \<Rightarrow> cond"
  and conds_of :: "shape list \<Rightarrow> nat \<Rightarrow> cond list" where
  "cond_of (SAll ss) n = (if ss = [] then CTrue else CAnd (conds_of ss n))"
| "cond_of (SAny ss) n = COr (conds_of ss n)"
| "cond_of (SNot s) n = CNot (cond_of s n)"
| "cond_of SNever n = CFalse"
| "cond_of SUser n = CUser n"
| "cond_of SIssue n = CIssue n"
| "cond_of (SExists s) n = CExists s n"
| "cond_of (SIs s b) n = (if b then CEquals s n (n + 1) else CContains s n)"
| "cond_of (SPrefix s) n = CPrefix s n (n + 1)"
| "cond_of (SNumber s c) n = CNumber s c n (n + 1)"
| "cond_of (SVersion s c) n = CVersion s c n (n + 1)"
| "conds_of [] n = []"
| "conds_of (s # ss) n = cond_of s n # conds_of ss (n + holes s)"

lemma binds_length: "length (binds_of L node) = holes (shape_of node)"
  by (induction node) (auto simp: length_concat comp_def intro!: arg_cong [where f = sum_list])

lemma compile_prints:
  "compile L node n bs = (print_cond (cond_of (shape_of node) n), n + holes (shape_of node), bs @ binds_of L node)"
  "compile_all L nodes n bs = (map print_cond (conds_of (map shape_of nodes) n),
     n + sum_list (map (holes \<circ> shape_of) nodes), bs @ concat (map (binds_of L) nodes))"
proof (induction L node n bs and L nodes n bs rule: compile_compile_all.induct)
  case (1 L items n binds)
  then show ?case by (cases items) (auto simp: comp_def)
qed (auto simp: take_bind_def hole_def Let_def comp_def split: prod.splits)

fun cond_nums :: "cond \<Rightarrow> nat list" where
  "cond_nums CTrue = []"
| "cond_nums CFalse = []"
| "cond_nums (CAnd cs) = concat (map cond_nums cs)"
| "cond_nums (COr cs) = concat (map cond_nums cs)"
| "cond_nums (CNot c) = cond_nums c"
| "cond_nums (CUser p) = [p]"
| "cond_nums (CIssue p) = [p]"
| "cond_nums (CExists s p) = [p]"
| "cond_nums (CEquals s k v) = [k, v]"
| "cond_nums (CContains s p) = [p]"
| "cond_nums (CPrefix s k v) = [k, v]"
| "cond_nums (CNumber s c k v) = [k, k, v]"
| "cond_nums (CVersion s c k v) = [k, v]"

lemma cond_nums_range:
  "set (cond_nums (cond_of s n)) = {n..<n + holes s}"
  "set (concat (map cond_nums (conds_of ss n))) = {n..<n + sum_list (map holes ss)}"
  by (induction s n and ss n rule: cond_of_conds_of.induct) auto

text \<open>C27. The text an expression compiles to is determined by its shape alone: attribute names and
  values, and so anything a caller sends, reach the statement only as binds; and the
  placeholders in the text are exactly those of its binds, numbered from the start given, none
  missing and none left over.\<close>
theorem audience_text_is_value_free:
  "to_sql L e n = (print_cond (cond_of (shape_of e) n), binds_of L e)
   \<and> set (cond_nums (cond_of (shape_of e) n)) = {n..<n + length (binds_of L e)}"
  by (simp add: to_sql_def compile_prints cond_nums_range binds_length)

subsection \<open>What is selected\<close>

record device_row =
  dv_user_key :: "string option"
  dv_traits :: "json option"
  dv_metadata :: "json option"
  dv_project :: uuid

text \<open>\<open>jsonb_text\<close> is the text operator of the database, null for a JSON null.\<close>
record push_db =
  user_hits_of :: "(uuid \<times> string) list"
  project_of_issue :: "(uuid \<times> uuid) list"
  jsonb_text :: "json \<Rightarrow> string option"

definition column_value :: "device_row \<Rightarrow> source \<Rightarrow> json" where
  "column_value d s = unwrap_or (JObj []) (case s of Trait \<Rightarrow> dv_traits d | Device \<Rightarrow> dv_metadata d)"

definition text_at :: "push_db \<Rightarrow> device_row \<Rightarrow> source \<Rightarrow> string \<Rightarrow> string option" where
  "text_at B d s k = Option.bind (jget k (column_value d s)) (jsonb_text B)"

definition digits :: "string \<Rightarrow> bool" where
  "digits s \<longleftrightarrow> s \<noteq> [] \<and> list_all is_ascii_digit s"

definition split_fraction :: "string \<Rightarrow> string \<times> string option" where
  "split_fraction s =
     (let w = takeWhile (\<lambda>c. c \<noteq> CHR ''.'') s; r = dropWhile (\<lambda>c. c \<noteq> CHR ''.'') s
      in (w, if r = [] then None else Some (tl r)))"

definition without_sign :: "string \<Rightarrow> bool \<times> string" where
  "without_sign s = (case s of c # r \<Rightarrow> if c = CHR ''-'' then (True, r) else (False, s) | [] \<Rightarrow> (False, s))"

text \<open>The guard's regular expression, and the numeric a text it accepts is cast to.\<close>
definition is_decimal :: "string \<Rightarrow> bool" where
  "is_decimal s = (case split_fraction (snd (without_sign s)) of
     (w, None) \<Rightarrow> digits w | (w, Some f) \<Rightarrow> digits w \<and> digits f)"

definition decimal :: "string \<Rightarrow> rat" where
  "decimal s =
     (let (neg, u) = without_sign s; (w, f) = split_fraction u; f = unwrap_or [] f;
          x = of_nat (unwrap_or 0 (digits_val 0 (w @ f))) / 10 ^ length f
      in if neg then - x else x)"

definition cmp_holds :: "cmp \<Rightarrow> 'a::linorder \<Rightarrow> 'a \<Rightarrow> bool" where
  "cmp_holds c x y = (case c of Gte \<Rightarrow> y \<le> x | Gt \<Rightarrow> y < x | Lte \<Rightarrow> x \<le> y | Lt \<Rightarrow> x < y)"

text \<open>The migration's \<open>sentori_version_key\<close>: up to four numeric segments, padded with zeros.\<close>
fun segments :: "string \<Rightarrow> string \<Rightarrow> nat list" where
  "segments acc [] = (if acc = [] then [] else [unwrap_or 0 (digits_val 0 (rev acc))])"
| "segments acc (c # s) =
     (if is_ascii_digit c then segments (c # acc) s
      else if acc = [] then []
      else unwrap_or 0 (digits_val 0 (rev acc)) # (if c = CHR ''.'' then segments [] s else []))"

definition version_key :: "string \<Rightarrow> nat list option" where
  "version_key v =
     (let v = (case v of c # r \<Rightarrow> if c = CHR ''v'' then r else v | [] \<Rightarrow> v); ns = segments [] v
      in if ns = [] then None else Some (take 4 (ns @ [0, 0, 0, 0])))"

text \<open>What SQL's three-valued logic makes of the condition, \<open>None\<close> being null.\<close>
definition conj3 :: "bool option list \<Rightarrow> bool option" where
  "conj3 xs = (if Some False \<in> set xs then Some False else if None \<in> set xs then None else Some True)"

definition disj3 :: "bool option list \<Rightarrow> bool option" where
  "disj3 xs = (if Some True \<in> set xs then Some True else if None \<in> set xs then None else Some False)"

definition bind_text :: "bind \<Rightarrow> string" where
  "bind_text b = (case b of BText t \<Rightarrow> t | _ \<Rightarrow> [])"

definition hit_by :: "push_db \<Rightarrow> device_row \<Rightarrow> uuid \<Rightarrow> bool" where
  "hit_by B d i \<longleftrightarrow> (case dv_user_key d of Some u \<Rightarrow> (i, u) \<in> set (user_hits_of B) | None \<Rightarrow> False)
     \<and> map_of (project_of_issue B) i = Some (dv_project d)"

definition prefix_holds :: "push_db \<Rightarrow> device_row \<Rightarrow> source \<Rightarrow> string \<Rightarrow> string \<Rightarrow> bool" where
  "prefix_holds B d s k v \<longleftrightarrow> (case text_at B d s k of Some t \<Rightarrow> starts_with t v | None \<Rightarrow> False)"

definition number_holds :: "push_db \<Rightarrow> device_row \<Rightarrow> source \<Rightarrow> cmp \<Rightarrow> string \<Rightarrow> string \<Rightarrow> bool" where
  "number_holds B d s c k v \<longleftrightarrow> (case text_at B d s k of
     Some t \<Rightarrow> is_decimal t \<and> cmp_holds c (decimal t) (decimal v) | None \<Rightarrow> False)"

definition version_holds :: "push_db \<Rightarrow> device_row \<Rightarrow> source \<Rightarrow> cmp \<Rightarrow> string \<Rightarrow> string \<Rightarrow> bool" where
  "version_holds B d s c k v \<longleftrightarrow> (case (Option.bind (text_at B d s k) version_key, version_key v) of
     (Some x, Some y) \<Rightarrow> cmp_holds c x y | _ \<Rightarrow> False)"

fun cond_eval :: "push_db \<Rightarrow> (nat \<Rightarrow> bind) \<Rightarrow> device_row \<Rightarrow> cond \<Rightarrow> bool option" where
  "cond_eval B \<beta> d CTrue = Some True"
| "cond_eval B \<beta> d CFalse = Some False"
| "cond_eval B \<beta> d (CAnd cs) = conj3 (map (cond_eval B \<beta> d) cs)"
| "cond_eval B \<beta> d (COr cs) = disj3 (map (cond_eval B \<beta> d) cs)"
| "cond_eval B \<beta> d (CNot c) = map_option Not (cond_eval B \<beta> d c)"
| "cond_eval B \<beta> d (CUser p) = map_option (\<lambda>u. u = bind_text (\<beta> p)) (dv_user_key d)"
| "cond_eval B \<beta> d (CIssue p) = Some (case \<beta> p of BUuid i \<Rightarrow> hit_by B d i | _ \<Rightarrow> False)"
| "cond_eval B \<beta> d (CExists s k) = Some (jget (bind_text (\<beta> k)) (column_value d s) \<noteq> None)"
| "cond_eval B \<beta> d (CEquals s k v) =
     map_option (\<lambda>w. \<beta> v = BJson w) (jget (bind_text (\<beta> k)) (column_value d s))"
| "cond_eval B \<beta> d (CContains s p) = Some (case \<beta> p of
     BJson (JObj fs) \<Rightarrow> list_all (\<lambda>(k, v). jget k (column_value d s) = Some v) fs | _ \<Rightarrow> False)"
| "cond_eval B \<beta> d (CPrefix s k v) = Some (prefix_holds B d s (bind_text (\<beta> k)) (bind_text (\<beta> v)))"
| "cond_eval B \<beta> d (CNumber s c k v) = Some (number_holds B d s c (bind_text (\<beta> k)) (bind_text (\<beta> v)))"
| "cond_eval B \<beta> d (CVersion s c k v) = Some (version_holds B d s c (bind_text (\<beta> k)) (bind_text (\<beta> v)))"

text \<open>What an expression says of a device.\<close>
fun meant :: "'f lib \<Rightarrow> push_db \<Rightarrow> device_row \<Rightarrow> 'f node \<Rightarrow> bool" where
  "meant L B d (AllOf items) = list_all (meant L B d) items"
| "meant L B d (AnyOf items) = list_ex (meant L B d) items"
| "meant L B d (Negated e) = (\<not> meant L B d e)"
| "meant L B d Never = False"
| "meant L B d (UserKey key) = (dv_user_key d = Some key)"
| "meant L B d (Issue i) = hit_by B d i"
| "meant L B d (Exists s k) = (jget k (column_value d s) \<noteq> None)"
| "meant L B d (Is s k v) = (jget k (column_value d s) = Some v)"
| "meant L B d (Prefix s k v) = prefix_holds B d s k v"
| "meant L B d (Number s k c v) = number_holds B d s c k (f64_text L v)"
| "meant L B d (Version s k c v) = version_holds B d s c k v"

text \<open>No leaf is null for the device: it has a user key, and the attributes compared with lists and
  objects.\<close>
fun never_null :: "device_row \<Rightarrow> 'f node \<Rightarrow> bool" where
  "never_null d (AllOf items) = list_all (never_null d) items"
| "never_null d (AnyOf items) = list_all (never_null d) items"
| "never_null d (Negated e) = never_null d e"
| "never_null d (UserKey key) = (dv_user_key d \<noteq> None)"
| "never_null d (Is s k v) = (compound v \<longrightarrow> jget k (column_value d s) \<noteq> None)"
| "never_null d _ = True"

fun negation_free :: "'f node \<Rightarrow> bool" where
  "negation_free (AllOf items) = list_all negation_free items"
| "negation_free (AnyOf items) = list_all negation_free items"
| "negation_free (Negated e) = False"
| "negation_free _ = True"

definition agrees :: "(nat \<Rightarrow> bind) \<Rightarrow> nat \<Rightarrow> bind list \<Rightarrow> bool" where
  "agrees \<beta> n bs \<longleftrightarrow> (\<forall>i < length bs. \<beta> (n + i) = bs ! i)"

lemma agrees_Nil [simp]: "agrees \<beta> n []"
  by (simp add: agrees_def)

lemma agrees_Cons [simp]: "agrees \<beta> n (b # bs) \<longleftrightarrow> \<beta> n = b \<and> agrees \<beta> (Suc n) bs"
  by (auto simp: agrees_def less_Suc_eq_0_disj)

lemma agrees_append [simp]: "agrees \<beta> n (as @ bs) \<longleftrightarrow> agrees \<beta> n as \<and> agrees \<beta> (n + length as) bs"
  by (induction as arbitrary: n) auto

text \<open>Two-valued where nothing is null; null only for what is not meant where nothing is negated.\<close>
definition tells :: "bool option \<Rightarrow> bool \<Rightarrow> bool" where
  "tells r m \<longleftrightarrow> r = Some m \<or> r = None \<and> \<not> m"

lemma conds_eval:
  assumes "\<And>x n. x \<in> set xs \<Longrightarrow> agrees \<beta> n (binds_of L x) \<Longrightarrow> R (f (cond_of (shape_of x) n)) (g x)"
    and "agrees \<beta> n (concat (map (binds_of L) xs))"
  shows "list_all2 R (map f (conds_of (map shape_of xs) n)) (map g xs)"
  using assms
proof (induction xs arbitrary: n)
  case (Cons x xs)
  then show ?case by (auto simp: binds_length)
qed simp

lemma conj3_exact: "list_all2 (\<lambda>r m. r = Some m) rs ms \<Longrightarrow> conj3 rs = Some (list_all id ms)"
  by (induction rule: list_all2_induct) (auto simp: conj3_def split: if_splits)

lemma disj3_exact: "list_all2 (\<lambda>r m. r = Some m) rs ms \<Longrightarrow> disj3 rs = Some (list_ex id ms)"
  by (induction rule: list_all2_induct) (auto simp: disj3_def split: if_splits)

lemma conj3_tells: "list_all2 tells rs ms \<Longrightarrow> tells (conj3 rs) (list_all id ms)"
  by (induction rule: list_all2_induct) (auto simp: conj3_def tells_def split: if_splits)

lemma disj3_tells: "list_all2 tells rs ms \<Longrightarrow> tells (disj3 rs) (list_ex id ms)"
  by (induction rule: list_all2_induct) (auto simp: disj3_def tells_def split: if_splits)

lemma list_all_id: "list_all id (map f xs) = list_all f xs" "list_ex id (map f xs) = list_ex f xs"
  by (induction xs) auto

lemma eval_exact:
  "agrees \<beta> n (binds_of L e) \<Longrightarrow> never_null d e
    \<Longrightarrow> cond_eval B \<beta> d (cond_of (shape_of e) n) = Some (meant L B d e)"
proof (induction e arbitrary: n)
  case (AllOf items)
  from conds_eval [of items \<beta> L "\<lambda>r m. r = Some m" "cond_eval B \<beta> d" "meant L B d" n] AllOf
  have "list_all2 (\<lambda>r m. r = Some m) (map (cond_eval B \<beta> d) (conds_of (map shape_of items) n))
      (map (meant L B d) items)" by (simp add: list_all_iff)
  from conj3_exact [OF this] show ?case by (auto simp: list_all_id)
next
  case (AnyOf items)
  from conds_eval [of items \<beta> L "\<lambda>r m. r = Some m" "cond_eval B \<beta> d" "meant L B d" n] AnyOf
  have "list_all2 (\<lambda>r m. r = Some m) (map (cond_eval B \<beta> d) (conds_of (map shape_of items) n))
      (map (meant L B d) items)" by (simp add: list_all_iff)
  from disj3_exact [OF this] show ?case by (simp add: list_all_id)
next
  case (Is s k v)
  then show ?case by (cases "compound v") (auto simp: bind_text_def)
qed (auto simp: bind_text_def)

lemma eval_tells:
  "agrees \<beta> n (binds_of L e) \<Longrightarrow> negation_free e
    \<Longrightarrow> tells (cond_eval B \<beta> d (cond_of (shape_of e) n)) (meant L B d e)"
proof (induction e arbitrary: n)
  case (AllOf items)
  from conds_eval [of items \<beta> L tells "cond_eval B \<beta> d" "meant L B d" n] AllOf
  have "list_all2 tells (map (cond_eval B \<beta> d) (conds_of (map shape_of items) n)) (map (meant L B d) items)"
    by (simp add: list_all_iff)
  from conj3_tells [OF this] show ?case by (auto simp: list_all_id tells_def)
next
  case (AnyOf items)
  from conds_eval [of items \<beta> L tells "cond_eval B \<beta> d" "meant L B d" n] AnyOf
  have "list_all2 tells (map (cond_eval B \<beta> d) (conds_of (map shape_of items) n)) (map (meant L B d) items)"
    by (simp add: list_all_iff)
  from disj3_tells [OF this] show ?case by (simp add: list_all_id)
next
  case (Is s k v)
  then show ?case
    by (cases "compound v"; cases "jget k (column_value d s)") (auto simp: bind_text_def tells_def)
qed (auto simp: bind_text_def tells_def)

definition selects :: "'f lib \<Rightarrow> push_db \<Rightarrow> device_row \<Rightarrow> 'f node \<Rightarrow> nat \<Rightarrow> bool" where
  "selects L B d e n = (cond_eval B (\<lambda>i. snd (to_sql L e n) ! (i - n)) d (cond_of (shape_of e) n) = Some True)"

lemma own_binds: "agrees (\<lambda>i. binds_of L e ! (i - n)) n (binds_of L e)"
  by (simp add: agrees_def)


text \<open>
  Outside that, a negation drops devices it means to keep: one without a user key from "not this
  user", and one without the attribute from "is not this list".
\<close>
lemma negation_drops_null:
  "dv_user_key d = None \<Longrightarrow> meant L B d (Negated (UserKey k)) \<and> \<not> selects L B d (Negated (UserKey k)) n"
  "jget k (column_value d s) = None \<Longrightarrow> compound v
     \<Longrightarrow> meant L B d (Negated (Is s k v)) \<and> \<not> selects L B d (Negated (Is s k v)) n"
  by (simp_all add: selects_def to_sql_def compile_prints bind_text_def)

definition toy_lib :: "nat lib" where
  "toy_lib = \<lparr>uuid_parse = (\<lambda>_. None), f64_of = as_u64, f64_text = show_nat, sha256_of = id, hex_of = chars_of,
     lowercase = to_ascii_lowercase\<rparr>"


subsection \<open>Bounds\<close>

text \<open>How many conditions an expression has, and how deep it is.\<close>
fun leaves :: "'f node \<Rightarrow> nat" where
  "leaves (AllOf items) = sum_list (map leaves items)"
| "leaves (AnyOf items) = sum_list (map leaves items)"
| "leaves (Negated e) = leaves e"
| "leaves _ = 1"

fun levels :: "'f node \<Rightarrow> nat" where
  "levels (AllOf items) = Suc (fold max (map levels items) 0)"
| "levels (AnyOf items) = Suc (fold max (map levels items) 0)"
| "levels (Negated e) = Suc (levels e)"
| "levels _ = 0"

lemma fold_max_le: "fold max (xs :: nat list) a \<le> m \<longleftrightarrow> a \<le> m \<and> (\<forall>x \<in> set xs. x \<le> m)"
  by (induction xs arbitrary: a) auto

lemma fold_max_max: "fold max (xs :: nat list) a = max a (fold max xs 0)"
proof (induction xs arbitrary: a)
  case (Cons x xs)
  from Cons [of "max x a"] Cons [of x] show ?case by simp
qed simp

lemma parse_comparison_bounds:
  "parse_comparison L obj s k = Inr e \<Longrightarrow> leaves e = 1 \<and> levels e \<le> 1"
  by (auto simp: parse_comparison_def result_simps split: option.splits if_splits)

lemma any_is_bounds [simp]:
  "sum_list (map (leaves \<circ> Is s k) items) = length items" "fold max (map (levels \<circ> Is s k) items) 0 = 0"
  by (induction items) auto

lemma parse_leaf_bounds:
  assumes "parse_leaf L obj depth budget = Inr (e, b)" and "depth \<le> MAX_DEPTH"
  shows "leaves e + b \<le> Suc budget \<and> levels e + depth \<le> Suc MAX_DEPTH"
proof -
  obtain source key where
    "(case map_of obj ''in'' of
       Some list \<Rightarrow>
         bind_res (ok_or InNotList (as_array list)) (\<lambda>items.
           if items = [] then Inr (Never, budget)
           else if budget < length items then Inl TooMany
           else if MAX_DEPTH < depth + 1 then Inl TooDeep
           else Inr (AnyOf (map (Is source key) items), budget - length items))
     | None \<Rightarrow> bind_res (parse_comparison L obj source key) (\<lambda>n. Inr (n, budget))) = Inr (e, b)"
    using assms(1) unfolding parse_leaf_def by (auto simp: bind_res_Inr_conv)
  with assms(2) parse_comparison_bounds [of L obj source key] show ?thesis
    by (auto simp: result_simps split: option.splits if_splits)
qed

lemma parse_bounds:
  "parse L v depth budget = Inr (e, b) \<Longrightarrow> leaves e + b \<le> budget \<and> levels e + depth \<le> Suc MAX_DEPTH"
  "parse_branches L v depth budget name = Inr (es, b) \<Longrightarrow> depth \<le> MAX_DEPTH \<Longrightarrow>
     sum_list (map leaves es) + b \<le> budget \<and> fold max (map levels es) 0 + Suc depth \<le> Suc MAX_DEPTH"
  "parse_items L vs depth budget = Inr (es, b) \<Longrightarrow> depth \<le> Suc MAX_DEPTH \<Longrightarrow>
     sum_list (map leaves es) + b \<le> budget \<and> fold max (map levels es) 0 + depth \<le> Suc MAX_DEPTH"
proof (induction L v depth budget and L v depth budget name and L vs depth budget
    arbitrary: e b and es b and es b rule: parse_parse_branches_parse_items.induct)
  case (1 L v depth budget)
  from "1.prems" obtain obj where g: "\<not> MAX_DEPTH < depth" "budget \<noteq> 0" "as_object v = Some obj"
    by (auto simp: parse.simps [of L v] split: if_splits option.splits)
  note IH = "1.IH" [OF g]
  note p = "1.prems" [unfolded parse.simps [of L v]]
  show ?case
  proof (cases "map_of obj ''all''")
    case (Some list)
    with p g obtain ns where "parse_branches L list depth (budget - 1) ''all'' = Inr (ns, b)" "e = AllOf ns"
      by (auto simp: result_simps)
    with IH(3) [OF Some] g show ?thesis by fastforce
  next
    case all: None
    show ?thesis
    proof (cases "map_of obj ''any''")
      case (Some list)
      with p g all obtain ns where "parse_branches L list depth (budget - 1) ''any'' = Inr (ns, b)"
        "e = (if ns = [] then Never else AnyOf ns)" by (auto simp: result_simps)
      with IH(2) [OF all Some] g show ?thesis by (fastforce split: if_splits)
    next
      case any: None
      show ?thesis
      proof (cases "map_of obj ''not''")
        case (Some inner)
        with p g all any obtain n where "parse L inner (Suc depth) (budget - 1) = Inr (n, b)" "e = Negated n"
          by (auto simp: result_simps)
        with IH(1) [OF all any Some] g show ?thesis by fastforce
      next
        case None
        with p g all any parse_leaf_bounds [of L obj depth "budget - 1"] show ?thesis
          by (auto simp: result_simps split: option.splits)
      qed
    qed
  qed
next
  case (2 L list depth budget name)
  then show ?case by (auto simp: result_simps ok_or_Inr_iff)
next
  case (3 L depth budget)
  then show ?case by simp
next
  case (4 L v vs depth budget)
  from "4.prems"(1) obtain n b' ns where s: "parse L v depth budget = Inr (n, b')"
    "parse_items L vs depth b' = Inr (ns, b)" "es = n # ns"
    by (auto simp: result_simps simp del: parse.simps)
  from "4.IH"(1) [OF s(1)] "4.IH"(2) [OF s(1) refl s(2) "4.prems"(2)] s(3) fold_max_max [of "map levels ns" "levels n"]
  show ?case by auto
qed

text \<open>An expression that is read has at most 64 conditions and nests at most nine deep, the
  reader descends at most eight levels and stops, for every body whatever its shape.\<close>
theorem audience_reading_bounded:
  "parse L v 0 MAX_NODES = Inr (e, b) \<Longrightarrow> leaves e \<le> 64 \<and> levels e \<le> 9"
  using parse_bounds(1) [of L v 0 MAX_NODES e b] by (simp add: MAX_NODES_def MAX_DEPTH_def)

theorem audience_reading_bounded_witness:
  "\<exists>e b. parse toy_lib (JObj [(''userKey'', JStr ''k'')]) 0 MAX_NODES = Inr (e, b) \<and> leaves e \<le> 64 \<and> levels e \<le> 9"
proof -
  have p: "parse toy_lib (JObj [(''userKey'', JStr ''k'')]) 0 MAX_NODES = Inr (UserKey ''k'', MAX_NODES - 1)"
    by (simp add: MAX_NODES_def json_access non_empty_def)
  from audience_reading_bounded [OF p] p show ?thesis by blast
qed

end
