(* ===== verification/PushVendors.thy ===== *)
theory PushVendors
  imports PublicHttp Json Primitives
begin

text \<open>
  The push providers' adapters, \<^verbatim>\<open>self-hosted/server/src/{apns,fcm,hcm,mipush,webpush,
  webpush_encrypt}.rs\<close>: what each sends, how it reads the answer and the text of each error, which
  is what the push worker classifies.  reqwest, the JWT signers, the JSON reader and the ciphers
  are fields of the record \<open>vendors\<close>.
\<close>

datatype request_body = Json_body json | Form_body "(string \<times> string) list"

record push_request =
  rq_url :: string
  rq_headers :: "(string \<times> string) list"
  rq_body :: request_body

text \<open>
  \<open>vn_send\<close>: the text of reqwest's error, or the status and the body's text, \<open>None\<close> where reading it
  failed.
\<close>
record vendors =
  vn_send :: "push_request \<Rightarrow> string + nat \<times> string option"
  vn_status_error :: "nat \<Rightarrow> string"
  vn_decode_error :: string
  vn_parse_json :: "string \<Rightarrow> string + json"
  vn_es256 :: "string option \<Rightarrow> json \<Rightarrow> string \<Rightarrow> string + string"
  vn_rs256 :: "json \<Rightarrow> string \<Rightarrow> string + string"
  vn_sha256_hex :: "string \<Rightarrow> string"
  vn_header_value :: "string \<Rightarrow> string option"
  vn_unix_now :: nat

definition map_err :: "('e \<Rightarrow> 'f) \<Rightarrow> 'e + 'a \<Rightarrow> 'f + 'a" where
  "map_err f r = (case r of Inl e \<Rightarrow> Inl (f e) | Inr v \<Rightarrow> Inr v)"

lemma map_err_simps [simp, result_simps]: "map_err f (Inl e) = Inl (f e)" "map_err f (Inr v) = Inr v"
  by (simp_all add: map_err_def)

definition success :: "nat \<Rightarrow> bool" where
  "success st \<longleftrightarrow> 200 \<le> st \<and> st < 300"

definition rejected_text :: "string \<Rightarrow> nat \<Rightarrow> string \<Rightarrow> string" where
  "rejected_text who st body = who @ '' rejected: status='' @ show_nat st @ '' body='' @ body"

subsection \<open>APNs\<close>

record apns_config =
  ap_team_id :: string
  ap_key_id :: string
  ap_topic :: string
  ap_private_pem :: string
  ap_production :: bool

datatype apns_error = Apns_jwt string | Apns_http string | Apns_rejected nat string

fun apns_text :: "apns_error \<Rightarrow> string" where
  "apns_text (Apns_jwt e) = ''jwt sign: '' @ e"
| "apns_text (Apns_http e) = ''http: '' @ e"
| "apns_text (Apns_rejected st body) = rejected_text ''apns'' st body"

definition apns_mint_jwt :: "vendors \<Rightarrow> apns_config \<Rightarrow> apns_error + string" where
  "apns_mint_jwt V cfg = map_err Apns_jwt (vn_es256 V (Some (ap_key_id cfg))
     (JObj [(''iss'', JStr (ap_team_id cfg)), (''iat'', JInt (int (vn_unix_now V)))]) (ap_private_pem cfg))"

definition apns_do_send ::
  "vendors \<Rightarrow> apns_config \<Rightarrow> string \<Rightarrow> string \<Rightarrow> string \<Rightarrow> string \<Rightarrow> apns_error + nat" where
  "apns_do_send V cfg device title body jwt =
     (let host = (if ap_production cfg then ''https://api.push.apple.com''
                  else ''https://api.sandbox.push.apple.com'') in
      case vn_send V \<lparr>rq_url = host @ ''/3/device/'' @ device,
          rq_headers = [(''authorization'', ''bearer '' @ jwt), (''apns-topic'', ap_topic cfg),
            (''apns-push-type'', ''alert'')],
          rq_body = Json_body (JObj [(''aps'', JObj [(''alert'',
            JObj [(''title'', JStr title), (''body'', JStr body)])])])\<rparr> of
        Inl e \<Rightarrow> Inl (Apns_http e)
      | Inr (st, text) \<Rightarrow>
          if st = 200 then Inr st else Inl (Apns_rejected st (unwrap_or [] text)))"

definition apns_send_with_jwt ::
  "vendors \<Rightarrow> apns_config \<Rightarrow> string \<Rightarrow> string \<Rightarrow> string \<Rightarrow> string \<Rightarrow> apns_error + nat" where
  "apns_send_with_jwt V cfg device title body jwt = apns_do_send V cfg device title body jwt"

definition apns_send_returning_jwt ::
  "vendors \<Rightarrow> apns_config \<Rightarrow> string \<Rightarrow> string \<Rightarrow> string \<Rightarrow> apns_error + nat \<times> string" where
  "apns_send_returning_jwt V cfg device title body =
     bind_res (apns_mint_jwt V cfg) (\<lambda>jwt.
     bind_res (apns_do_send V cfg device title body jwt) (\<lambda>st. Inr (st, jwt)))"

subsection \<open>FCM\<close>

record service_account =
  sa_project_id :: string
  sa_client_email :: string
  sa_private_key :: string

datatype fcm_error =
    Fcm_http string
  | Fcm_credentials string
  | Fcm_jwt string
  | Fcm_oauth nat string
  | Fcm_rejected nat string

fun fcm_text :: "fcm_error \<Rightarrow> string" where
  "fcm_text (Fcm_http e) = ''http: '' @ e"
| "fcm_text (Fcm_credentials e) = ''service account json: '' @ e"
| "fcm_text (Fcm_jwt e) = ''jwt: '' @ e"
| "fcm_text (Fcm_oauth st body) = ''oauth: status='' @ show_nat st @ '' body='' @ body"
| "fcm_text (Fcm_rejected st body) = rejected_text ''fcm'' st body"

text \<open>The derived readers take an object or, field by field, an array.\<close>
definition service_account_of :: "json \<Rightarrow> service_account option" where
  "service_account_of v =
     (let fields = (case v of
          JObj fs \<Rightarrow> map (\<lambda>k. Option.bind (map_of fs k) as_str) [''project_id'', ''client_email'', ''private_key'']
        | JArr xs \<Rightarrow> map as_str xs
        | _ \<Rightarrow> [])
      in case fields of
           [Some p, Some e, Some k] \<Rightarrow> Some \<lparr>sa_project_id = p, sa_client_email = e, sa_private_key = k\<rparr>
         | _ \<Rightarrow> None)"

definition fcm_parse :: "vendors \<Rightarrow> string \<Rightarrow> fcm_error + service_account" where
  "fcm_parse V account =
     bind_res (map_err Fcm_credentials (vn_parse_json V account)) (\<lambda>v.
     bind_res (ok_or (Fcm_credentials (vn_decode_error V)) (service_account_of v)) (\<lambda>sa.
       if sa_project_id sa = [] \<or> sa_client_email sa = [] \<or> sa_private_key sa = []
       then Inl (Fcm_credentials ''project_id, client_email and private_key are all required'')
       else Inr sa))"

definition fcm_project_id :: "vendors \<Rightarrow> string \<Rightarrow> fcm_error + string" where
  "fcm_project_id V account = bind_res (fcm_parse V account) (\<lambda>sa. Inr (sa_project_id sa))"

type_synonym fcm_cache = "(string \<times> string \<times> instant) list"

definition cached_token :: "instant \<Rightarrow> string \<Rightarrow> fcm_cache \<Rightarrow> string option" where
  "cached_token now key cache =
     map_option (\<lambda>(_, token, _). token) (List.find (\<lambda>(k, _, expiry). k = key \<and> now < expiry) cache)"

definition store_token :: "instant \<Rightarrow> string \<Rightarrow> string \<Rightarrow> duration \<Rightarrow> fcm_cache \<Rightarrow> fcm_cache" where
  "store_token now key token ttl cache =
     (let kept = filter (\<lambda>(k, _, expiry). k \<noteq> key \<and> now < expiry) cache;
          kept = (if 1024 \<le> length kept then [] else kept)
      in kept @ [(key, token, now + ttl)])"

definition credential_cache_key :: "vendors \<Rightarrow> service_account \<Rightarrow> string" where
  "credential_cache_key V sa = vn_sha256_hex V
     (sa_project_id sa @ [CHR 0x00] @ sa_client_email sa @ [CHR 0x00] @ sa_private_key sa)"

definition token_response_of :: "json \<Rightarrow> (string \<times> nat option) option" where
  "token_response_of v =
     (let fields = (case v of
          JObj fs \<Rightarrow> [Some (unwrap_or JNull (map_of fs ''access_token'')), Some (unwrap_or JNull (map_of fs ''expires_in''))]
        | JArr xs \<Rightarrow> map Some xs
        | _ \<Rightarrow> [])
      in case fields of
           [Some t, Some e] \<Rightarrow>
             (case as_str t of None \<Rightarrow> None | Some token \<Rightarrow>
                if e = JNull then Some (token, None)
                else map_option (\<lambda>n. (token, Some n)) (as_u64 e))
         | _ \<Rightarrow> None)"

definition fcm_access_token ::
  "vendors \<Rightarrow> instant \<Rightarrow> instant \<Rightarrow> service_account \<Rightarrow> fcm_cache \<Rightarrow> (fcm_error + string) \<times> fcm_cache" where
  "fcm_access_token V t0 t1 sa cache =
     (let key = credential_cache_key V sa in
      case cached_token t0 key cache of
        Some token \<Rightarrow> (Inr token, cache)
      | None \<Rightarrow>
          let claims = JObj [(''iss'', JStr (sa_client_email sa)),
                (''scope'', JStr ''https://www.googleapis.com/auth/firebase.messaging''),
                (''aud'', JStr ''https://oauth2.googleapis.com/token''),
                (''exp'', JInt (int (vn_unix_now V) + 3600)), (''iat'', JInt (int (vn_unix_now V)))]
          in case vn_rs256 V claims (sa_private_key sa) of
               Inl e \<Rightarrow> (Inl (Fcm_jwt e), cache)
             | Inr assertion \<Rightarrow>
                 (case vn_send V \<lparr>rq_url = ''https://oauth2.googleapis.com/token'', rq_headers = [],
                     rq_body = Form_body [(''grant_type'', ''urn:ietf:params:oauth:grant-type:jwt-bearer''),
                       (''assertion'', assertion)]\<rparr> of
                    Inl e \<Rightarrow> (Inl (Fcm_http e), cache)
                  | Inr (st, text) \<Rightarrow>
                      let body = unwrap_or [] text in
                      if \<not> success st then (Inl (Fcm_oauth st body), cache)
                      else
                        let unreadable = (\<lambda>e. Inl (Fcm_oauth st (''unreadable token response: '' @ e))) in
                        case vn_parse_json V body of
                          Inl e \<Rightarrow> (unreadable e, cache)
                        | Inr v \<Rightarrow>
                            (case token_response_of v of
                               None \<Rightarrow> (unreadable (vn_decode_error V), cache)
                             | Some (token, expires_in) \<Rightarrow>
                                 (Inr token, store_token t1 key token
                                    (secs (unwrap_or 3600 expires_in - 60)) cache))))"

definition fcm_message :: "string \<Rightarrow> string \<Rightarrow> string \<Rightarrow> json" where
  "fcm_message device title body =
     JObj [(''message'', JObj [(''token'', JStr device),
       (''data'', JObj [(''sentori'', JStr ''1''), (''title'', JStr title), (''body'', JStr body)]),
       (''android'', JObj [(''priority'', JStr ''HIGH'')])])]"

definition fcm_send ::
  "vendors \<Rightarrow> instant \<Rightarrow> instant \<Rightarrow> string \<Rightarrow> string \<Rightarrow> string \<Rightarrow> string \<Rightarrow> fcm_cache
     \<Rightarrow> (fcm_error + nat) \<times> fcm_cache" where
  "fcm_send V t0 t1 account device title body cache =
     (case fcm_parse V account of
        Inl e \<Rightarrow> (Inl e, cache)
      | Inr sa \<Rightarrow>
          (case fcm_access_token V t0 t1 sa cache of
             (Inl e, cache) \<Rightarrow> (Inl e, cache)
           | (Inr token, cache) \<Rightarrow>
               (case vn_send V \<lparr>rq_url = ''https://fcm.googleapis.com/v1/projects/'' @ sa_project_id sa
                     @ ''/messages:send'', rq_headers = [(''authorization'', ''Bearer '' @ token)],
                   rq_body = Json_body (fcm_message device title body)\<rparr> of
                  Inl e \<Rightarrow> (Inl (Fcm_http e), cache)
                | Inr (st, text) \<Rightarrow>
                    (if success st then Inr st else Inl (Fcm_rejected st (unwrap_or [] text)), cache))))"

subsection \<open>HCM\<close>

record hcm_config =
  hc_client_id :: string
  hc_client_secret :: string
  hc_app_id :: string

datatype hcm_error = Hcm_http string | Hcm_rejected nat string | Hcm_no_access_token

fun hcm_text :: "hcm_error \<Rightarrow> string" where
  "hcm_text (Hcm_http e) = ''http: '' @ e"
| "hcm_text (Hcm_rejected st body) = rejected_text ''hcm'' st body"
| "hcm_text Hcm_no_access_token = ''oauth missing access_token''"

text \<open>\<open>error_for_status\<close> makes an answer of 400 and above reqwest's error.\<close>
definition hcm_fetch_token :: "vendors \<Rightarrow> hcm_config \<Rightarrow> hcm_error + string" where
  "hcm_fetch_token V cfg =
     (case vn_send V \<lparr>rq_url = ''https://oauth-login.cloud.huawei.com/oauth2/v3/token'', rq_headers = [],
         rq_body = Form_body [(''grant_type'', ''client_credentials''), (''client_id'', hc_client_id cfg),
           (''client_secret'', hc_client_secret cfg)]\<rparr> of
        Inl e \<Rightarrow> Inl (Hcm_http e)
      | Inr (st, text) \<Rightarrow>
          if 400 \<le> st \<and> st < 600 then Inl (Hcm_http (vn_status_error V st))
          else case text of
            None \<Rightarrow> Inl (Hcm_http (vn_decode_error V))
          | Some body \<Rightarrow>
              bind_res (map_err Hcm_http (vn_parse_json V body)) (\<lambda>v.
                ok_or Hcm_no_access_token (str_at ''access_token'' v)))"

definition hcm_send_with_token ::
  "vendors \<Rightarrow> hcm_config \<Rightarrow> string \<Rightarrow> string \<Rightarrow> string \<Rightarrow> string \<Rightarrow> hcm_error + nat" where
  "hcm_send_with_token V cfg token device title body =
     (case vn_send V \<lparr>rq_url = ''https://push-api.cloud.huawei.com/v1/'' @ hc_app_id cfg @ ''/messages:send'',
         rq_headers = [(''authorization'', ''Bearer '' @ token)],
         rq_body = Json_body (JObj [(''validate_only'', JBool False), (''message'', JObj [
           (''token'', JArr [JStr device]),
           (''notification'', JObj [(''title'', JStr title), (''body'', JStr body)]),
           (''android'', JObj [(''collapse_key'', JInt (- 1)), (''urgency'', JStr ''HIGH''),
             (''ttl'', JStr ''1d'')])])])\<rparr> of
        Inl e \<Rightarrow> Inl (Hcm_http e)
      | Inr (st, text) \<Rightarrow>
          if success st then Inr st else Inl (Hcm_rejected st (unwrap_or [] text)))"

subsection \<open>MiPush\<close>

record mipush_config =
  mi_app_secret :: string
  mi_package_name :: string

datatype mipush_error = Mi_http string | Mi_rejected nat string

fun mipush_text :: "mipush_error \<Rightarrow> string" where
  "mipush_text (Mi_http e) = ''http: '' @ e"
| "mipush_text (Mi_rejected st body) = rejected_text ''mipush'' st body"

definition mipush_send ::
  "vendors \<Rightarrow> mipush_config \<Rightarrow> string \<Rightarrow> string \<Rightarrow> string \<Rightarrow> mipush_error + nat" where
  "mipush_send V cfg device title body =
     (case vn_send V \<lparr>rq_url = ''https://api.xmpush.xiaomi.com/v3/message/regid'',
         rq_headers = [(''authorization'', ''key='' @ mi_app_secret cfg)],
         rq_body = Form_body [(''registration_id'', device), (''payload'', body), (''title'', title),
           (''description'', body), (''restricted_package_name'', mi_package_name cfg),
           (''notify_type'', ''-1''), (''pass_through'', ''0'')]\<rparr> of
        Inl e \<Rightarrow> Inl (Mi_http e)
      | Inr (st, text) \<Rightarrow>
          if success st then Inr st else Inl (Mi_rejected st (unwrap_or [] text)))"

subsection \<open>Web Push\<close>

text \<open>The curve, HKDF-SHA256, AES-128-GCM and the random choices of one encryption.\<close>
record push_crypto =
  pk_b64url_decode :: "string \<Rightarrow> bytes option"
  pk_valid_sec1 :: "bytes \<Rightarrow> bool"
  pk_server_public :: bytes
  pk_diffie_hellman :: "bytes \<Rightarrow> bytes"
  pk_hkdf :: "bytes \<Rightarrow> bytes \<Rightarrow> bytes \<Rightarrow> nat \<Rightarrow> bytes option"
  pk_salt :: bytes
  pk_aes128_gcm :: "bytes \<Rightarrow> bytes \<Rightarrow> bytes \<Rightarrow> bytes option"

datatype encrypt_error =
  Invalid_client_key | Invalid_auth_len nat | Hkdf_expand | Aes_encrypt | Invalid_server_key_len nat

definition push_encrypt :: "push_crypto \<Rightarrow> bytes \<Rightarrow> string \<Rightarrow> string \<Rightarrow> encrypt_error + bytes \<times> string" where
  "push_encrypt C payload p256dh_b64url auth_b64url =
     bind_res (ok_or Invalid_client_key (pk_b64url_decode C p256dh_b64url)) (\<lambda>p256dh.
     if \<not> pk_valid_sec1 C p256dh then Inl Invalid_client_key
     else bind_res (ok_or (Invalid_auth_len 0) (pk_b64url_decode C auth_b64url)) (\<lambda>auth_secret.
     if length auth_secret \<noteq> 16 then Inl (Invalid_auth_len (length auth_secret))
     else
       let server_pub = pk_server_public C;
           info = bytes_of ''WebPush: info'' @ [0] @ p256dh @ server_pub
       in bind_res (ok_or Hkdf_expand (pk_hkdf C auth_secret (pk_diffie_hellman C p256dh) info 32)) (\<lambda>ikm.
          bind_res (ok_or Hkdf_expand
            (pk_hkdf C (pk_salt C) ikm (bytes_of ''Content-Encoding: aes128gcm'' @ [0]) 16)) (\<lambda>cek.
          bind_res (ok_or Hkdf_expand
            (pk_hkdf C (pk_salt C) ikm (bytes_of ''Content-Encoding: nonce'' @ [0]) 12)) (\<lambda>nonce.
          bind_res (ok_or Aes_encrypt (pk_aes128_gcm C cek nonce (payload @ [2]))) (\<lambda>ciphertext.
            if 255 < length server_pub then Inl (Invalid_server_key_len (length server_pub))
            else Inr (pk_salt C @ [0, 0, 16, 0] @ [of_nat (length server_pub)] @ server_pub @ ciphertext,
                      ''aes128gcm''))))))) "

record webpush_config =
  wp_subject :: string
  wp_public_key :: string
  wp_private_pem :: string

datatype webpush_error =
  Wp_jwt string | Wp_http string | Wp_egress string | Wp_bad_url string | Wp_rejected nat string

fun webpush_text :: "webpush_error \<Rightarrow> string" where
  "webpush_text (Wp_jwt e) = ''jwt sign: '' @ e"
| "webpush_text (Wp_http e) = ''http: '' @ e"
| "webpush_text (Wp_egress e) = e"
| "webpush_text (Wp_bad_url e) = ''bad endpoint url: '' @ e"
| "webpush_text (Wp_rejected st body) = rejected_text ''provider'' st body"

text \<open>What one Web Push send uses beside the vendors' record.\<close>
record 'u web_env =
  web_url :: "'u url_api"
  web_origin :: "'u \<Rightarrow> string"
  web_net :: "'u net"
  web_late :: "bool option"
  web_crypto :: push_crypto

definition webpush_send_with_payload ::
  "vendors \<Rightarrow> 'u web_env \<Rightarrow> webpush_config \<Rightarrow> string \<Rightarrow> nat \<Rightarrow> (bytes \<times> string \<times> string) option
     \<Rightarrow> webpush_error + nat" where
  "webpush_send_with_payload V W cfg endpoint ttl payload =
     bind_res (map_err Wp_bad_url (http_parse (web_url W) endpoint)) (\<lambda>url.
     if scheme (web_url W) url \<noteq> ''https'' then Inl (Wp_bad_url ''https_required'')
     else
       let claims = JObj [(''aud'', JStr (web_origin W url)), (''exp'', JInt (int (vn_unix_now V) + 43200)),
             (''sub'', JStr (wp_subject cfg))]
       in bind_res (map_err Wp_jwt (vn_es256 V None claims (wp_private_pem cfg))) (\<lambda>jwt.
          bind_res (ok_or (Wp_bad_url ''invalid_vapid_key'')
            (vn_header_value V (''vapid t='' @ jwt @ '', k='' @ wp_public_key cfg))) (\<lambda>auth.
          bind_res (ok_or (Wp_bad_url ''invalid_ttl'') (vn_header_value V (show_nat ttl))) (\<lambda>ttl_value.
          let headers = [(''authorization'', auth), (''ttl'', ttl_value)] in
          bind_res
            (case payload of
               None \<Rightarrow> Inr (headers, [])
             | Some (plain, p256dh, auth_secret) \<Rightarrow>
                 bind_res (map_err (\<lambda>_. Wp_bad_url ''invalid_subscription_key'')
                     (push_encrypt (web_crypto W) plain p256dh auth_secret)) (\<lambda>(body, encoding).
                 bind_res (ok_or (Wp_bad_url ''invalid_content_encoding'') (vn_header_value V encoding)) (\<lambda>e.
                   Inr (headers @ [(''content-encoding'', e)], body)))) (\<lambda>(headers, body).
          bind_res (map_err (\<lambda>f. Wp_egress (if may_have_sent f then ''send_uncertain'' else code f))
              (fst (post (web_url W) (web_net W) (web_late W) endpoint headers body False))) (\<lambda>response.
            let st = post_status response in
            if success st then Inr st
            else Inl (Wp_rejected st
              (if 300 \<le> st \<and> st < 400 then ''redirect_refused'' else ''provider_rejected''))))))))"

definition webpush_send :: "vendors \<Rightarrow> 'u web_env \<Rightarrow> webpush_config \<Rightarrow> string \<Rightarrow> nat \<Rightarrow> webpush_error + nat" where
  "webpush_send V W cfg endpoint ttl = webpush_send_with_payload V W cfg endpoint ttl None"

subsection \<open>What holds of them\<close>

text \<open>The token cache: at most 1024 entries, one per key, none handed out after its time.\<close>
definition fcm_cache_ok :: "fcm_cache \<Rightarrow> bool" where
  "fcm_cache_ok cache \<longleftrightarrow> length cache \<le> 1024 \<and> distinct (map fst cache)"

lemma store_token_ok: "fcm_cache_ok cache \<Longrightarrow> fcm_cache_ok (store_token now key token ttl cache)"
  unfolding fcm_cache_ok_def store_token_def Let_def
  by (auto intro: distinct_map_filter)

lemma cached_token_fresh:
  assumes "cached_token now key cache = Some token"
  obtains expiry where "(key, token, expiry) \<in> set cache" and "now < expiry"
proof -
  obtain x where f: "List.find (\<lambda>(k, _, expiry). k = key \<and> now < expiry) cache = Some x" "fst (snd x) = token"
    using assms unfolding cached_token_def by (auto split: prod.splits)
  obtain k t e where x: "x = (k, t, e)" by (cases x)
  from f(1) have "x \<in> set cache \<and> (case x of (k, _, expiry) \<Rightarrow> k = key \<and> now < expiry)"
    unfolding find_Some_iff by (metis nth_mem)
  with f(2) x show thesis by (intro that [of e]) auto
qed

lemma cached_token_stored:
  assumes "0 < ttl"
  shows "cached_token now key (store_token now key token ttl cache) = Some token"
proof -
  have "List.find (\<lambda>(k, _, expiry). k = key \<and> now < expiry) (filter (\<lambda>(k, _, expiry). k \<noteq> key \<and> now < expiry) xs
      @ [(key, token, now + ttl)]) = Some (key, token, now + ttl)" for xs :: fcm_cache
    using assms by (induction xs) auto
  with assms show ?thesis by (simp add: cached_token_def store_token_def Let_def)
qed

lemma cached_token_other:
  assumes "cached_token now k (store_token t0 key token ttl cache) = Some t" and "k \<noteq> key"
  shows "cached_token now k cache \<noteq> None"
proof -
  obtain e where "(k, t, e) \<in> set (store_token t0 key token ttl cache)" "now < e"
    by (rule cached_token_fresh [OF assms(1)])
  with assms(2) have "(k, t, e) \<in> set cache" "now < e"
    by (auto simp: store_token_def Let_def split: if_splits)
  then have "\<not> (\<forall>x \<in> set cache. \<not> (case x of (k', _, expiry) \<Rightarrow> k' = k \<and> now < expiry))" by auto
  then show ?thesis by (auto simp: cached_token_def find_None_iff)
qed

text \<open>A successful answer is the only one reported as sent.\<close>
lemma vendors_report_success:
  "apns_do_send V c d t b j = Inr st \<Longrightarrow> st = 200"
  "mipush_send V m d t b = Inr st \<Longrightarrow> success st"
  "hcm_send_with_token V h j d t b = Inr st \<Longrightarrow> success st"
  "fst (fcm_send V t0 t1 a d t b cache) = Inr st \<Longrightarrow> success st"
  by (auto simp: apns_do_send_def mipush_send_def hcm_send_with_token_def fcm_send_def Let_def
      split: sum.splits prod.splits if_splits)

lemma webpush_reports_success: "webpush_send_with_payload V W cfg e ttl p = Inr st \<Longrightarrow> success st"
  by (auto simp: webpush_send_with_payload_def Let_def result_simps map_err_def split: if_splits sum.splits)

text \<open>A web push names a destination outside the server's own networks, over https.\<close>
lemma webpush_destination:
  assumes "webpush_send_with_payload V W cfg e ttl p = Inr st"
  obtains url where "http_parse (web_url W) e = Inr url" and "scheme (web_url W) url = ''https''"
  using assms by (auto simp: webpush_send_with_payload_def result_simps map_err_def split: if_splits sum.splits)

text \<open>The record an encrypted push is framed in.\<close>
lemma push_encrypt_frame:
  assumes "push_encrypt C payload p a = Inr (body, enc)" and "length (pk_salt C) = 16"
  shows "enc = ''aes128gcm'' \<and> take 16 body = pk_salt C
    \<and> unat (body ! 20) = length (pk_server_public C)
    \<and> take (length (pk_server_public C)) (drop 21 body) = pk_server_public C"
proof -
  have "length (pk_server_public C) \<le> 255"
    using assms(1) by (auto simp: push_encrypt_def Let_def result_simps split: if_splits)
  then have n: "unat (of_nat (length (pk_server_public C)) :: byte) = length (pk_server_public C)"
    by (simp add: unat_of_nat)
  obtain c where c: "enc = ''aes128gcm''" "body = pk_salt C @ [0, 0, 16, 0] @ [of_nat (length (pk_server_public C))]
      @ pk_server_public C @ c"
    using assms(1) by (auto simp: push_encrypt_def Let_def result_simps split: if_splits)
  have "body ! 20 = of_nat (length (pk_server_public C))"
    unfolding c(2) using assms(2) by (simp add: nth_append)
  moreover have "drop 21 body = pk_server_public C @ c"
    unfolding c(2) using assms(2) by simp
  ultimately show ?thesis using c(1) n assms(2) by (simp add: c(2))
qed

end
