(* ===== verification/PushWorker.thy ===== *)
theory PushWorker
  imports PushVendors Integrations Tables "HOL-Library.Product_Lexorder"
begin

text \<open>
  Durable push, \<^verbatim>\<open>self-hosted/server/src/{push_worker,push_quarantine,push_secrets,token_cache}.rs\<close>:
  what a provider's answer means for the send and for the device, the claim and lease cycle of a
  worker over \<open>push_sends\<close>, and the call each provider gets.  The last part is the transition system
  of any number of workers and of operators who queue a failed send again.
\<close>

subsection \<open>What a failure means\<close>

text \<open>\<open>str::split\<close> with a string, from left to right without overlaps.\<close>
function str_split :: "string \<Rightarrow> string \<Rightarrow> string \<Rightarrow> string list" where
  "str_split p acc [] = [rev acc]"
| "str_split p acc (c # s) =
     (if p \<noteq> [] \<and> starts_with (c # s) p then rev acc # str_split p [] (drop (length p) (c # s))
      else str_split p (c # acc) s)"
  by pat_completeness auto
termination
  by (relation "measure (\<lambda>(p, acc, s). length s)") auto

definition extract_http_status :: "string \<Rightarrow> nat option" where
  "extract_http_status s =
     (case str_split ''status='' [] s of
        _ # after # _ \<Rightarrow> parse_unsigned 65535 (takeWhile is_ascii_digit after)
      | _ \<Rightarrow> None)"

definition is_permanent_token_failure :: "string \<Rightarrow> nat \<Rightarrow> string \<Rightarrow> bool" where
  "is_permanent_token_failure provider http_status reason \<longleftrightarrow>
     (if provider = ''apns'' then
        http_status = 410 \<or> http_status = 400
          \<and> (str_contains reason ''BadDeviceToken'' \<or> str_contains reason ''DeviceTokenNotForTopic''
             \<or> str_contains reason ''MissingDeviceToken'')
      else if provider = ''fcm'' then
        http_status = 404 \<and> (str_contains reason ''UNREGISTERED'' \<or> str_contains reason ''NotRegistered'')
      else if provider = ''webpush'' then http_status = 404 \<or> http_status = 410
      else False)"

definition is_apns_credential_rejection :: "string \<Rightarrow> bool" where
  "is_apns_credential_rejection reason \<longleftrightarrow> list_ex (str_contains reason)
     [''InvalidProviderToken'', ''MissingProviderToken'', ''TopicDisallowed'', ''BadTopic'',
      ''BadCertificateEnvironment'']"

definition is_configuration_failure :: "string \<Rightarrow> bool" where
  "is_configuration_failure reason \<longleftrightarrow>
     reason \<in> set [''credentials_missing'', ''vault_unconfigured'', ''decryption_failed'',
       ''credential_scope_mismatch'', ''invalid_credential'', ''non_public_address'', ''invalid_url'',
       ''https_required'', ''redirect_refused'', ''provider_not_wired'']
     \<or> list_ex (starts_with reason)
       [''bad endpoint url:'', ''jwt sign:'', ''service account json:'', ''oauth: status=4'']
     \<or> is_apns_credential_rejection reason"

definition exact_codes :: "string list" where
  "exact_codes = [''credentials_missing'', ''provider_not_wired'', ''vault_unconfigured'',
     ''decryption_failed'', ''credential_scope_mismatch'', ''invalid_credential'', ''send_timeout'',
     ''send_uncertain'', ''non_public_address'', ''invalid_url'', ''https_required'', ''redirect_refused'']"

definition contained_codes :: "string list" where
  "contained_codes = [''InvalidProviderToken'', ''MissingProviderToken'', ''TopicDisallowed'', ''BadTopic'',
     ''BadCertificateEnvironment'', ''BadDeviceToken'', ''DeviceTokenNotForTopic'', ''MissingDeviceToken'',
     ''UNREGISTERED'', ''NotRegistered'', ''ExpiredProviderToken'']"

text \<open>The text stored with the send, which the project's users may read.\<close>
definition safe_reason :: "string \<Rightarrow> string" where
  "safe_reason reason =
     (let reason = unwrap_or reason (strip_prefix reason ''bad endpoint url: '') in
      if reason \<in> set exact_codes then reason
      else case List.find (str_contains reason) contained_codes of
        Some c \<Rightarrow> c
      | None \<Rightarrow> (case extract_http_status reason of
            None \<Rightarrow> ''provider_request_failed'' | Some http \<Rightarrow> ''http_'' @ show_nat http))"

record attempt =
  at_id :: uuid
  at_token :: uuid
  at_retries :: nat
  at_lease :: uuid
  at_provider :: string

datatype device_effect = No_effect | Success | Transient | Permanent

record push_outcome =
  po_status :: string
  po_code :: string
  po_error :: "string option"
  po_http :: nat
  po_duration :: nat
  po_retries :: nat
  po_backoff :: nat
  po_device :: device_effect

definition MAX_RETRIES :: nat where "MAX_RETRIES = 5"

text \<open>The failure may have reached the device.\<close>
definition uncertain_reason :: "string \<Rightarrow> bool" where
  "uncertain_reason reason \<longleftrightarrow> reason = ''send_timeout'' \<or> reason = ''send_uncertain'' \<or> starts_with reason ''http:''"

definition outcome_for :: "attempt \<Rightarrow> string + nat \<times> nat \<Rightarrow> push_outcome" where
  "outcome_for a result =
     (case result of
        Inr (http, duration) \<Rightarrow>
          \<lparr>po_status = ''sent'', po_code = ''ok'', po_error = None, po_http = http,
           po_duration = (if duration \<le> I32_MAX then duration else I32_MAX),
           po_retries = at_retries a, po_backoff = 0, po_device = Success\<rparr>
      | Inl reason \<Rightarrow>
          let http = unwrap_or 0 (extract_http_status reason);
              permanent = is_permanent_token_failure (at_provider a) http reason;
              uncertain = uncertain_reason reason;
              terminal = (permanent \<or> is_configuration_failure reason \<or> (300 \<le> http \<and> http < 400)
                \<or> uncertain \<or> MAX_RETRIES \<le> at_retries a)
          in \<lparr>po_status = (if terminal then ''failed'' else ''queued''),
              po_code = (if uncertain then ''uncertain'' else if permanent then ''permanent_failure''
                else ''http_'' @ show_nat http),
              po_error = Some (safe_reason reason), po_http = http, po_duration = 0,
              po_retries = (if terminal then at_retries a else at_retries a + 1),
              po_backoff = (if terminal then 0 else 30 * 2 ^ min (at_retries a) 6),
              po_device = (if permanent then Permanent else if uncertain then No_effect else Transient)\<rparr>)"

definition target_unavailable :: "attempt \<Rightarrow> push_outcome" where
  "target_unavailable a = \<lparr>po_status = ''failed'', po_code = ''cancelled'',
     po_error = Some ''target_unavailable'', po_http = 0, po_duration = 0, po_retries = at_retries a,
     po_backoff = 0, po_device = No_effect\<rparr>"

subsection \<open>Sealed credentials\<close>

definition push_sealed_value :: "api \<Rightarrow> uuid \<Rightarrow> uuid \<Rightarrow> string \<Rightarrow> string \<Rightarrow> json" where
  "push_sealed_value X project i kind secret =
     JObj [(''project'', JStr (ob_uuid_text X project)), (''id'', JStr (ob_uuid_text X i)),
       (''kind'', JStr kind), (''secret'', JStr secret)]"

definition push_seal ::
  "api \<Rightarrow> aead \<Rightarrow> rng \<Rightarrow> vault \<Rightarrow> uuid \<Rightarrow> uuid \<Rightarrow> string \<Rightarrow> string \<Rightarrow> string + bytes" where
  "push_seal X A rng v project i kind secret =
     bind_res (ok_or ''invalid_credential'' (ob_json_to_vec X (push_sealed_value X project i kind secret))) (\<lambda>b.
       map_err (\<lambda>_. ''encryption_failed'') (vault_seal A rng v b))"

definition from_utf8 :: "bytes \<Rightarrow> string option" where
  "from_utf8 b = (if utf8 (chars_of b) then Some (chars_of b) else None)"

text \<open>The outer option is the vault's panic.\<close>
definition push_open ::
  "api \<Rightarrow> aead \<Rightarrow> vault option \<Rightarrow> uuid \<Rightarrow> uuid \<Rightarrow> string \<Rightarrow> string \<Rightarrow> bytes \<Rightarrow> (string + string) option" where
  "push_open X A v project i kind secret_format blob =
     (if secret_format = ''legacy'' then Some (ok_or ''invalid_credential'' (from_utf8 blob))
      else if secret_format \<noteq> ''sealed'' then Some (Inl ''invalid_credential_format'')
      else case v of
        None \<Rightarrow> Some (Inl ''vault_unconfigured'')
      | Some v \<Rightarrow>
          map_option (\<lambda>r. case r of
              Inl _ \<Rightarrow> Inl ''decryption_failed''
            | Inr bs \<Rightarrow> bind_res (ok_or ''decryption_failed'' (ob_json_from_slice X bs)) (\<lambda>value.
                if str_at ''project'' value \<noteq> Some (ob_uuid_text X project)
                   \<or> str_at ''id'' value \<noteq> Some (ob_uuid_text X i) \<or> str_at ''kind'' value \<noteq> Some kind
                then Inl ''credential_scope_mismatch''
                else ok_or ''decryption_failed'' (str_at ''secret'' value)))
          (vault_open A v blob))"

subsection \<open>The token cache\<close>

type_synonym token_cache = "((uuid \<times> string) \<times> string \<times> instant) list"

definition tc_get :: "instant \<Rightarrow> uuid \<Rightarrow> string \<Rightarrow> token_cache \<Rightarrow> string option" where
  "tc_get now credential kind cache =
     (case map_of cache (credential, kind) of
        None \<Rightarrow> None
      | Some (token, expires_at) \<Rightarrow>
          if now \<le> expires_at \<and> mins 5 < expires_at - now then Some token else None)"

definition tc_remove :: "uuid \<Rightarrow> string \<Rightarrow> token_cache \<Rightarrow> token_cache" where
  "tc_remove credential kind cache = AList.delete (credential, kind) cache"

definition tc_put :: "instant \<Rightarrow> uuid \<Rightarrow> string \<Rightarrow> string \<Rightarrow> duration \<Rightarrow> token_cache \<Rightarrow> token_cache" where
  "tc_put now credential kind token ttl cache =
     (let kept = filter (\<lambda>(_, _, expires_at). now < expires_at) cache;
          kept = (if 1024 \<le> length kept then [] else kept)
      in AList.update (credential, kind) (token, now + ttl) kept)"

subsection \<open>Tables\<close>

record push_send =
  ps_project :: uuid
  ps_token :: uuid
  ps_provider :: string
  ps_payload :: json
  ps_status :: string
  ps_outcome :: "string option"
  ps_error :: "string option"
  ps_retries :: nat
  ps_key :: "string option"
  ps_next :: instant
  ps_created :: instant
  ps_sent_at :: "instant option"
  ps_credential :: "uuid option"
  ps_version :: nat
  ps_generation :: int
  ps_owner :: "uuid option"
  ps_until :: "instant option"

record device =
  dv_project :: uuid
  dv_provider :: string
  dv_native :: string
  dv_env :: "string option"
  dv_metadata :: json
  dv_revoked :: "instant option"
  dv_bad_streak :: int
  dv_version :: nat

record credential =
  pc_project :: uuid
  pc_kind :: string
  pc_config :: json
  pc_blob :: bytes
  pc_format :: string
  pc_active :: bool
  pc_label :: string
  pc_verdict :: "string option"
  pc_version :: nat

record push_log =
  pl_send :: uuid
  pl_attempt :: nat
  pl_outcome :: string
  pl_status :: "nat option"
  pl_duration :: "nat option"

record push_db =
  pd_generation :: int
  pd_sends :: "(uuid \<times> push_send) list"
  pd_devices :: "(uuid \<times> device) list"
  pd_credentials :: "(uuid \<times> credential) list"
  pd_logs :: "push_log list"

text \<open>The triggers that count every update of a row.\<close>
definition bump_send :: "push_send \<Rightarrow> push_send" where
  "bump_send r = r\<lparr>ps_version := Suc (ps_version r)\<rparr>"

definition bump_device :: "device \<Rightarrow> device" where
  "bump_device d = d\<lparr>dv_version := Suc (dv_version d)\<rparr>"

definition bump_credential :: "credential \<Rightarrow> credential" where
  "bump_credential c = c\<lparr>pc_version := Suc (pc_version c)\<rparr>"

subsection \<open>The call of each provider\<close>

record push_row =
  pr_native :: string
  pr_env :: "string option"
  pr_metadata :: json
  pr_payload :: json
  pr_project :: uuid
  pr_config :: json
  pr_blob :: bytes
  pr_credential :: uuid
  pr_format :: string

text \<open>The join each provider starts from.\<close>
definition push_row_of :: "push_db \<Rightarrow> string \<Rightarrow> uuid \<Rightarrow> push_row option" where
  "push_row_of db kind i =
     (case map_of (pd_sends db) i of None \<Rightarrow> None | Some ps \<Rightarrow>
     (case map_of (pd_devices db) (ps_token ps) of None \<Rightarrow> None | Some dt \<Rightarrow>
     (case List.find (\<lambda>(k, c). pc_project c = ps_project ps \<and> pc_kind c = kind \<and> pc_active c
             \<and> ps_credential ps = Some k) (pd_credentials db) of None \<Rightarrow> None | Some (k, c) \<Rightarrow>
        if dv_project dt = ps_project ps \<and> dv_revoked dt = None \<and> ps_generation ps = pd_generation db
        then Some \<lparr>pr_native = dv_native dt, pr_env = dv_env dt, pr_metadata = dv_metadata dt,
               pr_payload = ps_payload ps, pr_project = ps_project ps, pr_config = pc_config c,
               pr_blob = pc_blob c, pr_credential = k, pr_format = pc_format c\<rparr>
        else None)))"

record 'u push_env =
  pe_vendors :: vendors
  pe_web :: "'u web_env"
  pe_api :: api
  pe_aead :: aead
  pe_vault :: "vault option"
  pe_elapsed :: nat
  pe_late :: "bool option"      \<comment> \<open>the 30 seconds passed, with or without the tokens stored\<close>

record push_caches =
  ca_tokens :: token_cache
  ca_fcm :: fcm_cache

definition credential_secret :: "'u push_env \<Rightarrow> push_row \<Rightarrow> string \<Rightarrow> (string + string) option" where
  "credential_secret E row kind = push_open (pe_api E) (pe_aead E) (pe_vault E) (pr_project row)
     (pr_credential row) kind (pr_format row) (pr_blob row)"

definition config_str :: "push_row \<Rightarrow> string \<Rightarrow> string + string" where
  "config_str row k = ok_or (k @ '' missing'') (str_at k (pr_config row))"

definition push_title :: "push_row \<Rightarrow> string" where
  "push_title row = unwrap_or ''Sentori'' (str_at ''title'' (pr_payload row))"

definition push_body :: "push_row \<Rightarrow> string" where
  "push_body row = unwrap_or [] (str_at ''body'' (pr_payload row))"

definition timed :: "'u push_env \<Rightarrow> string + nat \<Rightarrow> string + nat \<times> nat" where
  "timed E r = bind_res r (\<lambda>st. Inr (st, pe_elapsed E))"

definition try_hcm ::
  "'u push_env \<Rightarrow> instant \<Rightarrow> instant \<Rightarrow> push_row \<Rightarrow> string \<Rightarrow> token_cache \<Rightarrow> (string + nat \<times> nat) \<times> token_cache" where
  "try_hcm E t0 t1 row secret cache =
     (let V = pe_vendors E in
      case bind_res (config_str row ''clientId'') (\<lambda>client_id.
           bind_res (config_str row ''appId'') (\<lambda>app_id.
             Inr \<lparr>hc_client_id = client_id, hc_client_secret = trim secret, hc_app_id = app_id\<rparr>)) of
        Inl e \<Rightarrow> (Inl e, cache)
      | Inr cfg \<Rightarrow>
          (case (case tc_get t0 (pr_credential row) ''hcm_oauth'' cache of
                   Some t \<Rightarrow> (Inr t, cache)
                 | None \<Rightarrow>
                     (case hcm_fetch_token V cfg of
                        Inl e \<Rightarrow> (Inl (hcm_text e), cache)
                      | Inr t \<Rightarrow> (Inr t, tc_put t1 (pr_credential row) ''hcm_oauth'' t (mins 55) cache))) of
             (Inl e, cache) \<Rightarrow> (Inl e, cache)
           | (Inr token, cache) \<Rightarrow>
               (timed E (map_err hcm_text
                  (hcm_send_with_token V cfg token (pr_native row) (push_title row) (push_body row))), cache)))"

definition try_mipush :: "'u push_env \<Rightarrow> push_row \<Rightarrow> string \<Rightarrow> string + nat \<times> nat" where
  "try_mipush E row secret =
     bind_res (config_str row ''packageName'') (\<lambda>package.
       timed E (map_err mipush_text (mipush_send (pe_vendors E)
         \<lparr>mi_app_secret = trim secret, mi_package_name = package\<rparr>
         (pr_native row) (push_title row) (push_body row))))"

definition try_fcm ::
  "'u push_env \<Rightarrow> instant \<Rightarrow> instant \<Rightarrow> push_row \<Rightarrow> string \<Rightarrow> fcm_cache \<Rightarrow> (string + nat \<times> nat) \<times> fcm_cache" where
  "try_fcm E t0 t1 row secret cache =
     (let (r, cache) = fcm_send (pe_vendors E) t0 t1 (trim secret) (pr_native row) (push_title row)
            (push_body row) cache
      in (timed E (map_err fcm_text r), cache))"

text \<open>The device's own environment decides the host; the credential's is the fallback.\<close>
definition apns_is_production :: "string option \<Rightarrow> json \<Rightarrow> bool" where
  "apns_is_production device_env config =
     (if device_env = Some ''sandbox'' then False
      else if device_env = Some ''production'' then True
      else unwrap_or True (Option.bind (jget ''production'' config) as_bool))"

definition try_apns ::
  "'u push_env \<Rightarrow> instant \<Rightarrow> instant \<Rightarrow> push_row \<Rightarrow> string \<Rightarrow> token_cache \<Rightarrow> (string + nat \<times> nat) \<times> token_cache" where
  "try_apns E t0 t1 row secret cache =
     (let V = pe_vendors E; device = pr_native row; title = push_title row; body = push_body row in
      case bind_res (config_str row ''teamId'') (\<lambda>team_id.
           bind_res (config_str row ''keyId'') (\<lambda>key_id.
           bind_res (config_str row ''topic'') (\<lambda>topic.
             Inr \<lparr>ap_team_id = team_id, ap_key_id = key_id, ap_topic = topic, ap_private_pem = secret,
                  ap_production = apns_is_production (pr_env row) (pr_config row)\<rparr>))) of
        Inl e \<Rightarrow> (Inl e, cache)
      | Inr cfg \<Rightarrow>
          (case tc_get t0 (pr_credential row) ''apns_jwt'' cache of
             Some jwt \<Rightarrow>
               (case apns_send_with_jwt V cfg device title body jwt of
                  Inr st \<Rightarrow> (timed E (Inr st), cache)
                | Inl e \<Rightarrow>
                    (Inl (apns_text e), if str_contains (apns_text e) ''ExpiredProviderToken''
                       then tc_remove (pr_credential row) ''apns_jwt'' cache else cache))
           | None \<Rightarrow>
               (case apns_send_returning_jwt V cfg device title body of
                  Inl e \<Rightarrow> (Inl (apns_text e), cache)
                | Inr (st, jwt) \<Rightarrow>
                    (timed E (Inr st), tc_put t1 (pr_credential row) ''apns_jwt'' jwt (mins 55) cache))))"

definition try_webpush :: "'u push_env \<Rightarrow> push_row \<Rightarrow> string \<Rightarrow> string + nat \<times> nat" where
  "try_webpush E row secret =
     (let cfg = \<lparr>wp_subject = unwrap_or ''mailto:admin@localhost'' (str_at ''subject'' (pr_config row)),
            wp_public_key = unwrap_or [] (str_at ''vapidPublicKey'' (pr_config row)),
            wp_private_pem = secret\<rparr>;
          V = pe_vendors E; endpoint = pr_native row
      in timed E (map_err webpush_text
          (case (str_at ''p256dh'' (pr_metadata row), str_at ''auth'' (pr_metadata row)) of
             (Some p, Some a) \<Rightarrow>
               webpush_send_with_payload V (pe_web E) cfg endpoint 3600
                 (Some (unwrap_or [] (ob_json_to_vec (pe_api E) (pr_payload row)), p, a))
           | _ \<Rightarrow> webpush_send V (pe_web E) cfg endpoint 3600)))"

text \<open>The provider's answer, or \<open>None\<close> for a panic, with the caches it leaves.\<close>
definition call_provider ::
  "'u push_env \<Rightarrow> push_db \<Rightarrow> instant \<Rightarrow> instant \<Rightarrow> attempt \<Rightarrow> push_caches
     \<Rightarrow> (string + nat \<times> nat) option \<times> push_caches" where
  "call_provider E db t0 t1 a caches =
     (let kind = at_provider a in
      if kind \<notin> {''webpush'', ''apns'', ''fcm'', ''hcm'', ''mipush''} then
        (Some (Inl ''provider_not_wired''), caches)
      else case push_row_of db kind (at_id a) of
        None \<Rightarrow> (Some (Inl ''credentials_missing''), caches)
      | Some row \<Rightarrow>
          (case credential_secret E row kind of
             None \<Rightarrow> (None, caches)
           | Some (Inl e) \<Rightarrow> (Some (Inl e), caches)
           | Some (Inr secret) \<Rightarrow>
               if kind = ''webpush'' then (Some (try_webpush E row secret), caches)
               else if kind = ''apns'' then
                 (let (r, c) = try_apns E t0 t1 row secret (ca_tokens caches)
                  in (Some r, caches\<lparr>ca_tokens := c\<rparr>))
               else if kind = ''fcm'' then
                 (let (r, c) = try_fcm E t0 t1 row secret (ca_fcm caches)
                  in (Some r, caches\<lparr>ca_fcm := c\<rparr>))
               else if kind = ''hcm'' then
                 (let (r, c) = try_hcm E t0 t1 row secret (ca_tokens caches)
                  in (Some r, caches\<lparr>ca_tokens := c\<rparr>))
               else (Some (try_mipush E row secret), caches)))"

text \<open>With the limit of 30 seconds on the whole call.\<close>
definition push_result ::
  "'u push_env \<Rightarrow> push_db \<Rightarrow> instant \<Rightarrow> instant \<Rightarrow> attempt \<Rightarrow> push_caches
     \<Rightarrow> (string + nat \<times> nat) option \<times> push_caches" where
  "push_result E db t0 t1 a caches =
     (let (r, caches') = call_provider E db t0 t1 a caches in
      case pe_late E of
        None \<Rightarrow> (r, caches')
      | Some kept \<Rightarrow> (Some (Inl ''send_timeout''), if kept then caches' else caches))"

subsection \<open>The worker\<close>

definition send_lapsed :: "instant \<Rightarrow> push_send \<Rightarrow> bool" where
  "send_lapsed now r \<longleftrightarrow> ps_status r = ''queued'' \<and> (case ps_until r of Some t \<Rightarrow> t < now | None \<Rightarrow> False)"

definition send_interrupted :: "push_send \<Rightarrow> push_send" where
  "send_interrupted r = bump_send (r\<lparr>ps_status := ''failed'', ps_outcome := Some ''uncertain'',
     ps_error := Some ''worker_interrupted'', ps_owner := None, ps_until := None\<rparr>)"

definition next_attempt :: "push_log list \<Rightarrow> uuid \<Rightarrow> nat" where
  "next_attempt logs i = Suc (fold max (map pl_attempt (filter (\<lambda>l. pl_send l = i) logs)) 0)"

definition interrupted_log :: "push_log list \<Rightarrow> uuid \<Rightarrow> push_log" where
  "interrupted_log logs i = \<lparr>pl_send = i, pl_attempt = next_attempt logs i, pl_outcome = ''uncertain'',
     pl_status = None, pl_duration = None\<rparr>"

text \<open>\<open>picked\<close>: the rows that the limits and the locks of others leave.\<close>
definition expire_sends :: "instant \<Rightarrow> (uuid \<Rightarrow> bool) \<Rightarrow> push_db \<Rightarrow> push_db" where
  "expire_sends now picked db =
     db\<lparr>pd_sends := map (\<lambda>(k, r). (k, if picked k \<and> send_lapsed now r then send_interrupted r else r)) (pd_sends db),
        pd_logs := pd_logs db @ map (interrupted_log (pd_logs db))
          (map fst (filter (\<lambda>(k, r). picked k \<and> send_lapsed now r) (pd_sends db)))\<rparr>"

definition send_cancelled :: "push_send \<Rightarrow> push_send" where
  "send_cancelled r = bump_send (r\<lparr>ps_status := ''failed'', ps_outcome := Some ''cancelled'',
     ps_error := Some ''instance_changed''\<rparr>)"

definition outdated :: "int \<Rightarrow> push_send \<Rightarrow> bool" where
  "outdated g r \<longleftrightarrow> ps_status r = ''queued'' \<and> ps_owner r = None \<and> ps_generation r \<noteq> g"

definition cancel_outdated :: "(uuid \<Rightarrow> bool) \<Rightarrow> push_db \<Rightarrow> push_db" where
  "cancel_outdated picked db = db\<lparr>pd_sends := map (\<lambda>(k, r).
     (k, if picked k \<and> outdated (pd_generation db) r then send_cancelled r else r)) (pd_sends db)\<rparr>"

definition due :: "instant \<Rightarrow> int \<Rightarrow> push_send \<Rightarrow> bool" where
  "due now g r \<longleftrightarrow> ps_status r = ''queued'' \<and> ps_next r \<le> now \<and> ps_owner r = None \<and> ps_generation r = g"

definition next_due :: "instant \<Rightarrow> (uuid \<Rightarrow> bool) \<Rightarrow> push_db \<Rightarrow> (uuid \<times> push_send) option" where
  "next_due now locked db =
     (case sort_key (\<lambda>(k, r). (ps_created r, k))
             (filter (\<lambda>(k, r). due now (pd_generation db) r \<and> \<not> locked k) (pd_sends db)) of
        [] \<Rightarrow> None | kr # _ \<Rightarrow> Some kr)"

definition active_credential :: "push_db \<Rightarrow> uuid \<Rightarrow> string \<Rightarrow> uuid option" where
  "active_credential db project kind = map_option fst
     (List.find (\<lambda>(_, c). pc_project c = project \<and> pc_kind c = kind \<and> pc_active c) (pd_credentials db))"

definition leased :: "push_db \<Rightarrow> uuid \<Rightarrow> instant \<Rightarrow> push_send \<Rightarrow> push_send" where
  "leased db lease now r = bump_send (r\<lparr>ps_owner := Some lease, ps_until := Some (now + secs 45),
     ps_credential := (case ps_credential r of Some c \<Rightarrow> Some c
       | None \<Rightarrow> active_credential db (ps_project r) (ps_provider r))\<rparr>)"

definition attempt_of :: "uuid \<Rightarrow> uuid \<Rightarrow> push_send \<Rightarrow> attempt" where
  "attempt_of lease i r = \<lparr>at_id = i, at_token = ps_token r, at_retries = ps_retries r, at_lease = lease,
     at_provider = ps_provider r\<rparr>"

definition claim_send ::
  "uuid \<Rightarrow> instant \<Rightarrow> (uuid \<Rightarrow> bool) \<Rightarrow> push_db \<Rightarrow> attempt option \<times> push_db" where
  "claim_send lease now locked db =
     (case next_due now locked db of
        None \<Rightarrow> (None, db)
      | Some (i, r) \<Rightarrow>
          (Some (attempt_of lease i r), db\<lparr>pd_sends := update_row i (leased db lease now) (pd_sends db)\<rparr>))"

definition holds_send :: "uuid \<Rightarrow> instant \<Rightarrow> push_send \<Rightarrow> bool" where
  "holds_send lease now r \<longleftrightarrow> ps_owner r = Some lease \<and> ps_status r = ''queued''
     \<and> (case ps_until r of Some t \<Rightarrow> now < t | None \<Rightarrow> False)"

definition owns_lease :: "attempt \<Rightarrow> instant \<Rightarrow> push_send \<Rightarrow> bool" where
  "owns_lease a now r \<longleftrightarrow> holds_send (at_lease a) now r"

text \<open>The check before the call.\<close>
definition allowed :: "push_db \<Rightarrow> instant \<Rightarrow> attempt \<Rightarrow> bool" where
  "allowed db now a =
     (case map_of (pd_sends db) (at_id a) of None \<Rightarrow> False | Some r \<Rightarrow>
     (case map_of (pd_devices db) (ps_token r) of None \<Rightarrow> False | Some d \<Rightarrow>
        ps_generation r = pd_generation db \<and> dv_project d = ps_project r \<and> dv_revoked d = None
        \<and> owns_lease a now r))"

definition finished :: "push_outcome \<Rightarrow> instant \<Rightarrow> push_send \<Rightarrow> push_send" where
  "finished oc now r = bump_send (r\<lparr>ps_status := po_status oc, ps_outcome := Some (po_code oc),
     ps_error := po_error oc, ps_retries := po_retries oc, ps_next := now + secs (po_backoff oc),
     ps_sent_at := (if po_status oc = ''sent'' then Some now else ps_sent_at r),
     ps_owner := None, ps_until := None\<rparr>)"

definition quarantined :: "instant \<Rightarrow> attempt \<Rightarrow> nat \<Rightarrow> device \<Rightarrow> device" where
  "quarantined now a http d = bump_device (d\<lparr>dv_revoked := Some now,
     dv_metadata := jset ''quarantine_reason'' (JStr (at_provider a @ '': HTTP '' @ show_nat http)) (dv_metadata d)\<rparr>)"

definition device_after :: "device_effect \<Rightarrow> instant \<Rightarrow> attempt \<Rightarrow> nat \<Rightarrow> device \<Rightarrow> device" where
  "device_after e now a http d =
     (case e of
        No_effect \<Rightarrow> d
      | Success \<Rightarrow> if 0 < dv_bad_streak d then bump_device (d\<lparr>dv_bad_streak := 0\<rparr>) else d
      | Transient \<Rightarrow> bump_device (d\<lparr>dv_bad_streak := min (dv_bad_streak d) 2147483646 + 1\<rparr>)
      | Permanent \<Rightarrow> quarantined now a http d)"

definition finish :: "instant \<Rightarrow> attempt \<Rightarrow> push_outcome \<Rightarrow> push_db \<Rightarrow> push_db" where
  "finish now a oc db =
     (case map_of (pd_sends db) (at_id a) of
        None \<Rightarrow> db
      | Some r \<Rightarrow>
          if \<not> owns_lease a now r then db
          else db\<lparr>pd_sends := update_row (at_id a) (finished oc now) (pd_sends db),
                 pd_logs := pd_logs db @ [\<lparr>pl_send = at_id a, pl_attempt = next_attempt (pd_logs db) (at_id a),
                   pl_outcome = po_code oc, pl_status = Some (po_http oc), pl_duration = Some (po_duration oc)\<rparr>],
                 pd_devices := update_row (at_token a) (device_after (po_device oc) now a (po_http oc)) (pd_devices db)\<rparr>)"

text \<open>One send with the table to itself; the first component is false when the task panicked.\<close>
definition dispatch_one ::
  "'u push_env \<Rightarrow> instant \<Rightarrow> instant \<Rightarrow> attempt \<Rightarrow> push_caches \<Rightarrow> push_db \<Rightarrow> bool \<times> push_caches \<times> push_db" where
  "dispatch_one E t0 t1 a caches db =
     (if allowed db t0 a then
        (case push_result E db t0 t1 a caches of
           (None, caches) \<Rightarrow> (False, caches, db)
         | (Some r, caches) \<Rightarrow> (True, caches, finish t1 a (outcome_for a r) db))
      else (True, caches, finish t1 a (target_unavailable a) db))"

text \<open>
  One pass: the sends claimed and sent in turn, \<open>E k\<close> and \<open>clock k\<close> being the world and the two
  instants that the k-th meets; the number sent, or \<open>None\<close> when the task panicked.
\<close>
fun drain_batch ::
  "(nat \<Rightarrow> 'u push_env) \<Rightarrow> (nat \<Rightarrow> uuid) \<Rightarrow> (nat \<Rightarrow> instant \<times> instant) \<Rightarrow> (uuid \<Rightarrow> bool) \<Rightarrow> nat \<Rightarrow> nat
     \<Rightarrow> push_caches \<Rightarrow> push_db \<Rightarrow> nat option \<times> push_caches \<times> push_db" where
  "drain_batch E lease clock locked 0 count caches db = (Some count, caches, db)"
| "drain_batch E lease clock locked (Suc n) count caches db =
     (case claim_send (lease count) (fst (clock count)) locked db of
        (None, db) \<Rightarrow> (Some count, caches, db)
      | (Some a, db) \<Rightarrow>
          (case dispatch_one (E count) (fst (clock count)) (snd (clock count)) a caches db of
             (False, caches, db) \<Rightarrow> (None, caches, db)
           | (True, caches, db) \<Rightarrow> drain_batch E lease clock locked n (Suc count) caches db))"

definition drain_once ::
  "(nat \<Rightarrow> 'u push_env) \<Rightarrow> (nat \<Rightarrow> uuid) \<Rightarrow> (nat \<Rightarrow> instant \<times> instant) \<Rightarrow> (uuid \<Rightarrow> bool) \<Rightarrow> (uuid \<Rightarrow> bool) \<Rightarrow> nat
     \<Rightarrow> push_caches \<Rightarrow> push_db \<Rightarrow> nat option \<times> push_caches \<times> push_db" where
  "drain_once E lease clock picked locked batch caches db =
     drain_batch E lease clock locked batch 0 caches
       (cancel_outdated picked (expire_sends (fst (clock 0)) picked db))"

text \<open>The worker's settings from the environment.\<close>
definition push_enabled :: "string option \<Rightarrow> bool" where
  "push_enabled var = (case var of None \<Rightarrow> True | Some s \<Rightarrow> to_ascii_lowercase s \<in> {''1'', ''true''})"

definition push_interval :: "string option \<Rightarrow> duration" where
  "push_interval var = secs (unwrap_or 5 (Option.bind var (parse_unsigned 18446744073709551615)))"

definition push_batch :: "string option \<Rightarrow> nat" where
  "push_batch var = unwrap_or 100 (Option.bind var (parse_unsigned 18446744073709551615))"

subsection \<open>The lease\<close>

interpretation send_lease: leased_rows "\<lambda>now. due now g" "leased db" holds_send finished "secs 45" for g db
  by unfold_locales
    (auto simp: due_def leased_def bump_send_def holds_send_def finished_def secs_def split: option.splits)

text \<open>A worker that comes back after another took the send over, or after its lease, stores nothing.\<close>
lemma finish_stale:
  assumes "map_of (pd_sends db) (at_id a) = Some (leased d t now r)" and "due now g r"
    and "at_lease a \<noteq> t \<or> now + secs 45 \<le> n"
  shows "finish n a oc db = db"
proof -
  have "\<not> holds_send (at_lease a) n (leased d t now r)"
  proof (cases "at_lease a = t")
    case True
    with assms(3) send_lease.grab_held [OF assms(2)] show ?thesis by simp
  next
    case False
    from send_lease.held_by_other [OF assms(2) False] show ?thesis by (simp add: secs_def)
  qed
  with assms(1) show ?thesis by (simp add: finish_def owns_lease_def)
qed

end
