(* ===== verification/PushCommands.thy ===== *)
theory PushCommands
  imports PushWorker AuditLog
begin

text \<open>
  The console's push commands, \<^verbatim>\<open>self-hosted/server/src/handlers/admin/push_commands.rs\<close>, and
  the checks a pasted credential passes, \<^verbatim>\<open>push_credential_check.rs\<close>.  A command runs in one
  transaction under the project's lock: it is authorised, answered from its receipt when it was
  already carried out, and otherwise changes the tables, the audit log and the receipts together
  or not at all.
\<close>

type_synonym http_error = "nat \<times> json"

definition http_error :: "nat \<Rightarrow> string \<Rightarrow> http_error" where
  "http_error st c = (st, JObj [(''error'', JStr c)])"

subsection \<open>Checking a credential\<close>

record rejection =
  rj_code :: string
  rj_field :: "string option"
  rj_detail :: string

definition rejected_about :: "string \<Rightarrow> string \<Rightarrow> string \<Rightarrow> rejection" where
  "rejected_about c f d = \<lparr>rj_code = c, rj_field = Some f, rj_detail = d\<rparr>"

definition rejected_as :: "string \<Rightarrow> string \<Rightarrow> rejection" where
  "rejected_as c d = \<lparr>rj_code = c, rj_field = None, rj_detail = d\<rparr>"

definition required :: "json \<Rightarrow> string \<Rightarrow> string option" where
  "required config k = (case str_at k config of None \<Rightarrow> None | Some s \<Rightarrow> if trim s \<noteq> [] then Some s else None)"

definition looks_like_pem :: "string \<Rightarrow> string + unit" where
  "looks_like_pem secret =
     (let trimmed = trim secret in
      if \<not> starts_with trimmed ''-----BEGIN'' then Inl ''pem-no-header''
      else if \<not> str_contains trimmed ''-----END'' then Inl ''pem-no-footer''
      else case str_lines [] trimmed of
        _ # l # _ \<Rightarrow> if trim l = [] then Inl ''pem-one-line'' else Inr ()
      | _ \<Rightarrow> Inl ''pem-one-line'')"

definition check_pem :: "string \<Rightarrow> rejection + unit" where
  "check_pem secret = map_err (\<lambda>c. rejected_about c ''secret'' ''the pasted key is not a PEM'') (looks_like_pem secret)"

text \<open>The configuration as it is stored, with what was understood merged in.\<close>
definition check_credential :: "vendors \<Rightarrow> string \<Rightarrow> json \<Rightarrow> string \<Rightarrow> rejection + json" where
  "check_credential V provider config secret =
     (if provider = ''fcm'' then
        bind_res (map_err (\<lambda>e. rejected_as ''fcm-bad-json'' (fcm_text e)) (fcm_project_id V secret)) (\<lambda>project.
          Inr (jset ''fcmProjectId'' (JStr project) config))
      else if provider = ''apns'' then
        (case List.find (\<lambda>k. required config k = None) [''keyId'', ''teamId'', ''topic''] of
           Some k \<Rightarrow> Inl (rejected_about ''field-missing'' k (k @ '' is missing''))
         | None \<Rightarrow>
             bind_res (check_pem secret) (\<lambda>_.
             bind_res (map_err (\<lambda>e. rejected_about ''key-does-not-sign'' ''secret'' (apns_text e))
               (apns_mint_jwt V \<lparr>ap_team_id = unwrap_or [] (required config ''teamId''),
                  ap_key_id = unwrap_or [] (required config ''keyId''),
                  ap_topic = unwrap_or [] (required config ''topic''),
                  ap_private_pem = secret, ap_production = True\<rparr>)) (\<lambda>_. Inr config)))
      else if provider = ''webpush'' then
        (if required config ''vapidPublicKey'' = None
         then Inl (rejected_about ''field-missing'' ''vapidPublicKey'' ''vapidPublicKey is missing'')
         else bind_res (check_pem secret) (\<lambda>_. Inr config))
      else Inr config)"

subsection \<open>Commands\<close>

datatype action =
    CreateCredential string json string string
  | ActivateCredential uuid "int option" bool
  | DeleteCredential uuid "int option"
  | TestSend uuid string string
  | RetrySend uuid "int option" bool
  | RetryFailed "uuid list"
  | RevokeDevice uuid "int option"

record command =
  cm_id :: string
  cm_action :: action

record console =
  cs_db :: push_db
  cs_projects :: "uuid list"
  cs_assigned :: "(uuid \<times> uuid) list"                       \<comment> \<open>user, project\<close>
  cs_receipts :: "((uuid \<times> uuid \<times> string) \<times> string \<times> json) list"
  cs_audit :: "audit_row list"

record session =
  se_user :: uuid
  se_superadmin :: bool

text \<open>What a command uses beside the tables: the clock, fresh identifiers and the crates.\<close>
record command_env =
  ce_now :: instant
  ce_fresh :: uuid
  ce_vendors :: vendors
  ce_api :: api
  ce_aead :: aead
  ce_rng :: rng
  ce_vault :: "vault option"
  ce_digest :: "action \<Rightarrow> string"

definition ensure_project_access :: "console \<Rightarrow> session \<Rightarrow> uuid \<Rightarrow> http_error + unit" where
  "ensure_project_access S ctx project =
     (if se_superadmin ctx \<or> (se_user ctx, project) \<in> set (cs_assigned S) then Inr ()
      else Inl (http_error 403 ''project_access_denied''))"

definition lock_project :: "console \<Rightarrow> uuid \<Rightarrow> http_error + unit" where
  "lock_project S project = (if project \<in> set (cs_projects S) then Inr ()
     else Inl (http_error 404 ''project_not_found''))"

definition prior_receipt :: "console \<Rightarrow> uuid \<Rightarrow> uuid \<Rightarrow> string \<Rightarrow> string \<Rightarrow> http_error + json option" where
  "prior_receipt S project actor key digest =
     (if key = [] \<or> 128 < length key \<or> \<not> list_all is_ascii_graphic key
      then Inl (http_error 400 ''invalid_command_id'')
      else case map_of (cs_receipts S) (project, actor, key) of
        None \<Rightarrow> Inr None
      | Some (d, response) \<Rightarrow>
          if d = digest then Inr (Some response) else Inl (http_error 409 ''idempotency_conflict''))"

definition validate_message :: "api \<Rightarrow> string \<Rightarrow> string \<Rightarrow> http_error + unit" where
  "validate_message X title body =
     (if trim title = [] \<or> 120 < char_count title
         \<or> (case ob_json_to_vec X (JObj [(''title'', JStr title), (''body'', JStr body)]) of
              None \<Rightarrow> True | Some v \<Rightarrow> 3500 < length v)
      then Inl (http_error 400 ''invalid_push_message'') else Inr ())"

definition config_keys :: "string \<Rightarrow> string list" where
  "config_keys provider =
     (if provider = ''apns'' then [''keyId'', ''teamId'', ''topic'', ''production'']
      else if provider = ''fcm'' then [''fcmProjectId'']
      else if provider = ''webpush'' then [''subject'', ''vapidPublicKey'']
      else if provider = ''hcm'' then [''clientId'', ''appId'']
      else if provider = ''mipush'' then [''packageName'']
      else [])"

definition check_version :: "nat \<Rightarrow> int option \<Rightarrow> http_error + unit" where
  "check_version actual expected =
     (case expected of None \<Rightarrow> Inr ()
      | Some e \<Rightarrow> if e \<noteq> int actual then Inl (http_error 409 ''push_changed'') else Inr ())"

type_synonym done_command = "json \<times> string \<times> uuid"

definition json_id :: "command_env \<Rightarrow> uuid \<Rightarrow> json" where
  "json_id E i = JStr (ob_uuid_text (ce_api E) i)"

definition create_credential ::
  "command_env \<Rightarrow> uuid \<Rightarrow> string \<Rightarrow> json \<Rightarrow> string \<Rightarrow> string \<Rightarrow> push_db \<Rightarrow> http_error + done_command \<times> push_db" where
  "create_credential E project provider config secret label db =
     (let ks = config_keys provider in
      if ks = [] \<or> as_object config = None \<or> secret = [] \<or> 65536 < length secret \<or> 100 < char_count label
         \<or> (case ob_json_to_vec (ce_api E) config of None \<Rightarrow> True | Some v \<Rightarrow> 8192 < length v)
      then Inl (http_error 400 ''invalid_credential'')
      else
        bind_res (map_err (\<lambda>r. (400, JObj [(''error'', JStr ''invalid_credential''), (''code'', JStr (rj_code r)),
             (''field'', case rj_field r of None \<Rightarrow> JNull | Some f \<Rightarrow> JStr f), (''detail'', JStr (rj_detail r))]))
          (check_credential (ce_vendors E) provider config secret)) (\<lambda>config.
        if (case as_object config of None \<Rightarrow> False | Some v \<Rightarrow> \<exists>k \<in> fst ` set v. k \<notin> set ks)
        then Inl (http_error 400 ''invalid_credential'')
        else if 32 \<le> length (filter (\<lambda>(_, c). pc_project c = project) (pd_credentials db))
        then Inl (http_error 409 ''credential_limit'')
        else case ce_vault E of
          None \<Rightarrow> Inl (http_error 503 ''vault_unconfigured'')
        | Some v \<Rightarrow>
            bind_res (map_err (http_error 500)
              (push_seal (ce_api E) (ce_aead E) (ce_rng E) v project (ce_fresh E) provider secret)) (\<lambda>blob.
              Inr ((JObj [(''id'', json_id E (ce_fresh E)), (''active'', JBool False), (''version'', JInt 1)],
                    ''push_credentials.create'', ce_fresh E),
                   db\<lparr>pd_credentials := pd_credentials db @ [(ce_fresh E,
                     \<lparr>pc_project = project, pc_kind = provider, pc_config = config, pc_blob = blob,
                      pc_format = ''sealed'', pc_active = False, pc_label = trim label,
                      pc_verdict = None, pc_version = 1\<rparr>)]\<rparr>))))"

definition find_credential :: "push_db \<Rightarrow> uuid \<Rightarrow> uuid \<Rightarrow> http_error + credential" where
  "find_credential db project i =
     (case map_of (pd_credentials db) i of
        Some c \<Rightarrow> if pc_project c = project then Inr c else Inl (http_error 404 ''credential_not_found'')
      | None \<Rightarrow> Inl (http_error 404 ''credential_not_found''))"

definition deactivate_others :: "uuid \<Rightarrow> string \<Rightarrow> uuid \<Rightarrow> (uuid \<times> credential) list \<Rightarrow> (uuid \<times> credential) list" where
  "deactivate_others project kind i cs = map (\<lambda>(k, c). (k,
     if pc_project c = project \<and> pc_kind c = kind \<and> pc_active c \<and> k \<noteq> i
     then bump_credential (c\<lparr>pc_active := False\<rparr>) else c)) cs"

definition activate_credential ::
  "command_env \<Rightarrow> uuid \<Rightarrow> uuid \<Rightarrow> int option \<Rightarrow> bool \<Rightarrow> push_db \<Rightarrow> http_error + done_command \<times> push_db" where
  "activate_credential E project i expected force db =
     bind_res (find_credential db project i) (\<lambda>c.
     bind_res (check_version (pc_version c) expected) (\<lambda>_.
       if pc_verdict c \<noteq> Some ''ok'' \<and> \<not> force then Inl (http_error 409 ''credential_unverified'')
       else Inr ((JObj [(''id'', json_id E i), (''ok'', JBool True), (''forced'', JBool force),
                   (''verdict'', case pc_verdict c of None \<Rightarrow> JNull | Some v \<Rightarrow> JStr v)],
                  ''push_credentials.activate'', i),
                 db\<lparr>pd_credentials := update_row i (\<lambda>c. bump_credential (c\<lparr>pc_active := True\<rparr>))
                   (deactivate_others project (pc_kind c) i (pd_credentials db))\<rparr>)))"

definition delete_credential ::
  "command_env \<Rightarrow> uuid \<Rightarrow> uuid \<Rightarrow> int option \<Rightarrow> push_db \<Rightarrow> http_error + done_command \<times> push_db" where
  "delete_credential E project i expected db =
     bind_res (find_credential db project i) (\<lambda>c.
     bind_res (check_version (pc_version c) expected) (\<lambda>_.
       Inr ((JObj [(''id'', json_id E i), (''ok'', JBool True)], ''push_credentials.delete'', i),
            db\<lparr>pd_credentials := filter (\<lambda>(k, _). k \<noteq> i) (pd_credentials db)\<rparr>)))"

definition queued_send :: "push_db \<Rightarrow> instant \<Rightarrow> uuid \<Rightarrow> uuid \<Rightarrow> string \<Rightarrow> json \<Rightarrow> string option \<Rightarrow> uuid option \<Rightarrow> push_send" where
  "queued_send db now project device provider payload key cred =
     \<lparr>ps_project = project, ps_token = device, ps_provider = provider, ps_payload = payload,
      ps_status = ''queued'', ps_outcome = None, ps_error = None, ps_retries = 0, ps_key = key,
      ps_next = now, ps_created = now, ps_sent_at = None, ps_credential = cred, ps_version = 1,
      ps_generation = pd_generation db, ps_owner = None, ps_until = None\<rparr>"

definition test_send ::
  "command_env \<Rightarrow> uuid \<Rightarrow> uuid \<Rightarrow> string \<Rightarrow> string \<Rightarrow> push_db \<Rightarrow> http_error + done_command \<times> push_db" where
  "test_send E project device title body db =
     bind_res (validate_message (ce_api E) title body) (\<lambda>_.
     case map_of (pd_devices db) device of
       Some d \<Rightarrow>
         if dv_project d = project \<and> dv_revoked d = None then
           Inr ((JObj [(''sendId'', json_id E (ce_fresh E)), (''send_id'', json_id E (ce_fresh E)),
                   (''status'', JStr ''queued'')], ''push.test'', ce_fresh E),
                db\<lparr>pd_sends := pd_sends db @ [(ce_fresh E, queued_send db (ce_now E) project device (dv_provider d)
                  (JObj [(''title'', JStr title), (''body'', JStr body)]) None
                  (active_credential db project (dv_provider d)))]\<rparr>)
         else Inl (http_error 404 ''device_token_not_found_or_revoked'')
     | None \<Rightarrow> Inl (http_error 404 ''device_token_not_found_or_revoked''))"

definition requeued :: "instant \<Rightarrow> push_send \<Rightarrow> push_send" where
  "requeued now r = bump_send (r\<lparr>ps_status := ''queued'', ps_next := now, ps_retries := 0, ps_error := None,
     ps_outcome := None, ps_owner := None, ps_until := None, ps_credential := None\<rparr>)"

definition requeue :: "instant \<Rightarrow> uuid \<Rightarrow> uuid list \<Rightarrow> push_db \<Rightarrow> push_db" where
  "requeue now project ids db = db\<lparr>pd_sends := map (\<lambda>(k, r).
     (k, if ps_project r = project \<and> k \<in> set ids then requeued now r else r)) (pd_sends db)\<rparr>"

definition retry_send ::
  "command_env \<Rightarrow> uuid \<Rightarrow> uuid \<Rightarrow> int option \<Rightarrow> bool \<Rightarrow> push_db \<Rightarrow> http_error + done_command \<times> push_db" where
  "retry_send E project i expected acknowledge db =
     (case map_of (pd_sends db) i of
        None \<Rightarrow> Inl (http_error 404 ''send_not_found'')
      | Some r \<Rightarrow>
          if ps_project r \<noteq> project then Inl (http_error 404 ''send_not_found'')
          else bind_res (check_version (ps_version r) expected) (\<lambda>_.
            if ps_status r \<noteq> ''failed'' then Inl (http_error 409 ''not_failed'')
            else if ps_outcome r = Some ''uncertain'' \<and> \<not> acknowledge
            then Inl (http_error 409 ''duplicate_confirmation_required'')
            else if pd_generation db \<noteq> ps_generation r then Inl (http_error 409 ''instance_changed'')
            else Inr ((JObj [(''id'', json_id E i), (''status'', JStr ''queued'')], ''push.retry'', i),
                      requeue (ce_now E) project [i] db)))"

definition retryable_send :: "push_db \<Rightarrow> uuid \<Rightarrow> push_send \<Rightarrow> bool" where
  "retryable_send db project r \<longleftrightarrow> ps_generation r = pd_generation db \<and> ps_project r = project
     \<and> ps_status r = ''failed'' \<and> ps_outcome r \<noteq> Some ''uncertain''"

definition retry_failed ::
  "command_env \<Rightarrow> uuid \<Rightarrow> uuid list \<Rightarrow> push_db \<Rightarrow> http_error + done_command \<times> push_db" where
  "retry_failed E project ids db =
     (if ids = [] \<or> 1000 < length ids then Inl (http_error 400 ''invalid_retry_selection'')
      else
        let ids = remdups (sort ids);
            rows = sort (map fst (filter (\<lambda>(k, r). retryable_send db project r \<and> k \<in> set ids) (pd_sends db)))
        in if rows \<noteq> ids then Inl (http_error 409 ''push_changed'')
           else Inr ((JObj [(''requeued'', JInt (int (length ids)))], ''push.retry_selected'', project),
                     requeue (ce_now E) project ids db))"

definition revoke_device ::
  "command_env \<Rightarrow> uuid \<Rightarrow> uuid \<Rightarrow> int option \<Rightarrow> push_db \<Rightarrow> http_error + done_command \<times> push_db" where
  "revoke_device E project i expected db =
     (case map_of (pd_devices db) i of
        None \<Rightarrow> Inl (http_error 404 ''device_not_found'')
      | Some d \<Rightarrow>
          if dv_project d \<noteq> project then Inl (http_error 404 ''device_not_found'')
          else bind_res (check_version (dv_version d) expected) (\<lambda>_.
            Inr ((JObj [(''id'', json_id E i), (''status'', JStr ''revoked'')], ''push.device_revoke'', i),
                 db\<lparr>pd_devices := update_row i (\<lambda>d. bump_device (d\<lparr>dv_revoked :=
                   (case dv_revoked d of Some t \<Rightarrow> Some t | None \<Rightarrow> Some (ce_now E))\<rparr>)) (pd_devices db)\<rparr>)))"

definition run_action :: "command_env \<Rightarrow> uuid \<Rightarrow> action \<Rightarrow> push_db \<Rightarrow> http_error + done_command \<times> push_db" where
  "run_action E project a db =
     (case a of
        CreateCredential provider config secret label \<Rightarrow> create_credential E project provider config secret label db
      | ActivateCredential i expected force \<Rightarrow> activate_credential E project i expected force db
      | DeleteCredential i expected \<Rightarrow> delete_credential E project i expected db
      | TestSend device title body \<Rightarrow> test_send E project device title body db
      | RetrySend i expected acknowledge \<Rightarrow> retry_send E project i expected acknowledge db
      | RetryFailed ids \<Rightarrow> retry_failed E project ids db
      | RevokeDevice i expected \<Rightarrow> revoke_device E project i expected db)"

text \<open>Who may run it, and whether it already ran.\<close>
definition command_gate ::
  "command_env \<Rightarrow> session \<Rightarrow> uuid \<Rightarrow> command \<Rightarrow> console \<Rightarrow> http_error + json option" where
  "command_gate E ctx project cmd S =
     bind_res (ensure_project_access S ctx project) (\<lambda>_.
     bind_res (lock_project S project) (\<lambda>_.
       prior_receipt S project (se_user ctx) (cm_id cmd) (ce_digest E (cm_action cmd))))"

text \<open>A refused command leaves everything as it was.\<close>
definition execute_command ::
  "command_env \<Rightarrow> session \<Rightarrow> uuid \<Rightarrow> command \<Rightarrow> console \<Rightarrow> (http_error + json) \<times> console" where
  "execute_command E ctx project cmd S =
     (let hash = ce_digest E (cm_action cmd); key = (project, se_user ctx, cm_id cmd) in
      case command_gate E ctx project cmd S of
        Inl e \<Rightarrow> (Inl e, S)
      | Inr (Some response) \<Rightarrow> (Inr response, S)
      | Inr None \<Rightarrow>
          (case run_action E project (cm_action cmd) (cs_db S) of
             Inl e \<Rightarrow> (Inl e, S)
           | Inr ((response, audit, target), db) \<Rightarrow>
               (Inr response, S\<lparr>cs_db := db,
                  cs_audit := cs_audit S @ [\<lparr>au_project = Some project, au_actor = Some (se_user ctx), au_action = audit,
                    au_target_type = ''push'', au_target = ob_uuid_text (ce_api E) target, au_payload = response\<rparr>],
                  cs_receipts := cs_receipts S @ [(key, hash, response)]\<rparr>)))"

text \<open>Every failed send of the project at once, as one command under a fresh identifier.\<close>
definition retry_all_failed ::
  "command_env \<Rightarrow> session \<Rightarrow> uuid \<Rightarrow> string \<Rightarrow> console \<Rightarrow> (http_error + json) \<times> console" where
  "retry_all_failed E ctx project command_id S =
     (case ensure_project_access S ctx project of
        Inl e \<Rightarrow> (Inl e, S)
      | Inr _ \<Rightarrow>
          let ids = take 1001 (sort (map fst (filter (\<lambda>(_, r). retryable_send (cs_db S) project r)
                (pd_sends (cs_db S)))))
          in if ids = [] then (Inr (JObj [(''requeued'', JInt 0)]), S)
             else execute_command E ctx project \<lparr>cm_id = command_id, cm_action = RetryFailed ids\<rparr> S)"

end
