(* ===== verification/PushSafety.thy ===== *)
theory PushSafety
  imports PushCommands
begin

text \<open>
  Any number of push workers over the shared tables, with operators carrying out commands, time
  passing, workers dying and devices, credentials and the instance's generation changing between
  any two steps.  A worker's call is recorded with how often its send had been queued again, and
  how often that was done acknowledging a possible duplicate.
\<close>

subsection \<open>The transition system\<close>

record push_call =
  qc_id :: uuid
  qc_lease :: uuid
  qc_retries :: nat
  qc_maybe :: bool          \<comment> \<open>the message may have reached the device\<close>
  qc_requeues :: nat
  qc_acks :: nat

record push_world =
  px_now :: instant
  px_db :: push_db
  px_working :: "attempt list"
  px_done :: "(attempt \<times> push_outcome) list"
  px_used :: "uuid list"                        \<comment> \<open>lease owners handed out\<close>
  px_calls :: "push_call list"                  \<comment> \<open>newest first\<close>
  px_requeues :: "uuid \<Rightarrow> nat"
  px_acks :: "uuid \<Rightarrow> nat"

definition may_have_reached :: "string + nat \<times> nat \<Rightarrow> bool" where
  "may_have_reached result = (case result of Inr _ \<Rightarrow> True | Inl reason \<Rightarrow> uncertain_reason reason)"

definition retried :: "action \<Rightarrow> uuid set" where
  "retried act = (case act of RetrySend i _ _ \<Rightarrow> {i} | RetryFailed ids \<Rightarrow> set ids | _ \<Rightarrow> {})"

definition acknowledged :: "action \<Rightarrow> uuid set" where
  "acknowledged act = (case act of RetrySend i _ ack \<Rightarrow> if ack then {i} else {} | _ \<Rightarrow> {})"

definition call_of :: "push_world \<Rightarrow> attempt \<Rightarrow> bool \<Rightarrow> push_call" where
  "call_of w a m = \<lparr>qc_id = at_id a, qc_lease = at_lease a, qc_retries = at_retries a, qc_maybe = m,
     qc_requeues = px_requeues w (at_id a), qc_acks = px_acks w (at_id a)\<rparr>"

definition count_up :: "uuid set \<Rightarrow> (uuid \<Rightarrow> nat) \<Rightarrow> uuid \<Rightarrow> nat" where
  "count_up ids n i = (if i \<in> ids then Suc (n i) else n i)"

inductive push_step :: "push_world \<Rightarrow> push_world \<Rightarrow> bool" where
  tick: "px_now w \<le> t \<Longrightarrow> push_step w (w\<lparr>px_now := t\<rparr>)"
| change: "pd_sends db = pd_sends (px_db w) \<Longrightarrow> push_step w (w\<lparr>px_db := db\<rparr>)"
| submit: "map_of (pd_sends (px_db w)) i = None \<Longrightarrow> r = queued_send (px_db w) (px_now w) project dev provider payload key cred
    \<Longrightarrow> push_step w (w\<lparr>px_db := (px_db w)\<lparr>pd_sends := pd_sends (px_db w) @ [(i, r)]\<rparr>\<rparr>)"
| expire: "push_step w (w\<lparr>px_db := expire_sends (px_now w) picked (px_db w)\<rparr>)"
| cancel: "push_step w (w\<lparr>px_db := cancel_outdated picked (px_db w)\<rparr>)"
| take_lease: "lease \<notin> set (px_used w) \<Longrightarrow> claim_send lease (px_now w) locked (px_db w) = (Some a, db)
    \<Longrightarrow> push_step w (w\<lparr>px_db := db, px_used := lease # px_used w, px_working := a # px_working w\<rparr>)"
| refuse: "a \<in> set (px_working w) \<Longrightarrow> \<not> allowed (px_db w) (px_now w) a
    \<Longrightarrow> push_step w (w\<lparr>px_working := remove1 a (px_working w), px_done := (a, target_unavailable a) # px_done w\<rparr>)"
| call_out: "a \<in> set (px_working w) \<Longrightarrow> allowed (px_db w) (px_now w) a
    \<Longrightarrow> push_step w (w\<lparr>px_working := remove1 a (px_working w), px_calls := call_of w a (may_have_reached result) # px_calls w,
          px_done := (a, outcome_for a result) # px_done w\<rparr>)"
| die: "push_step w (w\<lparr>px_working := remove1 a (px_working w), px_done := remove1 d (px_done w)\<rparr>)"
| store: "(a, oc) \<in> set (px_done w)
    \<Longrightarrow> push_step w (w\<lparr>px_db := finish (px_now w) a oc (px_db w), px_done := remove1 (a, oc) (px_done w)\<rparr>)"
| operate: "run_action E project act (px_db w) = Inr (out, db) \<Longrightarrow> map_of (pd_sends (px_db w)) (ce_fresh E) = None
    \<Longrightarrow> push_step w (w\<lparr>px_db := db, px_requeues := count_up (retried act) (px_requeues w),
          px_acks := count_up (acknowledged act) (px_acks w)\<rparr>)"

inductive_cases push_stepE: "push_step w w'"

subsection \<open>The invariant\<close>

definition send_ok :: "push_send \<Rightarrow> bool" where
  "send_ok r \<longleftrightarrow> ps_retries r \<le> MAX_RETRIES \<and> ps_status r \<in> {''queued'', ''sent'', ''failed''}
     \<and> (ps_owner r \<noteq> None \<longrightarrow> ps_status r = ''queued'')"

definition shielded :: "push_send \<Rightarrow> uuid \<Rightarrow> bool" where
  "shielded r lease \<longleftrightarrow> ps_status r = ''sent'' \<or> ps_status r = ''failed'' \<and> ps_outcome r = Some ''uncertain''
     \<or> ps_owner r = Some lease"

definition call_ok :: "push_send \<Rightarrow> nat \<Rightarrow> nat \<Rightarrow> push_call \<Rightarrow> bool" where
  "call_ok r requeues acks c \<longleftrightarrow> qc_requeues c \<le> requeues \<and> qc_acks c \<le> acks \<and> qc_retries c \<le> MAX_RETRIES
     \<and> (qc_requeues c = requeues \<longrightarrow> qc_retries c < ps_retries r \<or> qc_retries c = ps_retries r
          \<and> (ps_status r \<noteq> ''queued'' \<or> ps_owner r = Some (qc_lease c)))
     \<and> (qc_maybe c \<longrightarrow> qc_acks c = acks \<longrightarrow> shielded r (qc_lease c))"

definition holds :: "push_send \<Rightarrow> attempt \<Rightarrow> bool" where
  "holds r a \<longleftrightarrow> (ps_owner r = Some (at_lease a) \<longrightarrow> ps_retries r = at_retries a)"

definition stored_ok :: "push_call list \<Rightarrow> attempt \<Rightarrow> push_outcome \<Rightarrow> bool" where
  "stored_ok calls a oc \<longleftrightarrow> po_retries oc \<le> MAX_RETRIES \<and> po_status oc \<in> {''queued'', ''sent'', ''failed''}
     \<and> po_retries oc = (if po_status oc = ''queued'' then Suc (at_retries a) else at_retries a)
     \<and> (\<forall>c \<in> set calls. qc_lease c = at_lease a \<longrightarrow> qc_maybe c \<longrightarrow>
          po_status oc = ''sent'' \<or> po_status oc = ''failed'' \<and> po_code oc = ''uncertain'')"

definition later :: "push_call \<Rightarrow> push_call \<Rightarrow> bool" where
  "later new old \<longleftrightarrow> (qc_id new = qc_id old \<longrightarrow>
     (qc_requeues old < qc_requeues new \<or> qc_requeues old = qc_requeues new \<and> qc_retries old < qc_retries new)
     \<and> (qc_maybe old \<longrightarrow> qc_acks old < qc_acks new))"

definition sends :: "push_world \<Rightarrow> uuid \<Rightarrow> push_send option" where
  "sends w = map_of (pd_sends (px_db w))"

definition leases :: "push_world \<Rightarrow> uuid list" where
  "leases w = map at_lease (px_working w) @ map (at_lease \<circ> fst) (px_done w)"

definition table_inv :: "push_world \<Rightarrow> bool" where
  "table_inv w \<longleftrightarrow> distinct (map fst (pd_sends (px_db w)))
     \<and> (\<forall>i r. sends w i = Some r \<longrightarrow> send_ok r \<and> set_option (ps_owner r) \<subseteq> set (px_used w))"

definition lease_inv :: "push_world \<Rightarrow> bool" where
  "lease_inv w \<longleftrightarrow> distinct (leases w) \<and> set (leases w) \<subseteq> set (px_used w) \<and> qc_lease ` set (px_calls w) \<subseteq> set (px_used w)"

definition pending_inv :: "push_world \<Rightarrow> bool" where
  "pending_inv w \<longleftrightarrow> (\<forall>a \<in> set (px_working w). at_retries a \<le> MAX_RETRIES \<and> at_lease a \<notin> qc_lease ` set (px_calls w)
        \<and> (\<exists>r. sends w (at_id a) = Some r \<and> holds r a))
     \<and> (\<forall>(a, oc) \<in> set (px_done w). stored_ok (px_calls w) a oc \<and> (\<exists>r. sends w (at_id a) = Some r \<and> holds r a))"

definition calls_inv :: "push_world \<Rightarrow> bool" where
  "calls_inv w \<longleftrightarrow> (\<forall>c \<in> set (px_calls w). \<exists>r. sends w (qc_id c) = Some r
       \<and> call_ok r (px_requeues w (qc_id c)) (px_acks w (qc_id c)) c)
     \<and> sorted_wrt later (px_calls w)"

definition push_inv :: "push_world \<Rightarrow> bool" where
  "push_inv w \<longleftrightarrow> table_inv w \<and> lease_inv w \<and> pending_inv w \<and> calls_inv w"

lemmas push_inv_defs = push_inv_def table_inv_def lease_inv_def pending_inv_def calls_inv_def

text \<open>A row may change while the calls made for it keep what is known of them.\<close>
definition moves :: "uuid list \<Rightarrow> push_call list \<Rightarrow> nat \<times> nat \<Rightarrow> nat \<times> nat \<Rightarrow> push_send \<Rightarrow> push_send \<Rightarrow> bool" where
  "moves used calls = (\<lambda>(q, k) (q', k') r r'. send_ok r'
     \<and> (ps_owner r' = None \<or> ps_owner r' = ps_owner r \<and> ps_retries r' = ps_retries r
        \<or> (\<exists>t. ps_owner r' = Some t \<and> t \<notin> set used))
     \<and> (\<forall>c \<in> set calls. call_ok r q k c \<longrightarrow> call_ok r' q' k' c))"

lemma moves_refl [simp]: "send_ok r \<Longrightarrow> moves used calls n n r r"
  by (simp add: moves_def split: prod.splits)

lemma push_inv_evolve:
  assumes inv: "push_inv w"
    and keys: "distinct (map fst (pd_sends db))"
    and old: "\<And>i r. sends w i = Some r \<Longrightarrow> \<exists>r'. map_of (pd_sends db) i = Some r'
      \<and> moves (px_used w) (filter (\<lambda>c. qc_id c = i) (px_calls w)) (px_requeues w i, px_acks w i) (q i, k i) r r'
      \<and> set_option (ps_owner r') \<subseteq> set used"
    and new: "\<And>i r. map_of (pd_sends db) i = Some r \<Longrightarrow> sends w i = None \<Longrightarrow> send_ok r \<and> ps_owner r = None"
    and used: "set (px_used w) \<subseteq> set used"
  shows "push_inv (w\<lparr>px_db := db, px_used := used, px_requeues := q, px_acks := k\<rparr>)"
proof -
  let ?w = "w\<lparr>px_db := db, px_used := used, px_requeues := q, px_acks := k\<rparr>"
  have s: "sends ?w = map_of (pd_sends db)" by (simp add: sends_def)
  have hold: "\<exists>r'. sends ?w (at_id a) = Some r' \<and> holds r' a"
    if "sends w (at_id a) = Some r" "holds r a" "at_lease a \<in> set (px_used w)" for a r
    using old [OF that(1)] that(2,3) unfolding s moves_def holds_def by (auto split: prod.splits)
  have "table_inv ?w"
    unfolding table_inv_def s
  proof (intro conjI allI impI)
    fix i r assume r: "map_of (pd_sends db) i = Some r"
    show "send_ok r" "set_option (ps_owner r) \<subseteq> set (px_used ?w)"
      using old [of i] new [OF r] r by (cases "sends w i"; auto simp: moves_def split: prod.splits)+
  qed (use keys in simp)
  moreover have "lease_inv ?w"
    using inv used by (auto simp: push_inv_def lease_inv_def leases_def)
  moreover have "pending_inv ?w"
  proof -
    have "at_lease a \<in> set (px_used w)" if "a \<in> set (px_working w) \<or> (a, oc) \<in> set (px_done w)" for a oc
      using that inv unfolding push_inv_def lease_inv_def leases_def by force
    with inv hold show ?thesis
      unfolding push_inv_def pending_inv_def by (simp split: prod.splits) metis
  qed
  moreover have "calls_inv ?w"
  proof -
    have "\<exists>r'. map_of (pd_sends db) (qc_id c) = Some r' \<and> call_ok r' (q (qc_id c)) (k (qc_id c)) c"
      if c: "c \<in> set (px_calls w)" for c
    proof -
      from inv c obtain r where "sends w (qc_id c) = Some r"
        "call_ok r (px_requeues w (qc_id c)) (px_acks w (qc_id c)) c"
        unfolding push_inv_def calls_inv_def by blast
      with old [OF this(1)] c show ?thesis unfolding moves_def by auto
    qed
    with inv show ?thesis unfolding push_inv_def calls_inv_def s by simp
  qed
  ultimately show ?thesis by (simp add: push_inv_def)
qed

text \<open>The changes a row goes through.\<close>
lemmas row_defs = bump_send_def send_ok_def call_ok_def shielded_def

lemma moves_interrupted: "send_ok r \<Longrightarrow> send_lapsed now r \<Longrightarrow> moves used calls n n r (send_interrupted r)"
  by (auto simp: moves_def send_interrupted_def send_lapsed_def row_defs split: prod.splits)

lemma moves_cancelled: "send_ok r \<Longrightarrow> outdated g r \<Longrightarrow> moves used calls n n r (send_cancelled r)"
  by (auto simp: moves_def send_cancelled_def outdated_def row_defs split: prod.splits)

lemma moves_leased:
  "send_ok r \<Longrightarrow> due now g r \<Longrightarrow> lease \<notin> set used \<Longrightarrow> moves used calls n n r (leased db lease t r)"
  by (auto simp: moves_def leased_def due_def row_defs split: prod.splits)

lemma moves_requeued:
  assumes "send_ok r" and "ps_status r = ''failed''" and "ps_outcome r = Some ''uncertain'' \<longrightarrow> k < k'" and "k \<le> k'"
  shows "moves used calls (q, k) (Suc q, k') r (requeued now r)"
  using assms by (auto simp: moves_def requeued_def row_defs)

lemma moves_finished:
  assumes "send_ok r" and "owns_lease a now r" and "holds r a" and "stored_ok calls a oc"
  shows "moves used calls n n r (finished oc now r)"
proof -
  have r: "ps_status r = ''queued''" "ps_owner r = Some (at_lease a)" "ps_retries r = at_retries a"
    using assms(2,3) by (auto simp: owns_lease_def holds_send_def holds_def)
  let ?r = "finished oc now r"
  have f: "ps_status ?r = po_status oc" "ps_outcome ?r = Some (po_code oc)" "ps_retries ?r = po_retries oc"
    "ps_owner ?r = None" by (simp_all add: finished_def bump_send_def)
  have "call_ok ?r q k c" if c: "c \<in> set calls" "call_ok r q k c" for q k c
  proof -
    have "qc_retries c < ps_retries ?r \<or> qc_retries c = ps_retries ?r \<and> ps_status ?r \<noteq> ''queued''"
      if "qc_requeues c = q"
      using c(2) that assms(4) r unfolding call_ok_def f stored_ok_def by (simp split: if_splits) linarith+
    moreover have "shielded ?r (qc_lease c)" if "qc_maybe c" "qc_acks c = k"
      using c that assms(4) r unfolding call_ok_def f stored_ok_def shielded_def by auto
    ultimately show ?thesis using c(2) unfolding call_ok_def by blast
  qed
  moreover have "send_ok ?r" using assms(4) by (auto simp: send_ok_def f stored_ok_def)
  ultimately show ?thesis unfolding moves_def by (auto simp: f split: prod.splits)
qed

lemma outcome_for_stored:
  assumes "at_retries a \<le> MAX_RETRIES"
  shows "po_retries (outcome_for a result) \<le> MAX_RETRIES"
    and "po_status (outcome_for a result) \<in> {''queued'', ''sent'', ''failed''}"
    and "po_retries (outcome_for a result)
      = (if po_status (outcome_for a result) = ''queued'' then Suc (at_retries a) else at_retries a)"
    and "may_have_reached result \<Longrightarrow> po_status (outcome_for a result) = ''sent''
      \<or> po_status (outcome_for a result) = ''failed'' \<and> po_code (outcome_for a result) = ''uncertain''"
  using assms by (auto simp: outcome_for_def may_have_reached_def Let_def split: sum.splits)

lemma target_unavailable_stored:
  "at_retries a \<le> MAX_RETRIES \<Longrightarrow> at_lease a \<notin> qc_lease ` set calls \<Longrightarrow> stored_ok calls a (target_unavailable a)"
  unfolding stored_ok_def target_unavailable_def by (auto simp: image_iff)

lemma sends_work [simp]:
  "sends (w\<lparr>px_working := xs\<rparr>) = sends w" "sends (w\<lparr>px_done := ys\<rparr>) = sends w"
  "sends (w\<lparr>px_calls := cs\<rparr>) = sends w" "sends (w\<lparr>px_now := t\<rparr>) = sends w"
  by (simp_all add: sends_def)

lemma leases_work [simp]:
  "leases (w\<lparr>px_working := a # xs\<rparr>) = at_lease a # leases (w\<lparr>px_working := xs\<rparr>)"
  "set (leases (w\<lparr>px_done := (a, oc) # ys\<rparr>)) = insert (at_lease a) (set (leases (w\<lparr>px_done := ys\<rparr>)))"
  "distinct (leases (w\<lparr>px_done := (a, oc) # ys\<rparr>))
     \<longleftrightarrow> at_lease a \<notin> set (leases (w\<lparr>px_done := ys\<rparr>)) \<and> distinct (leases (w\<lparr>px_done := ys\<rparr>))"
  "leases (w\<lparr>px_calls := cs\<rparr>) = leases w" "leases (w\<lparr>px_now := t\<rparr>) = leases w"
  by (auto simp: leases_def)

lemma push_invD:
  assumes "push_inv w"
  shows "distinct (map fst (pd_sends (px_db w)))" and "distinct (leases w)"
    and "sends w i = Some r \<Longrightarrow> send_ok r \<and> set_option (ps_owner r) \<subseteq> set (px_used w)"
    and "set (leases w) \<subseteq> set (px_used w)" and "qc_lease ` set (px_calls w) \<subseteq> set (px_used w)"
    and "a \<in> set (px_working w) \<Longrightarrow> at_retries a \<le> MAX_RETRIES \<and> at_lease a \<notin> qc_lease ` set (px_calls w)
        \<and> (\<exists>r. sends w (at_id a) = Some r \<and> holds r a)"
    and "(a, oc) \<in> set (px_done w) \<Longrightarrow> stored_ok (px_calls w) a oc \<and> (\<exists>r. sends w (at_id a) = Some r \<and> holds r a)"
    and "c \<in> set (px_calls w) \<Longrightarrow> \<exists>r. sends w (qc_id c) = Some r
       \<and> call_ok r (px_requeues w (qc_id c)) (px_acks w (qc_id c)) c"
    and "sorted_wrt later (px_calls w)"
  using assms unfolding push_inv_defs by blast+

lemma push_inv_fewer:
  assumes inv: "push_inv w" and "set xs \<subseteq> set (px_working w)" and "set ys \<subseteq> set (px_done w)"
    and "distinct (map at_lease xs @ map (at_lease \<circ> fst) ys)"
  shows "push_inv (w\<lparr>px_working := xs, px_done := ys\<rparr>)"
proof -
  let ?w = "w\<lparr>px_working := xs, px_done := ys\<rparr>"
  have "set (leases ?w) \<subseteq> set (leases w)" using assms(2,3) by (auto simp: leases_def)
  moreover have "distinct (leases ?w)" using assms(4) by (simp add: leases_def)
  ultimately have "lease_inv ?w" using inv unfolding push_inv_def lease_inv_def by (simp add: subset_iff)
  moreover have "pending_inv ?w"
    using inv assms(2,3) unfolding push_inv_def pending_inv_def by (simp add: Ball_def subset_iff) blast
  ultimately show ?thesis using inv unfolding push_inv_def table_inv_def calls_inv_def by simp
qed

text \<open>Outstanding leases are distinct, so what is left after one is taken does not share it.\<close>
lemma push_inv_leave:
  assumes inv: "push_inv w"
  shows "push_inv (w\<lparr>px_working := remove1 a (px_working w), px_done := remove1 d (px_done w)\<rparr>)"
    and "push_inv (w\<lparr>px_working := remove1 a (px_working w)\<rparr>)"
    and "push_inv (w\<lparr>px_done := remove1 d (px_done w)\<rparr>)"
    and "a \<in> set (px_working w) \<Longrightarrow> at_lease a \<notin> set (leases (w\<lparr>px_working := remove1 a (px_working w)\<rparr>))"
proof -
  note d = distinct_remove1s [OF push_invD(2) [OF inv, unfolded leases_def]]
  show "push_inv (w\<lparr>px_working := remove1 a (px_working w), px_done := remove1 d (px_done w)\<rparr>)"
    using push_inv_fewer [OF inv set_remove1_subset set_remove1_subset d(1)] .
  show "push_inv (w\<lparr>px_working := remove1 a (px_working w)\<rparr>)"
    using push_inv_fewer [OF inv set_remove1_subset order_refl d(2)] by simp
  show "push_inv (w\<lparr>px_done := remove1 d (px_done w)\<rparr>)"
    using push_inv_fewer [OF inv order_refl set_remove1_subset d(3)] by simp
  show "a \<in> set (px_working w) \<Longrightarrow> at_lease a \<notin> set (leases (w\<lparr>px_working := remove1 a (px_working w)\<rparr>))"
    using d(4) [of a] by (simp add: leases_def)
qed

text \<open>Work taken up and work done.\<close>
lemma push_inv_take:
  assumes inv: "push_inv w" and "at_lease a \<notin> set (leases w)" and "at_lease a \<in> set (px_used w)"
    and "at_lease a \<notin> qc_lease ` set (px_calls w)" and "at_retries a \<le> MAX_RETRIES"
    and "sends w (at_id a) = Some r" and "holds r a"
  shows "push_inv (w\<lparr>px_working := a # px_working w\<rparr>)"
  using assms unfolding push_inv_defs by (simp add: sends_def [symmetric])

lemma push_inv_done:
  assumes inv: "push_inv w" and "at_lease a \<notin> set (leases w)" and "at_lease a \<in> set (px_used w)"
    and "stored_ok (px_calls w) a oc" and "sends w (at_id a) = Some r" and "holds r a"
  shows "push_inv (w\<lparr>px_done := (a, oc) # px_done w\<rparr>)"
  using assms unfolding push_inv_defs by (simp add: sends_def [symmetric])
text \<open>Each kind of step keeps the invariant.\<close>
lemma push_inv_rows:
  assumes inv: "push_inv w" and "distinct (map fst (pd_sends db))"
    and "\<And>i r. sends w i = Some r \<Longrightarrow> send_ok r \<Longrightarrow> \<exists>r'. map_of (pd_sends db) i = Some r'
      \<and> moves (px_used w) (filter (\<lambda>c. qc_id c = i) (px_calls w)) (px_requeues w i, px_acks w i) (q i, k i) r r'
      \<and> set_option (ps_owner r') \<subseteq> set (px_used w)"
    and "\<And>i r. map_of (pd_sends db) i = Some r \<Longrightarrow> sends w i = None \<Longrightarrow> send_ok r \<and> ps_owner r = None"
  shows "push_inv (w\<lparr>px_db := db, px_requeues := q, px_acks := k\<rparr>)"
  using push_inv_evolve [OF inv assms(2), where used = "px_used w" and q = q and k = k] assms(3,4)
    push_invD(3) [OF inv] by simp

lemma push_inv_db:
  assumes inv: "push_inv w" and "distinct (map fst (pd_sends db))"
    and "\<And>i r. sends w i = Some r \<Longrightarrow> send_ok r \<Longrightarrow> \<exists>r'. map_of (pd_sends db) i = Some r'
      \<and> moves (px_used w) (filter (\<lambda>c. qc_id c = i) (px_calls w)) (px_requeues w i, px_acks w i) (px_requeues w i, px_acks w i) r r'
      \<and> set_option (ps_owner r') \<subseteq> set (px_used w)"
    and "\<And>i r. map_of (pd_sends db) i = Some r \<Longrightarrow> sends w i = None \<Longrightarrow> send_ok r \<and> ps_owner r = None"
  shows "push_inv (w\<lparr>px_db := db\<rparr>)"
  using push_inv_rows [OF inv assms(2), where q = "px_requeues w" and k = "px_acks w"] assms(3,4) by simp

lemma push_inv_expire: "push_inv w \<Longrightarrow> push_inv (w\<lparr>px_db := expire_sends now picked (px_db w)\<rparr>)"
proof (rule push_inv_db, assumption, goal_cases)
  case 1
  then show ?case using push_invD(1) [OF 1] by (simp add: expire_sends_def)
next
  case (2 i r)
  have "set_option (ps_owner (send_interrupted r)) = {}" by (simp add: send_interrupted_def bump_send_def)
  with 2 push_invD(3) [OF 2(1,2)] moves_interrupted [OF 2(3)] show ?case
    by (auto simp: expire_sends_def map_of_map_if sends_def [symmetric])
next
  case (3 i r)
  then show ?case by (simp add: expire_sends_def map_of_map_if sends_def [symmetric])
qed

lemma push_inv_cancel: "push_inv w \<Longrightarrow> push_inv (w\<lparr>px_db := cancel_outdated picked (px_db w)\<rparr>)"
proof (rule push_inv_db, assumption, goal_cases)
  case 1
  then show ?case using push_invD(1) [OF 1] by (simp add: cancel_outdated_def)
next
  case (2 i r)
  have "ps_owner (send_cancelled r) = ps_owner r" by (simp add: send_cancelled_def bump_send_def)
  with 2 push_invD(3) [OF 2(1,2)] moves_cancelled [OF 2(3)] show ?case
    by (auto simp: cancel_outdated_def map_of_map_if sends_def [symmetric])
next
  case (3 i r)
  then show ?case by (simp add: cancel_outdated_def map_of_map_if sends_def [symmetric])
qed

lemma push_inv_change:
  assumes "push_inv w" and "pd_sends db = pd_sends (px_db w)"
  shows "push_inv (w\<lparr>px_db := db\<rparr>)"
  using push_inv_db [OF assms(1), of db] push_invD(1,3) [OF assms(1)] by (simp add: assms(2) sends_def)

lemma push_inv_new:
  assumes inv: "push_inv w" and i: "sends w i = None" and rows: "pd_sends db = pd_sends (px_db w) @ [(i, r)]"
    and r: "send_ok r" "ps_owner r = None"
  shows "push_inv (w\<lparr>px_db := db\<rparr>)"
proof (rule push_inv_db [OF inv], goal_cases)
  case 1
  then show ?case using push_invD(1) [OF inv] i by (auto simp: rows sends_def map_of_eq_None_iff)
next
  case (2 j s)
  with push_invD(3) [OF inv 2(1)] show ?case
    by (auto simp: rows sends_def map_add_def simp del: map_of_eq_Some_iff)
next
  case (3 j s)
  with r show ?case by (auto simp: rows sends_def map_add_def split: if_splits simp del: map_of_eq_Some_iff)
qed

lemma next_due_Some:
  assumes "next_due now locked db = Some (i, r)"
  shows "(i, r) \<in> set (pd_sends db)" and "due now (pd_generation db) r"
proof -
  let ?c = "filter (\<lambda>(k, r). due now (pd_generation db) r \<and> \<not> locked k) (pd_sends db)"
  have "(i, r) \<in> set (sort_key (\<lambda>(k, r). (ps_created r, k)) ?c)"
    using assms by (cases "sort_key (\<lambda>(k, r). (ps_created r, k)) ?c") (simp_all add: next_due_def)
  then show "(i, r) \<in> set (pd_sends db)" "due now (pd_generation db) r" by auto
qed

lemma claim_sendE:
  assumes "claim_send lease now locked db = (Some a, db')" and "distinct (map fst (pd_sends db))"
  obtains i r where "map_of (pd_sends db) i = Some r" and "due now (pd_generation db) r" and "a = attempt_of lease i r"
    and "db' = db\<lparr>pd_sends := update_row i (leased db lease now) (pd_sends db)\<rparr>"
  using assms next_due_Some [of now locked db] that
  by (fastforce simp: claim_send_def split: option.splits)
lemma push_inv_lease:
  assumes inv: "push_inv w" and fresh: "lease \<notin> set (px_used w)"
    and c: "claim_send lease now locked (px_db w) = (Some a, db)"
  shows "push_inv (w\<lparr>px_db := db, px_used := lease # px_used w, px_working := a # px_working w\<rparr>)"
proof -
  obtain i r where r: "sends w i = Some r" "due now (pd_generation (px_db w)) r" and a: "a = attempt_of lease i r"
    and db: "db = (px_db w)\<lparr>pd_sends := update_row i (leased (px_db w) lease now) (pd_sends (px_db w))\<rparr>"
    using claim_sendE [OF c push_invD(1) [OF inv]] unfolding sends_def by blast
  let ?w = "w\<lparr>px_db := db, px_used := lease # px_used w\<rparr>"
  have s: "sends ?w = (\<lambda>j. map_option (if j = i then leased (px_db w) lease now else id) (sends w j))"
    by (simp add: sends_def db map_of_update_row fun_eq_iff)
  have o: "ps_owner (leased (px_db w) lease now r) = Some lease" "ps_retries (leased (px_db w) lease now r) = ps_retries r"
    by (simp_all add: leased_def bump_send_def)
  have "push_inv (w\<lparr>px_db := db, px_used := lease # px_used w, px_requeues := px_requeues w, px_acks := px_acks w\<rparr>)"
  proof (rule push_inv_evolve [OF inv], goal_cases)
    case 1
    then show ?case using push_invD(1) [OF inv] by (simp add: db)
  next
    case (2 j q)
    have "map_of (pd_sends db) j = sends ?w j" by (simp add: sends_def)
    with 2 push_invD(3) [OF inv 2] r(2) fresh o r(1) show ?case
      by (cases "j = i") (auto simp: s moves_leased)
  next
    case (3 j q)
    then show ?case by (simp add: db map_of_update_row sends_def [symmetric])
  qed auto
  then have w: "push_inv ?w" by simp
  have "lease \<notin> set (leases ?w)" "lease \<notin> qc_lease ` set (px_calls ?w)"
    using push_invD(4,5) [OF inv] fresh by (auto simp: leases_def)
  moreover have "ps_retries r \<le> MAX_RETRIES" using push_invD(3) [OF inv r(1)] by (simp add: send_ok_def)
  moreover have "sends ?w i = Some (leased (px_db w) lease now r)" by (simp add: s r(1))
  moreover have "at_lease a = lease" "at_id a = i" "at_retries a = ps_retries r"
    by (simp_all add: a attempt_of_def)
  ultimately have "push_inv (?w\<lparr>px_working := a # px_working ?w\<rparr>)"
    using push_inv_take [OF w, of a "leased (px_db w) lease now r"] o by (simp add: holds_def)
  then show ?thesis by simp
qed

lemma push_inv_refuse:
  assumes inv: "push_inv w" and a: "a \<in> set (px_working w)"
  shows "push_inv (w\<lparr>px_working := remove1 a (px_working w), px_done := (a, target_unavailable a) # px_done w\<rparr>)"
proof -
  let ?w = "w\<lparr>px_working := remove1 a (px_working w)\<rparr>"
  obtain r where r: "sends w (at_id a) = Some r" "holds r a" and k: "at_retries a \<le> MAX_RETRIES"
    and l: "at_lease a \<notin> qc_lease ` set (px_calls w)" using push_invD(6) [OF inv a] by blast
  have "at_lease a \<in> set (px_used w)" using push_invD(4) [OF inv] a by (auto simp: leases_def)
  with push_inv_done [OF push_inv_leave(2) [OF inv] push_inv_leave(4) [OF inv a], of "target_unavailable a" r]
    target_unavailable_stored [OF k l] r show ?thesis by simp
qed

lemma push_inv_call:
  assumes inv: "push_inv w" and a: "a \<in> set (px_working w)" and ok: "allowed (px_db w) now a"
  shows "push_inv (w\<lparr>px_working := remove1 a (px_working w), px_calls := call_of w a (may_have_reached result) # px_calls w,
    px_done := (a, outcome_for a result) # px_done w\<rparr>)"
proof -
  let ?c = "call_of w a (may_have_reached result)"
  let ?w = "w\<lparr>px_working := remove1 a (px_working w), px_calls := ?c # px_calls w\<rparr>"
  note left = push_inv_leave(2) [OF inv, of a] push_inv_leave(4) [OF inv a]
  obtain r where r: "sends w (at_id a) = Some r" "holds r a" and k: "at_retries a \<le> MAX_RETRIES"
    and l: "at_lease a \<notin> qc_lease ` set (px_calls w)" using push_invD(6) [OF inv a] by blast
  have u: "at_lease a \<in> set (px_used w)" using push_invD(4) [OF inv] a by (auto simp: leases_def)
  have own: "ps_owner r = Some (at_lease a)" "ps_status r = ''queued''" "ps_retries r = at_retries a"
    using ok r by (auto simp: allowed_def sends_def owns_lease_def holds_send_def holds_def split: option.splits)
  have c: "qc_id ?c = at_id a" "qc_lease ?c = at_lease a" "qc_retries ?c = at_retries a"
    "qc_requeues ?c = px_requeues w (at_id a)" "qc_acks ?c = px_acks w (at_id a)"
    by (simp_all add: call_of_def)
  have "later ?c old" if old: "old \<in> set (px_calls w)" for old
  proof -
    obtain q where "sends w (qc_id old) = Some q" "call_ok q (px_requeues w (qc_id old)) (px_acks w (qc_id old)) old"
      using push_invD(8) [OF inv old] by blast
    with r(1) own l old show ?thesis
      unfolding later_def c call_ok_def shielded_def by (auto simp: image_iff)
  qed
  then have "calls_inv ?w"
    using inv r(1) own k unfolding push_inv_def calls_inv_def by (simp add: c call_ok_def shielded_def)
  moreover have "lease_inv ?w" using left(1) u by (simp add: push_inv_def lease_inv_def c)
  moreover have "table_inv ?w" using left(1) by (simp add: push_inv_def table_inv_def)
  moreover have "pending_inv ?w"
  proof -
    have "at_lease b \<noteq> at_lease a" if "b \<in> set (remove1 a (px_working w)) \<or> (b, oc) \<in> set (px_done w)" for b oc
      using left(2) that by (fastforce simp: leases_def image_iff)
    with left(1) show ?thesis
      unfolding push_inv_def pending_inv_def by (fastforce simp: stored_ok_def c)
  qed
  ultimately have w: "push_inv ?w" by (simp add: push_inv_def)
  have "stored_ok (px_calls ?w) a (outcome_for a result)"
    using outcome_for_stored [OF k, of result] l unfolding stored_ok_def
    by (auto simp: c call_of_def image_iff)
  with push_inv_done [OF w, of a "outcome_for a result" r] left(2) u r show ?thesis by (simp add: leases_def)
qed

lemma push_inv_store:
  assumes inv: "push_inv w" and d: "(a, oc) \<in> set (px_done w)"
  shows "push_inv (w\<lparr>px_db := finish now a oc (px_db w), px_done := remove1 (a, oc) (px_done w)\<rparr>)"
proof -
  have "push_inv (w\<lparr>px_db := finish now a oc (px_db w)\<rparr>)"
  proof (cases "\<exists>r. sends w (at_id a) = Some r \<and> owns_lease a now r")
    case False
    then have "finish now a oc (px_db w) = px_db w" by (auto simp: finish_def sends_def split: option.splits)
    with inv show ?thesis by simp
  next
    case True
    then obtain r where r: "sends w (at_id a) = Some r" "owns_lease a now r" by blast
    have h: "holds r a" and st: "stored_ok (px_calls w) a oc" using push_invD(7) [OF inv d] r(1) by auto
    have st: "stored_ok (filter P (px_calls w)) a oc" for P using st unfolding stored_ok_def by auto
    have rows: "pd_sends (finish now a oc (px_db w)) = update_row (at_id a) (finished oc now) (pd_sends (px_db w))"
      using r by (simp add: finish_def sends_def)
    have o: "ps_owner (finished oc now r) = None" by (simp add: finished_def bump_send_def)
    show ?thesis
    proof (rule push_inv_db [OF inv], goal_cases)
      case 1
      then show ?case using push_invD(1) [OF inv] by (simp add: rows)
    next
      case (2 j q)
      with push_invD(3) [OF inv 2(1)] r moves_finished [OF _ r(2) h st] o show ?case
        by (cases "j = at_id a") (auto simp: rows map_of_update_row sends_def [symmetric])
    next
      case (3 j q)
      then show ?case by (simp add: rows map_of_update_row sends_def [symmetric])
    qed
  qed
  from push_inv_leave(3) [OF this] show ?thesis by simp
qed
subsection \<open>Commands\<close>

text \<open>What a command does to the sends.\<close>
definition requeue_rows :: "instant \<Rightarrow> uuid \<Rightarrow> uuid list \<Rightarrow> (uuid \<times> push_send) list \<Rightarrow> (uuid \<times> push_send) list" where
  "requeue_rows now project ids rows = map (\<lambda>(k, r). (k, if ps_project r = project \<and> k \<in> set ids then requeued now r else r)) rows"

lemma requeue_rows: "pd_sends (requeue now project ids db) = requeue_rows now project ids (pd_sends db)"
  by (simp add: requeue_def requeue_rows_def)

lemma map_of_requeue_rows: "map_of (requeue_rows now project ids rows) i =
    map_option (\<lambda>r. if ps_project r = project \<and> i \<in> set ids then requeued now r else r) (map_of rows i)"
  unfolding requeue_rows_def by (rule map_of_map_if)

lemma fst_requeue_rows [simp]: "map fst (requeue_rows now project ids rows) = map fst rows"
  by (simp add: requeue_rows_def)

lemma retry_sendE:
  assumes "retry_send E project i expected ack db = Inr (out, db')"
  obtains r where "map_of (pd_sends db) i = Some r" and "ps_project r = project" and "ps_status r = ''failed''"
    and "ps_outcome r = Some ''uncertain'' \<longrightarrow> ack" and "pd_sends db' = requeue_rows (ce_now E) project [i] (pd_sends db)"
proof (cases "map_of (pd_sends db) i")
  case None
  with assms show ?thesis by (simp add: retry_send_def)
next
  case (Some r)
  with assms that [of r] show ?thesis
    by (auto simp: retry_send_def result_simps requeue_rows simp del: map_of_eq_Some_iff split: if_splits)
qed

lemma retry_failedE:
  assumes "retry_failed E project ids db = Inr (out, db')" and "distinct (map fst (pd_sends db))"
  shows "pd_sends db' = requeue_rows (ce_now E) project ids (pd_sends db)"
    and "i \<in> set ids \<Longrightarrow> \<exists>r. map_of (pd_sends db) i = Some r \<and> retryable_send db project r"
proof -
  from assms(1) have rows: "sort (map fst (filter (\<lambda>(k, r). retryable_send db project r \<and> k \<in> set ids) (pd_sends db)))
      = remdups (sort ids)"
    and db: "db' = requeue (ce_now E) project (remdups (sort ids)) db"
    by (auto simp: retry_failed_def Let_def split: if_splits)
  show "pd_sends db' = requeue_rows (ce_now E) project ids (pd_sends db)"
    by (simp add: db requeue_rows requeue_rows_def)
  assume "i \<in> set ids"
  then have "i \<in> set (sort (map fst (filter (\<lambda>(k, r). retryable_send db project r \<and> k \<in> set ids) (pd_sends db))))"
    unfolding rows by simp
  then obtain r where "(i, r) \<in> set (pd_sends db)" "retryable_send db project r" by auto
  with assms(2) show "\<exists>r. map_of (pd_sends db) i = Some r \<and> retryable_send db project r" by auto
qed

lemma requeued_owner [simp]: "ps_owner (requeued now r) = None"
  by (simp add: requeued_def bump_send_def)

lemma push_inv_requeue:
  assumes inv: "push_inv w" and rows: "pd_sends db = requeue_rows now project ids (pd_sends (px_db w))"
    and ok: "\<And>i. i \<in> set ids \<Longrightarrow> \<exists>r. sends w i = Some r \<and> ps_project r = project \<and> ps_status r = ''failed''
      \<and> (ps_outcome r = Some ''uncertain'' \<longrightarrow> i \<in> acks)" and "acks \<subseteq> set ids"
  shows "push_inv (w\<lparr>px_db := db, px_requeues := count_up (set ids) (px_requeues w), px_acks := count_up acks (px_acks w)\<rparr>)"
proof (rule push_inv_rows [OF inv], goal_cases)
  case 1
  then show ?case using push_invD(1) [OF inv] by (simp add: rows)
next
  case (2 i r)
  have m: "map_of (pd_sends db) i = Some (if ps_project r = project \<and> i \<in> set ids then requeued now r else r)"
    using 2(1) by (simp add: rows map_of_requeue_rows sends_def)
  show ?case
  proof (cases "i \<in> set ids")
    case True
    with ok [OF this] 2(1) have "ps_project r = project" "ps_status r = ''failed''"
      "ps_outcome r = Some ''uncertain'' \<longrightarrow> i \<in> acks" by auto
    with m True moves_requeued [OF 2(2), of "px_acks w i" "count_up acks (px_acks w) i"] show ?thesis
      by (simp add: count_up_def)
  next
    case False
    with m 2 push_invD(3) [OF inv 2(1)] assms(4) show ?thesis by (auto simp: count_up_def)
  qed
next
  case (3 i r)
  then show ?case by (simp add: rows map_of_requeue_rows sends_def)
qed

lemma count_up_empty [simp]: "count_up {} n = n"
  by (simp add: count_up_def fun_eq_iff)

text \<open>The other commands leave the sends alone, or add one.\<close>
lemma quiet_action:
  assumes "run_action E project act db = Inr (out, db')" and "retried act = {}"
  shows "pd_sends db' = pd_sends db
    \<or> (\<exists>device provider payload cred. pd_sends db' = pd_sends db
        @ [(ce_fresh E, queued_send db (ce_now E) project device provider payload None cred)])"
proof (cases act)
  case (CreateCredential provider config secret label)
  with assms(1) show ?thesis
    by (auto simp: run_action_def create_credential_def Let_def result_simps split: if_splits option.splits)
next
  case (ActivateCredential i expected force)
  with assms(1) show ?thesis
    by (auto simp: run_action_def activate_credential_def result_simps split: if_splits)
next
  case (TestSend device title body)
  with assms(1) show ?thesis
    by (auto simp: run_action_def test_send_def result_simps split: if_splits option.splits) blast
next
  case (RetryFailed ids)
  with assms show ?thesis by (simp add: run_action_def retry_failed_def retried_def)
qed (use assms in \<open>auto simp: run_action_def delete_credential_def revoke_device_def retried_def result_simps
      split: if_splits option.splits\<close>)

lemma send_ok_queued [simp]: "send_ok (queued_send db now p dev provider payload key cred)"
  "ps_owner (queued_send db now p dev provider payload key cred) = None"
  by (simp_all add: send_ok_def queued_send_def)

lemma push_inv_operate:
  assumes inv: "push_inv w" and act: "run_action E project act (px_db w) = Inr (out, db)"
    and fresh: "map_of (pd_sends (px_db w)) (ce_fresh E) = None"
  shows "push_inv (w\<lparr>px_db := db, px_requeues := count_up (retried act) (px_requeues w),
    px_acks := count_up (acknowledged act) (px_acks w)\<rparr>)"
proof (cases "retried act = {}")
  case True
  then have "acknowledged act = {}" by (cases act) (auto simp: retried_def acknowledged_def)
  with True quiet_action [OF act True] push_inv_change [OF inv] push_inv_new [OF inv, of "ce_fresh E"] fresh
  show ?thesis by (auto simp: sends_def)
next
  case False
  then consider (one) i expected ack where "act = RetrySend i expected ack" | (many) ids where "act = RetryFailed ids"
    by (cases act) (auto simp: retried_def)
  then show ?thesis
  proof cases
    case one
    obtain r where "sends w i = Some r" "ps_project r = project" "ps_status r = ''failed''"
      "ps_outcome r = Some ''uncertain'' \<longrightarrow> ack" "pd_sends db = requeue_rows (ce_now E) project [i] (pd_sends (px_db w))"
      using act retry_sendE [of E project i expected ack "px_db w" out db] by (auto simp: one run_action_def sends_def)
    with push_inv_requeue [OF inv this(5), of "if ack then {i} else {}"] show ?thesis
      by (auto simp: one retried_def acknowledged_def)
  next
    case many
    have r: "retry_failed E project ids (px_db w) = Inr (out, db)" using act by (simp add: many run_action_def)
    note e = retry_failedE [OF r push_invD(1) [OF inv]]
    have "\<exists>r. sends w i = Some r \<and> ps_project r = project \<and> ps_status r = ''failed''
        \<and> (ps_outcome r = Some ''uncertain'' \<longrightarrow> i \<in> {})" if "i \<in> set ids" for i
      using e(2) [OF that] by (auto simp: sends_def retryable_send_def simp del: map_of_eq_Some_iff)
    with push_inv_requeue [OF inv e(1), where acks = "{}"] show ?thesis
      by (simp add: many retried_def acknowledged_def)
  qed
qed

lemma push_step_inv: "push_step w w' \<Longrightarrow> push_inv w \<Longrightarrow> push_inv w'"
proof (induction rule: push_step.induct)
  case (tick w t)
  then show ?case by (simp add: push_inv_defs)
next
  case (change db w)
  from push_inv_change [OF change(2,1)] show ?case .
next
  case (submit w i r project dev provider payload key cred)
  then show ?case by (intro push_inv_new) (auto simp: sends_def)
next
  case (expire w picked)
  then show ?case by (rule push_inv_expire)
next
  case (cancel w picked)
  then show ?case by (rule push_inv_cancel)
next
  case (take_lease lease w locked a db)
  from push_inv_lease [OF take_lease(3,1,2)] show ?case .
next
  case (refuse a w)
  from push_inv_refuse [OF refuse(3,1)] show ?case .
next
  case (call_out a w result)
  from push_inv_call [OF call_out(3,1,2)] show ?case .
next
  case (die w a d)
  then show ?case by (rule push_inv_leave(1))
next
  case (store a oc w)
  from push_inv_store [OF store(2,1)] show ?case .
next
  case (operate E project act w out db)
  from push_inv_operate [OF operate(3,1,2)] show ?case .
qed

subsection \<open>How often a message goes out\<close>

text \<open>Before anything was queued.\<close>
definition push_start :: "push_world \<Rightarrow> bool" where
  "push_start w \<longleftrightarrow> pd_sends (px_db w) = [] \<and> px_working w = [] \<and> px_done w = [] \<and> px_used w = [] \<and> px_calls w = []"

lemma push_inv_reach:
  assumes "push_step\<^sup>*\<^sup>* w w'" and "push_start w"
  shows "push_inv w'"
  using assms(1)
proof (induction rule: rtranclp_induct)
  case base
  show ?case using assms(2) by (simp add: push_inv_defs push_start_def sends_def leases_def)
qed (rule push_step_inv)

definition cycle_calls :: "uuid \<Rightarrow> nat \<Rightarrow> push_world \<Rightarrow> push_call list" where
  "cycle_calls i n w = filter (\<lambda>c. qc_id c = i \<and> qc_requeues c = n) (px_calls w)"

lemma strictly_descending_length:
  assumes "sorted_wrt (\<lambda>x y. f y < (f x :: nat)) xs" and "\<forall>x \<in> set xs. f x \<le> m"
  shows "length xs \<le> Suc m"
  using assms
proof (induction xs arbitrary: m)
  case (Cons x xs)
  show ?case
  proof (cases xs)
    case (Cons y ys)
    with Cons.prems have "0 < f x" "\<forall>z \<in> set xs. f z \<le> f x - 1" by (auto simp: less_eq_Suc_le)
    with Cons.IH [of "f x - 1"] Cons.prems show ?thesis by simp
  qed simp
qed simp

text \<open>C2. However workers interleave, die or outlive their leases and whatever operators do: once a
  provider may have accepted a message, no worker calls a provider for that send again until an
  operator has queued it again acknowledging that the device may be notified twice.\<close>
theorem push_no_silent_duplicate:
  assumes "push_step\<^sup>*\<^sup>* w w'" and "push_start w"
  shows "sorted_wrt (\<lambda>new old. qc_id new = qc_id old \<and> qc_maybe old \<longrightarrow> qc_acks old < qc_acks new) (px_calls w')"
  by (rule sorted_wrt_mono_rel [OF _ push_invD(9) [OF push_inv_reach [OF assms]]]) (simp add: later_def)

text \<open>C25. A queued send calls its provider at most six times, each time with a higher retry count,
  before it is sent or has failed; only an operator's retry starts the count again.\<close>
theorem push_attempts_bounded:
  assumes "push_step\<^sup>*\<^sup>* w w'" and "push_start w"
  shows "length (cycle_calls i n w') \<le> 6
    \<and> sorted_wrt (\<lambda>new old. qc_retries old < qc_retries new) (cycle_calls i n w')"
proof -
  note inv = push_inv_reach [OF assms]
  have "sorted_wrt later (cycle_calls i n w')"
    unfolding cycle_calls_def by (rule sorted_wrt_filter [OF push_invD(9) [OF inv]])
  then have s: "sorted_wrt (\<lambda>new old. qc_retries old < qc_retries new) (cycle_calls i n w')"
    by (rule sorted_wrt_mono_rel [rotated]) (auto simp: later_def cycle_calls_def)
  have "\<forall>c \<in> set (cycle_calls i n w'). qc_retries c \<le> 5"
    using push_invD(8) [OF inv] by (fastforce simp: cycle_calls_def call_ok_def MAX_RETRIES_def)
  from strictly_descending_length [OF s this] s show ?thesis by simp
qed

subsection \<open>A run\<close>

definition toy_device :: device where
  "toy_device = \<lparr>dv_project = 7, dv_provider = ''fcm'', dv_native = ''t'', dv_env = None, dv_metadata = JObj [],
     dv_revoked = None, dv_bad_streak = 0, dv_version = 1\<rparr>"

definition toy_push_db :: push_db where
  "toy_push_db = \<lparr>pd_generation = 1, pd_sends = [], pd_devices = [(2, toy_device)], pd_credentials = [], pd_logs = []\<rparr>"

definition toy_push :: "push_db \<Rightarrow> attempt list \<Rightarrow> (attempt \<times> push_outcome) list \<Rightarrow> uuid list \<Rightarrow> push_call list \<Rightarrow> nat \<Rightarrow> push_world" where
  "toy_push db working dn used calls n = \<lparr>px_now = 1, px_db = db, px_working = working, px_done = dn,
     px_used = used, px_calls = calls, px_requeues = count_up (if n = 0 then {} else {3}) (\<lambda>_. 0),
     px_acks = count_up (if n = 0 then {} else {3}) (\<lambda>_. 0)\<rparr>"

definition toy_send :: push_send where
  "toy_send = queued_send toy_push_db 1 7 2 ''fcm'' JNull None None"

definition toy_vendors :: vendors where
  "toy_vendors = \<lparr>vn_send = (\<lambda>_. Inr (200, Some [])), vn_status_error = show_nat, vn_decode_error = [],
     vn_parse_json = (\<lambda>_. Inl []), vn_es256 = (\<lambda>_ _ _. Inr []), vn_rs256 = (\<lambda>_ _. Inr []),
     vn_sha256_hex = id, vn_header_value = Some, vn_unix_now = 1\<rparr>"

definition toy_command_env :: command_env where
  "toy_command_env = \<lparr>ce_now = 1, ce_fresh = 9, ce_vendors = toy_vendors, ce_api = toy_api, ce_aead = toy_aead,
     ce_rng = toy_rng, ce_vault = None, ce_digest = (\<lambda>_. ''d'')\<rparr>"

definition toy_sends :: "push_send \<Rightarrow> push_db" where
  "toy_sends r = toy_push_db\<lparr>pd_sends := [(3, r)]\<rparr>"

definition toy_timeout :: push_outcome where
  "toy_timeout = \<lparr>po_status = ''failed'', po_code = ''uncertain'', po_error = Some ''send_timeout'', po_http = 0,
     po_duration = 0, po_retries = 0, po_backoff = 0, po_device = No_effect\<rparr>"

definition toy_call :: "uuid \<Rightarrow> nat \<Rightarrow> push_call" where
  "toy_call lease n = \<lparr>qc_id = 3, qc_lease = lease, qc_retries = 0, qc_maybe = True, qc_requeues = n, qc_acks = n\<rparr>"

lemmas toy_push_defs = toy_push_def toy_push_db_def toy_send_def queued_send_def leased_def bump_send_def
  active_credential_def attempt_of_def toy_device_def toy_sends_def

lemma toy_timeout: "ps_retries r = 0 \<Longrightarrow> ps_provider r = ''fcm''
    \<Longrightarrow> outcome_for (attempt_of t i r) (Inl ''send_timeout'') = toy_timeout"
  "may_have_reached (Inl ''send_timeout'')"
  by (simp_all add: extract_http_status_def starts_with_def uncertain_reason_def safe_reason_def strip_prefix_def
      exact_codes_def toy_timeout_def outcome_for_def attempt_of_def is_permanent_token_failure_def may_have_reached_def)

text \<open>A send that is claimed and times out.\<close>
lemma toy_push_claim:
  assumes "due 1 1 r" and "ps_token r = 2" and "ps_project r = 7" and "ps_generation r = 1"
    and "ps_retries r = 0" and "ps_provider r = ''fcm''" and "lease \<notin> set used" and "n = 0 \<or> n = 1"
    and "pd_sends db = [(3, r)]" and "pd_devices db = [(2, toy_device)]" and "pd_generation db = 1"
  shows "push_step\<^sup>*\<^sup>* (toy_push db [] [] used calls n)
    (toy_push (db\<lparr>pd_sends := [(3, leased db lease 1 r)]\<rparr>) [] [(attempt_of lease 3 r, toy_timeout)]
       (lease # used) (toy_call lease n # calls) n)"
proof -
  let ?a = "attempt_of lease 3 r" and ?db = "db\<lparr>pd_sends := [(3, leased db lease 1 r)]\<rparr>"
  have "claim_send lease 1 (\<lambda>_. False) db = (Some ?a, ?db)"
    using assms by (simp add: claim_send_def next_due_def update_row_def)
  with push_step.take_lease [of lease "toy_push db [] [] used calls n" "\<lambda>_. False" ?a ?db] assms(7)
  have 1: "push_step (toy_push db [] [] used calls n) (toy_push ?db [?a] [] (lease # used) calls n)"
    by (simp add: toy_push_def)
  have "allowed ?db 1 ?a"
    using assms by (simp add: allowed_def attempt_of_def leased_def bump_send_def toy_device_def owns_lease_def holds_send_def due_def secs_def)
  with push_step.call_out [of ?a "toy_push ?db [?a] [] (lease # used) calls n" "Inl ''send_timeout''"]
    toy_timeout(1) [OF assms(5,6), of lease 3] toy_timeout(2) assms(5,8)
  have 2: "push_step (toy_push ?db [?a] [] (lease # used) calls n)
      (toy_push ?db [] [(?a, toy_timeout)] (lease # used) (toy_call lease n # calls) n)"
    by (auto simp: toy_push_def call_of_def toy_call_def attempt_of_def count_up_def)
  from 1 2 show ?thesis by (meson converse_rtranclp_into_rtranclp rtranclp.rtrancl_refl)
qed

text \<open>It is queued again with the acknowledgement, and calls a second time.\<close>
lemma toy_push_run:
  "\<exists>w. push_step\<^sup>*\<^sup>* (toy_push toy_push_db [] [] [] [] 0) w \<and> px_calls w = [toy_call 6 1, toy_call 5 0]"
proof -
  let ?w0 = "toy_push toy_push_db [] [] [] [] 0" and ?r = "leased (toy_sends toy_send) 5 1 toy_send"
  have 1: "push_step ?w0 (toy_push (toy_sends toy_send) [] [] [] [] 0)"
    using push_step.submit [of ?w0 3 toy_send 7 2 "''fcm''" JNull None None] by (simp add: toy_push_defs)
  have 2: "push_step\<^sup>*\<^sup>* (toy_push (toy_sends toy_send) [] [] [] [] 0)
      (toy_push (toy_sends ?r) [] [(attempt_of 5 3 toy_send, toy_timeout)] [5] [toy_call 5 0] 0)"
    using toy_push_claim [of toy_send 5 "[]" 0 "toy_sends toy_send" "[]"]
    by (simp add: toy_sends_def toy_push_db_def due_def toy_send_def queued_send_def)
  let ?db = "finish 1 (attempt_of 5 3 toy_send) toy_timeout (toy_sends ?r)"
  have 3: "push_step (toy_push (toy_sends ?r) [] [(attempt_of 5 3 toy_send, toy_timeout)] [5] [toy_call 5 0] 0)
      (toy_push ?db [] [] [5] [toy_call 5 0] 0)"
    using push_step.store [of "attempt_of 5 3 toy_send" toy_timeout
        "toy_push (toy_sends ?r) [] [(attempt_of 5 3 toy_send, toy_timeout)] [5] [toy_call 5 0] 0"]
    by (simp add: toy_push_def)
  have own: "owns_lease (attempt_of 5 3 toy_send) 1 ?r"
    by (simp add: owns_lease_def holds_send_def attempt_of_def leased_def bump_send_def toy_send_def queued_send_def secs_def)
  let ?f = "finished toy_timeout 1 ?r"
  have db: "pd_sends ?db = [(3, ?f)]" "pd_devices ?db = [(2, toy_device)]" "pd_generation ?db = 1"
    using own by (simp_all add: finish_def attempt_of_def toy_sends_def update_row_def toy_push_db_def
        toy_send_def queued_send_def device_after_def toy_timeout_def)
  have f: "ps_project ?f = 7" "ps_status ?f = ''failed''" "ps_generation ?f = 1" "ps_token ?f = 2"
    "ps_provider ?f = ''fcm''"
    by (simp_all add: finished_def toy_timeout_def leased_def bump_send_def toy_send_def queued_send_def toy_push_db_def)
  let ?q = "requeued 1 ?f" and ?db2 = "?db\<lparr>pd_sends := [(3, requeued 1 ?f)]\<rparr>"
  obtain out where "run_action toy_command_env 7 (RetrySend 3 None True) ?db = Inr (out, ?db2)"
    using f db by (auto simp: run_action_def retry_send_def check_version_def requeue_def toy_command_env_def)
  then
  have 4: "push_step (toy_push ?db [] [] [5] [toy_call 5 0] 0) (toy_push ?db2 [] [] [5] [toy_call 5 0] 1)"
    using push_step.operate [of toy_command_env 7 "RetrySend 3 None True" "toy_push ?db [] [] [5] [toy_call 5 0] 0" out ?db2]
      db by (simp add: toy_push_def toy_command_env_def retried_def acknowledged_def)
  have q: "due 1 1 ?q" "ps_retries ?q = 0" "ps_token ?q = 2" "ps_project ?q = 7" "ps_generation ?q = 1" "ps_provider ?q = ''fcm''"
    using f by (simp_all add: due_def requeued_def bump_send_def)
  from toy_push_claim [OF q(1,3,4,5,2,6), of 6 "[5]" 1 ?db2 "[toy_call 5 0]"] db
  obtain w where "push_step\<^sup>*\<^sup>* (toy_push ?db2 [] [] [5] [toy_call 5 0] 1) w" "px_calls w = [toy_call 6 1, toy_call 5 0]"
    by (force simp: toy_push_def)
  moreover have "push_step\<^sup>*\<^sup>* ?w0 (toy_push ?db2 [] [] [5] [toy_call 5 0] 1)"
    using 1 2 3 4 by (meson converse_rtranclp_into_rtranclp rtranclp.rtrancl_into_rtrancl rtranclp_trans)
  ultimately show ?thesis by (meson rtranclp_trans)
qed

lemma toy_push_start: "push_start (toy_push toy_push_db [] [] [] [] 0)"
  by (simp add: push_start_def toy_push_def toy_push_db_def)

theorem push_no_silent_duplicate_witness:
  "\<exists>w. push_step\<^sup>*\<^sup>* (toy_push toy_push_db [] [] [] [] 0) w \<and> px_calls w = [toy_call 6 1, toy_call 5 0]
     \<and> qc_maybe (toy_call 5 0) \<and> qc_acks (toy_call 5 0) < qc_acks (toy_call 6 1)"
proof -
  obtain w where w: "push_step\<^sup>*\<^sup>* (toy_push toy_push_db [] [] [] [] 0) w" "px_calls w = [toy_call 6 1, toy_call 5 0]"
    using toy_push_run by blast
  from push_no_silent_duplicate [OF w(1) toy_push_start] w show ?thesis
    by (intro exI [of _ w]) (simp add: toy_call_def)
qed

theorem push_attempts_bounded_witness:
  "\<exists>w. push_step\<^sup>*\<^sup>* (toy_push toy_push_db [] [] [] [] 0) w \<and> cycle_calls 3 1 w = [toy_call 6 1]
     \<and> length (cycle_calls 3 1 w) \<le> 6"
proof -
  obtain w where w: "push_step\<^sup>*\<^sup>* (toy_push toy_push_db [] [] [] [] 0) w" "px_calls w = [toy_call 6 1, toy_call 5 0]"
    using toy_push_run by blast
  from push_attempts_bounded [OF w(1) toy_push_start, of 3 1] w show ?thesis
    by (intro exI [of _ w]) (simp add: cycle_calls_def toy_call_def)
qed

end
