(* ===== verification/PushTables.thy ===== *)
theory PushTables
  imports PushSafety
begin

text \<open>
  What the push tables always satisfy (the constraints of \<^verbatim>\<open>core/migrations/0007_push.sql\<close>,
  \<^verbatim>\<open>0017\<close> and \<^verbatim>\<open>0029\<close>, and the retry bound), kept by a worker's whole pass and by every
  console command; commands answered from their receipts; what a stored error may say; credentials
  that open only where they were sealed.
\<close>

subsection \<open>Well-formed tables\<close>

definition send_typed :: "push_send \<Rightarrow> bool" where
  "send_typed r \<longleftrightarrow> send_ok r \<and> (ps_owner r = None \<longleftrightarrow> ps_until r = None)"

definition credential_typed :: "credential \<Rightarrow> bool" where
  "credential_typed c \<longleftrightarrow> pc_kind c \<in> {''apns'', ''fcm'', ''webpush'', ''hcm'', ''mipush''}
     \<and> pc_format c \<in> {''legacy'', ''sealed''}"

text \<open>\<open>push_credentials_active_idx\<close>: one active credential for a project and a provider.\<close>
definition one_active :: "(uuid \<times> credential) list \<Rightarrow> bool" where
  "one_active cs \<longleftrightarrow> (\<forall>i c j d. (i, c) \<in> set cs \<longrightarrow> (j, d) \<in> set cs \<longrightarrow>
     pc_active c \<and> pc_active d \<and> pc_project c = pc_project d \<and> pc_kind c = pc_kind d \<longrightarrow> i = j)"

definition push_db_typed :: "push_db \<Rightarrow> bool" where
  "push_db_typed db \<longleftrightarrow> distinct (map fst (pd_sends db)) \<and> distinct (map fst (pd_devices db))
     \<and> distinct (map fst (pd_credentials db)) \<and> (\<forall>k r. (k, r) \<in> set (pd_sends db) \<longrightarrow> send_typed r)
     \<and> (\<forall>k c. (k, c) \<in> set (pd_credentials db) \<longrightarrow> credential_typed c) \<and> one_active (pd_credentials db)"

text \<open>The sends change, the rest stays: what the worker does.\<close>
lemma push_db_typed_sends:
  assumes "push_db_typed db" and "distinct (map fst (pd_sends db'))" and "\<And>k r. (k, r) \<in> set (pd_sends db') \<Longrightarrow> send_typed r"
    and "map fst (pd_devices db') = map fst (pd_devices db)" and "pd_credentials db' = pd_credentials db"
  shows "push_db_typed db'"
  using assms unfolding push_db_typed_def by auto

lemma send_typed_interrupted: "send_typed r \<Longrightarrow> send_typed (send_interrupted r)"
  by (simp add: send_typed_def send_interrupted_def row_defs)

lemma send_typed_cancelled: "send_typed r \<Longrightarrow> outdated g r \<Longrightarrow> send_typed (send_cancelled r)"
  by (simp add: send_typed_def send_cancelled_def outdated_def row_defs)

lemma send_typed_leased: "send_typed r \<Longrightarrow> due now g r \<Longrightarrow> send_typed (leased db lease t r)"
  by (simp add: send_typed_def leased_def due_def row_defs)

lemma send_typed_finished:
  "po_retries oc \<le> MAX_RETRIES \<Longrightarrow> po_status oc \<in> {''queued'', ''sent'', ''failed''} \<Longrightarrow> send_typed (finished oc now r)"
  by (auto simp: send_typed_def finished_def row_defs)

lemma send_typed_requeued: "send_typed (requeued now r)"
  by (simp add: send_typed_def requeued_def row_defs)

lemma send_typed_queued: "send_typed (queued_send db now p dev provider payload key cred)"
  by (simp add: send_typed_def) (simp add: queued_send_def)

lemma push_db_typed_expire: "push_db_typed db \<Longrightarrow> push_db_typed (expire_sends now picked db)"
  by (rule push_db_typed_sends, assumption)
    (auto simp: push_db_typed_def expire_sends_def split: if_splits, blast intro: send_typed_interrupted)

lemma push_db_typed_cancel: "push_db_typed db \<Longrightarrow> push_db_typed (cancel_outdated picked db)"
  by (rule push_db_typed_sends, assumption)
    (auto simp: push_db_typed_def cancel_outdated_def split: if_splits, blast intro: send_typed_cancelled)

lemma push_db_typed_claim:
  assumes "push_db_typed db" and "claim_send lease now locked db = (c, db')"
  shows "push_db_typed db'" and "c = Some a \<Longrightarrow> at_retries a \<le> MAX_RETRIES"
proof -
  have *: "push_db_typed db' \<and> (c = Some a \<longrightarrow> at_retries a \<le> MAX_RETRIES)"
  proof (cases "next_due now locked db")
    case None
    with assms show ?thesis by (simp add: claim_send_def)
  next
    case (Some ir)
    obtain i r where ir: "ir = (i, r)" by (cases ir)
    note n = next_due_Some [OF Some [unfolded ir]]
    have d: "distinct (map fst (pd_sends db))" using assms(1) by (simp add: push_db_typed_def)
    have r: "send_typed r" using n(1) assms(1) unfolding push_db_typed_def by blast
    have db': "db' = db\<lparr>pd_sends := update_row i (leased db lease now) (pd_sends db)\<rparr>" "c = Some (attempt_of lease i r)"
      using assms(2) Some ir by (simp_all add: claim_send_def)
    have "send_typed q" if q: "(k, q) \<in> set (pd_sends db')" for k q
    proof -
      from q obtain p where p: "(k, p) \<in> set (pd_sends db)" "q = (if k = i then leased db lease now p else p)"
        unfolding db' by (auto elim: in_update_row)
      show ?thesis
      proof (cases "k = i")
        case True
        with p(1) have "(i, p) \<in> set (pd_sends db)" by simp
        from eq_key_imp_eq_value [OF d this n(1)] have "p = r" .
        with True p(2) send_typed_leased [OF r n(2)] show ?thesis by simp
      next
        case False
        with p assms(1) show ?thesis unfolding push_db_typed_def by auto
      qed
    qed
    with d have "push_db_typed db'"
      by (intro push_db_typed_sends [OF assms(1)]) (assumption | simp add: db')+
    with r show ?thesis by (auto simp add: db'(2) attempt_of_def send_typed_def send_ok_def)
  qed
  from * show "push_db_typed db'" "c = Some a \<Longrightarrow> at_retries a \<le> MAX_RETRIES" by auto
qed

lemma push_db_typed_finish:
  assumes "push_db_typed db" and "po_retries oc \<le> MAX_RETRIES" and "po_status oc \<in> {''queued'', ''sent'', ''failed''}"
  shows "push_db_typed (finish now a oc db)"
proof (cases "\<exists>r. map_of (pd_sends db) (at_id a) = Some r \<and> owns_lease a now r")
  case False
  then have "finish now a oc db = db" by (auto simp: finish_def split: option.splits)
  with assms(1) show ?thesis by simp
next
  case True
  then have f: "pd_sends (finish now a oc db) = update_row (at_id a) (finished oc now) (pd_sends db)"
    "map fst (pd_devices (finish now a oc db)) = map fst (pd_devices db)"
    "pd_credentials (finish now a oc db) = pd_credentials db"
    by (auto simp: finish_def simp del: map_of_eq_Some_iff)
  have "send_typed q" if "(k, q) \<in> set (pd_sends (finish now a oc db))" for k q
    using that assms(1) send_typed_finished [OF assms(2,3)] unfolding f push_db_typed_def
    by (auto elim!: in_update_row)
  then show ?thesis using assms(1) by (intro push_db_typed_sends [OF assms(1)]) (simp_all add: f push_db_typed_def)
qed

lemma push_db_typed_dispatch:
  assumes "push_db_typed db" and "at_retries a \<le> MAX_RETRIES"
  shows "push_db_typed (snd (snd (dispatch_one E t0 t1 a caches db)))"
proof -
  have "push_db_typed (finish t1 a (outcome_for a r) db)" for r
    using push_db_typed_finish [OF assms(1) outcome_for_stored(1,2) [OF assms(2)]] .
  moreover have "push_db_typed (finish t1 a (target_unavailable a) db)"
    using assms(2) by (intro push_db_typed_finish [OF assms(1)]) (simp_all add: target_unavailable_def)
  ultimately show ?thesis
    using assms(1) by (auto simp: dispatch_one_def split: prod.splits option.splits)
qed

lemma push_db_typed_drain:
  "push_db_typed db \<Longrightarrow> push_db_typed (snd (snd (drain_batch E lease clock locked n count caches db)))"
proof (induction n arbitrary: count caches db)
  case (Suc n)
  obtain c db' where c: "claim_send (lease count) (fst (clock count)) locked db = (c, db')" by fastforce
  note t = push_db_typed_claim [OF Suc.prems c]
  show ?case
  proof (cases c)
    case None
    with c t(1) show ?thesis by simp
  next
    case (Some a)
    obtain ok caches' db2 where d: "dispatch_one (E count) (fst (clock count)) (snd (clock count)) a caches db'
        = (ok, caches', db2)" by (rule prod_cases3)
    from push_db_typed_dispatch [OF t(1) t(2) [OF Some], of "E count"] have t2: "push_db_typed db2" by (metis d snd_conv)
    show ?thesis using Suc.IH [OF t2] t2 c Some d by (cases ok) simp_all
  qed
qed simp

text \<open>The commands.\<close>
lemma push_db_typed_requeue:
  assumes "push_db_typed db"
  shows "push_db_typed (requeue now project ids db)"
proof (rule push_db_typed_sends [OF assms], goal_cases)
  case 1
  then show ?case using assms by (simp add: requeue_def push_db_typed_def)
next
  case (2 k r)
  then obtain q where "(k, q) \<in> set (pd_sends db)" "r = requeued now q \<or> r = q"
    by (auto simp: requeue_def split: if_splits)
  with assms send_typed_requeued show ?case unfolding push_db_typed_def by blast
qed (simp_all add: requeue_def)

lemma push_db_typed_submit:
  assumes "push_db_typed db" and "i \<notin> fst ` set (pd_sends db)"
  shows "push_db_typed (db\<lparr>pd_sends := pd_sends db @ [(i, queued_send d now p dev provider payload key cred)]\<rparr>)"
  using assms send_typed_queued by (intro push_db_typed_sends [OF assms(1)]) (auto simp: push_db_typed_def)

lemma push_db_typed_devices:
  assumes "push_db_typed db" and "map fst devices = map fst (pd_devices db)"
  shows "push_db_typed (db\<lparr>pd_devices := devices\<rparr>)"
  using assms by (simp add: push_db_typed_def)

lemma push_db_typed_credentials:
  assumes "push_db_typed db" and "distinct (map fst cs)" and "one_active cs"
    and "\<And>k c. (k, c) \<in> set cs \<Longrightarrow> credential_typed c"
  shows "push_db_typed (db\<lparr>pd_credentials := cs\<rparr>)"
  using assms by (simp add: push_db_typed_def)

lemma one_active_subset: "one_active cs \<Longrightarrow> set ds \<subseteq> set cs \<Longrightarrow> one_active ds"
  unfolding one_active_def by blast

lemma in_deactivate_others:
  assumes "(k, c) \<in> set (deactivate_others project kind i cs)"
  obtains d where "(k, d) \<in> set cs" and "pc_project c = pc_project d" and "pc_kind c = pc_kind d"
    and "pc_format c = pc_format d" and "pc_active c \<Longrightarrow> pc_active d"
    and "k \<noteq> i \<Longrightarrow> pc_project c = project \<Longrightarrow> pc_kind c = kind \<Longrightarrow> \<not> pc_active c"
  using assms that unfolding deactivate_others_def bump_credential_def by (fastforce split: if_splits)

text \<open>Activating one credential of a provider puts the others of that provider to rest first.\<close>
lemma one_active_activate:
  assumes "one_active cs" and "distinct (map fst cs)" and "map_of cs i = Some c0" and "pc_project c0 = project"
  defines "cs' \<equiv> update_row i (\<lambda>c. bump_credential (c\<lparr>pc_active := True\<rparr>)) (deactivate_others project (pc_kind c0) i cs)"
  shows "one_active cs'" and "map fst cs' = map fst cs"
    and "(k, c) \<in> set cs' \<Longrightarrow> \<exists>d. (k, d) \<in> set cs \<and> pc_kind c = pc_kind d \<and> pc_format c = pc_format d"
proof -
  have row: "\<exists>d. (k, d) \<in> set cs \<and> pc_kind c = pc_kind d \<and> pc_format c = pc_format d \<and> pc_project c = pc_project d
      \<and> (k \<noteq> i \<longrightarrow> (pc_active c \<longrightarrow> pc_active d) \<and> \<not> (pc_project c = project \<and> pc_kind c = pc_kind c0 \<and> pc_active c))"
    if "(k, c) \<in> set cs'" for k c
    using that unfolding cs'_def
    by (auto elim!: in_update_row in_deactivate_others simp: bump_credential_def)
  then show "(k, c) \<in> set cs' \<Longrightarrow> \<exists>d. (k, d) \<in> set cs \<and> pc_kind c = pc_kind d \<and> pc_format c = pc_format d"
    by blast
  show "map fst cs' = map fst cs" by (simp add: cs'_def deactivate_others_def)
  show "one_active cs'"
    unfolding one_active_def
  proof (intro allI impI)
    fix j1 d1 j2 d2
    assume a: "(j1, d1) \<in> set cs'" "(j2, d2) \<in> set cs'" and b: "pc_active d1 \<and> pc_active d2
      \<and> pc_project d1 = pc_project d2 \<and> pc_kind d1 = pc_kind d2"
    from row [OF a(1)] row [OF a(2)] obtain e1 e2 where e: "(j1, e1) \<in> set cs" "(j2, e2) \<in> set cs"
      "pc_kind d1 = pc_kind e1" "pc_kind d2 = pc_kind e2" "pc_project d1 = pc_project e1" "pc_project d2 = pc_project e2"
      and n: "j1 \<noteq> i \<Longrightarrow> pc_active e1 \<and> \<not> (pc_project e1 = project \<and> pc_kind e1 = pc_kind c0)"
      "j2 \<noteq> i \<Longrightarrow> pc_active e2 \<and> \<not> (pc_project e2 = project \<and> pc_kind e2 = pc_kind c0)"
      using b by metis
    have i: "e = c0" if "(i, e) \<in> set cs" for e
      using that assms(2,3) by simp
    show "j1 = j2"
    proof (cases "j1 = i \<or> j2 = i")
      case True
      with i e n b assms(4) show ?thesis by metis
    next
      case False
      with n e b assms(1) show ?thesis unfolding one_active_def by metis
    qed
  qed
qed

lemma create_credentialE:
  assumes "create_credential E project provider config secret label db = Inr (out, db')"
  obtains c where "db' = db\<lparr>pd_credentials := pd_credentials db @ [(ce_fresh E, c)]\<rparr>"
    and "credential_typed c" and "\<not> pc_active c"
proof -
  have "config_keys provider \<noteq> []"
    using assms by (auto simp: create_credential_def Let_def split: if_splits)
  then have p: "provider \<in> {''apns'', ''fcm'', ''webpush'', ''hcm'', ''mipush''}"
    by (simp add: config_keys_def split: if_splits)
  obtain c where "db' = db\<lparr>pd_credentials := pd_credentials db @ [(ce_fresh E, c)]\<rparr>"
    "pc_kind c = provider" "pc_format c = ''sealed''" "\<not> pc_active c"
    using assms by (auto simp: create_credential_def Let_def result_simps split: if_splits option.splits)
  with that p show ?thesis by (simp add: credential_typed_def)
qed

lemma push_db_typed_action:
  assumes db: "push_db_typed db" and act: "run_action E project act db = Inr (out, db')"
    and fresh: "ce_fresh E \<notin> fst ` set (pd_sends db) \<union> fst ` set (pd_credentials db)"
  shows "push_db_typed db'"
proof (cases act)
  case (CreateCredential provider config secret label)
  with act obtain c where c: "db' = db\<lparr>pd_credentials := pd_credentials db @ [(ce_fresh E, c)]\<rparr>" "credential_typed c" "\<not> pc_active c"
    by (auto simp: run_action_def elim: create_credentialE)
  have "one_active (pd_credentials db @ [(ce_fresh E, c)])"
    using db c(3) unfolding push_db_typed_def one_active_def by auto
  with db c fresh show ?thesis unfolding c(1) by (intro push_db_typed_credentials) (auto simp: push_db_typed_def)
next
  case (ActivateCredential i expected force)
  with act obtain c where c: "map_of (pd_credentials db) i = Some c" "pc_project c = project"
    "db' = db\<lparr>pd_credentials := update_row i (\<lambda>c. bump_credential (c\<lparr>pc_active := True\<rparr>))
       (deactivate_others project (pc_kind c) i (pd_credentials db))\<rparr>"
    by (auto simp: run_action_def activate_credential_def find_credential_def result_simps simp del: map_of_eq_Some_iff
        split: if_splits option.splits)
  have d: "one_active (pd_credentials db)" "distinct (map fst (pd_credentials db))"
    using db by (simp_all add: push_db_typed_def)
  note o = one_active_activate [OF d c(1,2)]
  have "credential_typed e" if e: "(k, e) \<in> set (update_row i (\<lambda>c. bump_credential (c\<lparr>pc_active := True\<rparr>))
       (deactivate_others project (pc_kind c) i (pd_credentials db)))" for k e
  proof -
    obtain f where "(k, f) \<in> set (pd_credentials db)" "pc_kind e = pc_kind f" "pc_format e = pc_format f"
      using o(3) [OF e] by blast
    moreover from this(1) db have "credential_typed f" unfolding push_db_typed_def by blast
    ultimately show ?thesis by (simp add: credential_typed_def)
  qed
  with o(1,2) d(2) show ?thesis unfolding c(3) by (intro push_db_typed_credentials [OF db]) simp_all
next
  case (DeleteCredential i expected)
  with act have "db' = db\<lparr>pd_credentials := filter (\<lambda>(k, _). k \<noteq> i) (pd_credentials db)\<rparr>"
    by (auto simp: run_action_def delete_credential_def result_simps)
  moreover have "one_active (filter (\<lambda>(k, _). k \<noteq> i) (pd_credentials db))"
    by (rule one_active_subset [of "pd_credentials db"]) (use db in \<open>simp_all add: push_db_typed_def\<close>)
  moreover have "distinct (map fst (filter (\<lambda>(k, _). k \<noteq> i) (pd_credentials db)))"
    by (rule distinct_map_filter) (use db in \<open>simp add: push_db_typed_def\<close>)
  moreover have "credential_typed c" if "(k, c) \<in> set (filter (\<lambda>(k, _). k \<noteq> i) (pd_credentials db))" for k c
    using that db unfolding push_db_typed_def by simp blast
  ultimately show ?thesis by (auto intro!: push_db_typed_credentials [OF db])
next
  case (TestSend device title body)
  with act fresh show ?thesis
    by (auto simp: run_action_def test_send_def result_simps intro: push_db_typed_submit [OF db]
        split: if_splits option.splits)
next
  case (RetrySend i expected ack)
  with act show ?thesis
    by (auto simp: run_action_def retry_send_def result_simps intro: push_db_typed_requeue [OF db]
        split: if_splits option.splits)
next
  case (RetryFailed ids)
  with act show ?thesis
    by (auto simp: run_action_def retry_failed_def Let_def intro: push_db_typed_requeue [OF db] split: if_splits)
next
  case (RevokeDevice i expected)
  with act show ?thesis
    by (auto simp: run_action_def revoke_device_def result_simps intro!: push_db_typed_devices [OF db]
        split: if_splits option.splits)
qed

lemma execute_command_cases:
  obtains (same) "cs_db (snd (execute_command E ctx project cmd S)) = cs_db S"
  | (acted) out where "run_action E project (cm_action cmd) (cs_db S)
      = Inr (out, cs_db (snd (execute_command E ctx project cmd S)))"
proof (cases "command_gate E ctx project cmd S = Inr None")
  case False
  then show ?thesis using same
    by (auto simp: execute_command_def Let_def split: sum.splits option.splits)
next
  case True
  then show ?thesis
  proof (cases "run_action E project (cm_action cmd) (cs_db S)")
    case (Inr r)
    obtain response audit target db where "r = ((response, audit, target), db)" by (metis prod.exhaust)
    with Inr True acted show ?thesis by (simp add: execute_command_def)
  qed (use True same in \<open>simp add: execute_command_def\<close>)
qed
text \<open>C23. Whatever a worker's pass meets and whatever a console command asks for, the push tables
  keep their constraints: keys are unique, a send is queued, sent or failed with at most five
  retries, is leased only while queued and always until some instant, and a project has at most
  one active credential for each provider.\<close>
theorem push_tables_well_typed:
  assumes "push_db_typed db" and "push_db_typed (cs_db S)"
    and "ce_fresh E \<notin> fst ` set (pd_sends (cs_db S)) \<union> fst ` set (pd_credentials (cs_db S))"
  shows "push_db_typed (snd (snd (drain_once P lease clock picked locked batch caches db)))
    \<and> push_db_typed (cs_db (snd (execute_command E ctx project cmd S)))"
proof
  show "push_db_typed (snd (snd (drain_once P lease clock picked locked batch caches db)))"
    unfolding drain_once_def using assms(1) by (intro push_db_typed_drain push_db_typed_cancel push_db_typed_expire)
  show "push_db_typed (cs_db (snd (execute_command E ctx project cmd S)))"
  proof (cases rule: execute_command_cases [of E ctx project cmd S])
    case same
    with assms(2) show ?thesis by simp
  next
    case (acted out)
    from push_db_typed_action [OF assms(2) acted assms(3)] show ?thesis .
  qed
qed

definition toy_web :: "string web_env" where
  "toy_web = \<lparr>web_url = toy_url, web_origin = id, web_net = toy_net, web_late = None,
     web_crypto = \<lparr>pk_b64url_decode = (\<lambda>_. None), pk_valid_sec1 = (\<lambda>_. False), pk_server_public = [],
       pk_diffie_hellman = id, pk_hkdf = (\<lambda>_ _ _ _. None), pk_salt = [], pk_aes128_gcm = (\<lambda>_ _ _. None)\<rparr>\<rparr>"

definition toy_push_env :: "string push_env" where
  "toy_push_env = \<lparr>pe_vendors = toy_vendors, pe_web = toy_web, pe_api = toy_api, pe_aead = toy_aead,
     pe_vault = None, pe_elapsed = 0, pe_late = None\<rparr>"

definition toy_console :: console where
  "toy_console = \<lparr>cs_db = toy_sends toy_send, cs_projects = [7], cs_assigned = [], cs_receipts = [], cs_audit = []\<rparr>"

definition toy_session :: session where
  "toy_session = \<lparr>se_user = 1, se_superadmin = True\<rparr>"

definition toy_revoke :: command where
  "toy_revoke = \<lparr>cm_id = ''k1'', cm_action = RevokeDevice 2 None\<rparr>"

lemma toy_sends_typed: "push_db_typed (toy_sends toy_send)"
  using send_typed_queued [of toy_push_db 1 7 2 "''fcm''" JNull None None]
  by (simp add: push_db_typed_def toy_sends_def toy_push_db_def toy_send_def one_active_def)

text \<open>A pass in which the send fails for want of a credential, and a command that revokes its device.\<close>
theorem push_tables_well_typed_witness:
  "push_db_typed (snd (snd (drain_once (\<lambda>_. toy_push_env) (\<lambda>_. 5) (\<lambda>_. (1, 1)) (\<lambda>_. True) (\<lambda>_. False) 1
      \<lparr>ca_tokens = [], ca_fcm = []\<rparr> (toy_sends toy_send))))
   \<and> push_db_typed (cs_db (snd (execute_command toy_command_env toy_session 7 toy_revoke toy_console)))"
  by (rule push_tables_well_typed) (simp_all add: toy_console_def toy_sends_typed, simp add: toy_sends_def
      toy_push_db_def toy_command_env_def)

subsection \<open>A command is carried out once\<close>

lemma command_gate_receipt:
  assumes "ensure_project_access S ctx project = Inr ()" and "lock_project S project = Inr ()"
    and "map_of (cs_receipts S) (project, se_user ctx, cm_id cmd) = Some (d, response)"
    and "cm_id cmd \<noteq> []" and "length (cm_id cmd) \<le> 128" and "list_all is_ascii_graphic (cm_id cmd)"
  shows "execute_command E ctx project cmd S =
    (if d = ce_digest E (cm_action cmd) then Inr response else Inl (http_error 409 ''idempotency_conflict''), S)"
  using assms by (simp add: execute_command_def command_gate_def prior_receipt_def)

lemma execute_command_receipt:
  assumes "execute_command E ctx project cmd S = (Inr response, S')"
  shows "ensure_project_access S' ctx project = Inr () \<and> lock_project S' project = Inr ()
    \<and> map_of (cs_receipts S') (project, se_user ctx, cm_id cmd) = Some (ce_digest E (cm_action cmd), response)
    \<and> cm_id cmd \<noteq> [] \<and> length (cm_id cmd) \<le> 128 \<and> list_all is_ascii_graphic (cm_id cmd)"
proof -
  obtain old where g: "command_gate E ctx project cmd S = Inr old"
    using assms by (cases "command_gate E ctx project cmd S") (auto simp: execute_command_def)
  then have a: "ensure_project_access S ctx project = Inr ()" "lock_project S project = Inr ()"
    and k: "cm_id cmd \<noteq> []" "length (cm_id cmd) \<le> 128" "list_all is_ascii_graphic (cm_id cmd)"
    and r: "map_of (cs_receipts S) (project, se_user ctx, cm_id cmd) = (case old of None \<Rightarrow> None
      | Some x \<Rightarrow> Some (ce_digest E (cm_action cmd), x))"
    by (auto simp: command_gate_def result_simps prior_receipt_def simp del: map_of_eq_Some_iff
        split: if_splits option.splits)
  show ?thesis
  proof (cases old)
    case (Some x)
    with assms g have "S' = S" "response = x" by (simp_all add: execute_command_def)
    with a k r Some show ?thesis by simp
  next
    case None
    then obtain audit target db where "S' = S\<lparr>cs_db := db,
        cs_audit := cs_audit S @ [\<lparr>au_project = Some project, au_actor = Some (se_user ctx), au_action = audit,
          au_target_type = ''push'', au_target = ob_uuid_text (ce_api E) target, au_payload = response\<rparr>],
        cs_receipts := cs_receipts S @ [((project, se_user ctx, cm_id cmd), ce_digest E (cm_action cmd), response)]\<rparr>"
      using assms g by (auto simp: execute_command_def Let_def split: sum.splits prod.splits)
    with a k r None show ?thesis
      by (simp add: ensure_project_access_def lock_project_def map_add_def)
  qed
qed

text \<open>C24. A command that was answered is not carried out again: repeating it, whatever else happened
  in between, gives the same answer and changes nothing, and its identifier cannot be used for a
  different command.\<close>
theorem push_command_once:
  assumes "execute_command E ctx project cmd S = (Inr response, S')"
    and "cs_receipts S'' = cs_receipts S' @ later_receipts"
    and "cs_projects S'' = cs_projects S'" and "cs_assigned S'' = cs_assigned S'" and "ce_digest E' = ce_digest E"
  shows "execute_command E' ctx project cmd S'' = (Inr response, S'')
    \<and> (\<forall>act. ce_digest E act \<noteq> ce_digest E (cm_action cmd) \<longrightarrow>
         execute_command E' ctx project (cmd\<lparr>cm_action := act\<rparr>) S'' = (Inl (http_error 409 ''idempotency_conflict''), S''))"
proof -
  note r = execute_command_receipt [OF assms(1)]
  have "ensure_project_access S'' ctx project = Inr ()" "lock_project S'' project = Inr ()"
    using r assms(3,4) by (simp_all add: ensure_project_access_def lock_project_def)
  moreover have "map_of (cs_receipts S'') (project, se_user ctx, cm_id cmd) = Some (ce_digest E (cm_action cmd), response)"
    using r assms(2) by (simp add: map_add_def split: option.splits)
  ultimately show ?thesis
    using r command_gate_receipt [of S'' ctx project cmd "ce_digest E (cm_action cmd)" response E']
      command_gate_receipt [of S'' ctx project "cmd\<lparr>cm_action := act\<rparr>" "ce_digest E (cm_action cmd)" response E' for act]
    by (auto simp: assms(5))
qed

theorem push_command_once_witness:
  "\<exists>response S'. execute_command toy_command_env toy_session 7 toy_revoke toy_console = (Inr response, S')
     \<and> execute_command toy_command_env toy_session 7 toy_revoke S' = (Inr response, S')"
proof -
  obtain response S' where e: "execute_command toy_command_env toy_session 7 toy_revoke toy_console = (Inr response, S')"
    by (simp add: execute_command_def command_gate_def ensure_project_access_def lock_project_def prior_receipt_def
        toy_session_def toy_revoke_def toy_console_def is_ascii_graphic_def char_val_def run_action_def revoke_device_def
        toy_sends_def toy_push_db_def toy_device_def check_version_def)
  from push_command_once [OF e, of S' "[]" toy_command_env] e show ?thesis by auto
qed
subsection \<open>What a stored error says\<close>

definition safe_vocabulary :: "string set" where
  "safe_vocabulary = set exact_codes \<union> set contained_codes \<union> {''provider_request_failed''}
     \<union> (\<lambda>n. ''http_'' @ show_nat n) ` {..65535}"

text \<open>Whatever a provider answers, in whatever status and body, the error stored with a send is one
  of a fixed list of words or a bare status code: no response body, token or address reaches the
  people who may read the send.\<close>
theorem push_error_vocabulary:
  "set_option (po_error (outcome_for a result)) \<union> set_option (po_error (target_unavailable a))
     \<subseteq> safe_vocabulary \<union> {''target_unavailable''}"
proof -
  have "safe_reason reason \<in> safe_vocabulary" for reason
  proof -
    let ?r = "unwrap_or reason (strip_prefix reason ''bad endpoint url: '')"
    consider (exact) "?r \<in> set exact_codes" | (found) c where "?r \<notin> set exact_codes"
        "List.find (str_contains ?r) contained_codes = Some c"
      | (other) "?r \<notin> set exact_codes" "List.find (str_contains ?r) contained_codes = None"
      by (cases "List.find (str_contains ?r) contained_codes") auto
    then show ?thesis
    proof cases
      case exact
      then show ?thesis by (simp add: safe_reason_def Let_def safe_vocabulary_def)
    next
      case found
      then have "c \<in> set contained_codes" by (metis find_Some_iff nth_mem)
      with found show ?thesis by (simp add: safe_reason_def Let_def safe_vocabulary_def)
    next
      case other
      have "n \<le> 65535" if "extract_http_status ?r = Some n" for n
        using that by (auto simp: extract_http_status_def split: list.splits dest: parse_unsigned_bound)
      with other show ?thesis
        by (auto simp: safe_reason_def Let_def safe_vocabulary_def split: option.splits)
    qed
  qed
  then show ?thesis by (auto simp: outcome_for_def target_unavailable_def Let_def split: sum.splits)
qed

subsection \<open>What a failure leads to\<close>

text \<open>A failure on the way to the provider is never retried, since the message may have left.\<close>
lemma http_failure_is_final:
  "outcome_for a (Inl (''http: '' @ e)) = oc \<Longrightarrow> po_status oc = ''failed'' \<and> po_code oc = ''uncertain''"
  by (auto simp: outcome_for_def uncertain_reason_def starts_with_def Let_def)

text \<open>
  An FCM key that does not sign is a failure that waiting cannot fix, like the same failure at
  APNs; its text starts differently and the send goes back on the queue.
\<close>
lemma fcm_key_is_retried:
  assumes "at_retries a = 0"
  shows "po_status (outcome_for a (Inl (fcm_text (Fcm_jwt ''InvalidKeyFormat'')))) = ''queued''"
    and "po_status (outcome_for a (Inl (apns_text (Apns_jwt ''InvalidKeyFormat'')))) = ''failed''"
  using assms by (simp_all add: outcome_for_def is_configuration_failure_def is_apns_credential_rejection_def
      starts_with_def extract_http_status_def is_permanent_token_failure_def uncertain_reason_def MAX_RETRIES_def)

text \<open>An error of HCM's token endpoint, where no message was sent, is final and counted as uncertain.\<close>
lemma hcm_token_error_is_uncertain:
  assumes "vn_send V \<lparr>rq_url = ''https://oauth-login.cloud.huawei.com/oauth2/v3/token'', rq_headers = [],
      rq_body = Form_body [(''grant_type'', ''client_credentials''), (''client_id'', hc_client_id cfg),
        (''client_secret'', hc_client_secret cfg)]\<rparr> = Inr (503, body)"
  shows "\<exists>e. hcm_fetch_token V cfg = Inl e
    \<and> po_status (outcome_for a (Inl (hcm_text e))) = ''failed'' \<and> po_code (outcome_for a (Inl (hcm_text e))) = ''uncertain''"
  using assms http_failure_is_final by (simp add: hcm_fetch_token_def)

text \<open>A device is retired only when its provider names it.\<close>
lemma quarantine_names_the_token:
  assumes "po_device (outcome_for a result) = Permanent"
  obtains reason where "result = Inl reason"
    and "is_permanent_token_failure (at_provider a) (unwrap_or 0 (extract_http_status reason)) reason"
  using assms that by (auto simp: outcome_for_def Let_def split: sum.splits if_splits)

lemma backoff_bounded: "at_retries a \<le> MAX_RETRIES \<Longrightarrow> po_backoff (outcome_for a result) \<le> 480"
proof -
  assume "at_retries a \<le> MAX_RETRIES"
  then have "at_retries a < MAX_RETRIES \<Longrightarrow> (2::nat) ^ min (at_retries a) 6 \<le> 2 ^ 4"
    by (intro power_increasing) (simp_all add: MAX_RETRIES_def)
  then show ?thesis by (auto simp: outcome_for_def Let_def split: sum.splits)
qed

subsection \<open>Credentials and tokens\<close>

text \<open>A sealed secret opens for the project, credential and provider it was sealed for, and no other.\<close>
lemma push_secret_scope:
  assumes "aead_lawful A" and "rng_fills rng" and "key_id_new n = Inr (vault_key_id v)"
    and "\<And>v b. ob_json_to_vec X v = Some b \<Longrightarrow> ob_json_from_slice X b = Some v"
    and "inj (ob_uuid_text X)" and "push_seal X A rng v project i kind secret = Inr blob"
  shows "push_open X A (Some v) project i kind ''sealed'' blob = Some (Inr secret)"
    and "(p, j, k) \<noteq> (project, i, kind)
      \<Longrightarrow> push_open X A (Some v) p j k ''sealed'' blob = Some (Inl ''credential_scope_mismatch'')"
proof -
  obtain b where b: "ob_json_to_vec X (push_sealed_value X project i kind secret) = Some b"
    and v: "vault_seal A rng v b = Inr blob"
    using assms(6) by (cases "ob_json_to_vec X (push_sealed_value X project i kind secret)")
      (auto simp: push_seal_def map_err_def split: sum.splits)
  note o = vault_open_sealed [OF assms(1-3) v]
  have r: "ob_json_from_slice X b = Some (push_sealed_value X project i kind secret)"
    by (rule assms(4) [OF b])
  show "push_open X A (Some v) project i kind ''sealed'' blob = Some (Inr secret)"
    "(p, j, k) \<noteq> (project, i, kind)
      \<Longrightarrow> push_open X A (Some v) p j k ''sealed'' blob = Some (Inl ''credential_scope_mismatch'')"
    using assms(5) by (auto simp: push_open_def o r push_sealed_value_def json_access inj_eq)
qed

lemma tc_put_bounded: "length cache \<le> 1024 \<Longrightarrow> length (tc_put now c k t ttl cache) \<le> 1024"
proof -
  assume l: "length cache \<le> 1024"
  have u: "length (AList.update x y xs) \<le> Suc (length xs)" for x y and xs :: token_cache
    by (induction xs) auto
  let ?kept = "filter (\<lambda>(_, _, expires_at). now < expires_at) cache"
  show ?thesis
    using u [of "(c, k)" "(t, now + ttl)" ?kept] u [of "(c, k)" "(t, now + ttl)" "[]"]
    by (simp add: tc_put_def Let_def)
qed

lemma tc_get_put: "mins 5 < ttl \<Longrightarrow> tc_get now c k (tc_put now c k t ttl cache) = Some t"
  by (simp add: tc_get_def tc_put_def Let_def update_conv')

lemma tc_get_removed: "tc_get now c k (tc_remove c k cache) = None"
  by (simp add: tc_get_def tc_remove_def delete_conv')

text \<open>Another credential's token is never handed out.\<close>
lemma tc_get_other: "(c, k) \<noteq> (c', k') \<Longrightarrow> tc_get now c' k' (tc_put now c k t ttl []) = None"
  by (auto simp: tc_get_def tc_put_def Let_def)

end
