(* ===== verification/SourceMaps.thy ===== *)
theory SourceMaps
  imports Prelude
begin

text \<open>
  The sourcemap-resolver crate, \<^verbatim>\<open>core/crates/sourcemap-resolver/src\<close>: parsing a source map
  (\<open>ParsedMap::parse\<close>), answering for a minified position (\<open>resolve\<close>), the lines around a
  source position (\<open>source_window\<close>) and the bounded cache of parsed maps (\<open>ResolverCache\<close>).
  What the \<^verbatim>\<open>sourcemap\<close> crate decodes and looks up, and the \<^verbatim>\<open>lru\<close> crate's cache, are
  parameters; \<open>lru_lawful\<close> states what the code relies on of the latter.
\<close>

subsection \<open>Parsed maps\<close>

text \<open>A token of the \<^verbatim>\<open>sourcemap\<close> crate, through its accessors.\<close>
record token =
  tk_dst_line :: nat
  tk_source :: "string option"
  tk_src_line :: nat
  tk_src_col :: nat
  tk_name :: "string option"
  tk_src_id :: nat

record source_map =
  lookup_token :: "nat \<Rightarrow> nat \<Rightarrow> token option"
  source_view :: "nat \<Rightarrow> string option"
  map_sources :: nat

text \<open>A regular map, or a Hermes map with the function names of its bytecode offsets.\<close>
datatype parsed_map =
    Regular source_map
  | Hermes source_map "nat \<Rightarrow> string option"

datatype 'i decoded =
    DecodedRegular source_map
  | DecodedIndex 'i
  | DecodedHermes source_map "nat \<Rightarrow> string option"

record ('i, 'e) sourcemap_lib =
  decode_slice :: "bytes \<Rightarrow> 'e + 'i decoded"
  flatten :: "'i \<Rightarrow> 'e + source_map"

datatype 'e map_error = Decode 'e | Flatten 'e | UnsupportedFormat string

fun inner_map :: "parsed_map \<Rightarrow> source_map" where
  "inner_map (Regular m) = m"
| "inner_map (Hermes h names) = h"

definition parse_map :: "('i, 'e) sourcemap_lib \<Rightarrow> bytes \<Rightarrow> 'e map_error + parsed_map" where
  "parse_map L bytes =
     (case decode_slice L bytes of
        Inl e \<Rightarrow> Inl (Decode e)
      | Inr (DecodedRegular sm) \<Rightarrow> Inr (Regular sm)
      | Inr (DecodedIndex idx) \<Rightarrow>
          (case flatten L idx of Inl e \<Rightarrow> Inl (Flatten e) | Inr sm \<Rightarrow> Inr (Regular sm))
      | Inr (DecodedHermes h names) \<Rightarrow> Inr (Hermes h names))"

record resolution =
  res_file :: "string option"
  res_line :: nat
  res_column :: nat
  res_function :: "string option"
  res_raw_line :: nat
  res_raw_column :: nat
  res_src_id :: nat

text \<open>A name of the token, or for a Hermes map the function at the column.\<close>
definition function_name :: "parsed_map \<Rightarrow> nat \<Rightarrow> token \<Rightarrow> string option" where
  "function_name m column token =
     (case tk_name token of Some n \<Rightarrow> Some n
      | None \<Rightarrow> (case m of Hermes h names \<Rightarrow> names column | Regular m \<Rightarrow> None))"

definition resolve :: "parsed_map \<Rightarrow> nat \<Rightarrow> nat \<Rightarrow> resolution option" where
  "resolve m line column =
     (if line = 0 then None
      else
        let dst_line = line - 1 in
        (case lookup_token (inner_map m) dst_line column of
           None \<Rightarrow> None
         | Some token \<Rightarrow>
             if tk_dst_line token \<noteq> dst_line then None
             else if tk_source token = None then None
             else if tk_src_line token = U32_MAX then None
             else Some \<lparr>res_file = tk_source token, res_line = u32_add (tk_src_line token) 1,
                    res_column = tk_src_col token, res_function = function_name m column token,
                    res_raw_line = line, res_raw_column = column, res_src_id = tk_src_id token\<rparr>))"

record source_window =
  win_before :: "string list"
  win_at :: string
  win_after :: "string list"

text \<open>\<open>context\<close> is a machine word: where \<open>line0 + context + 1\<close> would overflow, the window runs to
  the end of the file, which the minimum with the number of rows says already.\<close>
definition window_of :: "string list \<Rightarrow> nat \<Rightarrow> nat \<Rightarrow> source_window option" where
  "window_of rows line0 context =
     (if length rows \<le> line0 then None
      else
        let start = line0 - context; stop = min (line0 + context + 1) (length rows)
        in Some \<lparr>win_before = drop start (take line0 rows), win_at = rows ! line0,
             win_after = drop (line0 + 1) (take stop rows)\<rparr>)"

definition source_window :: "parsed_map \<Rightarrow> nat \<Rightarrow> nat \<Rightarrow> nat \<Rightarrow> source_window option" where
  "source_window m src_id line0 context =
     (case source_view (inner_map m) src_id of
        None \<Rightarrow> None
      | Some text \<Rightarrow> window_of (str_lines [] text) line0 context)"

definition source_count :: "parsed_map \<Rightarrow> nat" where
  "source_count m = map_sources (inner_map m)"

definition has_sources_content :: "parsed_map \<Rightarrow> bool" where
  "has_sources_content m = list_all (\<lambda>i. source_view (inner_map m) i \<noteq> None) [0..<source_count m]"

text \<open>A position resolves only to a line some source really has, on the line asked for.\<close>
lemma resolve_Some:
  assumes "resolve m line column = Some res"
  obtains token src where "lookup_token (inner_map m) (line - 1) column = Some token"
    and "0 < line" and "tk_dst_line token = line - 1" and "tk_source token = Some src"
    and "res_file res = Some src" and "0 < res_line res" and "res_raw_line res = line"
  using assms unfolding resolve_def Let_def
  by (auto simp: u32_add_def u32_or_max_def U32_MAX_def split: if_splits option.splits)

lemma resolve_has_file: "resolve m line column = Some res \<Longrightarrow> \<exists>src. res_file res = Some src"
  by (metis resolve_Some)

lemma resolve_line_pos: "resolve m line column = Some res \<Longrightarrow> 0 < res_line res"
  by (metis resolve_Some)

lemma take_split_at:
  assumes "i < s" and "s \<le> length xs"
  shows "take s xs = take i xs @ xs ! i # drop (Suc i) (take s xs)"
  using assms id_take_nth_drop [of i "take s xs"] by (simp add: min_def)

text \<open>The window is the rows around the position, in their order.\<close>
lemma window_of_Some:
  assumes "window_of rows line0 context = Some w"
  shows "win_before w @ win_at w # win_after w
      = drop (line0 - context) (take (min (line0 + context + 1) (length rows)) rows)"
    and "length (win_before w) = min context line0"
    and "length (win_after w) \<le> context"
proof -
  from assms have l: "line0 < length rows"
    and w: "win_before w = drop (line0 - context) (take line0 rows)" "win_at w = rows ! line0"
      "win_after w = drop (line0 + 1) (take (min (line0 + context + 1) (length rows)) rows)"
    by (auto simp: window_of_def Let_def split: if_splits)
  let ?stop = "min (line0 + context + 1) (length rows)"
  have "take ?stop rows = take line0 rows @ rows ! line0 # drop (Suc line0) (take ?stop rows)"
    by (rule take_split_at) (use l in auto)
  then have "drop (line0 - context) (take ?stop rows)
      = drop (line0 - context) (take line0 rows) @ rows ! line0 # drop (Suc line0) (take ?stop rows)"
    using l by (metis drop_append diff_is_0_eq diff_le_self drop0 length_take min.absorb4)
  with w show "win_before w @ win_at w # win_after w = drop (line0 - context) (take ?stop rows)"
    by simp
  show "length (win_before w) = min context line0" "length (win_after w) \<le> context"
    using l w by auto
qed

text \<open>No format is refused: \<open>UnsupportedFormat\<close> is never returned, and a Hermes document parses.\<close>
lemma parse_map_accepts_hermes:
  "parse_map L bytes \<noteq> Inl (UnsupportedFormat kind)"
  "decode_slice L bytes = Inr (DecodedHermes h names) \<Longrightarrow> parse_map L bytes = Inr (Hermes h names)"
  by (auto simp: parse_map_def split: sum.splits decoded.splits)

subsection \<open>The cache of parsed maps\<close>

text \<open>The operations of \<^verbatim>\<open>lru::LruCache\<close> and, to speak about its contents, its \<open>peek\<close>.\<close>
record ('c, 'k, 'v) lru =
  lru_new :: "nat \<Rightarrow> 'c"
  lru_get :: "'c \<Rightarrow> 'k \<Rightarrow> 'v option \<times> 'c"
  lru_put :: "'c \<Rightarrow> 'k \<Rightarrow> 'v \<Rightarrow> 'c"
  lru_pop :: "'c \<Rightarrow> 'k \<Rightarrow> 'v option \<times> 'c"
  lru_clear :: "'c \<Rightarrow> 'c"
  lru_len :: "'c \<Rightarrow> nat"
  lru_cap :: "'c \<Rightarrow> nat"
  lru_peek :: "'c \<Rightarrow> 'k \<Rightarrow> 'v option"

text \<open>
  A lookup returns the entry and only reorders; an insertion stores the entry and may evict
  others; a removal removes the one entry; the capacity is fixed and never exceeded.
\<close>
definition lru_lawful :: "('c, 'k, 'v) lru \<Rightarrow> bool" where
  "lru_lawful L \<longleftrightarrow>
     (\<forall>c k. fst (lru_get L c k) = lru_peek L c k \<and> lru_peek L (snd (lru_get L c k)) = lru_peek L c
        \<and> lru_cap L (snd (lru_get L c k)) = lru_cap L c)
   \<and> (\<forall>c k v. lru_peek L (lru_put L c k v) k = Some v
        \<and> (\<forall>j. j \<noteq> k \<longrightarrow> lru_peek L (lru_put L c k v) j \<in> {None, lru_peek L c j})
        \<and> lru_cap L (lru_put L c k v) = lru_cap L c)
   \<and> (\<forall>c k. fst (lru_pop L c k) = lru_peek L c k \<and> lru_peek L (snd (lru_pop L c k)) = (lru_peek L c)(k := None)
        \<and> lru_cap L (snd (lru_pop L c k)) = lru_cap L c)
   \<and> (\<forall>c k. lru_peek L (lru_clear L c) k = None \<and> lru_cap L (lru_clear L c) = lru_cap L c)
   \<and> (\<forall>n k. 0 < n \<longrightarrow> lru_peek L (lru_new L n) k = None \<and> lru_cap L (lru_new L n) = n)
   \<and> (\<forall>c. lru_len L c \<le> lru_cap L c)"

lemma lru_lawfulD:
  assumes "lru_lawful L"
  shows "fst (lru_get L c k) = lru_peek L c k" and "lru_peek L (snd (lru_get L c k)) = lru_peek L c"
    and "lru_cap L (snd (lru_get L c k)) = lru_cap L c"
    and "lru_peek L (lru_put L c k v) k = Some v"
    and "j \<noteq> k \<Longrightarrow> lru_peek L (lru_put L c k v) j \<in> {None, lru_peek L c j}"
    and "lru_cap L (lru_put L c k v) = lru_cap L c"
    and "fst (lru_pop L c k) = lru_peek L c k" and "lru_peek L (snd (lru_pop L c k)) = (lru_peek L c)(k := None)"
    and "lru_cap L (snd (lru_pop L c k)) = lru_cap L c"
    and "lru_peek L (lru_clear L c) k = None" and "lru_cap L (lru_clear L c) = lru_cap L c"
    and "0 < n \<Longrightarrow> lru_peek L (lru_new L n) k = None" and "0 < n \<Longrightarrow> lru_cap L (lru_new L n) = n"
    and "lru_len L c \<le> lru_cap L c"
  using assms unfolding lru_lawful_def by blast+

record 'c resolver_cache =
  rc_inner :: 'c
  rc_capacity :: nat
  rc_poisoned :: bool

definition cache_new :: "('c, 'k, 'v) lru \<Rightarrow> nat \<Rightarrow> 'c resolver_cache" where
  "cache_new L capacity = \<lparr>rc_inner = lru_new L capacity, rc_capacity = capacity, rc_poisoned = False\<rparr>"

definition cache_len :: "('c, 'k, 'v) lru \<Rightarrow> 'c resolver_cache \<Rightarrow> nat" where
  "cache_len L c = (if rc_poisoned c then 0 else lru_len L (rc_inner c))"

definition cache_is_empty :: "('c, 'k, 'v) lru \<Rightarrow> 'c resolver_cache \<Rightarrow> bool" where
  "cache_is_empty L c \<longleftrightarrow> cache_len L c = 0"

definition cache_get :: "('c, 'k, 'v) lru \<Rightarrow> 'c resolver_cache \<Rightarrow> 'k \<Rightarrow> 'v option \<times> 'c resolver_cache" where
  "cache_get L c k = (if rc_poisoned c then (None, c)
     else let (r, inner) = lru_get L (rc_inner c) k in (r, c\<lparr>rc_inner := inner\<rparr>))"

definition cache_insert :: "('c, 'k, 'v) lru \<Rightarrow> 'c resolver_cache \<Rightarrow> 'k \<Rightarrow> 'v \<Rightarrow> 'c resolver_cache" where
  "cache_insert L c k v = (if rc_poisoned c then c else c\<lparr>rc_inner := lru_put L (rc_inner c) k v\<rparr>)"

definition cache_remove :: "('c, 'k, 'v) lru \<Rightarrow> 'c resolver_cache \<Rightarrow> 'k \<Rightarrow> 'v option \<times> 'c resolver_cache" where
  "cache_remove L c k = (if rc_poisoned c then (None, c)
     else let (r, inner) = lru_pop L (rc_inner c) k in (r, c\<lparr>rc_inner := inner\<rparr>))"

definition cache_clear :: "('c, 'k, 'v) lru \<Rightarrow> 'c resolver_cache \<Rightarrow> 'c resolver_cache" where
  "cache_clear L c = (if rc_poisoned c then c else c\<lparr>rc_inner := lru_clear L (rc_inner c)\<rparr>)"

text \<open>
  Reading through: the loader runs without the lock, so other threads act on the cache between
  the miss and the insertion (\<open>meanwhile\<close>) and before the entry is read again (\<open>after\<close>).
\<close>
definition get_or_try_insert_with ::
  "('c, 'k, 'v) lru \<Rightarrow> 'k \<Rightarrow> 'e + 'v \<Rightarrow> ('c resolver_cache \<Rightarrow> 'c resolver_cache)
     \<Rightarrow> ('c resolver_cache \<Rightarrow> 'c resolver_cache) \<Rightarrow> 'c resolver_cache \<Rightarrow> ('e + 'v) \<times> 'c resolver_cache" where
  "get_or_try_insert_with L key loader meanwhile after c =
     (let (r, c) = cache_get L c key in
      case r of Some hit \<Rightarrow> (Inr hit, c)
      | None \<Rightarrow>
          (case loader of
             Inl e \<Rightarrow> (Inl e, meanwhile c)
           | Inr fresh \<Rightarrow>
               let c = cache_insert L (meanwhile c) key fresh;
                   (again, c) = cache_get L (after c) key
               in (Inr (case again of Some v \<Rightarrow> v | None \<Rightarrow> fresh), c)))"

definition cached :: "('c, 'k, 'v) lru \<Rightarrow> 'c resolver_cache \<Rightarrow> 'k \<Rightarrow> 'v option" where
  "cached L c k = (if rc_poisoned c then None else lru_peek L (rc_inner c) k)"

definition cache_holds :: "('c, 'k, 'v) lru \<Rightarrow> ('k \<Rightarrow> 'v \<Rightarrow> bool) \<Rightarrow> 'c resolver_cache \<Rightarrow> bool" where
  "cache_holds L P c \<longleftrightarrow> (\<forall>k v. cached L c k = Some v \<longrightarrow> P k v)"

lemma fst_cache_get: "lru_lawful L \<Longrightarrow> fst (cache_get L c k) = cached L c k"
  by (simp add: cache_get_def cached_def lru_lawfulD(1) split_beta)

lemma cached_get: "lru_lawful L \<Longrightarrow> cached L (snd (cache_get L c k)) = cached L c"
  by (simp add: cache_get_def cached_def fun_eq_iff lru_lawfulD(2) split_beta)

lemma cached_insert:
  assumes "lru_lawful L"
  shows "cached L (cache_insert L c k v) j \<in> {None, if j = k then Some v else cached L c j}"
  using lru_lawfulD(4,5) [OF assms] by (auto simp: cache_insert_def cached_def)

lemma cache_holds_insert:
  assumes "lru_lawful L" and "cache_holds L P c" and "P k v"
  shows "cache_holds L P (cache_insert L c k v)"
  unfolding cache_holds_def
proof (intro allI impI)
  fix j w assume "cached L (cache_insert L c k v) j = Some w"
  with cached_insert [OF assms(1), of c k v j] assms(2,3) show "P j w"
    by (auto simp: cache_holds_def split: if_splits)
qed

lemma cache_holds_get: "lru_lawful L \<Longrightarrow> cache_holds L P (snd (cache_get L c k)) \<longleftrightarrow> cache_holds L P c"
  by (simp add: cache_holds_def cached_get)

lemma cache_holds_new: "lru_lawful L \<Longrightarrow> 0 < n \<Longrightarrow> cache_holds L P (cache_new L n)"
  by (simp add: cache_holds_def cached_def cache_new_def lru_lawfulD(12))

lemma cache_holds_clear: "lru_lawful L \<Longrightarrow> cache_holds L P (cache_clear L c)"
  by (auto simp: cache_holds_def cached_def cache_clear_def lru_lawfulD(10) split: if_splits)

lemma cache_holds_remove: "lru_lawful L \<Longrightarrow> cache_holds L P c \<Longrightarrow> cache_holds L P (snd (cache_remove L c k))"
  by (auto simp: cache_holds_def cached_def cache_remove_def lru_lawfulD(8) split_beta split: if_splits)

text \<open>A second insertion for a key displaces the first: the last to arrive wins.\<close>
lemma last_insert_wins:
  assumes "lru_lawful L" and "\<not> rc_poisoned c"
  shows "fst (cache_get L (cache_insert L (cache_insert L c k first) k second) k) = Some second"
  using assms by (simp add: fst_cache_get cached_def cache_insert_def lru_lawfulD(4))

lemma cache_len_bound:
  assumes "lru_lawful L" and "lru_cap L (rc_inner c) = rc_capacity c"
  shows "cache_len L c \<le> rc_capacity c"
  using lru_lawfulD(14) [OF assms(1), of "rc_inner c"] assms(2) by (simp add: cache_len_def)

text \<open>The cache is transparent: while what it holds is what the loader produces and the other
  threads keep it so, reading through it returns exactly what the loader returns, whether the
  entry was cached, loaded, displaced by another thread or the lock was poisoned, errors
  included, and what it holds stays what the loader produces.\<close>
theorem read_through_transparent:
  assumes "lru_lawful L" and "cache_holds L (\<lambda>k v. load k = Inr v) c"
    and "\<And>c. cache_holds L (\<lambda>k v. load k = Inr v) c \<Longrightarrow> cache_holds L (\<lambda>k v. load k = Inr v) (meanwhile c)"
    and "\<And>c. cache_holds L (\<lambda>k v. load k = Inr v) c \<Longrightarrow> cache_holds L (\<lambda>k v. load k = Inr v) (after c)"
  shows "fst (get_or_try_insert_with L key (load key) meanwhile after c) = load key
    \<and> cache_holds L (\<lambda>k v. load k = Inr v) (snd (get_or_try_insert_with L key (load key) meanwhile after c))"
proof (cases "cached L c key")
  case (Some v)
  with assms(2) have "load key = Inr v" by (simp add: cache_holds_def)
  with Some show ?thesis
    using fst_cache_get [OF assms(1), of c key] cache_holds_get [OF assms(1), of _ c key] assms(2)
    by (simp add: get_or_try_insert_with_def split_beta)
next
  case None
  let ?P = "\<lambda>k v. load k = Inr v" and ?c = "snd (cache_get L c key)"
  have g: "fst (cache_get L c key) = None" "cache_holds L ?P (meanwhile ?c)"
    using fst_cache_get [OF assms(1), of c key] cache_holds_get [OF assms(1), of ?P c key] assms(2,3) None by simp_all
  show ?thesis
  proof (cases "load key")
    case (Inl e)
    with g show ?thesis by (simp add: get_or_try_insert_with_def split_beta)
  next
    case (Inr fresh)
    let ?d = "after (cache_insert L (meanwhile ?c) key fresh)"
    have h: "cache_holds L ?P ?d"
      using assms(4) cache_holds_insert [of L ?P "meanwhile ?c" key fresh] assms(1) g(2) Inr by blast
    then have "\<And>v. fst (cache_get L ?d key) = Some v \<Longrightarrow> load key = Inr v"
      using fst_cache_get [OF assms(1)] by (simp add: cache_holds_def)
    with Inr g(1) h cache_holds_get [OF assms(1), of ?P ?d key] show ?thesis
      by (auto simp: get_or_try_insert_with_def Let_def split_beta split: option.splits)
  qed
qed

subsection \<open>An instance for the witness\<close>

text \<open>The simplest lawful cache of one entry.\<close>
definition toy_lru :: "(nat \<times> ('k \<times> 'v) option, 'k, 'v) lru" where
  "toy_lru = \<lparr>lru_new = (\<lambda>n. (n, None)),
     lru_get = (\<lambda>(n, e) k. (case e of Some (j, v) \<Rightarrow> if j = k then Some v else None | None \<Rightarrow> None, (n, e))),
     lru_put = (\<lambda>(n, e) k v. (n, Some (k, v))),
     lru_pop = (\<lambda>(n, e) k. case e of Some (j, v) \<Rightarrow> if j = k then (Some v, (n, None)) else (None, (n, e))
        | None \<Rightarrow> (None, (n, e))),
     lru_clear = (\<lambda>(n, e). (n, None)), lru_len = (\<lambda>(n, e). if n = 0 \<or> e = None then 0 else 1), lru_cap = fst,
     lru_peek = (\<lambda>(n, e) k. case e of Some (j, v) \<Rightarrow> if j = k then Some v else None | None \<Rightarrow> None)\<rparr>"

lemma toy_lru_lawful: "lru_lawful toy_lru"
  by (auto simp: lru_lawful_def toy_lru_def fun_eq_iff split: option.splits)

theorem read_through_transparent_witness:
  "fst (get_or_try_insert_with toy_lru ''a'' ((\<lambda>_. Inr 7 :: string + nat) ''a'')
      id (\<lambda>c. cache_insert toy_lru c ''b'' 7) (cache_new toy_lru 1)) = (Inr 7 :: string + nat)"
  using read_through_transparent [of toy_lru "\<lambda>_. Inr 7 :: string + nat" "cache_new toy_lru 1" id
      "\<lambda>c. cache_insert toy_lru c ''b'' 7" "''a''"]
  by (simp add: toy_lru_lawful cache_holds_new cache_holds_insert)

end
