(* ===== verification/Symbolicate.thy ===== *)
theory Symbolicate
  imports SourceMaps Json AttachmentStore
begin

text \<open>
  Symbolication of JavaScript frames, \<^verbatim>\<open>self-hosted/server/src/symbolicate.rs\<close>: which uploaded
  source map a frame is tried against first (\<open>ranked\<close>), the rewriting of one frame
  (\<open>rewrite_frame\<close>) and of an error with its chain of causes (\<open>walk_causes\<close>), and the maps of a
  release, read from the blob store through the cache (\<open>maps_for_release\<close>).  A payload is the
  JSON value it is in the code; rewriting in place is returning the new value.
\<close>

subsection \<open>Which map first\<close>

text \<open>\<open>s.find(p)\<close>, giving what follows the first occurrence.\<close>
fun after_first :: "string \<Rightarrow> string \<Rightarrow> string option" where
  "after_first p [] = None"
| "after_first p (c # s) = (if starts_with (c # s) p then Some (drop (length p) (c # s)) else after_first p s)"

definition strip_suffix :: "string \<Rightarrow> string \<Rightarrow> string" where
  "strip_suffix p s = (case strip_prefix (rev s) (rev p) of Some r \<Rightarrow> rev r | None \<Rightarrow> s)"

definition comparable_path :: "string \<Rightarrow> string" where
  "comparable_path f =
     (let no_query = takeWhile (\<lambda>c. c \<noteq> CHR ''?'' \<and> c \<noteq> CHR ''#'') f;
          no_scheme = (case after_first ''://'' no_query of
              Some rest \<Rightarrow> tl (dropWhile (\<lambda>c. c \<noteq> CHR ''/'') rest)
            | None \<Rightarrow> no_query);
          trimmed = trim_start_of [''/''] (trim_start_of [''./''] no_scheme)
      in strip_suffix ''.map'' trimmed)"

text \<open>Over the segments from the last one on.\<close>
fun shared_prefix :: "string list \<Rightarrow> string list \<Rightarrow> nat" where
  "shared_prefix (l # ls) (r # rs) = (if l = r \<and> l \<noteq> [] then Suc (shared_prefix ls rs) else 0)"
| "shared_prefix _ _ = 0"

definition shared_suffix_segments :: "string \<Rightarrow> string \<Rightarrow> nat" where
  "shared_suffix_segments left right =
     shared_prefix (rev (split_on (CHR ''/'') left)) (rev (split_on (CHR ''/'') right))"

record candidate =
  cd_name :: string
  cd_map :: parsed_map

definition map_score :: "string \<Rightarrow> candidate \<Rightarrow> nat" where
  "map_score frame_file c = shared_suffix_segments (comparable_path frame_file) (comparable_path (cd_name c))"

definition ranked :: "candidate list \<Rightarrow> string \<Rightarrow> parsed_map list" where
  "ranked maps frame_file =
     map snd (sort_key (\<lambda>(score, _). - int score) (map (\<lambda>c. (map_score frame_file c, cd_map c)) maps))"

subsection \<open>One frame\<close>

definition CONTEXT_LINES :: nat where "CONTEXT_LINES = 11"
definition MAX_CONTEXT_LINE_CHARS :: nat where "MAX_CONTEXT_LINE_CHARS = 300"

definition ellipsis :: string where "ellipsis = [CHR 0xE2, CHR 0x80, CHR 0xA6]"

definition clip_line :: "string \<Rightarrow> string" where
  "clip_line line = (if char_count line \<le> MAX_CONTEXT_LINE_CHARS then line
     else take_chars MAX_CONTEXT_LINE_CHARS line @ ellipsis)"

definition context_lines_json :: "string list \<Rightarrow> json" where
  "context_lines_json lines = JArr (map (\<lambda>l. JStr (clip_line l)) lines)"

definition json_nat :: "nat \<Rightarrow> json" where "json_nat n = JInt (int n)"

definition symbolicated :: "json \<Rightarrow> bool" where
  "symbolicated frame \<longleftrightarrow> Option.bind (jget ''symbolicated'' frame) as_bool = Some True"

text \<open>The members a minified position is read from.\<close>
definition position_keys :: "json \<Rightarrow> string \<times> string" where
  "position_keys frame =
     (if symbolicated frame then (''minifiedLine'', ''minifiedColumn'') else (''line'', ''column''))"

definition u64_at :: "string \<Rightarrow> json \<Rightarrow> nat option" where
  "u64_at k frame = Option.bind (jget k frame) as_u64"

text \<open>A frame of an earlier pass that no longer resolves gets its minified position back.\<close>
definition repaired :: "json \<Rightarrow> (bool \<times> json)" where
  "repaired frame =
     (case (jget ''minifiedLine'' frame, jget ''minifiedColumn'' frame) of
        (Some l, Some c) \<Rightarrow>
          (True, jdel ''minifiedFile'' (jdel ''minifiedColumn'' (jdel ''minifiedLine'' (jdel ''symbolicated''
            (jset ''column'' c (jset ''line'' l frame))))))
      | _ \<Rightarrow> (False, frame))"

text \<open>\<open>!file.contains("node_modules/")\<close>\<close>
definition in_app :: "string \<Rightarrow> bool" where
  "in_app src \<longleftrightarrow> \<not> str_contains src ''node_modules/''"

definition with_origin :: "nat \<Rightarrow> nat \<Rightarrow> json \<Rightarrow> json" where
  "with_origin line column frame =
     (let frame = jset ''minifiedColumn'' (json_nat column) (jset ''minifiedLine'' (json_nat line) frame)
      in case jget ''file'' frame of Some f \<Rightarrow> jset ''minifiedFile'' f frame | None \<Rightarrow> frame)"

definition with_position :: "resolution \<Rightarrow> json \<Rightarrow> json" where
  "with_position res frame =
     (let frame = jset ''column'' (json_nat (res_column res)) (jset ''line'' (json_nat (res_line res)) frame);
          frame = (case res_file res of
              Some src \<Rightarrow> jset ''inApp'' (JBool (in_app src)) (jset ''file'' (JStr src) frame)
            | None \<Rightarrow> frame)
      in case res_function res of Some f \<Rightarrow> jset ''function'' (JStr f) frame | None \<Rightarrow> frame)"

definition reading_window :: "parsed_map \<Rightarrow> resolution \<Rightarrow> source_window option" where
  "reading_window m res =
     (if 0 < res_line res then source_window m (res_src_id res) (res_line res - 1) CONTEXT_LINES else None)"

definition with_context :: "source_window option \<Rightarrow> json \<Rightarrow> json" where
  "with_context w frame =
     (case w of
        Some win \<Rightarrow> jset ''postContext'' (context_lines_json (win_after win))
          (jset ''contextLine'' (JStr (clip_line (win_at win)))
            (jset ''preContext'' (context_lines_json (win_before win)) frame))
      | None \<Rightarrow> frame)"

definition rewritten :: "parsed_map \<Rightarrow> nat \<Rightarrow> nat \<Rightarrow> resolution \<Rightarrow> json \<Rightarrow> json" where
  "rewritten m line column res frame =
     jset ''symbolicated'' (JBool True)
       (with_context (reading_window m res) (with_position res (with_origin line column frame)))"

text \<open>Whether the map covered the frame, and the frame.\<close>
definition rewrite_frame :: "parsed_map \<Rightarrow> json \<Rightarrow> bool \<times> json" where
  "rewrite_frame m frame =
     (if \<not> is_object frame then (False, frame)
      else if jget ''preContext'' frame \<noteq> None then (False, frame)
      else
        let (line_key, column_key) = position_keys frame in
        (case (u64_at line_key frame, u64_at column_key frame) of
           (Some line, Some column) \<Rightarrow>
             if U32_MAX < line \<or> U32_MAX < column then (False, frame)
             else (case resolve m line column of
                 None \<Rightarrow> if symbolicated frame then repaired frame else (False, frame)
               | Some res \<Rightarrow> (True, rewritten m line column res frame))
         | _ \<Rightarrow> (False, frame)))"

subsection \<open>The frames of an error and of its causes\<close>

definition frame_file :: "json \<Rightarrow> string" where
  "frame_file frame =
     unwrap_or [] (Option.bind (case jget ''minifiedFile'' frame of Some v \<Rightarrow> Some v | None \<Rightarrow> jget ''file'' frame) as_str)"

text \<open>The first map that covers the frame rewrites it.\<close>
fun rewrite_first :: "parsed_map list \<Rightarrow> json \<Rightarrow> bool \<times> json" where
  "rewrite_first [] frame = (False, frame)"
| "rewrite_first (m # ms) frame =
     (let (hit, frame) = rewrite_frame m frame in if hit then (True, frame) else rewrite_first ms frame)"

definition walk_frame :: "candidate list \<Rightarrow> json \<Rightarrow> bool \<times> json" where
  "walk_frame maps frame = rewrite_first (ranked maps (frame_file frame)) frame"

definition walk_stack :: "candidate list \<Rightarrow> json \<Rightarrow> nat \<times> json" where
  "walk_stack maps error =
     (case Option.bind (jget ''stack'' error) as_array of
        None \<Rightarrow> (0, error)
      | Some frames \<Rightarrow>
          let rs = map (walk_frame maps) frames
          in (length (filter fst rs), jset ''stack'' (JArr (map snd rs)) error))"

lemma walk_stack_cause [simp]: "jget ''cause'' (snd (walk_stack maps error)) = jget ''cause'' error"
proof (cases "Option.bind (jget ''stack'' error) as_array")
  case (Some frames)
  then obtain v where "jget ''stack'' error = Some v" by (cases "jget ''stack'' error") auto
  then have "is_object error" by (rule jget_is_object)
  with Some show ?thesis by (simp add: walk_stack_def Let_def)
qed (simp add: walk_stack_def)

function walk_causes :: "candidate list \<Rightarrow> json \<Rightarrow> nat \<times> json" where
  "walk_causes maps error =
     (let (n, error') = walk_stack maps error in
      case jget ''cause'' error' of
        None \<Rightarrow> (n, error')
      | Some cause \<Rightarrow>
          if cause = JNull then (n, error')
          else let (k, cause') = walk_causes maps cause in (n + k, jset ''cause'' cause' error'))"
  by pat_completeness auto
termination
proof (relation "measure (\<lambda>(maps, error). size error)")
  fix maps error x n error' cause
  assume "x = walk_stack maps error" and "(n, error') = x" and "jget ''cause'' error' = Some cause"
  then have "jget ''cause'' error = Some cause" by (metis snd_conv walk_stack_cause)
  then show "((maps, cause), (maps, error)) \<in> measure (\<lambda>(maps, error). size error)"
    by (simp add: jget_size)
qed simp

declare walk_causes.simps [simp del]

text \<open>The recursion with the cause read from the error as it came.\<close>
lemma walk_causes_rec:
  "walk_causes maps error =
     (let (n, error') = walk_stack maps error in
      case jget ''cause'' error of
        None \<Rightarrow> (n, error')
      | Some cause \<Rightarrow>
          if cause = JNull then (n, error')
          else let (k, cause') = walk_causes maps cause in (n + k, jset ''cause'' cause' error'))"
  by (subst walk_causes.simps) (metis (no_types, lifting) case_prod_unfold walk_stack_cause)

definition walk_payload :: "candidate list \<Rightarrow> json \<Rightarrow> nat \<times> json" where
  "walk_payload maps payload =
     (case jget ''error'' payload of
        None \<Rightarrow> (0, payload)
      | Some error \<Rightarrow> let (n, error) = walk_causes maps error in (n, jset ''error'' error payload))"

subsection \<open>Where a frame pointed\<close>

lemma json_nat_u64: "n \<le> U32_MAX \<Longrightarrow> as_u64 (json_nat n) = Some n"
  by (simp add: as_u64_def json_nat_def U32_MAX_def)

lemma is_object_rewritten [simp]:
  "is_object (with_origin l c f) = is_object f" "is_object (with_position res f) = is_object f"
  "is_object (with_context w f) = is_object f" "is_object (rewritten m l c res f) = is_object f"
proof -
  show o: "is_object (with_origin l c f) = is_object f" for f
    by (simp add: with_origin_def Let_def split: option.splits)
  show p: "is_object (with_position res f) = is_object f" for f
    by (simp add: with_position_def Let_def split: option.splits)
  show c: "is_object (with_context w f) = is_object f" for w f
    by (simp add: with_context_def split: option.splits)
  show "is_object (rewritten m l c res f) = is_object f" by (simp add: rewritten_def o p c)
qed

lemma jget_with_origin:
  "is_object f \<Longrightarrow> jget k (with_origin l c f) =
     (if k = ''minifiedFile'' \<and> jget ''file'' f \<noteq> None then jget ''file'' f
      else if k = ''minifiedColumn'' then Some (json_nat c)
      else if k = ''minifiedLine'' then Some (json_nat l) else jget k f)"
  by (auto simp: with_origin_def Let_def split: option.splits)

lemma jget_with_position:
  "is_object f \<Longrightarrow> k \<notin> {''file'', ''inApp'', ''function'', ''line'', ''column''}
     \<Longrightarrow> jget k (with_position res f) = jget k f"
  "is_object f \<Longrightarrow> jget ''line'' (with_position res f) = Some (json_nat (res_line res))"
  "is_object f \<Longrightarrow> jget ''column'' (with_position res f) = Some (json_nat (res_column res))"
  "is_object f \<Longrightarrow> res_file res = Some src \<Longrightarrow> jget ''file'' (with_position res f) = Some (JStr src)"
  "is_object f \<Longrightarrow> res_file res = Some src \<Longrightarrow> jget ''inApp'' (with_position res f) = Some (JBool (in_app src))"
  "is_object f \<Longrightarrow> res_function res = Some g \<Longrightarrow> jget ''function'' (with_position res f) = Some (JStr g)"
  by (auto simp: with_position_def Let_def split: option.splits)

lemma jget_with_context:
  "is_object f \<Longrightarrow> k \<notin> {''preContext'', ''contextLine'', ''postContext''} \<Longrightarrow> jget k (with_context w f) = jget k f"
  "jget k (with_context None f) = jget k f"
  "is_object f \<Longrightarrow> jget ''preContext'' (with_context (Some win) f) = Some (context_lines_json (win_before win))"
  by (auto simp: with_context_def split: option.splits)

text \<open>What a rewritten frame says of where it pointed and where it points now.\<close>
lemma jget_rewritten:
  assumes "is_object f"
  shows "jget ''symbolicated'' (rewritten m l c res f) = Some (JBool True)"
    and "jget ''minifiedLine'' (rewritten m l c res f) = Some (json_nat l)"
    and "jget ''minifiedColumn'' (rewritten m l c res f) = Some (json_nat c)"
    and "jget ''minifiedFile'' (rewritten m l c res f) = (case jget ''file'' f of Some v \<Rightarrow> Some v | None \<Rightarrow> jget ''minifiedFile'' f)"
    and "jget ''line'' (rewritten m l c res f) = Some (json_nat (res_line res))"
    and "jget ''column'' (rewritten m l c res f) = Some (json_nat (res_column res))"
    and "res_file res = Some src \<Longrightarrow> jget ''file'' (rewritten m l c res f) = Some (JStr src)"
    and "res_file res = Some src \<Longrightarrow> jget ''inApp'' (rewritten m l c res f) = Some (JBool (in_app src))"
    and "res_function res = Some g \<Longrightarrow> jget ''function'' (rewritten m l c res f) = Some (JStr g)"
    and "reading_window m res = None \<Longrightarrow> jget ''preContext'' (rewritten m l c res f) = jget ''preContext'' f"
    and "reading_window m res = Some w
      \<Longrightarrow> jget ''preContext'' (rewritten m l c res f) = Some (context_lines_json (win_before w))"
  using assms
  by (simp_all add: rewritten_def jget_with_context jget_with_position jget_with_origin split: option.splits)

lemma symbolicated_rewritten [simp]: "is_object f \<Longrightarrow> symbolicated (rewritten m l c res f)"
  by (simp add: symbolicated_def jget_rewritten as_bool_def)

definition raw_position :: "json \<Rightarrow> nat option \<times> nat option" where
  "raw_position frame = (let (line_key, column_key) = position_keys frame
     in (u64_at line_key frame, u64_at column_key frame))"

text \<open>The ways one rewriting can go.\<close>
lemma rewrite_frame_cases:
  obtains (left) "rewrite_frame m f = (False, f)"
  | (covered) line column res where "is_object f" and "jget ''preContext'' f = None"
      and "raw_position f = (Some line, Some column)" and "line \<le> U32_MAX" and "column \<le> U32_MAX"
      and "resolve m line column = Some res" and "rewrite_frame m f = (True, rewritten m line column res f)"
  | (repaired) line column where "is_object f" and "jget ''preContext'' f = None" and "symbolicated f"
      and "raw_position f = (Some line, Some column)" and "line \<le> U32_MAX" and "column \<le> U32_MAX"
      and "resolve m line column = None" and "rewrite_frame m f = repaired f" and "fst (repaired f)"
proof (cases "is_object f \<and> jget ''preContext'' f = None \<and> (\<exists>line column. raw_position f = (Some line, Some column)
    \<and> line \<le> U32_MAX \<and> column \<le> U32_MAX)")
  case False
  then have "rewrite_frame m f = (False, f)"
    by (auto simp: rewrite_frame_def raw_position_def Let_def not_less split: prod.splits option.splits)
  then show ?thesis by (rule left)
next
  case True
  then obtain line column where r: "is_object f" "jget ''preContext'' f = None" "raw_position f = (Some line, Some column)"
    "line \<le> U32_MAX" "column \<le> U32_MAX" by blast
  then have e: "rewrite_frame m f = (case resolve m line column of
      None \<Rightarrow> if symbolicated f then repaired f else (False, f)
    | Some res \<Rightarrow> (True, rewritten m line column res f))"
    by (auto simp: rewrite_frame_def raw_position_def split: prod.splits)
  show ?thesis
  proof (cases "resolve m line column")
    case (Some res)
    with e r show ?thesis by (intro covered) auto
  next
    case None
    show ?thesis
    proof (cases "symbolicated f")
      case True
      then have "fst (repaired f)"
        using r(3) by (cases "jget ''minifiedLine'' f"; cases "jget ''minifiedColumn'' f")
          (simp_all add: repaired_def raw_position_def position_keys_def u64_at_def)
      with None e r True show ?thesis by (intro repaired) auto
    qed (use None e left in auto)
  qed
qed

lemma raw_position_rewritten:
  "is_object f \<Longrightarrow> l \<le> U32_MAX \<Longrightarrow> c \<le> U32_MAX \<Longrightarrow> raw_position (rewritten m l c res f) = (Some l, Some c)"
  by (simp add: raw_position_def position_keys_def u64_at_def jget_rewritten json_nat_u64)

lemma repaired_members:
  assumes "fst (repaired f)" and "is_object f"
  shows "\<not> symbolicated (snd (repaired f))" and "jget ''line'' (snd (repaired f)) = jget ''minifiedLine'' f"
    and "jget ''column'' (snd (repaired f)) = jget ''minifiedColumn'' f" and "is_object (snd (repaired f))"
    and "jget ''preContext'' (snd (repaired f)) = jget ''preContext'' f"
  using assms by (auto simp: repaired_def symbolicated_def split: option.splits)

lemma raw_position_repaired:
  assumes "fst (repaired f)" and "is_object f" and "symbolicated f"
  shows "raw_position (snd (repaired f)) = raw_position f"
  using repaired_members [OF assms(1,2)] assms(3) by (simp add: raw_position_def position_keys_def u64_at_def)

lemma raw_position_rewrite_frame [simp]: "raw_position (snd (rewrite_frame m f)) = raw_position f"
  by (cases rule: rewrite_frame_cases [of m f]) (simp_all add: raw_position_rewritten raw_position_repaired)

lemma raw_position_rewrite_first [simp]: "raw_position (snd (rewrite_first ms f)) = raw_position f"
proof (induction ms arbitrary: f)
  case (Cons m ms)
  from Cons.IH [of "snd (rewrite_frame m f)"] show ?case by (simp add: split_beta)
qed simp

text \<open>The positions of an error's frames, of its cause's, and so on.\<close>
function raw_positions :: "json \<Rightarrow> (nat option \<times> nat option) list list" where
  "raw_positions error =
     map raw_position (case Option.bind (jget ''stack'' error) as_array of None \<Rightarrow> [] | Some frames \<Rightarrow> frames)
     # (case jget ''cause'' error of None \<Rightarrow> [] | Some cause \<Rightarrow> if cause = JNull then [] else raw_positions cause)"
  by pat_completeness auto
termination
  by (relation "measure size") (auto simp: jget_size)

declare raw_positions.simps [simp del]

definition stack_frames :: "json \<Rightarrow> json list" where
  "stack_frames error = (case Option.bind (jget ''stack'' error) as_array of None \<Rightarrow> [] | Some frames \<Rightarrow> frames)"

lemma stack_frames_walk: "stack_frames (snd (walk_stack maps error)) = map (\<lambda>f. snd (walk_frame maps f)) (stack_frames error)"
proof (cases "Option.bind (jget ''stack'' error) as_array")
  case (Some frames)
  then obtain v where "jget ''stack'' error = Some v" by (cases "jget ''stack'' error") auto
  then have "is_object error" by (rule jget_is_object)
  with Some show ?thesis by (simp add: stack_frames_def walk_stack_def Let_def as_array_def)
qed (simp add: stack_frames_def walk_stack_def)

lemma raw_positions_rec:
  "raw_positions error = map raw_position (stack_frames error)
     # (case jget ''cause'' error of None \<Rightarrow> [] | Some cause \<Rightarrow> if cause = JNull then [] else raw_positions cause)"
  by (subst raw_positions.simps) (simp add: stack_frames_def)

text \<open>A walk leaves a null or absent cause, and nothing else becomes null.\<close>
lemma walk_not_null: "error \<noteq> JNull \<Longrightarrow> snd (walk_causes maps error) \<noteq> JNull"
proof -
  assume e: "error \<noteq> JNull"
  have s: "snd (walk_stack maps error) \<noteq> JNull"
    using e by (cases "snd (walk_stack maps error) = error")
      (auto simp: walk_stack_def Let_def jset_def split: option.splits json.splits)
  have "jset k x v \<noteq> JNull" if "v \<noteq> JNull" for k x v
    using that by (auto simp: jset_def split: json.splits)
  with s show ?thesis
    by (subst walk_causes_rec) (auto simp: split_beta split: option.splits)
qed

lemma raw_positions_walk_causes: "raw_positions (snd (walk_causes maps error)) = raw_positions error"
proof (induction maps error rule: walk_causes.induct)
  case (1 maps error)
  let ?e = "snd (walk_stack maps error)"
  have st: "map raw_position (stack_frames ?e) = map raw_position (stack_frames error)"
    by (simp add: stack_frames_walk walk_frame_def)
  show ?case
  proof (cases "\<exists>cause. jget ''cause'' error = Some cause \<and> cause \<noteq> JNull")
    case True
    then obtain cause where c: "jget ''cause'' error = Some cause" "cause \<noteq> JNull" by blast
    have o: "is_object ?e" using jget_is_object [of "''cause''" ?e cause] c by simp
    have w: "snd (walk_causes maps error) = jset ''cause'' (snd (walk_causes maps cause)) ?e"
      using c by (subst walk_causes_rec) (simp add: split_beta)
    have "raw_positions (snd (walk_causes maps cause)) = raw_positions cause"
      by (rule "1.IH" [OF refl prod.collapse]) (use c in simp_all)
    moreover have "snd (walk_causes maps cause) \<noteq> JNull" using c(2) by (rule walk_not_null)
    moreover have "stack_frames (jset ''cause'' x ?e) = stack_frames ?e" for x
      using o by (simp add: stack_frames_def)
    ultimately show ?thesis
      using c o st by (subst (1 2) raw_positions_rec) (simp add: w)
  next
    case False
    then have "snd (walk_causes maps error) = ?e"
      by (subst walk_causes_rec) (auto simp: split_beta split: option.splits)
    with st show ?thesis
      by (subst (1 2) raw_positions_rec) simp
  qed
qed

text \<open>C40. Symbolication never loses where a crash was: whatever maps are tried, stale or wrong ones
  included, and however often, every frame of the error and of every cause keeps the minified
  position it arrived with, readable from the same members.\<close>
theorem raw_positions_survive:
  "raw_positions (snd (walk_causes maps error)) = raw_positions error"
  by (rule raw_positions_walk_causes)

subsection \<open>Which map rewrites a frame\<close>

lemma insort_key_map: "insort_key f (g x) (map g xs) = map g (insort_key (\<lambda>x. f (g x)) x xs)"
  by (induction xs) auto

lemma sort_key_map: "sort_key f (map g xs) = map g (sort_key (\<lambda>x. f (g x)) xs)"
  by (induction xs) (simp_all add: insort_key_map)

lemma ranked_sort_key: "ranked maps ff = map cd_map (sort_key (\<lambda>c. - int (map_score ff c)) maps)"
  by (simp add: ranked_def sort_key_map comp_def)

text \<open>The first element found in a stably sorted list: of those that qualify, one with the least
  key, and the earliest of these in the original order.\<close>
lemma find_in_set: "List.find P xs = Some x \<Longrightarrow> x \<in> set xs"
  by (induction xs) (auto split: if_splits)

lemma find_insort_key:
  assumes "sorted (map k ys)"
  shows "List.find P (insort_key k x ys) =
    (case List.find P ys of
       None \<Rightarrow> if P x then Some x else None
     | Some y \<Rightarrow> if P x \<and> k x \<le> k y then Some x else Some y)"
  using assms
proof (induction ys)
  case (Cons y ys)
  show ?case
  proof (cases "k x \<le> k y")
    case True
    have "k x \<le> k z" if "List.find P (y # ys) = Some z" for z
    proof -
      from that have "z \<in> set (y # ys)" by (rule find_in_set)
      with Cons.prems True show ?thesis by auto
    qed
    with True show ?thesis by (auto split: option.splits)
  next
    case False
    with Cons show ?thesis by (auto split: option.splits)
  qed
qed simp

lemma find_sort_key:
  assumes "List.find P (sort_key k xs) = Some x"
  shows "\<exists>ys zs. xs = ys @ x # zs \<and> P x \<and> (\<forall>y \<in> set ys. P y \<longrightarrow> k x < k y) \<and> (\<forall>z \<in> set zs. P z \<longrightarrow> k x \<le> k z)"
  using assms
proof (induction xs arbitrary: x)
  case (Cons a xs)
  have e: "List.find P (sort_key k (a # xs)) =
    (case List.find P (sort_key k xs) of
       None \<Rightarrow> if P a then Some a else None
     | Some y \<Rightarrow> if P a \<and> k a \<le> k y then Some a else Some y)"
    by (simp add: find_insort_key)
  show ?case
  proof (cases "List.find P (sort_key k xs)")
    case None
    then have n: "\<forall>z \<in> set xs. \<not> P z" by (simp add: find_None_iff)
    from None e Cons.prems have "P a" "x = a" by (auto split: if_splits)
    with n show ?thesis by (intro exI [of _ "[]"] exI [of _ xs]) simp
  next
    case (Some y)
    from Cons.IH [OF this] obtain ys zs where xs: "xs = ys @ y # zs" "P y"
      "\<forall>z \<in> set ys. P z \<longrightarrow> k y < k z" "\<forall>z \<in> set zs. P z \<longrightarrow> k y \<le> k z" by blast
    show ?thesis
    proof (cases "P a \<and> k a \<le> k y")
      case True
      with e Some Cons.prems have "x = a" by simp
      with True xs show ?thesis by (intro exI [of _ "[]"] exI [of _ xs]) force
    next
      case False
      with e Some Cons.prems have "x = y" by simp
      with False xs show ?thesis by (intro exI [of _ "a # ys"] exI [of _ zs]) auto
    qed
  qed
qed simp

lemma rewrite_frame_False: "\<not> fst (rewrite_frame m f) \<Longrightarrow> snd (rewrite_frame m f) = f"
  by (cases rule: rewrite_frame_cases [of m f]) auto

abbreviation covers :: "json \<Rightarrow> candidate \<Rightarrow> bool" where
  "covers f c \<equiv> fst (rewrite_frame (cd_map c) f)"

lemma rewrite_first_find:
  "rewrite_first ms f = (case List.find (\<lambda>m. fst (rewrite_frame m f)) ms of None \<Rightarrow> (False, f) | Some m \<Rightarrow> rewrite_frame m f)"
  by (induction ms) (auto simp: split_beta rewrite_frame_False prod_eq_iff)

lemma find_map: "List.find P (map g xs) = map_option g (List.find (\<lambda>x. P (g x)) xs)"
  by (induction xs) auto

lemma walk_frame_find:
  "walk_frame maps f =
     (case List.find (covers f) (sort_key (\<lambda>c. - int (map_score (frame_file f) c)) maps) of
        None \<Rightarrow> (False, f) | Some c \<Rightarrow> rewrite_frame (cd_map c) f)"
  by (simp add: walk_frame_def ranked_sort_key rewrite_first_find find_map split: option.splits)

text \<open>A frame is rewritten exactly when some uploaded map covers it, never given up because
  another map was tried first; the map that rewrites it shares the deepest path with the frame
  among those that cover it, and is the most recent of these.\<close>
theorem best_covering_map:
  "if \<exists>c \<in> set maps. covers f c
   then \<exists>newer c older. maps = newer @ c # older \<and> covers f c \<and> walk_frame maps f = rewrite_frame (cd_map c) f
     \<and> (\<forall>d \<in> set newer. covers f d \<longrightarrow> map_score (frame_file f) d < map_score (frame_file f) c)
     \<and> (\<forall>d \<in> set older. covers f d \<longrightarrow> map_score (frame_file f) d \<le> map_score (frame_file f) c)
   else walk_frame maps f = (False, f)"
proof (cases "List.find (covers f) (sort_key (\<lambda>c. - int (map_score (frame_file f) c)) maps)")
  case None
  then have "\<not> (\<exists>c \<in> set maps. covers f c)" by (simp add: find_None_iff)
  with None show ?thesis by (simp add: walk_frame_find)
next
  case (Some c)
  from find_sort_key [OF Some] obtain newer older where m: "maps = newer @ c # older" "covers f c"
    "\<forall>d \<in> set newer. covers f d \<longrightarrow> - int (map_score (frame_file f) c) < - int (map_score (frame_file f) d)"
    "\<forall>d \<in> set older. covers f d \<longrightarrow> - int (map_score (frame_file f) c) \<le> - int (map_score (frame_file f) d)" by blast
  have "walk_frame maps f = rewrite_frame (cd_map c) f" using Some by (simp add: walk_frame_find)
  moreover have "\<exists>c \<in> set maps. covers f c" using m(1,2) by auto
  moreover have "\<exists>newer c older. maps = newer @ c # older \<and> covers f c \<and> walk_frame maps f = rewrite_frame (cd_map c) f
     \<and> (\<forall>d \<in> set newer. covers f d \<longrightarrow> map_score (frame_file f) d < map_score (frame_file f) c)
     \<and> (\<forall>d \<in> set older. covers f d \<longrightarrow> map_score (frame_file f) d \<le> map_score (frame_file f) c)"
    using m calculation(1) by (intro exI [of _ newer] exI [of _ c] exI [of _ older]) simp
  ultimately show ?thesis by simp
qed

text \<open>The depth of a shared path: the longest common end made of non-empty segments.\<close>
lemma shared_prefix_take: "take (shared_prefix ls rs) ls = take (shared_prefix ls rs) rs"
  by (induction ls rs rule: shared_prefix.induct) auto

subsection \<open>Repeated passes\<close>

text \<open>A second pass finds every member it would set already set, but for the bundle's name, which
  it overwrites with the resolved path.\<close>
lemma rewritten_again:
  assumes o: "is_object f" and "reading_window m res = None" and "res_file res = Some src"
  shows "rewritten m l c res (rewritten m l c res f) = jset ''minifiedFile'' (JStr src) (rewritten m l c res f)"
proof -
  let ?f = "rewritten m l c res f" and ?g = "jset ''minifiedFile'' (JStr src) (rewritten m l c res f)"
  have og: "is_object ?g" using o by simp
  have org: "with_origin l c ?f = ?g"
    using o assms(3) by (simp add: with_origin_def Let_def jset_same jget_rewritten)
  have pos: "with_position res ?g = ?g"
    using og o assms(3)
    by (cases "res_function res") (simp_all add: with_position_def Let_def jset_same jget_rewritten)
  show ?thesis
    using assms(2) o by (subst rewritten_def) (simp add: org pos with_context_def jset_same jget_rewritten)
qed

text \<open>Passes are repeatable: after a map has rewritten a frame, the same map changes nothing of it
  again except the recorded name of the bundle; in particular the position it points to, the
  function and the source lines never drift.\<close>
theorem second_pass_changes_nothing:
  assumes "rewrite_frame m f = (True, f')"
  shows "jdel ''minifiedFile'' (snd (rewrite_frame m f')) = jdel ''minifiedFile'' f'"
proof (cases rule: rewrite_frame_cases [of m f])
  case left
  with assms show ?thesis by simp
next
  case (covered line column res)
  then have f': "f' = rewritten m line column res f" using assms by simp
  show ?thesis
  proof (cases "reading_window m res")
    case None
    obtain src where "res_file res = Some src" using resolve_has_file [OF covered(6)] by blast
    note again = rewritten_again [OF covered(1) None this, of line column]
    have "rewrite_frame m f' = (True, rewritten m line column res f')"
      using covered(1,2,4,5,6) None
      by (simp add: rewrite_frame_def f' jget_rewritten position_keys_def u64_at_def json_nat_u64 not_less)
    then show ?thesis by (simp add: f' again)
  next
    case (Some w)
    then have "jget ''preContext'' f' \<noteq> None" using covered(1) by (simp add: f' jget_rewritten)
    then have "rewrite_frame m f' = (False, f')" by (simp add: rewrite_frame_def)
    then show ?thesis by simp
  qed
next
  case (repaired line column)
  have f': "f' = snd (repaired f)" using assms repaired(8) by (metis snd_conv)
  note r = repaired_members [OF repaired(9,1)]
  have "raw_position f' = (Some line, Some column)"
    using repaired raw_position_repaired [OF repaired(9,1,3)] by (simp add: f')
  then have "rewrite_frame m f' = (False, f')"
    using repaired(5,6,7) r f' by (simp add: rewrite_frame_def raw_position_def position_keys_def)
  then show ?thesis by simp
qed

text \<open>So the name of the bundle is lost: a second pass over a frame whose map embeds no sources
  records the resolved path as the file the minified position is in.\<close>
lemma second_pass_forgets_bundle:
  assumes "rewrite_frame m f = (True, f')" and "\<not> symbolicated f" and "resolve m line column = Some res"
    and "raw_position f = (Some line, Some column)"
    and "reading_window m res = None" and "res_file res = Some src"
  shows "jget ''minifiedFile'' f' = (case jget ''file'' f of Some v \<Rightarrow> Some v | None \<Rightarrow> jget ''minifiedFile'' f)"
    and "rewrite_frame m f' = (True, jset ''minifiedFile'' (JStr src) f')"
proof -
  show "jget ''minifiedFile'' f' = (case jget ''file'' f of Some v \<Rightarrow> Some v | None \<Rightarrow> jget ''minifiedFile'' f)"
  proof (cases rule: rewrite_frame_cases [of m f])
    case (covered l c r)
    then have "f' = rewritten m l c r f" using assms(1) by simp
    with covered(1) show ?thesis by (simp add: jget_rewritten)
  qed (use assms in simp_all)
  show "rewrite_frame m f' = (True, jset ''minifiedFile'' (JStr src) f')"
  proof (cases rule: rewrite_frame_cases [of m f])
    case (covered l c r)
    with assms have f': "f' = rewritten m l c r f" "r = res" by simp_all
    with covered assms show ?thesis
      by (simp add: rewrite_frame_def jget_rewritten position_keys_def u64_at_def json_nat_u64 not_less rewritten_again)
  qed (use assms in simp_all)
qed

subsection \<open>The maps of a release\<close>

record artifact =
  ar_release :: uuid
  ar_name :: string
  ar_kind :: string
  ar_hash :: string
  ar_created :: instant

text \<open>The tables: a release's project and name, and the uploaded artifacts.\<close>
record artifact_db =
  ad_releases :: "(uuid \<times> uuid \<times> string) list"
  ad_artifacts :: "artifact list"

definition artifact_rows :: "artifact_db \<Rightarrow> uuid \<Rightarrow> string \<Rightarrow> string \<Rightarrow> artifact list" where
  "artifact_rows db project release kind =
     sort_key (\<lambda>a. - int (ar_created a))
       (filter (\<lambda>a. ar_kind a = kind \<and> map_of (ad_releases db) (ar_release a) = Some (project, release))
         (ad_artifacts db))"

definition MAX_MAPS_PER_RELEASE :: nat where "MAX_MAPS_PER_RELEASE = 8"

datatype symbol_error = QueryFailed | InvalidArtifactHash | BlobFailed blob_error

text \<open>
  What a pass runs in: the libraries, the blob store's \<open>get\<close>, the tables (\<open>None\<close> when the query
  fails) and what other requests do to the shared cache before each operation on it.
\<close>
record ('c, 'i, 'e) symbol_env =
  se_lru :: "('c, string, parsed_map) lru"
  se_lib :: "('i, 'e) sourcemap_lib"
  se_get :: "bytes \<Rightarrow> blob_error + bytes"
  se_db :: "artifact_db option"
  se_others :: "'c resolver_cache \<Rightarrow> 'c resolver_cache"

definition new_cache :: "('c, string, parsed_map) lru \<Rightarrow> 'c resolver_cache" where
  "new_cache L = cache_new L 16"

definition load_map :: "('c, 'i, 'e) symbol_env \<Rightarrow> string \<Rightarrow> symbol_error + parsed_map option" where
  "load_map E hash =
     (case from_hex hash of
        Inl _ \<Rightarrow> Inl InvalidArtifactHash
      | Inr h \<Rightarrow>
          (case se_get E h of
             Inl e \<Rightarrow> Inl (BlobFailed e)
           | Inr bytes \<Rightarrow> Inr (case parse_map (se_lib E) bytes of Inl _ \<Rightarrow> None | Inr m \<Rightarrow> Some m)))"

fun collect_maps ::
  "('c, 'i, 'e) symbol_env \<Rightarrow> bool \<Rightarrow> 'c resolver_cache \<Rightarrow> artifact list
     \<Rightarrow> (symbol_error + candidate list) \<times> 'c resolver_cache" where
  "collect_maps E strict c [] = (Inr [], c)"
| "collect_maps E strict c (row # rows) =
     (let (hit, c) = cache_get (se_lru E) (se_others E c) (ar_hash row);
          push = (\<lambda>m (r, c). (map_sum id (\<lambda>cs. \<lparr>cd_name = ar_name row, cd_map = m\<rparr> # cs) r, c))
      in case hit of
        Some m \<Rightarrow> push m (collect_maps E strict c rows)
      | None \<Rightarrow>
          (case load_map E (ar_hash row) of
             Inr (Some m) \<Rightarrow>
               push m (collect_maps E strict (cache_insert (se_lru E) (se_others E c) (ar_hash row) m) rows)
           | Inr None \<Rightarrow> collect_maps E strict c rows
           | Inl e \<Rightarrow> if strict then (Inl e, c) else collect_maps E strict c rows))"

definition maps_for_release ::
  "('c, 'i, 'e) symbol_env \<Rightarrow> bool \<Rightarrow> uuid \<Rightarrow> string \<Rightarrow> 'c resolver_cache
     \<Rightarrow> (symbol_error + candidate list) \<times> 'c resolver_cache" where
  "maps_for_release E strict project release c =
     (case se_db E of
        None \<Rightarrow> (if strict then Inl QueryFailed else Inr [], c)
      | Some db \<Rightarrow> collect_maps E strict c (take MAX_MAPS_PER_RELEASE (artifact_rows db project release ''sourcemap'')))"

definition resolve_maps ::
  "('c, 'i, 'e) symbol_env \<Rightarrow> bool \<Rightarrow> uuid \<Rightarrow> string \<Rightarrow> json \<Rightarrow> 'c resolver_cache
     \<Rightarrow> (symbol_error + nat \<times> json) \<times> 'c resolver_cache" where
  "resolve_maps E strict project release payload c =
     (if release = [] then (Inr (0, payload), c)
      else
        let (maps, c) = maps_for_release E strict project release c
        in (map_sum id (\<lambda>maps. walk_payload maps payload) maps, c))"

text \<open>Ingest takes an error for "nothing rewritten"; background work retries it.\<close>
definition symbolicate_payload ::
  "('c, 'i, 'e) symbol_env \<Rightarrow> uuid \<Rightarrow> string \<Rightarrow> json \<Rightarrow> 'c resolver_cache \<Rightarrow> (nat \<times> json) \<times> 'c resolver_cache" where
  "symbolicate_payload E project release payload c =
     (let (r, c) = resolve_maps E False project release payload c
      in (case r of Inl _ \<Rightarrow> (0, payload) | Inr v \<Rightarrow> v, c))"

definition symbolicate_payload_checked ::
  "('c, 'i, 'e) symbol_env \<Rightarrow> uuid \<Rightarrow> string \<Rightarrow> json \<Rightarrow> 'c resolver_cache
     \<Rightarrow> (symbol_error + nat \<times> json) \<times> 'c resolver_cache" where
  "symbolicate_payload_checked E = resolve_maps E True"

text \<open>A map under a hash is what the bytes with that hash parse to.\<close>
definition map_of_hash :: "(bytes \<Rightarrow> bytes) \<Rightarrow> ('i, 'e) sourcemap_lib \<Rightarrow> string \<Rightarrow> parsed_map \<Rightarrow> bool" where
  "map_of_hash sha256 L hash m \<longleftrightarrow> (\<exists>b. from_hex hash = Inr (sha256 b) \<and> parse_map L b = Inr m)"

lemma load_map_authentic:
  assumes "load_map E hash = Inr (Some m)" and "\<And>h b. se_get E h = Inr b \<Longrightarrow> sha256 b = h"
  shows "map_of_hash sha256 (se_lib E) hash m"
  using assms by (fastforce simp: load_map_def map_of_hash_def split: sum.splits)

lemma collect_maps_authentic:
  assumes "lru_lawful (se_lru E)" and "cache_holds (se_lru E) (map_of_hash sha256 (se_lib E)) c"
    and oth: "\<And>c. cache_holds (se_lru E) (map_of_hash sha256 (se_lib E)) c
      \<Longrightarrow> cache_holds (se_lru E) (map_of_hash sha256 (se_lib E)) (se_others E c)"
    and get: "\<And>h b. se_get E h = Inr b \<Longrightarrow> sha256 b = h"
    and "collect_maps E strict c rows = (r, c')"
  shows "cache_holds (se_lru E) (map_of_hash sha256 (se_lib E)) c'
    \<and> (\<forall>maps cd. r = Inr maps \<longrightarrow> cd \<in> set maps \<longrightarrow>
        (\<exists>row \<in> set rows. ar_name row = cd_name cd \<and> map_of_hash sha256 (se_lib E) (ar_hash row) (cd_map cd)))"
  using assms(2,5)
proof (induction rows arbitrary: c r)
  case (Cons row rows)
  let ?P = "map_of_hash sha256 (se_lib E)"
  obtain hit d where g: "cache_get (se_lru E) (se_others E c) (ar_hash row) = (hit, d)" by fastforce
  have d: "cache_holds (se_lru E) ?P d"
    using cache_holds_get [OF assms(1), of ?P "se_others E c" "ar_hash row"] oth [OF Cons.prems(1)] g by simp
  have found: "?P (ar_hash row) m" if "hit = Some m" for m
    using fst_cache_get [OF assms(1), of "se_others E c" "ar_hash row"] oth [OF Cons.prems(1)] g that
    by (simp add: cache_holds_def)
  have put: "cache_holds (se_lru E) ?P (cache_insert (se_lru E) (se_others E d) (ar_hash row) m)"
    if "load_map E (ar_hash row) = Inr (Some m)" for m
    by (rule cache_holds_insert [OF assms(1) oth [OF d] load_map_authentic [OF that]]) (rule get)
  have step: ?case if "\<And>q. collect_maps E strict c2 rows = (q, c') \<Longrightarrow> cache_holds (se_lru E) ?P c2
      \<Longrightarrow> r = map_sum id (\<lambda>cs. \<lparr>cd_name = ar_name row, cd_map = m\<rparr> # cs) q \<and> ?P (ar_hash row) m"
    and "cache_holds (se_lru E) ?P c2" and "snd (collect_maps E strict c2 rows) = c'" for c2 m
  proof -
    have q: "collect_maps E strict c2 rows = (fst (collect_maps E strict c2 rows), c')" (is "_ = (?q, _)")
      using that(3) by (metis prod.collapse)
    with Cons.IH [OF that(2) q] that(1) [OF q that(2)] show ?thesis by (cases ?q) auto
  qed
  show ?case
  proof (cases hit)
    case (Some m)
    with Cons.prems(2) g have "r = map_sum id (\<lambda>cs. \<lparr>cd_name = ar_name row, cd_map = m\<rparr> # cs) (fst (collect_maps E strict d rows))"
      "snd (collect_maps E strict d rows) = c'"
      by (simp_all add: split_beta)
    with found [OF Some] d show ?thesis by (intro step) simp_all
  next
    case None
    show ?thesis
    proof (cases "load_map E (ar_hash row)")
      case (Inl e)
      with Cons.prems(2) g None d Cons.IH [OF d] show ?thesis
        by (cases strict) (auto simp: split_beta)
    next
      case (Inr o')
      show ?thesis
      proof (cases o')
        case None': None
        with Cons.prems(2) g None Inr Cons.IH [OF d] show ?thesis by auto
      next
        case (Some m)
        let ?d = "cache_insert (se_lru E) (se_others E d) (ar_hash row) m"
        from Some Cons.prems(2) g None Inr
        have "r = map_sum id (\<lambda>cs. \<lparr>cd_name = ar_name row, cd_map = m\<rparr> # cs) (fst (collect_maps E strict ?d rows))"
          "snd (collect_maps E strict ?d rows) = c'"
          by (simp_all add: split_beta)
        moreover have "load_map E (ar_hash row) = Inr (Some m)" using Inr Some by simp
        moreover have "?P (ar_hash row) m" using calculation(3) by (rule load_map_authentic) (rule get)
        ultimately show ?thesis using put by (intro step) simp_all
      qed
    qed
  qed
qed simp

text \<open>A frame is only ever resolved through bytes that were uploaded as a source map of its own
  release: every candidate map carries the name of such an artifact and is what the bytes under
  the artifact's content hash parse to, whether it came from the blob store or from the shared
  cache, and the cache keeps holding only such maps.\<close>
theorem maps_authentic:
  assumes "lru_lawful (se_lru E)" and "cache_holds (se_lru E) (map_of_hash sha256 (se_lib E)) c"
    and "\<And>c. cache_holds (se_lru E) (map_of_hash sha256 (se_lib E)) c
      \<Longrightarrow> cache_holds (se_lru E) (map_of_hash sha256 (se_lib E)) (se_others E c)"
    and "addressed sha256 (\<lambda>s. se_get E) s"
    and "maps_for_release E strict project release c = (r, c')"
  shows "cache_holds (se_lru E) (map_of_hash sha256 (se_lib E)) c'
    \<and> (\<forall>maps cd. r = Inr maps \<longrightarrow> cd \<in> set maps \<longrightarrow>
        (\<exists>db a. se_db E = Some db \<and> a \<in> set (ad_artifacts db) \<and> ar_kind a = ''sourcemap''
           \<and> map_of (ad_releases db) (ar_release a) = Some (project, release)
           \<and> ar_name a = cd_name cd \<and> map_of_hash sha256 (se_lib E) (ar_hash a) (cd_map cd)))"
proof (cases "se_db E")
  case None
  with assms(2,5) show ?thesis by (auto simp: maps_for_release_def split: if_splits)
next
  case (Some db)
  let ?rows = "take MAX_MAPS_PER_RELEASE (artifact_rows db project release ''sourcemap'')"
  have get: "\<And>h b. se_get E h = Inr b \<Longrightarrow> sha256 b = h" using assms(4) by (simp add: addressed_def)
  have "collect_maps E strict c ?rows = (r, c')" using assms(5) Some by (simp add: maps_for_release_def)
  note authentic = collect_maps_authentic [OF assms(1,2,3) get this]
  have rows: "a \<in> set (ad_artifacts db) \<and> ar_kind a = ''sourcemap''
      \<and> map_of (ad_releases db) (ar_release a) = Some (project, release)" if "a \<in> set ?rows" for a
    using in_set_takeD [OF that] by (simp add: artifact_rows_def)
  show ?thesis
  proof (intro conjI allI impI)
    fix maps cd assume "r = Inr maps" and "cd \<in> set maps"
    with authentic obtain a where "a \<in> set ?rows" "ar_name a = cd_name cd"
      "map_of_hash sha256 (se_lib E) (ar_hash a) (cd_map cd)" by blast
    with rows [of a] Some show "\<exists>db a. se_db E = Some db \<and> a \<in> set (ad_artifacts db) \<and> ar_kind a = ''sourcemap''
        \<and> map_of (ad_releases db) (ar_release a) = Some (project, release)
        \<and> ar_name a = cd_name cd \<and> map_of_hash sha256 (se_lib E) (ar_hash a) (cd_map cd)"
      by (intro exI [of _ db] exI [of _ a]) simp
  qed (use authentic in blast)
qed

text \<open>At most eight maps are tried, the most recent ones.\<close>
lemma maps_bounded:
  assumes "maps_for_release E strict project release c = (Inr maps, c')"
  shows "length maps \<le> MAX_MAPS_PER_RELEASE"
proof -
  have "length ms \<le> length rows" if "collect_maps E strict c rows = (Inr ms, c')" for c ms c' rows
    using that
  proof (induction rows arbitrary: c ms c')
    case (Cons row rows)
    obtain hit d where g: "cache_get (se_lru E) (se_others E c) (ar_hash row) = (hit, d)" by fastforce
    have rest: "length q \<le> length rows" if "fst (collect_maps E strict x rows) = Inr q" for x q
      using Cons.IH [of x q] that by (metis prod.collapse)
    have step: "length ms \<le> length (row # rows)"
      if "map_sum id (\<lambda>cs. \<lparr>cd_name = ar_name row, cd_map = m\<rparr> # cs) (fst (collect_maps E strict x rows)) = Inr ms" for x m
      using that rest [of x] by (cases "fst (collect_maps E strict x rows)") auto
    show ?case
      using Cons.prems g step rest [of d ms]
      by (auto simp: split_beta split: option.splits sum.splits if_splits)
  qed simp
  with assms show ?thesis
    by (force simp: maps_for_release_def split: option.splits if_splits)
qed

text \<open>A strict pass that succeeds did what a lenient one does.\<close>
lemma collect_maps_strict:
  "collect_maps E True c rows = (Inr maps, c') \<Longrightarrow> collect_maps E False c rows = (Inr maps, c')"
proof (induction rows arbitrary: c maps c')
  case (Cons row rows)
  obtain hit d where g: "cache_get (se_lru E) (se_others E c) (ar_hash row) = (hit, d)" by fastforce
  have rest: "collect_maps E False x rows = collect_maps E True x rows"
    if "fst (collect_maps E True x rows) = Inr q" for x q
    using Cons.IH [of x q] that by (metis prod.collapse)
  have push: "\<exists>q. fst (collect_maps E True x rows) = Inr q"
    if "map_sum id (\<lambda>cs. cd # cs) (fst (collect_maps E True x rows)) = Inr maps" for x cd
    using that by (cases "fst (collect_maps E True x rows)") auto
  show ?case
    using Cons.prems g push rest
    by (auto simp: split_beta split: option.splits sum.splits) (metis | metis fst_conv)+
qed simp

lemma symbolicate_payload_strict:
  assumes "symbolicate_payload_checked E project release payload c = (Inr r, c')"
  shows "symbolicate_payload E project release payload c = (r, c')"
proof (cases "release = []")
  case False
  obtain ms d where m: "maps_for_release E True project release c = (ms, d)" by fastforce
  from assms False m obtain maps where "ms = Inr maps" "r = walk_payload maps payload" "d = c'"
    by (cases ms) (auto simp: symbolicate_payload_checked_def resolve_maps_def)
  with m have "maps_for_release E False project release c = (Inr maps, c')"
    by (auto simp: maps_for_release_def collect_maps_strict split: option.splits)
  with False \<open>r = walk_payload maps payload\<close> show ?thesis
    by (simp add: symbolicate_payload_def resolve_maps_def)
qed (use assms in \<open>simp add: symbolicate_payload_checked_def symbolicate_payload_def resolve_maps_def\<close>)

text \<open>Only the error of a payload changes.\<close>
lemma walk_payload_members:
  "jget k (snd (walk_payload maps p))
     = (if k = ''error'' then map_option (\<lambda>e. snd (walk_causes maps e)) (jget k p) else jget k p)"
proof (cases "jget ''error'' p")
  case (Some e)
  then have "is_object p" by (rule jget_is_object)
  with Some show ?thesis by (simp add: walk_payload_def split_beta)
qed (simp add: walk_payload_def)

lemma symbolicate_payload_walk:
  obtains maps where "fst (symbolicate_payload E project release payload c) = walk_payload maps payload"
  | "fst (symbolicate_payload E project release payload c) = (0, payload)"
proof (cases "fst (resolve_maps E False project release payload c)")
  case (Inl e)
  then show ?thesis using that(2) by (simp add: symbolicate_payload_def split_beta)
next
  case (Inr r)
  then have f: "fst (symbolicate_payload E project release payload c) = r"
    by (simp add: symbolicate_payload_def split_beta)
  from Inr consider "r = (0, payload)" | maps where "r = walk_payload maps payload"
    by (cases "fst (maps_for_release E False project release c)")
      (auto simp: resolve_maps_def split_beta split: if_splits)
  then show ?thesis using that f by cases simp_all
qed

subsection \<open>Instances for the witnesses\<close>

definition toy_source_map :: source_map where
  "toy_source_map = \<lparr>lookup_token = (\<lambda>l c. Some \<lparr>tk_dst_line = 0, tk_source = Some ''src/a.ts'', tk_src_line = 41,
     tk_src_col = 7, tk_name = Some ''pay'', tk_src_id = 0\<rparr>), source_view = (\<lambda>_. None), map_sources = 1\<rparr>"

definition toy_frame :: json where
  "toy_frame = JObj [(''file'', JStr ''app.js''), (''line'', JInt 1), (''column'', JInt 10)]"

definition toy_candidate :: candidate where
  "toy_candidate = \<lparr>cd_name = ''dist/app.js.map'', cd_map = Regular toy_source_map\<rparr>"

lemmas toy_frame_simps = toy_frame_def toy_candidate_def toy_source_map_def rewrite_frame_def position_keys_def
  symbolicated_def u64_at_def jget_def as_u64_def U32_MAX_def resolve_def Let_def

lemma toy_frame_rewritten: "rewrite_frame (Regular toy_source_map) toy_frame =
  (True, JObj [(''file'', JStr ''src/a.ts''), (''line'', JInt 42), (''column'', JInt 7),
     (''minifiedLine'', JInt 1), (''minifiedColumn'', JInt 10), (''minifiedFile'', JStr ''app.js''),
     (''inApp'', JBool True), (''function'', JStr ''pay''), (''symbolicated'', JBool True)])"
  by (simp add: toy_frame_simps rewritten_def with_origin_def with_position_def with_context_def
      reading_window_def source_window_def jset_def json_nat_def u32_add_def u32_or_max_def function_name_def in_app_def starts_with_def)

theorem best_covering_map_witness:
  "walk_frame [toy_candidate] toy_frame = rewrite_frame (Regular toy_source_map) toy_frame"
proof -
  have c: "\<exists>c \<in> set [toy_candidate]. covers toy_frame c"
    by (simp add: toy_candidate_def toy_frame_rewritten)
  have "\<exists>newer c older. [toy_candidate] = newer @ c # older \<and> walk_frame [toy_candidate] toy_frame = rewrite_frame (cd_map c) toy_frame"
    using best_covering_map [of "[toy_candidate]" toy_frame] c by (auto split: if_splits)
  then show ?thesis by (auto simp: Cons_eq_append_conv toy_candidate_def)
qed

theorem second_pass_changes_nothing_witness:
  "\<exists>f'. rewrite_frame (Regular toy_source_map) toy_frame = (True, f')
     \<and> jdel ''minifiedFile'' (snd (rewrite_frame (Regular toy_source_map) f')) = jdel ''minifiedFile'' f'"
  using second_pass_changes_nothing [OF toy_frame_rewritten] toy_frame_rewritten by blast

definition toy_symbol_env :: "(nat \<times> (string \<times> parsed_map) option, unit, unit) symbol_env" where
  "toy_symbol_env = \<lparr>se_lru = toy_lru,
     se_lib = \<lparr>decode_slice = (\<lambda>_. Inr (DecodedRegular toy_source_map)), flatten = (\<lambda>_. Inl ())\<rparr>,
     se_get = (\<lambda>h. if h = replicate 32 0 then Inr [] else Inl NotFound),
     se_db = Some \<lparr>ad_releases = [(4, 7, ''1.0'')],
       ad_artifacts = [\<lparr>ar_release = 4, ar_name = ''dist/app.js.map'', ar_kind = ''sourcemap'',
         ar_hash = replicate 64 (CHR ''0''), ar_created = 1\<rparr>]\<rparr>,
     se_others = id\<rparr>"

lemma decode_zeros: "decode_pairs (replicate (2 * n) 48) = Inr (replicate n 0)"
  by (induction n) (simp_all add: decode_nibble_def)

lemma toy_hash: "from_hex (replicate 64 (CHR ''0'')) = Inr (replicate 32 0)"
  using decode_zeros [of 32] by (simp add: from_hex_def BLOB_HASH_BYTES_def bytes_of_def)

theorem maps_authentic_witness:
  "\<exists>c'. maps_for_release toy_symbol_env True 7 ''1.0'' (new_cache toy_lru) = (Inr [toy_candidate], c')
     \<and> cache_holds toy_lru (map_of_hash (\<lambda>_. replicate 32 0) (se_lib toy_symbol_env)) c'"
proof -
  let ?P = "map_of_hash (\<lambda>_. replicate 32 0) (se_lib toy_symbol_env)"
  obtain r c' where m: "maps_for_release toy_symbol_env True 7 ''1.0'' (new_cache toy_lru) = (r, c')" by fastforce
  then have "r = Inr [toy_candidate]"
    by (auto simp: maps_for_release_def toy_symbol_env_def artifact_rows_def MAX_MAPS_PER_RELEASE_def load_map_def
        toy_hash cache_get_def new_cache_def cache_new_def toy_lru_def parse_map_def toy_candidate_def)
  moreover have "cache_holds toy_lru ?P (new_cache toy_lru)"
    by (simp add: new_cache_def cache_holds_new toy_lru_lawful)
  ultimately show ?thesis
    using maps_authentic [of toy_symbol_env "\<lambda>_. replicate 32 0" "new_cache toy_lru" "()", OF _ _ _ _ m] m
    by (auto simp: toy_symbol_env_def toy_lru_lawful addressed_def split: if_splits)
qed

end
