(* ===== verification/SourceBundle.thy ===== *)
theory SourceBundle
  imports Symbolicate "HOL-Library.Multiset"
begin

text \<open>
  Source archives, \<^verbatim>\<open>self-hosted/server/src/source_bundle.rs\<close>: the validation of an uploaded ZIP
  or path-to-text JSON (\<open>SrcBundle::parse\<close>), the lookup of a frame's file by path suffix and the
  reading window.  What the \<^verbatim>\<open>zip\<close> crate lists and decompresses, the JSON readers and SHA-256 are
  parameters.  The \<open>HashMap\<close> of files is a list of paths and texts in the order it happens to
  be iterated in; the lookup is shown not to depend on that order.
\<close>

definition MAX_FILE_BYTES :: nat where "MAX_FILE_BYTES = 512 * 1024"
definition MAX_TOTAL_BYTES :: nat where "MAX_TOTAL_BYTES = 64 * 1024 * 1024"
definition MAX_MANIFEST_BYTES :: nat where "MAX_MANIFEST_BYTES = 4 * 1024 * 1024"
definition MAX_FILES :: nat where "MAX_FILES = 10000"
definition MANIFEST_NAME :: string where "MANIFEST_NAME = ''sentori-source-manifest.json''"

record manifest_file =
  mf_path :: string
  mf_bytes :: nat
  mf_sha256 :: string

record manifest =
  mn_version :: nat
  mn_release :: string
  mn_files :: "manifest_file list"

record src_bundle =
  sb_files :: "(string \<times> string) list"
  sb_release :: "string option"

text \<open>An entry of the archive: its name, flags, declared size and, if it can be read, its content.\<close>
record zip_entry =
  ze_name :: string
  ze_symlink :: bool
  ze_encrypted :: bool
  ze_dir :: bool
  ze_size :: nat
  ze_body :: "string option"

record bundle_lib =
  bl_archive :: "string \<Rightarrow> zip_entry option list option"
  bl_manifest :: "string \<Rightarrow> manifest option"
  bl_json :: "string \<Rightarrow> json option"
  bl_hex_sha256 :: "string \<Rightarrow> string"

definition safe_path :: "string \<Rightarrow> bool" where
  "safe_path path \<longleftrightarrow> path \<noteq> [] \<and> length path \<le> 1024 \<and> \<not> has_control path
     \<and> CHR 0x5C \<notin> set path \<and> CHR '':'' \<notin> set path
     \<and> list_all (\<lambda>part. part \<noteq> [] \<and> part \<noteq> ''.'' \<and> part \<noteq> ''..'') (split_on (CHR ''/'') path)"

abbreviation ensure :: "bool \<Rightarrow> string \<Rightarrow> string + unit" where
  "ensure b msg \<equiv> if b then Inr () else Inl msg"

fun check_manifest :: "bundle_lib \<Rightarrow> (string \<times> string) list \<Rightarrow> string list \<Rightarrow> manifest_file list \<Rightarrow> string + unit" where
  "check_manifest L files seen [] = Inr ()"
| "check_manifest L files seen (item # items) =
     bind_res (ensure (mf_path item \<notin> set seen) ''duplicate manifest path'') (\<lambda>_.
     bind_res (ok_or ''manifest file missing from ZIP'' (map_of files (mf_path item))) (\<lambda>content.
     bind_res (ensure (mf_bytes item = length content \<and> mf_sha256 item = bl_hex_sha256 L content)
       ''source checksum mismatch'') (\<lambda>_.
     check_manifest L files (mf_path item # seen) items)))"

definition manifest_release :: "bundle_lib \<Rightarrow> manifest option \<Rightarrow> (string \<times> string) list \<Rightarrow> string + string option" where
  "manifest_release L m files =
     (case m of
        None \<Rightarrow> Inr None
      | Some m \<Rightarrow>
          bind_res (ensure (mn_version m = 1 \<and> trim (mn_release m) \<noteq> []) ''invalid source manifest version or release'') (\<lambda>_.
          bind_res (ensure (length (mn_files m) = length files) ''manifest file count differs from ZIP'') (\<lambda>_.
          bind_res (check_manifest L files [] (mn_files m)) (\<lambda>_. Inr (Some (mn_release m))))))"

text \<open>The loop over the entries: files so far, manifest, paths seen and bytes expanded.\<close>
fun read_entries ::
  "bundle_lib \<Rightarrow> (string \<times> string) list \<Rightarrow> manifest option \<Rightarrow> string list \<Rightarrow> nat \<Rightarrow> zip_entry option list
     \<Rightarrow> string + (string \<times> string) list \<times> manifest option" where
  "read_entries L files m seen expanded [] = Inr (files, m)"
| "read_entries L files m seen expanded (entry # entries) =
     bind_res (ok_or ''unreadable ZIP entry'' entry) (\<lambda>f.
     let name = ze_name f; path = rev (trim_start_of [''/''] (rev name)) in
     bind_res (ensure (safe_path path \<and> path \<notin> set seen) ''unsafe or duplicate source path'') (\<lambda>_.
     bind_res (ensure (\<not> ze_symlink f \<and> \<not> ze_encrypted f) ''links and encrypted sources are unsupported'') (\<lambda>_.
     if ze_dir f then read_entries L files m (path # seen) expanded entries
     else
       let limit = (if name = MANIFEST_NAME then MAX_MANIFEST_BYTES else MAX_FILE_BYTES) in
       bind_res (ensure (ze_size f \<le> limit) ''source file exceeds limit'') (\<lambda>_.
       bind_res (ok_or ''unreadable ZIP entry'' (map_option (take (limit + 1)) (ze_body f))) (\<lambda>body.
       bind_res (ensure (length body \<le> limit) ''expanded source file exceeds limit'') (\<lambda>_.
       let expanded = expanded + length body in
       bind_res (ensure (expanded \<le> MAX_TOTAL_BYTES + MAX_MANIFEST_BYTES) ''expanded source bundle exceeds limit'') (\<lambda>_.
       if name = MANIFEST_NAME then
         bind_res (ok_or ''invalid source manifest'' (bl_manifest L body)) (\<lambda>mn.
           read_entries L files (Some mn) (path # seen) expanded entries)
       else
         bind_res (ensure (CHR 0x00 \<notin> set body) ''source contains binary data'') (\<lambda>_.
         bind_res (ensure (utf8 body) ''source is not UTF-8'') (\<lambda>_.
           read_entries L (AList.update name body files) m (path # seen) expanded entries)))))))))"

fun read_members :: "(string \<times> string) list \<Rightarrow> (string \<times> json) list \<Rightarrow> string + (string \<times> string) list" where
  "read_members files [] = Inr files"
| "read_members files ((path, v) # rest) =
     bind_res (ok_or ''source JSON values must be text'' (as_str v)) (\<lambda>content.
     bind_res (ensure (safe_path path) ''unsafe source path'') (\<lambda>_.
     bind_res (ensure (length content \<le> MAX_FILE_BYTES \<and> CHR 0x00 \<notin> set content) ''invalid or oversized source'') (\<lambda>_.
       read_members (AList.update path content files) rest)))"

definition read_files :: "bundle_lib \<Rightarrow> string \<Rightarrow> string + (string \<times> string) list \<times> manifest option" where
  "read_files L bytes =
     (if starts_with bytes ''PK'' then
        bind_res (ok_or ''invalid source ZIP'' (bl_archive L bytes)) (\<lambda>entries.
        bind_res (ensure (length entries \<le> MAX_FILES + 1) ''too many ZIP entries'') (\<lambda>_.
          read_entries L [] None [] 0 entries))
      else
        bind_res (ok_or ''expected source ZIP or path-to-text JSON'' (bl_json L bytes)) (\<lambda>v.
        bind_res (ok_or ''source JSON must be a path-to-text object'' (as_object v)) (\<lambda>members.
        bind_res (read_members [] members) (\<lambda>files. Inr (files, None)))))"

definition parse_bundle :: "bundle_lib \<Rightarrow> string \<Rightarrow> string + src_bundle" where
  "parse_bundle L bytes =
     bind_res (ensure (length bytes \<le> MAX_TOTAL_BYTES + MAX_MANIFEST_BYTES) ''source bundle exceeds 68 MiB'') (\<lambda>_.
     bind_res (read_files L bytes) (\<lambda>(files, m).
     bind_res (ensure (files \<noteq> [] \<and> length files \<le> MAX_FILES) ''source bundle must contain 1-10000 files'') (\<lambda>_.
     bind_res (ensure (sum_list (map (length \<circ> snd) files) \<le> MAX_TOTAL_BYTES) ''source text exceeds 64 MiB'') (\<lambda>_.
     bind_res (manifest_release L m files) (\<lambda>release.
       Inr \<lparr>sb_files = files, sb_release = release\<rparr>)))))"

definition validate_release :: "src_bundle \<Rightarrow> string \<Rightarrow> string + unit" where
  "validate_release B release =
     (case sb_release B of
        Some v \<Rightarrow> if v \<noteq> release then Inl ''source ZIP release does not match upload release'' else Inr ()
      | None \<Rightarrow> Inr ())"

subsection \<open>Looking a frame's file up\<close>

definition segments :: "string \<Rightarrow> string list" where
  "segments path = split_on (CHR ''/'') path"

fun common_prefix :: "'a list \<Rightarrow> 'a list \<Rightarrow> nat" where
  "common_prefix (a # as) (b # bs) = (if a = b then Suc (common_prefix as bs) else 0)"
| "common_prefix _ _ = 0"

definition common_segments :: "string \<Rightarrow> string \<Rightarrow> nat" where
  "common_segments a b = common_prefix (rev (segments a)) (rev (segments b))"

text \<open>A candidate counts when one path is a whole suffix of the other.\<close>
definition suffix_score :: "string \<Rightarrow> string \<Rightarrow> nat option" where
  "suffix_score normalized candidate =
     (let common = common_segments candidate normalized;
          required = min (length (segments candidate)) (length (segments normalized))
      in if common = 0 \<or> common < required then None else Some common)"

text \<open>One iteration of the search: the best text, its score, whether another scores the same.\<close>
definition weigh :: "string \<Rightarrow> string option \<times> nat \<times> bool \<Rightarrow> string \<times> string \<Rightarrow> string option \<times> nat \<times> bool" where
  "weigh normalized st entry =
     (let (best, score, ambiguous) = st; (candidate, content) = entry in
      case suffix_score normalized candidate of
        None \<Rightarrow> st
      | Some common \<Rightarrow>
          if score < common then (Some content, common, False)
          else if common = score then (best, score, True)
          else st)"

definition normalize_path :: "string \<Rightarrow> string" where
  "normalize_path path = map (\<lambda>c. if c = CHR 0x5C then CHR ''/'' else c) path"

definition lookup_source :: "(string \<times> string) list \<Rightarrow> string \<Rightarrow> string option" where
  "lookup_source files path =
     (let normalized = normalize_path path in
      case map_of files normalized of
        Some content \<Rightarrow> Some content
      | None \<Rightarrow>
          let (best, score, ambiguous) = fold (\<lambda>e st. weigh normalized st e) files (None, 0, False)
          in if ambiguous then None else best)"

definition bundle_window :: "src_bundle \<Rightarrow> string \<Rightarrow> nat \<Rightarrow> (string list \<times> string \<times> string list) option" where
  "bundle_window B path line =
     (case lookup_source (sb_files B) path of
        None \<Rightarrow> None
      | Some content \<Rightarrow>
          if line = 0 then None
          else map_option (\<lambda>w. (map clip_line (win_before w), clip_line (win_at w), map clip_line (win_after w)))
            (window_of (str_lines [] content) (line - 1) CONTEXT_LINES))"

subsection \<open>The lookup does not depend on the iteration order\<close>

definition hits :: "string \<Rightarrow> (string \<times> string) list \<Rightarrow> (nat \<times> string) list" where
  "hits normalized files = concat (map (\<lambda>(candidate, content).
     case suffix_score normalized candidate of None \<Rightarrow> [] | Some k \<Rightarrow> [(k, content)]) files)"

text \<open>The entries with the highest score.\<close>
definition tops :: "(nat \<times> string) list \<Rightarrow> (nat \<times> string) list" where
  "tops hs = filter (\<lambda>h. fst h = Max (fst ` set hs)) hs"

definition best_of :: "(nat \<times> string) list \<Rightarrow> string option \<times> nat \<times> bool" where
  "best_of hs = (if hs = [] then (None, 0, False)
     else (Some (snd (hd (tops hs))), Max (fst ` set hs), 1 < length (tops hs)))"

lemma suffix_score_pos: "suffix_score n c = Some k \<Longrightarrow> 0 < k"
  by (auto simp: suffix_score_def Let_def split: if_splits)

lemma tops_nonempty: "hs \<noteq> [] \<Longrightarrow> tops hs \<noteq> []"
proof -
  assume "hs \<noteq> []"
  then have "Max (fst ` set hs) \<in> fst ` set hs" by (intro Max_in) auto
  then obtain h where "h \<in> set hs" "fst h = Max (fst ` set hs)" by (metis imageE)
  then have "h \<in> set (tops hs)" by (simp add: tops_def)
  then show ?thesis by auto
qed

lemma tops_snoc:
  assumes "hs \<noteq> []"
  shows "tops (hs @ [(k, t)]) =
    (if Max (fst ` set hs) < k then [(k, t)] else if k = Max (fst ` set hs) then tops hs @ [(k, t)] else tops hs)"
    and "Max (fst ` set (hs @ [(k, t)])) = max k (Max (fst ` set hs))"
proof -
  have fin: "finite (fst ` set hs)" "fst ` set hs \<noteq> {}" using assms by auto
  then show m: "Max (fst ` set (hs @ [(k, t)])) = max k (Max (fst ` set hs))" by (simp add: Max_insert)
  have le: "\<And>h. h \<in> set hs \<Longrightarrow> fst h \<le> Max (fst ` set hs)" using fin(1) by auto
  show "tops (hs @ [(k, t)]) =
    (if Max (fst ` set hs) < k then [(k, t)] else if k = Max (fst ` set hs) then tops hs @ [(k, t)] else tops hs)"
    using le unfolding tops_def m by (force simp: filter_empty_conv max_def intro!: filter_cong dest: le)
qed

lemma best_of_snoc:
  assumes "0 < k"
  shows "best_of (hs @ [(k, t)]) =
    (let (best, score, ambiguous) = best_of hs in
     if score < k then (Some t, k, False) else if k = score then (best, score, True) else (best, score, ambiguous))"
proof (cases "hs = []")
  case True
  with assms show ?thesis by (simp add: best_of_def tops_def)
next
  case False
  then have new: "best_of (hs @ [(k, t)]) =
      (Some (snd (hd (tops (hs @ [(k, t)])))), max k (Max (fst ` set hs)), 1 < length (tops (hs @ [(k, t)])))"
    using tops_snoc(2) [OF False, of k t] by (simp add: best_of_def)
  have "tops hs \<noteq> []" by (rule tops_nonempty [OF False])
  with False show ?thesis
    by (cases k "Max (fst ` set hs)" rule: linorder_cases)
      (simp_all add: new tops_snoc(1) [OF False] best_of_def max_def del: Max_less_iff Max_gr_iff Max_le_iff Max_ge_iff)
qed

lemma weigh_best_of:
  "weigh normalized (best_of hs) (candidate, content)
     = best_of (hs @ (case suffix_score normalized candidate of None \<Rightarrow> [] | Some k \<Rightarrow> [(k, content)]))"
  by (auto simp: weigh_def best_of_snoc [OF suffix_score_pos] Let_def split_beta split: option.splits)

lemma fold_weigh: "fold (\<lambda>e st. weigh normalized st e) files (best_of hs) = best_of (hs @ hits normalized files)"
proof (induction files arbitrary: hs)
  case (Cons e files)
  obtain candidate content where "e = (candidate, content)" by fastforce
  with Cons.IH show ?case by (simp add: weigh_best_of hits_def)
qed (simp add: hits_def)

text \<open>What the search finds: the text of the single best candidate.\<close>
lemma lookup_source_best:
  "lookup_source files path =
     (case map_of files (normalize_path path) of
        Some content \<Rightarrow> Some content
      | None \<Rightarrow> (case tops (hits (normalize_path path) files) of [(k, t)] \<Rightarrow> Some t | _ \<Rightarrow> None))"
proof -
  let ?hs = "hits (normalize_path path) files"
  have "(let (best, score, ambiguous) = best_of ?hs in if ambiguous then None else best)
      = (case tops ?hs of [(k, t)] \<Rightarrow> Some t | _ \<Rightarrow> None)"
  proof (cases "?hs = []")
    case False
    then show ?thesis
      using tops_nonempty [OF False] by (auto simp: best_of_def split: list.splits)
  qed (simp add: best_of_def tops_def)
  moreover have "fold (\<lambda>e st. weigh (normalize_path path) st e) files (None, 0, False) = best_of ?hs"
    using fold_weigh [of "normalize_path path" files "[]"] by (simp add: best_of_def)
  ultimately show ?thesis by (simp add: lookup_source_def Let_def split: option.splits)
qed

lemma mset_hits: "mset files = mset files' \<Longrightarrow> mset (hits n files) = mset (hits n files')"
proof -
  assume m: "mset files = mset files'"
  have "mset (hits n fs) = \<Sum>\<^sub># (image_mset (\<lambda>e. mset (case suffix_score n (fst e) of None \<Rightarrow> [] | Some k \<Rightarrow> [(k, snd e)])) (mset fs))" for fs
    by (induction fs) (auto simp: hits_def split: option.splits)
  with m show ?thesis by simp
qed

lemma mset_tops: "mset hs = mset hs' \<Longrightarrow> mset (tops hs) = mset (tops hs')"
proof -
  assume m: "mset hs = mset hs'"
  then have "set hs = set hs'" by (rule mset_eq_setD)
  with m show ?thesis by (simp add: tops_def mset_filter)
qed

lemma mset_singleton: "mset xs = mset ys \<Longrightarrow> (case xs of [x] \<Rightarrow> Some x | _ \<Rightarrow> None) = (case ys of [x] \<Rightarrow> Some x | _ \<Rightarrow> None)"
proof -
  assume m: "mset xs = mset ys"
  then have l: "length xs = length ys" by (metis size_mset)
  show ?thesis
  proof (cases "length xs = 1")
    case True
    with l obtain x y where "xs = [x]" "ys = [y]" by (metis One_nat_def length_0_conv length_Suc_conv)
    with m show ?thesis by simp
  next
    case False
    then have "(case xs of [x] \<Rightarrow> Some x | _ \<Rightarrow> None) = None" by (auto split: list.splits)
    moreover have "(case ys of [x] \<Rightarrow> Some x | _ \<Rightarrow> None) = None" using False l by (auto split: list.splits)
    ultimately show ?thesis by simp
  qed
qed

text \<open>The source a frame is shown does not depend on how the map of files happens to be iterated:
  it is the file at exactly the frame's path, or else the only file of those whose path and the
  frame's path end in one another to the greatest depth; when several are equally deep, none.\<close>
theorem lookup_order_independent:
  assumes "distinct (map fst files)" and "mset files' = mset files"
  shows "lookup_source files' path = lookup_source files path
    \<and> lookup_source files path =
      (case map_of files (normalize_path path) of
         Some content \<Rightarrow> Some content
       | None \<Rightarrow> (case tops (hits (normalize_path path) files) of [(k, t)] \<Rightarrow> Some t | _ \<Rightarrow> None))"
proof
  let ?n = "normalize_path path"
  have "mset (map fst files') = mset (map fst files)" using assms(2) by (metis mset_map)
  with assms(1) have "distinct (map fst files')" by (metis mset_eq_imp_distinct_iff)
  then have "map_of files' = map_of files"
    using assms by (metis map_of_inject_set set_mset_mset)
  moreover have "(case tops (hits ?n files') of [x] \<Rightarrow> Some x | _ \<Rightarrow> None) = (case tops (hits ?n files) of [x] \<Rightarrow> Some x | _ \<Rightarrow> None)"
    using mset_singleton [OF mset_tops [OF mset_hits [OF assms(2)]]] .
  then have "map_option snd (case tops (hits ?n files') of [x] \<Rightarrow> Some x | _ \<Rightarrow> None)
      = map_option snd (case tops (hits ?n files) of [x] \<Rightarrow> Some x | _ \<Rightarrow> None)" by simp
  then have "(case tops (hits ?n files') of [(k, t)] \<Rightarrow> Some t | _ \<Rightarrow> None) = (case tops (hits ?n files) of [(k, t)] \<Rightarrow> Some t | _ \<Rightarrow> None)"
    by (auto split: list.splits)
  ultimately show "lookup_source files' path = lookup_source files path" by (simp only: lookup_source_best)
qed (rule lookup_source_best)

theorem lookup_order_independent_witness:
  "lookup_source [(''lib/pay.ts'', ''b''), (''app/src/pay.ts'', ''a'')] ''src/pay.ts''
     = lookup_source [(''app/src/pay.ts'', ''a''), (''lib/pay.ts'', ''b'')] ''src/pay.ts''"
  by (rule lookup_order_independent [THEN conjunct1]) simp_all

subsection \<open>What an accepted bundle is\<close>

definition source_ok :: "string \<times> string \<Rightarrow> bool" where
  "source_ok e \<longleftrightarrow> (safe_path (fst e) \<or> safe_path (rev (trim_start_of [''/''] (rev (fst e)))))
     \<and> length (snd e) \<le> MAX_FILE_BYTES \<and> CHR 0x00 \<notin> set (snd e)"

lemma update_ok: "\<forall>e \<in> set files. P e \<Longrightarrow> P (k, v) \<Longrightarrow> \<forall>e \<in> set (AList.update k v files). P e"
  by (induction files) auto

text \<open>One entry adds nothing or one acceptable file.\<close>
lemma read_entries_step:
  assumes "read_entries L files m seen expanded (entry # entries) = Inr r"
  obtains files2 m2 seen2 expanded2 where "read_entries L files2 m2 seen2 expanded2 entries = Inr r"
    and "files2 = files \<or> (\<exists>k v. files2 = AList.update k v files \<and> source_ok (k, v))"
proof -
  obtain f where f: "entry = Some f" using assms by (cases entry) simp_all
  show ?thesis
  proof (cases "ze_dir f")
    case True
    with assms f show ?thesis by (intro that) (auto simp: bind_res_Inr_conv Let_def split: if_splits)
  next
    case False
    with assms f obtain b where b: "ze_body f = Some b"
      by (cases "ze_body f") (auto simp: bind_res_Inr_conv Let_def split: if_splits)
    show ?thesis
    proof (cases "ze_name f = MANIFEST_NAME")
      case True
      with assms f False b obtain mn where "bl_manifest L (take (MAX_MANIFEST_BYTES + 1) b) = Some mn"
        by (auto simp: bind_res_Inr_conv Let_def ok_or_def split: if_splits option.splits)
      with True assms f False b show ?thesis
        by (intro that [of files "Some mn"]) (auto simp: bind_res_Inr_conv Let_def split: if_splits)
    next
      case False': False
      let ?v = "take (MAX_FILE_BYTES + 1) b"
      have "source_ok (ze_name f, ?v)"
        using assms f False b False' by (auto simp: bind_res_Inr_conv Let_def source_ok_def split: if_splits)
      with assms f False b False' show ?thesis
        by (intro that [of "AList.update (ze_name f) ?v files"]) (auto simp: bind_res_Inr_conv Let_def split: if_splits)
    qed
  qed
qed

lemma read_entries_ok:
  assumes "read_entries L files m seen expanded entries = Inr (files', m')" and "\<forall>e \<in> set files. source_ok e"
    and "distinct (map fst files)"
  shows "(\<forall>e \<in> set files'. source_ok e) \<and> distinct (map fst files')"
  using assms
proof (induction entries arbitrary: files m seen expanded)
  case (Cons entry entries)
  from Cons.prems(1) obtain files2 m2 seen2 expanded2 where r: "read_entries L files2 m2 seen2 expanded2 entries = Inr (files', m')"
    and f: "files2 = files \<or> (\<exists>k v. files2 = AList.update k v files \<and> source_ok (k, v))"
    by (rule read_entries_step)
  have "\<forall>e \<in> set files2. source_ok e" "distinct (map fst files2)"
    using f Cons.prems(2,3) update_ok [of files source_ok] by (auto simp: distinct_update)
  with r show ?case by (rule Cons.IH)
qed simp

lemma read_members_ok:
  assumes "read_members files ms = Inr files'" and "\<forall>e \<in> set files. source_ok e" and "distinct (map fst files)"
  shows "(\<forall>e \<in> set files'. source_ok e) \<and> distinct (map fst files')"
  using assms
proof (induction files ms rule: read_members.induct)
  case (2 files path v rest)
  then obtain content where c: "as_str v = Some content" "safe_path path" "length content \<le> MAX_FILE_BYTES"
    "CHR 0x00 \<notin> set content" "read_members (AList.update path content files) rest = Inr files'"
    by (auto simp: bind_res_Inr_conv ok_or_def split: option.splits if_splits)
  have "source_ok (path, content)" using c by (simp add: source_ok_def)
  with "2.prems"(2,3) update_ok [of files source_ok] have "\<forall>e \<in> set (AList.update path content files). source_ok e"
    "distinct (map fst (AList.update path content files))" by (auto simp: distinct_update)
  with c "2.IH" show ?case by simp
qed simp

text \<open>An accepted bundle is bounded and its paths cannot leave it.\<close>
lemma parse_bundle_ok:
  assumes "parse_bundle L bytes = Inr B"
  shows "sb_files B \<noteq> []" and "length (sb_files B) \<le> MAX_FILES"
    and "sum_list (map (length \<circ> snd) (sb_files B)) \<le> MAX_TOTAL_BYTES"
    and "\<forall>e \<in> set (sb_files B). source_ok e" and "distinct (map fst (sb_files B))"
    and "sb_release B = Some release \<Longrightarrow> trim release \<noteq> []"
proof -
  from assms obtain files m where r: "read_files L bytes = Inr (files, m)" and B: "sb_files B = files"
    and l: "files \<noteq> []" "length files \<le> MAX_FILES" "sum_list (map (length \<circ> snd) files) \<le> MAX_TOTAL_BYTES"
    and mr: "manifest_release L m files = Inr (sb_release B)"
    by (auto simp: parse_bundle_def bind_res_Inr_conv split: if_splits)
  from r have "(\<forall>e \<in> set files. source_ok e) \<and> distinct (map fst files)"
    using read_entries_ok [where files = "[]"] read_members_ok [where files = "[]"]
    by (auto simp: read_files_def bind_res_Inr_conv split: if_splits)
  with B l show "sb_files B \<noteq> []" "length (sb_files B) \<le> MAX_FILES"
    "sum_list (map (length \<circ> snd) (sb_files B)) \<le> MAX_TOTAL_BYTES"
    "\<forall>e \<in> set (sb_files B). source_ok e" "distinct (map fst (sb_files B))" by simp_all
  show "sb_release B = Some release \<Longrightarrow> trim release \<noteq> []"
    using mr by (auto simp: manifest_release_def bind_res_Inr_conv split: option.splits if_splits)
qed

end
