(* ===== verification/NativeSymbolicate.thy ===== *)
theory NativeSymbolicate
  imports SourceBundle
begin

text \<open>
  Native frames, \<^verbatim>\<open>self-hosted/server/src/native_symbolicate.rs\<close>, over the proguard-resolver and
  dwarf-resolver crates (\<^verbatim>\<open>mapping.rs\<close>, \<^verbatim>\<open>module.rs\<close>): an Android frame through the R8 mapping of
  its release, an iOS frame through the dSYM slice of its image, and the reading window from a
  source archive; and the whole pass over one stored payload (\<^verbatim>\<open>resymbolicate.rs\<close>).  What the
  \<^verbatim>\<open>proguard\<close>, \<^verbatim>\<open>object\<close>, \<^verbatim>\<open>gimli\<close> and \<^verbatim>\<open>addr2line\<close> crates answer is a parameter.
\<close>

subsection \<open>R8 mappings\<close>

text \<open>A stack frame of the \<^verbatim>\<open>proguard\<close> crate.\<close>
record stack_frame =
  sf_class :: string
  sf_method :: string
  sf_full_method :: string
  sf_file :: "string option"
  sf_line :: "nat option"

record mapping_summary =
  ms_pg_map_id :: "uuid option"
  ms_class_count :: nat
  ms_method_count :: nat
  ms_has_line_info :: bool
  ms_byte_len :: nat
  ms_compiler :: "string option"
  ms_compiler_version :: "string option"

text \<open>What the crate answers for a mapping: validity, its summary, id (zero: none) and lookups.\<close>
record proguard_mapping =
  pg_is_valid :: bool
  pg_uuid :: uuid
  pg_class_count :: nat
  pg_method_count :: nat
  pg_line_info :: bool
  pg_compiler :: "string option"
  pg_compiler_version :: "string option"
  remap_class :: "string \<Rightarrow> string option"
  remap_frame :: "string \<Rightarrow> string \<Rightarrow> nat \<Rightarrow> stack_frame list"

record parsed_mapping =
  pm_mapper :: proguard_mapping
  pm_poisoned :: bool
  pm_summary :: mapping_summary

datatype mapping_error = InvalidUtf8 | InvalidMapping
datatype lock_error = Poisoned

definition inspect_summary :: "proguard_mapping \<Rightarrow> nat \<Rightarrow> mapping_error + mapping_summary" where
  "inspect_summary m byte_len =
     (if \<not> pg_is_valid m then Inl InvalidMapping
      else Inr \<lparr>ms_pg_map_id = (if pg_uuid m = 0 then None else Some (pg_uuid m)),
        ms_class_count = pg_class_count m, ms_method_count = pg_method_count m,
        ms_has_line_info = pg_line_info m, ms_byte_len = byte_len,
        ms_compiler = pg_compiler m, ms_compiler_version = pg_compiler_version m\<rparr>)"

definition parse_mapping :: "(string \<Rightarrow> proguard_mapping) \<Rightarrow> string \<Rightarrow> mapping_error + parsed_mapping" where
  "parse_mapping proguard bytes =
     (if \<not> utf8 bytes then Inl InvalidUtf8
      else bind_res (inspect_summary (proguard bytes) (length bytes)) (\<lambda>summary.
        Inr \<lparr>pm_mapper = proguard bytes, pm_poisoned = False, pm_summary = summary\<rparr>))"

definition resolve_class :: "parsed_mapping \<Rightarrow> string \<Rightarrow> lock_error + string option" where
  "resolve_class pm obfuscated = (if pm_poisoned pm then Inl Poisoned else Inr (remap_class (pm_mapper pm) obfuscated))"

record frame =
  fr_class :: string
  fr_method :: string
  fr_full_method :: string
  fr_file :: "string option"
  fr_line :: "nat option"
  fr_inlined :: bool

definition frame_of :: "nat \<Rightarrow> nat \<Rightarrow> stack_frame \<Rightarrow> frame" where
  "frame_of n i sf =
     \<lparr>fr_class = sf_class sf, fr_method = sf_method sf, fr_full_method = sf_full_method sf, fr_file = sf_file sf,
      fr_line = (case sf_line sf of Some l \<Rightarrow> if l \<le> U32_MAX then Some l else None | None \<Rightarrow> None),
      fr_inlined = (i + 1 < n)\<rparr>"

definition resolve_method :: "parsed_mapping \<Rightarrow> string \<Rightarrow> string \<Rightarrow> nat \<Rightarrow> lock_error + frame list" where
  "resolve_method pm cls m line =
     (if pm_poisoned pm then Inl Poisoned
      else let collected = remap_frame (pm_mapper pm) cls m line
           in Inr (map (\<lambda>(i, sf). frame_of (length collected) i sf) (enumerate 0 collected)))"

subsection \<open>DWARF modules\<close>

record dwarf_frame =
  df_function :: "string option"
  df_file :: "string option"
  df_line :: "nat option"
  df_column :: "nat option"
  df_inlined :: bool

text \<open>A frame of \<^verbatim>\<open>addr2line\<close>: the symbol with its demangling (\<open>None\<close>: it fails), and its location.\<close>
record raw_dwarf_frame =
  rd_function :: "(string \<times> string option) option"
  rd_location :: "(string option \<times> nat option \<times> nat option) option"

datatype dwarf_lookup = NeedsLoad | LookupFailed | Frames "raw_dwarf_frame list" "bool"

text \<open>\<open>Frames fs ok\<close>: the iterator yields \<open>fs\<close> and then ends, or fails when not \<open>ok\<close>.\<close>
record dwarf_module =
  dm_find_frames :: "nat \<Rightarrow> dwarf_lookup"
  dm_poisoned :: bool
  dm_byte_len :: nat

datatype dwarf_error = Dwarf | PoisonedModule

definition dwarf_frame_of :: "raw_dwarf_frame \<Rightarrow> dwarf_frame" where
  "dwarf_frame_of f =
     (let (src, line, column) = (case rd_location f of None \<Rightarrow> (None, None, None) | Some l \<Rightarrow> l)
      in \<lparr>df_function = (case rd_function f of None \<Rightarrow> None
             | Some (name, demangled) \<Rightarrow> Some (case demangled of Some d \<Rightarrow> d | None \<Rightarrow> from_utf8_lossy name)),
          df_file = src, df_line = line, df_column = column, df_inlined = True\<rparr>)"

definition collect_frames :: "raw_dwarf_frame list \<Rightarrow> bool \<Rightarrow> dwarf_error + dwarf_frame list" where
  "collect_frames fs ok =
     (if \<not> ok then Inl Dwarf
      else let out = map dwarf_frame_of fs
           in Inr (if out = [] then [] else butlast out @ [(last out)\<lparr>df_inlined := False\<rparr>]))"

definition resolve_offset :: "dwarf_module \<Rightarrow> nat \<Rightarrow> dwarf_error + dwarf_frame list" where
  "resolve_offset dm offset =
     (if dm_poisoned dm then Inl PoisonedModule
      else case dm_find_frames dm offset of
        NeedsLoad \<Rightarrow> Inr []
      | LookupFailed \<Rightarrow> Inl Dwarf
      | Frames fs ok \<Rightarrow> collect_frames fs ok)"

subsection \<open>Rewriting native frames\<close>

text \<open>\<open>s.rsplit_once(c)\<close>\<close>
definition rsplit_once :: "char \<Rightarrow> string \<Rightarrow> (string \<times> string) option" where
  "rsplit_once c s =
     (if c \<in> set s then Some (rev (tl (dropWhile (\<lambda>x. x \<noteq> c) (rev s))), rev (takeWhile (\<lambda>x. x \<noteq> c) (rev s)))
      else None)"

definition u32_at :: "string \<Rightarrow> json \<Rightarrow> nat option" where
  "u32_at k frame = (case u64_at k frame of Some n \<Rightarrow> if n \<le> U32_MAX then Some n else None | None \<Rightarrow> None)"

definition set_opt :: "string \<Rightarrow> json option \<Rightarrow> json \<Rightarrow> json" where
  "set_opt k v frame = (case v of Some x \<Rightarrow> jset k x frame | None \<Rightarrow> frame)"

definition rewrite_android :: "parsed_mapping \<Rightarrow> json \<Rightarrow> bool \<times> json" where
  "rewrite_android mapping f =
     (if \<not> is_object f \<or> symbolicated f then (False, f)
      else case str_at ''function'' f of
        None \<Rightarrow> (False, f)
      | Some func \<Rightarrow>
      (case rsplit_once (CHR ''.'') func of
        None \<Rightarrow> (False, f)
      | Some (cls, m) \<Rightarrow>
      (case resolve_method mapping cls m (unwrap_or 0 (u32_at ''line'' f)) of
        Inl _ \<Rightarrow> (False, f)
      | Inr [] \<Rightarrow> (False, f)
      | Inr (best # rest) \<Rightarrow>
          (True, jset ''symbolicated'' (JBool True)
            (set_opt ''inlineDepth'' (if rest \<noteq> [] then Some (json_nat (length rest)) else None)
              (set_opt ''line'' (map_option json_nat (fr_line best))
                (set_opt ''file'' (map_option JStr (fr_file best))
                  (jset ''function'' (JStr (fr_full_method best))
                    (jset ''minifiedFunction'' (JStr func) f)))))))))"

definition rewrite_ios :: "dwarf_module \<Rightarrow> json \<Rightarrow> bool \<times> json" where
  "rewrite_ios dm f =
     (if \<not> is_object f \<or> symbolicated f then (False, f)
      else case (u64_at ''addr'' f, u64_at ''imageBase'' f) of
        (Some addr, Some base) \<Rightarrow>
          if addr < base then (False, f)
          else (case resolve_offset dm (addr - base) of
              Inl _ \<Rightarrow> (False, f)
            | Inr frames \<Rightarrow>
                if frames = [] then (False, f)
                else let best = last frames in
                  (True, jset ''symbolicated'' (JBool True)
                    (set_opt ''inlineDepth'' (if 1 < length frames then Some (json_nat (length frames - 1)) else None)
                      (set_opt ''line'' (map_option json_nat (df_line best))
                        (set_opt ''file'' (map_option JStr (df_file best))
                          (set_opt ''function'' (map_option JStr (df_function best)) f))))))
      | _ \<Rightarrow> (False, f))"

definition fill_context :: "src_bundle option \<Rightarrow> json \<Rightarrow> bool \<times> json" where
  "fill_context bundle f =
     (case bundle of
        None \<Rightarrow> (False, f)
      | Some B \<Rightarrow>
          if \<not> is_object f then (False, f)
          else if (case jget ''contextLine'' f of Some v \<Rightarrow> v \<noteq> JNull | None \<Rightarrow> False) then (False, f)
          else (case (str_at ''file'' f, u32_at ''line'' f) of
              (Some src, Some line) \<Rightarrow>
                (case bundle_window B src line of
                   None \<Rightarrow> (False, f)
                 | Some (pre, at, post) \<Rightarrow>
                     (True, jset ''postContext'' (JArr (map JStr post))
                       (jset ''contextLine'' (JStr at) (jset ''preContext'' (JArr (map JStr pre)) f))))
            | _ \<Rightarrow> (False, f)))"

definition to_ascii_uppercase :: "string \<Rightarrow> string" where
  "to_ascii_uppercase s = map (\<lambda>c. if 97 \<le> char_val c \<and> char_val c \<le> 122 then char_of (char_val c - 32) else c) s"

definition normalize_uuid :: "string \<Rightarrow> string" where
  "normalize_uuid s = to_ascii_uppercase (filter is_ascii_alphanumeric s)"

subsection \<open>The frames of an error\<close>

text \<open>The readers of native artifacts: R8 mappings, dSYM slices (\<open>None\<close>: refused), source archives.\<close>
record ('c, 'i, 'e) native_env = "('c, 'i, 'e) symbol_env" +
  ne_proguard :: "string \<Rightarrow> proguard_mapping"
  ne_dwarf :: "string \<Rightarrow> dwarf_module option"
  ne_bundle :: bundle_lib

text \<open>The latest artifact of a kind, for a dSYM the latest whose name contains the image's id.\<close>
definition artifact_bytes ::
  "('c, 'i, 'e, 'x) native_env_scheme \<Rightarrow> bool \<Rightarrow> uuid \<Rightarrow> string \<Rightarrow> string \<Rightarrow> string option
     \<Rightarrow> symbol_error + string option" where
  "artifact_bytes E strict project release kind name_uuid =
     (case se_db E of
        None \<Rightarrow> if strict then Inl QueryFailed else Inr None
      | Some db \<Rightarrow>
          (case List.find (\<lambda>a. case name_uuid of Some u \<Rightarrow> str_contains (normalize_uuid (ar_name a)) u | None \<Rightarrow> True)
              (artifact_rows db project release kind) of
             None \<Rightarrow> Inr None
           | Some a \<Rightarrow>
               (case from_hex (ar_hash a) of
                  Inl _ \<Rightarrow> if strict then Inl InvalidArtifactHash else Inr None
                | Inr hash \<Rightarrow>
                    (case se_get E hash of
                       Inr bytes \<Rightarrow> Inr (Some (chars_of bytes))
                     | Inl e \<Rightarrow> if strict then Inl (BlobFailed e) else Inr None))))"

definition ok :: "'e + 'a \<Rightarrow> 'a option" where
  "ok r = (case r of Inl _ \<Rightarrow> None | Inr v \<Rightarrow> Some v)"

definition android_frames ::
  "('c, 'i, 'e, 'x) native_env_scheme \<Rightarrow> bool \<Rightarrow> uuid \<Rightarrow> string \<Rightarrow> json list \<Rightarrow> symbol_error + (bool \<times> json) list" where
  "android_frames E strict project release stack =
     bind_res (artifact_bytes E strict project release ''proguard'' None) (\<lambda>b.
     let mapping = Option.bind b (\<lambda>b. ok (parse_mapping (ne_proguard E) b)) in
     Inr (map (\<lambda>f. case mapping of Some m \<Rightarrow> rewrite_android m f | None \<Rightarrow> (False, f)) stack))"

text \<open>With the slices loaded so far, by the image's id.\<close>
fun ios_frames ::
  "('c, 'i, 'e, 'x) native_env_scheme \<Rightarrow> bool \<Rightarrow> uuid \<Rightarrow> string \<Rightarrow> (string \<times> dwarf_module option) list \<Rightarrow> json list
     \<Rightarrow> symbol_error + (bool \<times> json) list" where
  "ios_frames E strict project release modules [] = Inr []"
| "ios_frames E strict project release modules (f # fs) =
     (case map_option normalize_uuid (str_at ''imageUuid'' f) of
        None \<Rightarrow> map_sum id (\<lambda>rs. (False, f) # rs) (ios_frames E strict project release modules fs)
      | Some u \<Rightarrow>
          bind_res (case map_of modules u of
              Some m \<Rightarrow> Inr m
            | None \<Rightarrow> map_sum id (\<lambda>b. Option.bind b (ne_dwarf E)) (artifact_bytes E strict project release ''dsym'' (Some u)))
            (\<lambda>m. map_sum id (\<lambda>rs. (case m of Some dm \<Rightarrow> rewrite_ios dm f | None \<Rightarrow> (False, f)) # rs)
              (ios_frames E strict project release ((u, m) # modules) fs)))"

definition native_frames ::
  "('c, 'i, 'e, 'x) native_env_scheme \<Rightarrow> bool \<Rightarrow> uuid \<Rightarrow> string \<Rightarrow> string \<Rightarrow> json list \<Rightarrow> symbol_error + (bool \<times> json) list" where
  "native_frames E strict project release platform stack =
     (if platform = ''android'' then android_frames E strict project release stack
      else if platform = ''ios'' then ios_frames E strict project release [] stack
      else Inr (map (\<lambda>f. (False, f)) stack))"

definition with_window :: "src_bundle option \<Rightarrow> bool \<times> json \<Rightarrow> bool \<times> json" where
  "with_window bundle r = (let (hit, f) = fill_context bundle (snd r) in (fst r \<or> hit, f))"

definition native_stack :: "json \<Rightarrow> json list option" where
  "native_stack payload = Option.bind (Option.bind (jget ''error'' payload) (jget ''stack'')) as_array"

definition put_stack :: "json list \<Rightarrow> json \<Rightarrow> json" where
  "put_stack frames payload =
     (case jget ''error'' payload of
        None \<Rightarrow> payload
      | Some error \<Rightarrow> jset ''error'' (jset ''stack'' (JArr frames) error) payload)"

definition resolve_native ::
  "('c, 'i, 'e, 'x) native_env_scheme \<Rightarrow> bool \<Rightarrow> uuid \<Rightarrow> string \<Rightarrow> string \<Rightarrow> json \<Rightarrow> symbol_error + nat \<times> json" where
  "resolve_native E strict project release platform payload =
     (if release = [] then Inr (0, payload)
      else case native_stack payload of
        None \<Rightarrow> Inr (0, payload)
      | Some stack \<Rightarrow>
          bind_res (artifact_bytes E strict project release ''srcbundle'' None) (\<lambda>b.
          let bundle = Option.bind b (\<lambda>b. ok (parse_bundle (ne_bundle E) b)) in
          bind_res (native_frames E strict project release platform stack) (\<lambda>rs.
          let rs = map (with_window bundle) rs
          in Inr (length (filter fst rs), put_stack (map snd rs) payload))))"

text \<open>A failure of a lenient pass cannot happen; \<open>unwrap_or(0)\<close> covers it with nothing rewritten.\<close>
definition symbolicate_native ::
  "('c, 'i, 'e, 'x) native_env_scheme \<Rightarrow> uuid \<Rightarrow> string \<Rightarrow> string \<Rightarrow> json \<Rightarrow> nat \<times> json" where
  "symbolicate_native E project release platform payload =
     (case resolve_native E False project release platform payload of Inl _ \<Rightarrow> (0, payload) | Inr r \<Rightarrow> r)"

definition symbolicate_native_checked ::
  "('c, 'i, 'e, 'x) native_env_scheme \<Rightarrow> uuid \<Rightarrow> string \<Rightarrow> string \<Rightarrow> json \<Rightarrow> symbol_error + nat \<times> json" where
  "symbolicate_native_checked E = resolve_native E True"

text \<open>Both passes over one payload, as the worker and the operator's command run them.\<close>
definition resolve_payload ::
  "('c, 'i, 'e) native_env \<Rightarrow> uuid \<Rightarrow> string \<Rightarrow> string \<Rightarrow> json \<Rightarrow> 'c resolver_cache
     \<Rightarrow> (symbol_error + nat \<times> json) \<times> 'c resolver_cache" where
  "resolve_payload E project release platform payload c =
     (let (js, c) = symbolicate_payload_checked (symbol_env.truncate E) project release payload c
      in (bind_res js (\<lambda>(n, payload).
            bind_res (symbolicate_native_checked E project release platform payload) (\<lambda>(k, payload).
              Inr (n + k, payload))), c))"

subsection \<open>What native passes keep\<close>

lemma resolve_native_lenient: "resolve_native E False project release platform payload \<noteq> Inl e"
proof -
  have art: "\<exists>b. artifact_bytes E False project release kind u = Inr b" for kind u
    by (auto simp: artifact_bytes_def split: option.splits sum.splits)
  have "\<exists>rs. ios_frames E False project release modules fs = Inr rs" for modules fs
  proof (induction fs arbitrary: modules)
    case (Cons f fs)
    show ?case
    proof (cases "map_option normalize_uuid (str_at ''imageUuid'' f)")
      case None
      with Cons [of modules] show ?thesis by auto
    next
      case (Some u)
      obtain b where "artifact_bytes E False project release ''dsym'' (Some u) = Inr b" using art by blast
      moreover obtain rs where "ios_frames E False project release
          ((u, case map_of modules u of Some m \<Rightarrow> m | None \<Rightarrow> Option.bind b (ne_dwarf E)) # modules) fs = Inr rs"
        using Cons by blast
      ultimately show ?thesis using Some by (cases "map_of modules u") auto
    qed
  qed simp
  moreover have "\<exists>rs. android_frames E False project release fs = Inr rs" for fs
    using art [of "''proguard''" None] by (auto simp: android_frames_def Let_def)
  ultimately have "\<exists>rs. native_frames E False project release platform fs = Inr rs" for fs
    by (simp add: native_frames_def)
  then have n: "native_frames E False project release platform fs \<noteq> Inl e" for fs by (metis Inl_Inr_False)
  show ?thesis
    using art [of "''srcbundle''" None] n
    by (auto simp: resolve_native_def Let_def bind_res_Inl_conv split: option.splits)
qed

text \<open>A frame is symbolicated natively once.\<close>
lemma jget_set_opt: "is_object f \<Longrightarrow> jget j (set_opt k v f) = (if j = k \<and> v \<noteq> None then v else jget j f)"
  by (auto simp: set_opt_def split: option.splits)

lemma is_object_set_opt [simp]: "is_object (set_opt k v f) = is_object f"
  by (simp add: set_opt_def split: option.splits)

lemma symbolicated_jset: "is_object f \<Longrightarrow> symbolicated (jset ''symbolicated'' (JBool True) f)"
  by (simp add: symbolicated_def as_bool_def)

lemma rewrite_android_once:
  assumes "rewrite_android m f = (True, f')"
  shows "rewrite_android m' f' = (False, f')" and "symbolicated f'"
    and "jget ''minifiedFunction'' f' = jget ''function'' f"
proof -
  from assms have o: "is_object f" by (auto simp: rewrite_android_def split: if_splits)
  from assms o show s: "symbolicated f'"
    by (auto simp: rewrite_android_def symbolicated_jset split: if_splits option.splits sum.splits list.splits)
  then show "rewrite_android m' f' = (False, f')" by (simp add: rewrite_android_def)
  show "jget ''minifiedFunction'' f' = jget ''function'' f"
    using assms o by (cases "jget ''function'' f")
      (auto simp: rewrite_android_def jget_set_opt as_str_def split: if_splits option.splits sum.splits list.splits json.splits)
qed

lemma rewrite_ios_once:
  assumes "rewrite_ios m f = (True, f')"
  shows "rewrite_ios m' f' = (False, f')" and "symbolicated f'"
proof -
  from assms have o: "is_object f" by (auto simp: rewrite_ios_def split: if_splits)
  from assms o show s: "symbolicated f'"
    by (auto simp: rewrite_ios_def symbolicated_jset Let_def split: if_splits option.splits sum.splits)
  then show "rewrite_ios m' f' = (False, f')" by (simp add: rewrite_ios_def)
qed

lemma raw_position_fill_context [simp]: "raw_position (snd (fill_context B f)) = raw_position f"
  by (auto simp: fill_context_def raw_position_def position_keys_def symbolicated_def u64_at_def
      split: option.splits if_splits)

lemma raw_position_with_window [simp]: "raw_position (snd (with_window B r)) = raw_position (snd r)"
  by (simp add: with_window_def split_beta)

definition payload_positions :: "json \<Rightarrow> (nat option \<times> nat option) list list" where
  "payload_positions payload = (case jget ''error'' payload of None \<Rightarrow> [] | Some e \<Rightarrow> raw_positions e)"

lemma payload_positions_walk [simp]: "payload_positions (snd (walk_payload maps payload)) = payload_positions payload"
  by (simp add: payload_positions_def walk_payload_members raw_positions_walk_causes split: option.splits)

lemma native_stack_Some:
  assumes "native_stack payload = Some stack"
  obtains error where "jget ''error'' payload = Some error" and "stack_frames error = stack"
    and "is_object error" and "is_object payload"
proof -
  obtain error where e: "jget ''error'' payload = Some error"
    using assms by (cases "jget ''error'' payload") (auto simp: native_stack_def)
  moreover have "stack_frames error = stack" using assms e by (simp add: native_stack_def stack_frames_def)
  moreover have "is_object error"
    using assms e jget_is_object [of "''stack''" error] by (cases "jget ''stack'' error") (auto simp: native_stack_def)
  moreover have "is_object payload" using e by (rule jget_is_object)
  ultimately show ?thesis by (rule that)
qed

text \<open>New frames of the same positions leave the positions of the payload.\<close>
lemma payload_positions_put_stack:
  assumes "native_stack payload = Some stack" and "map raw_position frames = map raw_position stack"
  shows "payload_positions (put_stack frames payload) = payload_positions payload"
proof -
  from assms(1) obtain error where e: "jget ''error'' payload = Some error" "stack_frames error = stack"
    "is_object error" "is_object payload" by (rule native_stack_Some)
  have "raw_positions (jset ''stack'' (JArr frames) error) = raw_positions error"
    using e assms(2) by (subst (1 2) raw_positions_rec) (simp add: stack_frames_def as_array_def)
  with e show ?thesis by (simp add: payload_positions_def put_stack_def)
qed

lemma resolve_native_positions:
  assumes "resolve_native E strict project release platform payload = Inr (n, payload')"
    and "platform \<notin> {''android'', ''ios''}"
  shows "payload_positions payload' = payload_positions payload"
proof (cases "release = [] \<or> native_stack payload = None")
  case True
  with assms(1) show ?thesis by (cases "release = []") (simp_all add: resolve_native_def)
next
  case False
  then obtain stack where s: "native_stack payload = Some stack" by blast
  from assms False s obtain B where "payload' = put_stack (map (\<lambda>f. snd (with_window B (False, f))) stack) payload"
    by (auto simp: resolve_native_def native_frames_def Let_def bind_res_Inr_conv comp_def)
  then show ?thesis by (simp add: payload_positions_put_stack [OF s])
qed

lemma resolve_payload_positions:
  assumes "fst (resolve_payload E project release platform payload c) = Inr (n, payload')"
    and "platform \<notin> {''android'', ''ios''}"
  shows "payload_positions payload' = payload_positions payload"
proof -
  obtain js d where js: "symbolicate_payload_checked (symbol_env.truncate E) project release payload c = (js, d)" by fastforce
  with assms(1) obtain k p l where r: "js = Inr (k, p)"
    "symbolicate_native_checked E project release platform p = Inr (l, payload')"
    by (auto simp: resolve_payload_def bind_res_Inr_conv)
  have "payload_positions p = payload_positions payload"
  proof (cases "release = []")
    case False
    obtain maps where "walk_payload maps payload = (k, p)"
      using js r(1) False by (cases "fst (maps_for_release (symbol_env.truncate E) True project release c)")
        (auto simp: symbolicate_payload_checked_def resolve_maps_def split_beta)
    then show ?thesis using payload_positions_walk [of maps payload] by (metis snd_conv)
  qed (use js r(1) in \<open>simp add: symbolicate_payload_checked_def resolve_maps_def\<close>)
  with resolve_native_positions [of E True project release platform p l payload'] r(2) assms(2) show ?thesis
    by (simp add: symbolicate_native_checked_def)
qed

definition toy_proguard :: proguard_mapping where
  "toy_proguard = \<lparr>pg_is_valid = False, pg_uuid = 0, pg_class_count = 0, pg_method_count = 0, pg_line_info = False,
     pg_compiler = None, pg_compiler_version = None, remap_class = (\<lambda>_. None), remap_frame = (\<lambda>_ _ _. [])\<rparr>"

definition toy_native_env :: "(nat \<times> (string \<times> parsed_map) option, unit, unit) native_env" where
  "toy_native_env = symbol_env.extend toy_symbol_env
     (native_env.fields (\<lambda>_. toy_proguard) (\<lambda>_. None)
       \<lparr>bl_archive = (\<lambda>_. None), bl_manifest = (\<lambda>_. None), bl_json = (\<lambda>_. None), bl_hex_sha256 = id\<rparr>)"

end
