(* ===== verification/Jobs.thy ===== *)
theory Jobs
  imports PushCommands
begin

text \<open>
  Durable background jobs, \<^verbatim>\<open>self-hosted/server/src/jobs.rs\<close> and \<^verbatim>\<open>handlers/jobs.rs\<close>:
  a command is queued once per idempotency key, claimed under a lease, carried out in batches of at
  most 25 stored events that commit together with the cursor, retried with a growing delay and
  cancelled between batches.  Symbolication of one payload is a parameter.
\<close>

subsection \<open>Tables\<close>

record job =
  jb_project :: uuid
  jb_actor :: "uuid option"
  jb_generation :: int
  jb_release :: uuid
  jb_state :: string
  jb_attempt :: nat
  jb_max_attempts :: nat
  jb_next :: instant
  jb_owner :: "uuid option"
  jb_until :: "instant option"
  jb_cancel :: bool
  jb_scanned :: nat
  jb_rewritten :: nat
  jb_frames :: nat
  jb_cursor :: "(instant \<times> uuid) option"
  jb_error :: "string option"
  jb_created :: instant
  jb_finished :: "instant option"

record stored_event =
  ev_project :: uuid
  ev_release :: string
  ev_kind :: string
  ev_platform :: string
  ev_payload :: json
  ev_occurred :: instant
  ev_received :: instant

record jobs_db =
  jd_generation :: int
  jd_projects :: "uuid list"
  jd_releases :: "(uuid \<times> string) list"
  jd_jobs :: "(uuid \<times> job) list"
  jd_requests :: "((uuid \<times> string \<times> string) \<times> string \<times> uuid) list"
  jd_outbox :: "(uuid \<times> instant option) list"        \<comment> \<open>job, delivered at\<close>
  jd_audit :: "audit_row list"
  jd_events :: "(uuid \<times> stored_event) list"

subsection \<open>Queueing\<close>

datatype enqueue_error = Missing_row | Conflict | Full

definition active_states :: "string list" where
  "active_states = [''queued'', ''running'', ''retry_wait'']"

definition active_jobs :: "jobs_db \<Rightarrow> uuid \<Rightarrow> nat" where
  "active_jobs db project = length (filter (\<lambda>(_, j). jb_project j = project \<and> jb_state j \<in> set active_states) (jd_jobs db))"

definition new_job :: "instant \<Rightarrow> uuid \<Rightarrow> uuid \<Rightarrow> uuid option \<Rightarrow> int \<Rightarrow> job" where
  "new_job now project release actor generation =
     \<lparr>jb_project = project, jb_actor = actor, jb_generation = generation, jb_release = release,
      jb_state = ''queued'', jb_attempt = 0, jb_max_attempts = 5, jb_next = now, jb_owner = None,
      jb_until = None, jb_cancel = False, jb_scanned = 0, jb_rewritten = 0, jb_frames = 0,
      jb_cursor = None, jb_error = None, jb_created = now, jb_finished = None\<rparr>"

text \<open>The texts and the hash the keys are made of.\<close>
record hashing =
  hs_hex_sha256 :: "string \<Rightarrow> string"
  hs_uuid_text :: "uuid \<Rightarrow> string"
  hs_int_text :: "int \<Rightarrow> string"

definition request_subject :: "hashing \<Rightarrow> uuid option \<Rightarrow> string" where
  "request_subject H actor = (case actor of None \<Rightarrow> ''artifact-upload'' | Some i \<Rightarrow> hs_uuid_text H i)"

definition request_digest :: "hashing \<Rightarrow> uuid \<Rightarrow> int \<Rightarrow> string" where
  "request_digest H release generation = hs_hex_sha256 H
     (''resymbolicate:'' @ hs_uuid_text H release @ '':'' @ hs_int_text H generation)"

definition enqueue ::
  "hashing \<Rightarrow> instant \<Rightarrow> uuid \<Rightarrow> uuid \<Rightarrow> uuid \<Rightarrow> uuid option \<Rightarrow> string \<Rightarrow> jobs_db \<Rightarrow> (enqueue_error + uuid) \<times> jobs_db" where
  "enqueue H now fresh project release actor key db =
     (if project \<notin> set (jd_projects db) then (Inl Missing_row, db)
      else
        let subject = request_subject H actor;
            hash = hs_hex_sha256 H key;
            digest = request_digest H release (jd_generation db)
        in case map_of (jd_requests db) (project, subject, hash) of
             Some (d, i) \<Rightarrow> if d = digest then (Inr i, db) else (Inl Conflict, db)
           | None \<Rightarrow>
               if 256 \<le> active_jobs db project then (Inl Full, db)
               else (Inr fresh, db\<lparr>
                 jd_jobs := jd_jobs db @ [(fresh, new_job now project release actor (jd_generation db))],
                 jd_requests := jd_requests db @ [((project, subject, hash), digest, fresh)],
                 jd_outbox := jd_outbox db @ [(fresh, None)],
                 jd_audit := jd_audit db @ [\<lparr>au_project = Some project, au_actor = actor,
                   au_action = ''job.queued'', au_target_type = ''job'', au_target = hs_uuid_text H fresh,
                   au_payload = JObj [(''kind'', JStr ''resymbolicate''),
                     (''releaseId'', JStr (hs_uuid_text H release))]\<rparr>]\<rparr>))"

subsection \<open>Claiming and giving up\<close>

definition lease_over :: "instant \<Rightarrow> job \<Rightarrow> bool" where
  "lease_over now j \<longleftrightarrow> (case jb_until j of Some t \<Rightarrow> t \<le> now | None \<Rightarrow> False)"

text \<open>What the claim retires: another generation's jobs, cancelled ones and those out of attempts.\<close>
definition retirable :: "instant \<Rightarrow> int \<Rightarrow> job \<Rightarrow> bool" where
  "retirable now g j \<longleftrightarrow> jb_state j \<in> set active_states \<and> (jb_state j \<noteq> ''running'' \<or> lease_over now j)
     \<and> (jb_generation j \<noteq> g \<or> jb_cancel j \<or> jb_max_attempts j \<le> jb_attempt j)"

definition retired :: "instant \<Rightarrow> int \<Rightarrow> job \<Rightarrow> job" where
  "retired now g j = j\<lparr>jb_state := (if jb_cancel j then ''cancelled'' else ''failed''),
     jb_error := (if jb_generation j \<noteq> g then Some ''generation_changed''
       else if jb_cancel j then None else Some ''attempts_exhausted''),
     jb_owner := None, jb_until := None, jb_finished := Some now\<rparr>"

definition claimable :: "instant \<Rightarrow> int \<Rightarrow> (uuid \<times> job) list \<Rightarrow> (uuid \<times> instant option) list \<Rightarrow> uuid \<times> job \<Rightarrow> bool" where
  "claimable now g jobs outbox = (\<lambda>(i, j). i \<in> fst ` set outbox \<and> jb_generation j = g
     \<and> jb_attempt j < jb_max_attempts j \<and> \<not> jb_cancel j
     \<and> (jb_state j \<in> {''queued'', ''retry_wait''} \<and> jb_next j \<le> now \<or> jb_state j = ''running'' \<and> lease_over now j)
     \<and> \<not> (\<exists>(k, b) \<in> set jobs. jb_project b = jb_project j \<and> jb_state b = ''running'' \<and> k \<noteq> i))"

definition claimed_job :: "uuid \<Rightarrow> instant \<Rightarrow> job \<Rightarrow> job" where
  "claimed_job owner now j = j\<lparr>jb_state := ''running'', jb_attempt := jb_attempt j + 1, jb_owner := Some owner,
     jb_until := Some (now + secs 120), jb_error := None\<rparr>"

text \<open>\<open>locked\<close>: another process holds the advisory lock.\<close>
definition claim_job :: "bool \<Rightarrow> uuid \<Rightarrow> instant \<Rightarrow> jobs_db \<Rightarrow> (uuid \<times> uuid) option \<times> jobs_db" where
  "claim_job locked owner now db =
     (if locked then (None, db)
      else
        let g = jd_generation db;
            jobs = map (\<lambda>(i, j). (i, if retirable now g j then retired now g j else j)) (jd_jobs db)
        in case sort_key (\<lambda>(i, j). (jb_next j, jb_created j, i)) (filter (claimable now g jobs (jd_outbox db)) jobs) of
             [] \<Rightarrow> (None, db\<lparr>jd_jobs := jobs\<rparr>)
           | (i, _) # _ \<Rightarrow>
               (Some (i, owner), db\<lparr>jd_jobs := update_row i (claimed_job owner now) jobs,
                  jd_outbox := map (\<lambda>(k, t). (k, if k = i then Some (unwrap_or now t) else t)) (jd_outbox db)\<rparr>))"

definition owns_job :: "uuid \<Rightarrow> instant \<Rightarrow> job \<Rightarrow> bool" where
  "owns_job owner now j \<longleftrightarrow> jb_owner j = Some owner \<and> jb_state j = ''running''
     \<and> (case jb_until j of Some t \<Rightarrow> now < t | None \<Rightarrow> False)"

definition failed_job :: "string \<Rightarrow> instant \<Rightarrow> job \<Rightarrow> job" where
  "failed_job err now j =
     (let out = (jb_cancel j \<or> jb_max_attempts j \<le> jb_attempt j) in
      j\<lparr>jb_state := (if jb_cancel j then ''cancelled''
          else if jb_max_attempts j \<le> jb_attempt j then ''failed'' else ''retry_wait''),
        jb_error := Some err, jb_next := now + secs (min 300 (5 * jb_attempt j * jb_attempt j)),
        jb_finished := (if out then Some now else None), jb_owner := None, jb_until := None\<rparr>)"

definition fail_job :: "instant \<Rightarrow> uuid \<Rightarrow> uuid \<Rightarrow> string \<Rightarrow> jobs_db \<Rightarrow> jobs_db" where
  "fail_job now i owner err db =
     db\<lparr>jd_jobs := update_row i (\<lambda>j. if owns_job owner now j then failed_job err now j else j) (jd_jobs db)\<rparr>"

subsection \<open>A batch\<close>

definition below_cursor :: "(instant \<times> uuid) option \<Rightarrow> instant \<times> uuid \<Rightarrow> bool" where
  "below_cursor c k = (case c of None \<Rightarrow> True | Some c \<Rightarrow> k < c)"

definition event_key :: "uuid \<times> stored_event \<Rightarrow> instant \<times> uuid" where
  "event_key = (\<lambda>(i, e). (ev_occurred e, i))"

definition batch_rows :: "job \<Rightarrow> string \<Rightarrow> jobs_db \<Rightarrow> (uuid \<times> stored_event) list" where
  "batch_rows j release db =
     (if jb_cancel j then []
      else take (min (20000 - jb_scanned j) 25) (rev (sort_key event_key
        (filter (\<lambda>(i, e). ev_project e = jb_project j \<and> ev_release e = release \<and> ev_kind e = ''error''
            \<and> ev_received e \<le> jb_created j \<and> below_cursor (jb_cursor j) (ev_occurred e, i)) (jd_events db)))))"

type_synonym resolver = "string \<Rightarrow> json \<Rightarrow> (nat \<times> json) option"

text \<open>The payloads to rewrite, each with what was read; \<open>None\<close> when one cannot be resolved.\<close>
fun resolve_rows :: "resolver \<Rightarrow> (uuid \<times> stored_event) list \<Rightarrow> (uuid \<times> json \<times> json \<times> nat) list option" where
  "resolve_rows R [] = Some []"
| "resolve_rows R ((i, e) # rows) =
     (case R (ev_platform e) (ev_payload e) of
        None \<Rightarrow> None
      | Some (n, payload) \<Rightarrow>
          (case resolve_rows R rows of
             None \<Rightarrow> None
           | Some cs \<Rightarrow> Some (if 0 < n
               then (i, ev_payload e, payload, if n \<le> I32_MAX then n else I32_MAX) # cs else cs)))"

text \<open>
  The writes of one transaction: a payload is replaced where it still is what was read; one that
  was changed meanwhile fails the batch, one that is gone is passed over.
\<close>
fun write_changes :: "(uuid \<times> json \<times> json \<times> nat) list \<Rightarrow> nat \<times> nat \<Rightarrow> (uuid \<times> stored_event) list
    \<Rightarrow> ((nat \<times> nat) \<times> (uuid \<times> stored_event) list) option" where
  "write_changes [] counts evs = Some (counts, evs)"
| "write_changes ((i, original, payload, n) # cs) (rewritten, frames) evs =
     (case map_of evs i of
        None \<Rightarrow> write_changes cs (rewritten, frames) evs
      | Some e \<Rightarrow>
          if ev_payload e = original
          then write_changes cs (Suc rewritten, min (frames + n) I32_MAX) (update_row i (\<lambda>e. e\<lparr>ev_payload := payload\<rparr>) evs)
          else None)"

definition stopped_job :: "int \<Rightarrow> instant \<Rightarrow> job \<Rightarrow> job" where
  "stopped_job g now j = j\<lparr>jb_state := (if jb_generation j \<noteq> g then ''failed'' else ''cancelled''),
     jb_error := (if jb_generation j \<noteq> g then Some ''generation_changed'' else None),
     jb_finished := Some now, jb_owner := None, jb_until := None\<rparr>"

definition advanced_job :: "nat \<Rightarrow> nat \<times> nat \<Rightarrow> (instant \<times> uuid) option \<Rightarrow> bool \<Rightarrow> instant \<Rightarrow> job \<Rightarrow> job" where
  "advanced_job count counts cursor ended now j =
     j\<lparr>jb_scanned := jb_scanned j + count, jb_rewritten := jb_rewritten j + fst counts,
       jb_frames := jb_frames j + snd counts, jb_cursor := cursor,
       jb_state := (if ended then ''succeeded'' else ''running''),
       jb_owner := (if ended then None else jb_owner j),
       jb_until := (if ended then None else Some (now + secs 120)),
       jb_finished := (if ended then Some now else None)\<rparr>"

text \<open>
  \<open>db0\<close> is what the batch reads at \<open>t0\<close>, \<open>db1\<close> the tables when it writes at \<open>t1\<close>; the error is any
  failure, after which nothing is written.
\<close>
definition job_batch ::
  "resolver \<Rightarrow> instant \<Rightarrow> instant \<Rightarrow> uuid \<Rightarrow> uuid \<Rightarrow> jobs_db \<Rightarrow> jobs_db \<Rightarrow> (unit + bool) \<times> jobs_db" where
  "job_batch R t0 t1 i owner db0 db1 =
     (case map_of (jd_jobs db0) i of None \<Rightarrow> (Inr False, db1) | Some j \<Rightarrow>
     (case map_of (jd_releases db0) (jb_release j) of None \<Rightarrow> (Inr False, db1) | Some release \<Rightarrow>
       if \<not> owns_job owner t0 j then (Inr False, db1)
       else
         let rows = batch_rows j release db0 in
         case resolve_rows R rows of None \<Rightarrow> (Inl (), db1) | Some changes \<Rightarrow>
         (case map_of (jd_jobs db1) i of None \<Rightarrow> (Inr False, db1) | Some now_j \<Rightarrow>
           if \<not> owns_job owner t1 now_j then (Inr False, db1)
           else if jb_cancel now_j \<or> jb_generation now_j \<noteq> jd_generation db1 then
             (Inr False, db1\<lparr>jd_jobs := update_row i (stopped_job (jd_generation db1) t1) (jd_jobs db1)\<rparr>)
           else case write_changes changes (0, 0) (jd_events db1) of
             None \<Rightarrow> (Inl (), db1)
           | Some (counts, evs) \<Rightarrow>
               let count = length rows;
                   ended = (count < 25 \<or> 20000 \<le> jb_scanned j + count);
                   cursor = (if rows = [] then jb_cursor j else Some (event_key (last rows)))
               in (Inr (\<not> ended), db1\<lparr>jd_events := evs,
                    jd_jobs := update_row i (advanced_job count counts cursor ended t1) (jd_jobs db1)\<rparr>))))"

subsection \<open>The worker's loop over one job\<close>

text \<open>How a batch ended: in time, or cut off before or after it committed.\<close>
datatype cut_off = In_time | Cut_before | Cut_after

record job_turn =
  jt_resolver :: resolver
  jt_start :: instant
  jt_write :: instant
  jt_meanwhile :: "jobs_db \<Rightarrow> jobs_db"       \<comment> \<open>what others did between reading and writing\<close>
  jt_after :: "jobs_db \<Rightarrow> jobs_db"           \<comment> \<open>and between two batches\<close>
  jt_cut :: cut_off

definition run_batch :: "job_turn \<Rightarrow> uuid \<Rightarrow> uuid \<Rightarrow> jobs_db \<Rightarrow> (string + bool) \<times> jobs_db" where
  "run_batch T i owner db =
     (case job_batch (jt_resolver T) (jt_start T) (jt_write T) i owner db (jt_meanwhile T db) of
        (r, db') \<Rightarrow>
          (case jt_cut T of
             Cut_before \<Rightarrow> (Inl ''batch_timeout'', jt_meanwhile T db)
           | Cut_after \<Rightarrow> (Inl ''batch_timeout'', db')
           | In_time \<Rightarrow> (map_err (\<lambda>_. ''processing_failed'') r, db')))"

text \<open>\<open>None\<close> when the fuel runs out; otherwise the number of batches and the tables.\<close>
fun work_job :: "(nat \<Rightarrow> job_turn) \<Rightarrow> uuid \<Rightarrow> uuid \<Rightarrow> nat \<Rightarrow> nat \<Rightarrow> jobs_db \<Rightarrow> (nat \<times> jobs_db) option" where
  "work_job T i owner 0 k db = None"
| "work_job T i owner (Suc fuel) k db =
     (case run_batch (T k) i owner db of
        (Inr True, db') \<Rightarrow> work_job T i owner fuel (Suc k) (jt_after (T k) db')
      | (Inr False, db') \<Rightarrow> Some (Suc k, db')
      | (Inl err, db') \<Rightarrow> Some (Suc k, fail_job (jt_write (T k)) i owner err db'))"

subsection \<open>Cancelling\<close>

definition cancelled_job :: "instant \<Rightarrow> job \<Rightarrow> job" where
  "cancelled_job now j = j\<lparr>jb_cancel := True,
     jb_state := (if jb_state j = ''running'' then jb_state j else ''cancelled''),
     jb_finished := (if jb_state j = ''running'' then None else Some now)\<rparr>"

definition cancel_job :: "instant \<Rightarrow> uuid \<Rightarrow> uuid \<Rightarrow> uuid \<Rightarrow> hashing \<Rightarrow> jobs_db \<Rightarrow> (http_error + job option) \<times> jobs_db" where
  "cancel_job now project i actor H db =
     (case map_of (jd_jobs db) i of
        None \<Rightarrow> (Inl (http_error 404 ''not_found''), db)
      | Some j \<Rightarrow>
          if jb_project j \<noteq> project then (Inl (http_error 404 ''not_found''), db)
          else
            let db' = (if jb_state j \<in> set active_states \<and> \<not> jb_cancel j
              then db\<lparr>jd_jobs := update_row i (cancelled_job now) (jd_jobs db),
                jd_audit := jd_audit db @ [\<lparr>au_project = Some project, au_actor = Some actor,
                  au_action = ''job.cancel_requested'', au_target_type = ''job'', au_target = hs_uuid_text H i,
                  au_payload = JObj []\<rparr>]\<rparr>
              else db)
            in (Inr (map_of (jd_jobs db') i), db'))"

subsection \<open>The loop ends\<close>

definition scanned_of :: "jobs_db \<Rightarrow> uuid \<Rightarrow> nat option" where
  "scanned_of db i = map_option jb_scanned (map_of (jd_jobs db) i)"

text \<open>Others never count events into the job; they may delete it.\<close>
definition leaves_scanned :: "uuid \<Rightarrow> (jobs_db \<Rightarrow> jobs_db) \<Rightarrow> bool" where
  "leaves_scanned i f \<longleftrightarrow> (\<forall>db. scanned_of (f db) i = None \<or> scanned_of (f db) i = scanned_of db i)"

text \<open>A batch after which there is more to do has read exactly 25 events.\<close>
lemma job_batch_continues:
  assumes "job_batch R t0 t1 i owner db0 db1 = (Inr True, db')"
  obtains j k where "map_of (jd_jobs db0) i = Some j" and "map_of (jd_jobs db1) i = Some k"
    and "jb_scanned j + 25 < 20000"
    and "scanned_of db' i = Some (jb_scanned k + 25)"
proof -
  obtain j release k where j: "map_of (jd_jobs db0) i = Some j" and rel: "map_of (jd_releases db0) (jb_release j) = Some release"
    and k: "map_of (jd_jobs db1) i = Some k"
    using assms by (auto simp: job_batch_def Let_def split: option.splits if_splits)
  let ?rows = "batch_rows j release db0"
  obtain changes counts evs where r: "owns_job owner t0 j" "owns_job owner t1 k"
    "\<not> (length ?rows < 25 \<or> 20000 \<le> jb_scanned j + length ?rows)"
    "db' = db1\<lparr>jd_events := evs, jd_jobs := update_row i (advanced_job (length ?rows) counts
       (if ?rows = [] then jb_cursor j else Some (event_key (last ?rows))) False t1) (jd_jobs db1)\<rparr>"
    using assms j rel k by (auto simp: job_batch_def Let_def simp del: map_of_eq_Some_iff split: option.splits if_splits)
  have "length ?rows \<le> 25" by (auto simp: batch_rows_def)
  with r(3) have "length ?rows = 25" "jb_scanned j + 25 < 20000" by auto
  with j k r(4) that show thesis
    by (simp add: scanned_of_def map_of_update_row advanced_job_def del: map_of_eq_Some_iff)
qed

lemma job_batch_gone:
  assumes "scanned_of db0 i = None"
  shows "job_batch R t0 t1 i owner db0 db1 = (Inr False, db1)"
  using assms by (simp add: job_batch_def scanned_of_def split: option.splits)

lemma work_job_ends:
  assumes m: "\<And>k. leaves_scanned i (jt_meanwhile (T k))" and a: "\<And>k. leaves_scanned i (jt_after (T k))"
  shows "0 < fuel \<Longrightarrow> (\<And>s. scanned_of db i = Some s \<Longrightarrow> 20000 \<le> s + 25 * fuel)
    \<Longrightarrow> \<exists>n db'. work_job T i owner fuel k db = Some (n, db') \<and> n \<le> k + fuel"
proof (induction fuel arbitrary: k db)
  case (Suc fuel)
  show ?case
  proof (cases "\<exists>db'. run_batch (T k) i owner db = (Inr True, db')")
    case False
    obtain r db' where r: "run_batch (T k) i owner db = (r, db')" by fastforce
    with False show ?thesis by (cases r) (auto split: bool.splits)
  next
    case True
    then obtain db' where r: "run_batch (T k) i owner db = (Inr True, db')" by blast
    then have b: "job_batch (jt_resolver (T k)) (jt_start (T k)) (jt_write (T k)) i owner db (jt_meanwhile (T k) db)
        = (Inr True, db')"
      by (auto simp: run_batch_def map_err_def split: cut_off.splits sum.splits prod.splits)
    obtain j q where j: "map_of (jd_jobs db) i = Some j" "map_of (jd_jobs (jt_meanwhile (T k) db)) i = Some q"
      "jb_scanned j + 25 < 20000" "scanned_of db' i = Some (jb_scanned q + 25)"
      by (rule job_batch_continues [OF b])
    have "jb_scanned q = jb_scanned j"
      using m [of k] j(1,2) unfolding leaves_scanned_def scanned_of_def by (metis option.distinct(1) option.inject option.map(2))
    moreover have "20000 \<le> jb_scanned j + 25 * Suc fuel"
      using Suc.prems(2) j(1) by (simp add: scanned_of_def)
    ultimately have s: "s = jb_scanned j + 25" if "scanned_of (jt_after (T k) db') i = Some s" for s
      using a [of k] j(4) that unfolding leaves_scanned_def by (metis option.distinct(1) option.inject)
    with j(3) \<open>20000 \<le> jb_scanned j + 25 * Suc fuel\<close>
    have "0 < fuel" and "\<And>s. scanned_of (jt_after (T k) db') i = Some s \<Longrightarrow> 20000 \<le> s + 25 * fuel" by auto
    from Suc.IH [where k = "Suc k", OF this] r show ?thesis by auto
  qed
qed simp


definition toy_job :: job where
  "toy_job = (new_job 1 7 4 None 1)\<lparr>jb_state := ''running'', jb_owner := Some 5, jb_until := Some 100\<rparr>"

definition toy_event_row :: stored_event where
  "toy_event_row = \<lparr>ev_project = 7, ev_release = ''1.0'', ev_kind = ''error'', ev_platform = ''js'',
     ev_payload = JNull, ev_occurred = 1, ev_received = 1\<rparr>"

definition toy_jobs :: jobs_db where
  "toy_jobs = \<lparr>jd_generation = 1, jd_projects = [7], jd_releases = [(4, ''1.0'')], jd_jobs = [(3, toy_job)],
     jd_requests = [], jd_outbox = [(3, Some 1)], jd_audit = [], jd_events = [(8, toy_event_row)]\<rparr>"

definition toy_turn :: job_turn where
  "toy_turn = \<lparr>jt_resolver = (\<lambda>_ _. Some (1, JBool True)), jt_start = 2, jt_write = 3, jt_meanwhile = id,
     jt_after = id, jt_cut = In_time\<rparr>"

subsection \<open>Payload writes are fenced\<close>

text \<open>What a list of changes does to one event.\<close>
lemma write_changes_event:
  assumes "write_changes cs counts evs = Some (counts', evs')" and "distinct (map fst cs)"
  shows "map_of evs' e = map_of evs e
    \<or> (\<exists>original payload n ev. (e, original, payload, n) \<in> set cs \<and> map_of evs e = Some ev
         \<and> ev_payload ev = original \<and> map_of evs' e = Some (ev\<lparr>ev_payload := payload\<rparr>))"
  using assms
proof (induction cs counts evs rule: write_changes.induct)
  case (2 i original payload n cs rewritten frames evs)
  show ?case
  proof (cases "map_of evs i")
    case None
    with 2(1) [OF None] 2(3,4) show ?thesis by auto
  next
    case (Some ev)
    with 2(3) have o: "ev_payload ev = original" by (auto split: if_splits)
    let ?evs = "update_row i (\<lambda>e. e\<lparr>ev_payload := payload\<rparr>) evs"
    from 2(2) [OF Some o] 2(3,4) Some o have ih: "map_of evs' e = map_of ?evs e
      \<or> (\<exists>original payload n ev. (e, original, payload, n) \<in> set cs \<and> map_of ?evs e = Some ev
         \<and> ev_payload ev = original \<and> map_of evs' e = Some (ev\<lparr>ev_payload := payload\<rparr>))" by simp
    have m: "map_of ?evs e = (if e = i then Some (ev\<lparr>ev_payload := payload\<rparr>) else map_of evs e)"
      using Some by (simp add: map_of_update_row option.map_id del: map_of_eq_Some_iff)
    show ?thesis
    proof (cases "e = i")
      case True
      with 2(4) have "(e, x, y, z) \<notin> set cs" for x y z by force
      with ih have "map_of evs' e = map_of ?evs e" by blast
      with m True Some o show ?thesis by (intro disjI2) (auto simp del: map_of_eq_Some_iff)
    next
      case False
      with m ih show ?thesis by (auto simp del: map_of_eq_Some_iff)
    qed
  qed
qed simp

lemma resolve_rows_from:
  assumes "resolve_rows R rows = Some cs" and "(e, original, payload, n) \<in> set cs"
  shows "\<exists>ev k. (e, ev) \<in> set rows \<and> original = ev_payload ev \<and> R (ev_platform ev) original = Some (k, payload) \<and> 0 < k"
  using assms
proof (induction rows arbitrary: cs)
  case (Cons r rows)
  obtain i ev where r: "r = (i, ev)" by (cases r)
  from Cons.prems(1) obtain k p ds where k: "R (ev_platform ev) (ev_payload ev) = Some (k, p)" "resolve_rows R rows = Some ds"
    by (auto simp: r split: option.splits)
  with Cons.prems Cons.IH [OF k(2)] show ?case by (cases "0 < k") (fastforce simp: r)+
qed simp

lemma resolve_rows_keys: "resolve_rows R rows = Some cs \<Longrightarrow> set (map fst cs) \<subseteq> set (map fst rows)"
proof
  fix e assume cs: "resolve_rows R rows = Some cs" and "e \<in> set (map fst cs)"
  then obtain original payload n where "(e, original, payload, n) \<in> set cs" by auto
  from resolve_rows_from [OF cs this] show "e \<in> set (map fst rows)" by force
qed

lemma resolve_rows_distinct: "resolve_rows R rows = Some cs \<Longrightarrow> distinct (map fst rows) \<Longrightarrow> distinct (map fst cs)"
proof (induction rows arbitrary: cs)
  case (Cons r rows)
  obtain i ev where r: "r = (i, ev)" by (cases r)
  from Cons.prems(1) obtain k p ds where k: "R (ev_platform ev) (ev_payload ev) = Some (k, p)" "resolve_rows R rows = Some ds"
    by (auto simp: r split: option.splits)
  with Cons.prems Cons.IH [OF k(2)] resolve_rows_keys [OF k(2)] show ?case
    by (cases "0 < k") (auto simp: r)
qed simp

lemma batch_rows_in:
  "(e, ev) \<in> set (batch_rows j release db) \<Longrightarrow> (e, ev) \<in> set (jd_events db) \<and> \<not> jb_cancel j
     \<and> ev_project ev = jb_project j \<and> ev_release ev = release \<and> ev_kind ev = ''error''"
  by (auto simp: batch_rows_def split: if_splits dest: in_set_takeD)

lemma distinct_batch_rows:
  assumes "distinct (map fst (jd_events db))"
  shows "distinct (map fst (batch_rows j release db))"
proof -
  have "distinct (map fst (rev (sort_key event_key (filter P (jd_events db)))))" for P
    using distinct_map_filter [OF assms, of P] by (simp add: rev_map [symmetric] distinct_map)
  then show ?thesis by (simp add: batch_rows_def take_map [symmetric] distinct_take)
qed

text \<open>What a batch that changes events went through.\<close>
lemma job_batch_writes:
  assumes "job_batch R t0 t1 i owner db0 db1 = (r, db')" and "jd_events db' \<noteq> jd_events db1"
  obtains j0 j release changes counts counts' where "map_of (jd_jobs db0) i = Some j0"
    and "map_of (jd_releases db0) (jb_release j0) = Some release"
    and "resolve_rows R (batch_rows j0 release db0) = Some changes" and "map_of (jd_jobs db1) i = Some j"
    and "owns_job owner t1 j" and "\<not> jb_cancel j" and "jb_generation j = jd_generation db1"
    and "write_changes changes counts (jd_events db1) = Some (counts', jd_events db')"
  using assms that
  by (auto simp: job_batch_def Let_def simp del: map_of_eq_Some_iff split: option.splits if_splits)

text \<open>A change of a stored event is one that symbolication made of what the batch read.\<close>
lemma job_batch_fenced:
  assumes "distinct (map fst (jd_events db0))" and b: "job_batch R t0 t1 i owner db0 db1 = (r, db')"
    and c: "map_of (jd_events db') e \<noteq> map_of (jd_events db1) e"
  shows "\<exists>j read ev n payload. map_of (jd_jobs db1) i = Some j \<and> owns_job owner t1 j \<and> \<not> jb_cancel j
    \<and> jb_generation j = jd_generation db1
    \<and> map_of (jd_events db0) e = Some read \<and> ev_kind read = ''error''
    \<and> map_of (jd_events db1) e = Some ev \<and> ev_payload ev = ev_payload read
    \<and> R (ev_platform read) (ev_payload read) = Some (n, payload) \<and> 0 < n
    \<and> map_of (jd_events db') e = Some (ev\<lparr>ev_payload := payload\<rparr>)"
proof -
  have "jd_events db' \<noteq> jd_events db1" using c by auto
  then obtain j0 j release changes counts counts' where
    s: "resolve_rows R (batch_rows j0 release db0) = Some changes"
      "write_changes changes counts (jd_events db1) = Some (counts', jd_events db')"
    and j: "map_of (jd_jobs db1) i = Some j" "owns_job owner t1 j" "\<not> jb_cancel j" "jb_generation j = jd_generation db1"
    by (rule job_batch_writes [OF b])
  have "distinct (map fst changes)" using resolve_rows_distinct [OF s(1) distinct_batch_rows [OF assms(1)]] .
  from write_changes_event [OF s(2) this, of e] c obtain original payload n ev where
    w: "(e, original, payload, n) \<in> set changes" "map_of (jd_events db1) e = Some ev" "ev_payload ev = original"
      "map_of (jd_events db') e = Some (ev\<lparr>ev_payload := payload\<rparr>)" by blast
  from resolve_rows_from [OF s(1) w(1)] obtain read k where
    d: "(e, read) \<in> set (batch_rows j0 release db0)" "original = ev_payload read"
      "R (ev_platform read) original = Some (k, payload)" "0 < k" by blast
  from batch_rows_in [OF d(1)] assms(1) have "map_of (jd_events db0) e = Some read" "ev_kind read = ''error''" by auto
  with j w d show ?thesis
    by (intro exI [of _ j] exI [of _ read] exI [of _ ev] exI [of _ k] exI [of _ payload])
      (simp del: map_of_eq_Some_iff)
qed



subsection \<open>One job of a project at a time\<close>

definition job_typed :: "job \<Rightarrow> bool" where
  "job_typed j \<longleftrightarrow> jb_state j \<in> {''queued'', ''running'', ''retry_wait'', ''succeeded'', ''failed'', ''cancelled''}
     \<and> (jb_state j = ''running'' \<longleftrightarrow> jb_owner j \<noteq> None \<and> jb_until j \<noteq> None) \<and> jb_scanned j \<le> 20000"

definition one_running :: "(uuid \<times> job) list \<Rightarrow> bool" where
  "one_running jobs \<longleftrightarrow> (\<forall>i j k b. (i, j) \<in> set jobs \<longrightarrow> (k, b) \<in> set jobs \<longrightarrow> jb_state j = ''running''
     \<longrightarrow> jb_state b = ''running'' \<longrightarrow> jb_project j = jb_project b \<longrightarrow> i = k)"

definition job_rows_ok :: "(uuid \<times> job) list \<Rightarrow> bool" where
  "job_rows_ok jobs \<longleftrightarrow> distinct (map fst jobs) \<and> (\<forall>i j. (i, j) \<in> set jobs \<longrightarrow> job_typed j) \<and> one_running jobs"

definition jobs_typed :: "jobs_db \<Rightarrow> bool" where
  "jobs_typed db \<longleftrightarrow> job_rows_ok (jd_jobs db)"

text \<open>Updates that start nothing.\<close>
lemma job_rows_ok_map:
  assumes ok: "job_rows_ok jobs" and g: "\<And>i j. (i, j) \<in> set jobs \<Longrightarrow> job_typed j \<Longrightarrow> job_typed (g i j)
      \<and> jb_project (g i j) = jb_project j \<and> (jb_state (g i j) = ''running'' \<longrightarrow> jb_state j = ''running'')"
  shows "job_rows_ok (map (\<lambda>(i, j). (i, g i j)) jobs)"
proof -
  have t: "job_typed j" if "(i, j) \<in> set jobs" for i j using ok that unfolding job_rows_ok_def by blast
  have "one_running (map (\<lambda>(i, j). (i, g i j)) jobs)"
    unfolding one_running_def
  proof (intro allI impI)
    fix i x k y
    assume "(i, x) \<in> set (map (\<lambda>(i, j). (i, g i j)) jobs)" "(k, y) \<in> set (map (\<lambda>(i, j). (i, g i j)) jobs)"
    then obtain j b where "(i, j) \<in> set jobs" "x = g i j" "(k, b) \<in> set jobs" "y = g k b" by auto
    moreover assume "jb_state x = ''running''" "jb_state y = ''running''" "jb_project x = jb_project y"
    ultimately show "i = k"
      using g [of i j] g [of k b] t ok unfolding job_rows_ok_def one_running_def by metis
  qed
  moreover have "distinct (map fst (map (\<lambda>(i, j). (i, g i j)) jobs))" using ok by (simp add: job_rows_ok_def)
  ultimately show ?thesis using g t unfolding job_rows_ok_def by auto
qed

lemma job_rows_ok_update:
  assumes "job_rows_ok jobs" and "\<And>j. (i, j) \<in> set jobs \<Longrightarrow> job_typed j \<Longrightarrow> job_typed (f j)
      \<and> jb_project (f j) = jb_project j \<and> (jb_state (f j) = ''running'' \<longrightarrow> jb_state j = ''running'')"
  shows "job_rows_ok (update_row i f jobs)"
proof -
  have "job_rows_ok (map (\<lambda>(k, j). (k, if k = i then f j else j)) jobs)"
    by (rule job_rows_ok_map [OF assms(1)]) (use assms(2) in auto)
  then show ?thesis by (simp add: update_row_def)
qed

text \<open>The one update that starts a job finds the project idle.\<close>
lemma job_rows_ok_claim:
  assumes ok: "job_rows_ok jobs" and c: "claimable now g jobs outbox (i, j)" and i: "(i, j) \<in> set jobs"
  shows "job_rows_ok (update_row i (claimed_job owner now) jobs)"
proof -
  let ?js = "update_row i (claimed_job owner now) jobs"
  have d: "distinct (map fst jobs)" using ok by (simp add: job_rows_ok_def)
  have typed: "job_typed (claimed_job owner now b)" if "job_typed b" for b
    using that by (simp add: job_typed_def claimed_job_def)
  have idle: "k = i" if "(k, b) \<in> set jobs" "jb_state b = ''running''" "jb_project b = jb_project j" for k b
    using c that unfolding claimable_def by blast
  have proj: "jb_project (claimed_job owner now b) = jb_project b" for b by (simp add: claimed_job_def)
  have "one_running ?js"
    unfolding one_running_def
  proof (intro allI impI)
    fix k x l y
    assume a: "(k, x) \<in> set ?js" "(l, y) \<in> set ?js" and r: "jb_state x = ''running''" "jb_state y = ''running''"
      "jb_project x = jb_project y"
    from a obtain b e where b: "(k, b) \<in> set jobs" "x = (if k = i then claimed_job owner now b else b)"
      "(l, e) \<in> set jobs" "y = (if l = i then claimed_job owner now e else e)"
      by (auto elim!: in_update_row)
    have ij: "q = j" if "(i, q) \<in> set jobs" for q using eq_key_imp_eq_value [OF d that i] .
    show "k = l"
    proof (cases "k = i \<or> l = i")
      case True
      with b r idle ij proj show ?thesis by (metis (no_types))
    next
      case False
      with b r ok show ?thesis unfolding job_rows_ok_def one_running_def by auto
    qed
  qed
  moreover have "job_typed b" if "(k, b) \<in> set ?js" for k b
    using that ok typed unfolding job_rows_ok_def by (auto elim!: in_update_row)
  ultimately show ?thesis using d by (simp add: job_rows_ok_def)
qed

lemma jobs_typed_enqueue:
  assumes "jobs_typed db" and "fresh \<notin> fst ` set (jd_jobs db)"
  shows "jobs_typed (snd (enqueue H now fresh project release actor key db))"
proof -
  have "job_rows_ok (jd_jobs db @ [(fresh, new_job now project release actor g)])" for g
    using assms unfolding jobs_typed_def job_rows_ok_def one_running_def
    by (auto simp: job_typed_def new_job_def)
  with assms(1) show ?thesis
    by (auto simp: enqueue_def Let_def jobs_typed_def split: option.splits)
qed

lemma jobs_typed_claim:
  assumes "jobs_typed db"
  shows "jobs_typed (snd (claim_job locked owner now db))"
proof -
  let ?g = "jd_generation db"
  let ?jobs = "map (\<lambda>(i, j). (i, if retirable now ?g j then retired now ?g j else j)) (jd_jobs db)"
  have ok: "job_rows_ok ?jobs"
    using assms by (intro job_rows_ok_map) (auto simp: jobs_typed_def job_typed_def retired_def)
  let ?s = "sort_key (\<lambda>(i, j). (jb_next j, jb_created j, i)) (filter (claimable now ?g ?jobs (jd_outbox db)) ?jobs)"
  show ?thesis
  proof (cases "locked \<or> ?s = []")
    case True
    with assms ok show ?thesis by (auto simp: claim_job_def jobs_typed_def Let_def)
  next
    case False
    then obtain i j rest where s: "?s = (i, j) # rest" by (cases ?s) auto
    then have "(i, j) \<in> set ?s" by simp
    then have "(i, j) \<in> set ?jobs" "claimable now ?g ?jobs (jd_outbox db) (i, j)" by auto
    from job_rows_ok_claim [OF ok this(2,1)] False s show ?thesis by (simp add: claim_job_def jobs_typed_def Let_def)
  qed
qed

lemma jobs_typed_fail: "jobs_typed db \<Longrightarrow> jobs_typed (fail_job now i owner err db)"
  unfolding jobs_typed_def fail_job_def
  by (simp, rule job_rows_ok_update) (auto simp: job_typed_def failed_job_def Let_def)

lemma length_batch_rows: "length (batch_rows j release db) \<le> 20000 - jb_scanned j"
  by (auto simp: batch_rows_def)

lemma jobs_typed_batch:
  assumes "jobs_typed db" and "scanned_of db i = scanned_of db0 i"
  shows "jobs_typed (snd (job_batch R t0 t1 i owner db0 db))"
proof -
  have d: "distinct (map fst (jd_jobs db))" using assms(1) by (simp add: jobs_typed_def job_rows_ok_def)
  have "job_rows_ok (update_row i (stopped_job g t1) (jd_jobs db))" for g
    using assms(1) unfolding jobs_typed_def
    by (rule job_rows_ok_update) (auto simp: job_typed_def stopped_job_def)
  moreover have "job_rows_ok (update_row i (advanced_job n counts cursor e t1) (jd_jobs db))"
    if "map_of (jd_jobs db0) i = Some j" and "map_of (jd_jobs db) i = Some k" and "owns_job owner t1 k"
      and "n \<le> 20000 - jb_scanned j" for j k n counts cursor e
    using assms(1) unfolding jobs_typed_def
  proof (rule job_rows_ok_update)
    fix q assume q: "(i, q) \<in> set (jd_jobs db)" "job_typed q"
    have k: "q = k" using q(1) that(2) d by simp
    have "jb_scanned q = jb_scanned j" using assms(2) that(1,2) k by (simp add: scanned_of_def del: map_of_eq_Some_iff)
    moreover have "jb_scanned q \<le> 20000" using q(2) by (simp add: job_typed_def)
    ultimately have "jb_scanned q + n \<le> 20000" using that(4) by linarith
    with q(2) that(3) k show "job_typed (advanced_job n counts cursor e t1 q)
      \<and> jb_project (advanced_job n counts cursor e t1 q) = jb_project q
      \<and> (jb_state (advanced_job n counts cursor e t1 q) = ''running'' \<longrightarrow> jb_state q = ''running'')"
      by (auto simp: job_typed_def advanced_job_def owns_job_def)
  qed
  ultimately show ?thesis using assms(1)
    by (auto simp: job_batch_def Let_def jobs_typed_def length_batch_rows simp del: map_of_eq_Some_iff split: option.splits)
qed

lemma jobs_typed_cancel:
  assumes "jobs_typed db"
  shows "jobs_typed (snd (cancel_job now project i actor H db))"
proof -
  have "job_rows_ok (update_row i (cancelled_job now) (jd_jobs db))"
    using assms unfolding jobs_typed_def
    by (rule job_rows_ok_update) (auto simp: job_typed_def cancelled_job_def)
  with assms show ?thesis by (auto simp: cancel_job_def Let_def jobs_typed_def split: option.splits)
qed

text \<open>C20. Queueing, claiming, failing, carrying out a batch and cancelling keep the jobs well formed: a
  job is running exactly while it is leased, has read at most 20000 events, and no project has two
  jobs running.\<close>
theorem jobs_serialized:
  assumes "jobs_typed db" and "fresh \<notin> fst ` set (jd_jobs db)" and "scanned_of db i = scanned_of db0 i"
  shows "jobs_typed (snd (enqueue H now fresh project release actor key db))
    \<and> jobs_typed (snd (claim_job locked owner now db))
    \<and> jobs_typed (fail_job now i owner err db)
    \<and> jobs_typed (snd (job_batch R t0 t1 i owner db0 db))
    \<and> jobs_typed (snd (cancel_job now project i user H db))"
  using jobs_typed_enqueue [OF assms(1,2)] jobs_typed_claim [OF assms(1)] jobs_typed_fail [OF assms(1)]
    jobs_typed_batch [OF assms(1,3)] jobs_typed_cancel [OF assms(1)] by simp

definition toy_hashing :: hashing where
  "toy_hashing = \<lparr>hs_hex_sha256 = id, hs_uuid_text = show_nat, hs_int_text = (\<lambda>n. show_nat (nat n))\<rparr>"

theorem jobs_serialized_witness:
  "jobs_typed (snd (enqueue toy_hashing 2 11 7 4 None ''k'' toy_jobs)) \<and> jobs_typed (snd (claim_job False 12 200 toy_jobs))"
proof -
  have "jobs_typed toy_jobs"
    by (simp add: jobs_typed_def job_rows_ok_def one_running_def toy_jobs_def toy_job_def new_job_def job_typed_def)
  moreover have "11 \<notin> fst ` set (jd_jobs toy_jobs)" by (simp add: toy_jobs_def)
  ultimately have "jobs_typed (snd (enqueue toy_hashing n 11 7 4 None ''k'' toy_jobs))
      \<and> jobs_typed (snd (claim_job False 12 n toy_jobs))" for n
    using jobs_serialized [of toy_jobs 11 3 toy_jobs toy_hashing n 7 4 None "''k''" False 12] by blast
  then show ?thesis by blast
qed

subsection \<open>The lease of a job\<close>

interpretation job_lease: leased_rows "\<lambda>now j. claimable now g jobs outbox (i, j)" claimed_job owns_job failed_job "secs 120"
  for g jobs outbox i
  by unfold_locales
    (auto simp: claimable_def claimed_job_def owns_job_def failed_job_def lease_over_def Let_def secs_def split: option.splits)

text \<open>A worker whose job was claimed again by another cannot fail it.\<close>
lemma fail_job_stale:
  assumes "jd_jobs db = [(i, claimed_job t now j)]" and "claimable now g jobs outbox (i, j)" and "owner \<noteq> t"
  shows "fail_job n i owner err db = db"
proof -
  have "\<not> owns_job owner n (claimed_job t now j)"
    using job_lease.held_by_other [OF assms(2,3)] by (simp add: secs_def)
  with assms(1) show ?thesis by (simp add: fail_job_def update_row_def)
qed

end
