(* ===== verification/Resymbolicate.thy ===== *)
theory Resymbolicate
  imports NativeSymbolicate Jobs
begin

text \<open>
  Reading stored crashes again once their artifacts arrive: the operator's pass over a release,
  \<^verbatim>\<open>self-hosted/server/src/resymbolicate.rs\<close>, and what the background jobs of theory \<open>Jobs\<close> do to
  stored payloads when their resolver is the pass of theory \<open>NativeSymbolicate\<close>.
\<close>

subsection \<open>The operator's pass\<close>

definition MAX_EVENTS :: nat where "MAX_EVENTS = 20000"

record stats =
  st_scanned :: nat
  st_rewritten :: nat
  st_frames :: nat

text \<open>The release's stored errors, the latest first.\<close>
definition release_events :: "uuid \<Rightarrow> string \<Rightarrow> (uuid \<times> stored_event) list \<Rightarrow> (uuid \<times> stored_event) list" where
  "release_events project release evs =
     take MAX_EVENTS (sort_key (\<lambda>(_, e). - int (ev_occurred e))
       (filter (\<lambda>(_, e). ev_project e = project \<and> ev_release e = release \<and> ev_kind e = ''error'') evs))"

text \<open>The loop; an error ends it, what was updated before stays.\<close>
fun rewrite_events ::
  "('c, 'i, 'e) native_env \<Rightarrow> uuid \<Rightarrow> string \<Rightarrow> (uuid \<times> stored_event) list \<Rightarrow> stats
     \<Rightarrow> (uuid \<times> stored_event) list \<Rightarrow> 'c resolver_cache
     \<Rightarrow> (symbol_error + stats) \<times> (uuid \<times> stored_event) list \<times> 'c resolver_cache" where
  "rewrite_events E project release [] tally evs c = (Inr tally, evs, c)"
| "rewrite_events E project release ((i, e) # rows) tally evs c =
     (let (r, c) = resolve_payload E project release (ev_platform e) (ev_payload e) c in
      case r of
        Inl err \<Rightarrow> (Inl err, evs, c)
      | Inr (n, payload) \<Rightarrow>
          if n = 0 then rewrite_events E project release rows tally evs c
          else rewrite_events E project release rows
            (tally\<lparr>st_rewritten := st_rewritten tally + 1, st_frames := st_frames tally + n\<rparr>)
            (update_row i (\<lambda>e. e\<lparr>ev_payload := payload\<rparr>) evs) c)"

definition one_release ::
  "('c, 'i, 'e) native_env \<Rightarrow> uuid \<Rightarrow> string \<Rightarrow> (uuid \<times> stored_event) list \<Rightarrow> 'c resolver_cache
     \<Rightarrow> (symbol_error + stats) \<times> (uuid \<times> stored_event) list \<times> 'c resolver_cache" where
  "one_release E project release evs c =
     (let rows = release_events project release evs
      in rewrite_events E project release rows
        \<lparr>st_scanned = length rows, st_rewritten = 0, st_frames = 0\<rparr> evs c)"

subsection \<open>No pass moves a crash\<close>

text \<open>The event is still there, with its frames pointing where they did.\<close>
definition same_positions :: "(uuid \<times> stored_event) list \<Rightarrow> (uuid \<times> stored_event) list \<Rightarrow> uuid \<Rightarrow> bool" where
  "same_positions evs evs' i \<longleftrightarrow>
     map_option (\<lambda>e. payload_positions (ev_payload e)) (map_of evs' i)
       = map_option (\<lambda>e. payload_positions (ev_payload e)) (map_of evs i)"

lemma same_positions_update:
  assumes "map_of evs i = Some e" and "payload_positions payload = payload_positions (ev_payload e)"
  shows "same_positions evs (update_row i (\<lambda>e. e\<lparr>ev_payload := payload\<rparr>) evs) j"
  using assms by (cases "j = i") (simp_all add: same_positions_def map_of_update_row option.map_id)

lemma rewrite_events_positions:
  assumes "rewrite_events E project release rows tally evs c = (r, evs', c')"
    and "\<And>i e. (i, e) \<in> set rows \<Longrightarrow> map_of evs i = Some e" and "distinct (map fst rows)"
    and "\<And>i e. (i, e) \<in> set rows \<Longrightarrow> ev_platform e \<notin> {''android'', ''ios''}"
  shows "same_positions evs evs' j"
  using assms
proof (induction rows arbitrary: tally evs c)
  case (Cons row rows)
  obtain i e where row: "row = (i, e)" by fastforce
  obtain res d where r: "resolve_payload E project release (ev_platform e) (ev_payload e) c = (res, d)" by fastforce
  have e: "map_of evs i = Some e" "ev_platform e \<notin> {''android'', ''ios''}"
    using Cons.prems(2) [of i e] Cons.prems(4) [of i e] row by (auto simp del: map_of_eq_Some_iff)
  show ?case
  proof (cases res)
    case (Inl err)
    with Cons.prems(1) r row show ?thesis by (simp add: same_positions_def)
  next
    case (Inr np)
    obtain n payload where np: "np = (n, payload)" by fastforce
    show ?thesis
    proof (cases "n = 0")
      case True
      with Cons.prems(1) r row Inr np have "rewrite_events E project release rows tally evs d = (r, evs', c')" by simp
      with Cons.prems(2-4) show ?thesis by (intro Cons.IH) auto
    next
      case False
      let ?evs = "update_row i (\<lambda>e. e\<lparr>ev_payload := payload\<rparr>) evs"
      have "fst (resolve_payload E project release (ev_platform e) (ev_payload e) c) = Inr (n, payload)"
        using r Inr np by simp
      then have "payload_positions payload = payload_positions (ev_payload e)"
        using e(2) by (rule resolve_payload_positions)
      then have "same_positions evs ?evs j" by (rule same_positions_update [OF e(1)])
      moreover have "rewrite_events E project release rows
          (tally\<lparr>st_rewritten := st_rewritten tally + 1, st_frames := st_frames tally + n\<rparr>) ?evs d = (r, evs', c')"
        using Cons.prems(1) r row Inr np False by simp
      then have "same_positions ?evs evs' j"
      proof (rule Cons.IH)
        fix k f assume k: "(k, f) \<in> set rows"
        then have "k \<noteq> i" using Cons.prems(3) row by force
        then show "map_of ?evs k = Some f"
          using Cons.prems(2) [of k f] k by (simp add: map_of_update_row)
        show "ev_platform f \<notin> {''android'', ''ios''}" using Cons.prems(4) [of k f] k by auto
      qed (use Cons.prems(3) in simp)
      ultimately show ?thesis by (simp add: same_positions_def)
    qed
  qed
qed (simp add: same_positions_def)

lemma one_release_positions:
  assumes "one_release E project release evs c = (r, evs', c')" and "distinct (map fst evs)"
    and "\<And>i e. (i, e) \<in> set evs \<Longrightarrow> ev_platform e \<notin> {''android'', ''ios''}"
  shows "same_positions evs evs' j"
proof -
  let ?rows = "release_events project release evs"
  have sub: "set ?rows \<subseteq> set evs" by (auto simp: release_events_def dest!: in_set_takeD)
  have "distinct ?rows"
    using distinct_map [of fst evs] assms(2) by (simp add: release_events_def)
  moreover have "inj_on fst (set ?rows)"
    using distinct_map [of fst evs] assms(2) sub by (meson inj_on_subset)
  ultimately have "distinct (map fst ?rows)" by (simp add: distinct_map)
  with assms sub show ?thesis
    by (intro rewrite_events_positions [of E project release ?rows _ evs c r evs' c'])
      (auto simp: one_release_def Let_def)
qed

text \<open>Background symbolication never loses where a stored crash was: whatever a batch of a job
  writes, made of passes over the release's artifacts at whatever moments, each stored JavaScript
  crash is still there and every frame of it and of its causes keeps its minified position.\<close>
theorem job_batch_keeps_positions:
  assumes "job_batch R t0 t1 i owner db0 db1 = (r, db')" and "distinct (map fst (jd_events db0))"
    and "\<And>platform v n v'. R platform v = Some (n, v')
      \<Longrightarrow> \<exists>project release c. fst (resolve_payload E project release platform v c) = Inr (n, v')"
    and "\<And>read. map_of (jd_events db0) e = Some read \<Longrightarrow> ev_platform read \<notin> {''android'', ''ios''}"
  shows "same_positions (jd_events db1) (jd_events db') e"
proof (cases "map_of (jd_events db') e = map_of (jd_events db1) e")
  case False
  from job_batch_fenced [OF assms(2,1) False] obtain read ev n payload where
    w: "map_of (jd_events db0) e = Some read" "map_of (jd_events db1) e = Some ev" "ev_payload ev = ev_payload read"
      "R (ev_platform read) (ev_payload read) = Some (n, payload)"
      "map_of (jd_events db') e = Some (ev\<lparr>ev_payload := payload\<rparr>)" by blast
  from assms(3) [OF w(4)] obtain project release c where
    "fst (resolve_payload E project release (ev_platform read) (ev_payload read) c) = Inr (n, payload)" by blast
  from resolve_payload_positions [OF this assms(4) [OF w(1)]] w show ?thesis
    by (simp add: same_positions_def del: map_of_eq_Some_iff)
qed (simp add: same_positions_def)

definition toy_resolver :: resolver where
  "toy_resolver platform v = ok (fst (resolve_payload toy_native_env 7 ''1.0'' platform v (new_cache toy_lru)))"

definition toy_crash_jobs :: jobs_db where
  "toy_crash_jobs = toy_jobs\<lparr>jd_events := [(8, toy_event_row\<lparr>
     ev_payload := JObj [(''error'', JObj [(''stack'', JArr [toy_frame])])]\<rparr>)]\<rparr>"

theorem job_batch_keeps_positions_witness:
  "same_positions (jd_events toy_crash_jobs)
     (jd_events (snd (job_batch toy_resolver 2 3 3 5 toy_crash_jobs toy_crash_jobs))) 8"
proof -
  obtain r db' where b: "job_batch toy_resolver 2 3 3 5 toy_crash_jobs toy_crash_jobs = (r, db')" by fastforce
  have "\<exists>project release c. fst (resolve_payload toy_native_env project release platform v c) = Inr (n, v')"
    if "toy_resolver platform v = Some (n, v')" for platform v n v'
    using that by (auto simp: toy_resolver_def ok_def split: sum.splits)
  then show ?thesis
    using job_batch_keeps_positions [OF b, of toy_native_env 8] b
    by (simp add: toy_crash_jobs_def toy_event_row_def)
qed

end
