(* ===== verification/Argon2Password.thy ===== *)
theory Argon2Password
  imports Prelude
begin

text \<open>
  The argon2-password crate, \<^verbatim>\<open>core/crates/argon2-password/src\<close>: its parameters and their
  validation, hashing and verification.  Argon2 itself, the reader of PHC strings and the salt are
  parameters; zeroisation is not modelled.
\<close>

record params =
  m_cost :: nat
  t_cost :: nat
  p_cost :: nat

definition OWASP_2025 :: params where "OWASP_2025 = \<lparr>m_cost = 19 * 1024, t_cost = 2, p_cost = 1\<rparr>"
definition INTERACTIVE :: params where "INTERACTIVE = \<lparr>m_cost = 12 * 1024, t_cost = 2, p_cost = 1\<rparr>"
definition SENSITIVE :: params where "SENSITIVE = \<lparr>m_cost = 64 * 1024, t_cost = 3, p_cost = 1\<rparr>"
definition TEST_FAST :: params where "TEST_FAST = \<lparr>m_cost = 8, t_cost = 1, p_cost = 1\<rparr>"

datatype password_error = TooLong | InvalidParams string | EntropyFailure | MalformedHash

definition validate_params :: "params \<Rightarrow> password_error + unit" where
  "validate_params p =
     (if m_cost p < 8 then Inl (InvalidParams ''m_cost < 8 KiB'')
      else if 4 * 1024 * 1024 < m_cost p then Inl (InvalidParams ''m_cost > 4 GiB'')
      else if t_cost p = 0 then Inl (InvalidParams ''t_cost == 0'')
      else if p_cost p = 0 then Inl (InvalidParams ''p_cost == 0'')
      else if 16 < p_cost p then Inl (InvalidParams ''p_cost > 16'')
      else Inr ())"

text \<open>What a check of the \<^verbatim>\<open>argon2\<close> crate against a stored hash can say.\<close>
datatype verdict = Matches | Differs | Unusable

text \<open>
  The \<^verbatim>\<open>argon2\<close> crate: accepting cost parameters, hashing a password under a salt to a PHC
  string, the algorithm named by a PHC string (\<open>None\<close>: not one) and checking a password.
\<close>
record argon =
  ag_params :: "params \<Rightarrow> password_error + unit"
  ag_hash :: "params \<Rightarrow> string \<Rightarrow> password_error + string"
  ag_algorithm :: "string \<Rightarrow> string option"
  ag_verify :: "string \<Rightarrow> string \<Rightarrow> verdict"

definition MAX_PASSWORD_BYTES :: nat where "MAX_PASSWORD_BYTES = 1024"

definition hash_with_params :: "argon \<Rightarrow> string \<Rightarrow> params \<Rightarrow> password_error + string" where
  "hash_with_params A password p =
     (if MAX_PASSWORD_BYTES < length password then Inl TooLong
      else bind_res (validate_params p) (\<lambda>_. bind_res (ag_params A p) (\<lambda>_. ag_hash A p password)))"

definition argon_hash :: "argon \<Rightarrow> string \<Rightarrow> password_error + string" where
  "argon_hash A password = hash_with_params A password OWASP_2025"

definition argon_verify :: "argon \<Rightarrow> string \<Rightarrow> string \<Rightarrow> password_error + bool" where
  "argon_verify A password stored =
     (if MAX_PASSWORD_BYTES < length password then Inl TooLong
      else case ag_algorithm A stored of
        None \<Rightarrow> Inl MalformedHash
      | Some a \<Rightarrow>
          if a \<noteq> ''argon2id'' \<and> a \<noteq> ''argon2i'' \<and> a \<noteq> ''argon2d'' then Inl MalformedHash
          else (case ag_verify A password stored of
              Matches \<Rightarrow> Inr True | Differs \<Rightarrow> Inr False | Unusable \<Rightarrow> Inl MalformedHash))"

text \<open>Hashing yields an argon2 string that the hashed password and no other matches.\<close>
definition argon_lawful :: "argon \<Rightarrow> bool" where
  "argon_lawful A \<longleftrightarrow> (\<forall>p password stored. ag_hash A p password = Inr stored \<longrightarrow>
     ag_algorithm A stored = Some ''argon2id''
     \<and> (\<forall>q. ag_verify A q stored = (if q = password then Matches else Differs)))"

lemma argon_round_trip:
  assumes "argon_lawful A" and "argon_hash A password = Inr stored"
  shows "argon_verify A q stored
    = (if MAX_PASSWORD_BYTES < length q then Inl TooLong else Inr (q = password))"
proof -
  from assms(2) have "ag_hash A OWASP_2025 password = Inr stored"
    by (auto simp: argon_hash_def hash_with_params_def bind_res_Inr_conv split: if_splits)
  with assms(1) show ?thesis by (auto simp: argon_verify_def argon_lawful_def)
qed

lemma defaults_valid: "p \<in> {OWASP_2025, INTERACTIVE, SENSITIVE, TEST_FAST} \<Longrightarrow> validate_params p = Inr ()"
  by (auto simp: validate_params_def OWASP_2025_def INTERACTIVE_def SENSITIVE_def TEST_FAST_def)

end
