(* ===== verification/Accounts.thy ===== *)
theory Accounts
  imports Argon2Password PushCommands
begin

text \<open>
  Accounts and sessions of the console: \<^verbatim>\<open>self-hosted/server/src/session_mw.rs\<close> (who a request
  is), \<^verbatim>\<open>handlers/auth.rs\<close> (login, logout, changing and resetting a password) and
  \<^verbatim>\<open>handlers/admin/users.rs\<close> (creating and deleting admins, assigning projects).  The tables are
  lists of rows.  Three flags say what the database does during a request: \<open>ae_fails\<close>, it answers
  no statement of the handler; \<open>ae_late_fails\<close>, a write or the commit of the transaction fails, and
  the transaction changes nothing; \<open>ae_audit_fails\<close>, an audit record written on its own is lost.  SHA-256, base32, Argon2, SQL's \<open>LOWER\<close> and the random bytes are
  parameters.  The single sign-on of Cloud instances is not modelled.
\<close>

subsection \<open>Tables\<close>

record user =
  us_email :: string
  us_phc :: string
  us_role :: string
  us_display :: "string option"
  us_last_login :: "instant option"

record auth_session =
  ss_user :: uuid
  ss_expires :: instant
  ss_last_seen :: instant
  ss_ip :: "string option"
  ss_agent :: "string option"

record reset_row =
  rs_user :: uuid
  rs_hash :: bytes
  rs_expires :: instant
  rs_used :: "instant option"

record accounts =
  ac_users :: "(uuid \<times> user) list"
  ac_sessions :: "(bytes \<times> auth_session) list"
  ac_resets :: "(uuid \<times> reset_row) list"
  ac_projects :: "uuid list"
  ac_assigned :: "(uuid \<times> uuid) list"
  ac_audit :: "audit_row list"
  ac_mails :: "(string \<times> string) list"                       \<comment> \<open>address, reset token\<close>

record auth_env =
  ae_now :: instant
  ae_fails :: bool
  ae_late_fails :: bool
  ae_audit_fails :: bool
  ae_sha256 :: "bytes \<Rightarrow> bytes"
  ae_lower :: "string \<Rightarrow> string"
  ae_argon :: argon
  ae_base32 :: "bytes \<Rightarrow> string"
  ae_random :: bytes
  ae_fresh :: uuid
  ae_uuid_text :: "uuid \<Rightarrow> string"
  ae_ip :: "string option"
  ae_agent :: "string option"

record http_reply =
  hr_status :: nat
  hr_cookie :: "string option"
  hr_body :: json

definition plain :: "nat \<Rightarrow> json \<Rightarrow> http_reply" where
  "plain n body = \<lparr>hr_status = n, hr_cookie = None, hr_body = body\<rparr>"

definition failure :: "nat \<Rightarrow> string \<Rightarrow> http_reply" where
  "failure n c = plain n (JObj [(''error'', JStr c)])"

definition ok_reply :: http_reply where "ok_reply = plain 200 (JObj [(''ok'', JBool True)])"

definition internal :: http_reply where "internal = failure 500 ''internal''"

subsection \<open>Sessions\<close>

datatype role = Superadmin | Admin

definition role_from_db :: "string \<Rightarrow> role option" where
  "role_from_db s = (if s = ''superadmin'' then Some Superadmin else if s = ''admin'' then Some Admin else None)"

fun role_db_str :: "role \<Rightarrow> string" where
  "role_db_str Superadmin = ''superadmin''"
| "role_db_str Admin = ''admin''"

record session_context =
  sx_user :: uuid
  sx_role :: role
  sx_hash :: bytes

definition session_hash :: "auth_env \<Rightarrow> string \<Rightarrow> bytes" where
  "session_hash E token = ae_sha256 E (bytes_of token)"

text \<open>The request headers the middleware reads: values that are visible ASCII, else \<open>None\<close>.\<close>
record headers =
  hd_authorization :: "string option"
  hd_cookie :: "string option"

fun cookie_token :: "string list \<Rightarrow> string option" where
  "cookie_token [] = None"
| "cookie_token (part # parts) =
     (case strip_prefix (trim part) ''sentori_session='' of
        Some rest \<Rightarrow> Some (trim rest)
      | None \<Rightarrow> cookie_token parts)"

definition extract_token :: "headers \<Rightarrow> string option" where
  "extract_token h =
     (case Option.bind (hd_authorization h) (\<lambda>s. strip_prefix s ''Bearer '') of
        Some rest \<Rightarrow> Some (trim rest)
      | None \<Rightarrow> (case hd_cookie h of None \<Rightarrow> None | Some s \<Rightarrow> cookie_token (split_on (CHR '';'') s)))"

text \<open>The session of a token: unexpired, of an existing user of a known role.\<close>
definition session_of :: "auth_env \<Rightarrow> string \<Rightarrow> accounts \<Rightarrow> string + session_context" where
  "session_of E token S =
     (if ae_fails E then Inl ''internal''
      else
        let hash = session_hash E token in
        (case map_of (ac_sessions S) hash of
           None \<Rightarrow> Inl ''session expired or invalid''
         | Some s \<Rightarrow>
             if ss_expires s \<le> ae_now E then Inl ''session expired or invalid''
             else (case map_of (ac_users S) (ss_user s) of
                 None \<Rightarrow> Inl ''session expired or invalid''
               | Some u \<Rightarrow> (case role_from_db (us_role u) of
                   None \<Rightarrow> Inl ''internal''
                 | Some r \<Rightarrow> Inr \<lparr>sx_user = ss_user s, sx_role = r, sx_hash = hash\<rparr>))))"

definition touch_session :: "auth_env \<Rightarrow> bytes \<Rightarrow> accounts \<Rightarrow> accounts" where
  "touch_session E hash S = S\<lparr>ac_sessions := map (\<lambda>(h, s). (h, if h = hash then s\<lparr>ss_last_seen := ae_now E\<rparr> else s)) (ac_sessions S)\<rparr>"

definition reject :: "string \<Rightarrow> http_reply" where
  "reject reason = plain 401 (JObj [(''error'', JStr ''unauthorized''), (''reason'', JStr reason)])"

text \<open>The middleware, on any state that holds the accounts.\<close>
definition session_layer ::
  "('s \<Rightarrow> accounts) \<Rightarrow> ((accounts \<Rightarrow> accounts) \<Rightarrow> 's \<Rightarrow> 's) \<Rightarrow> auth_env \<Rightarrow> headers
     \<Rightarrow> (session_context \<Rightarrow> 's \<Rightarrow> http_reply \<times> 's) \<Rightarrow> 's \<Rightarrow> http_reply \<times> 's" where
  "session_layer get_accounts on_accounts E h next S =
     (case extract_token h of
        None \<Rightarrow> (reject ''session token missing'', S)
      | Some token \<Rightarrow>
          (case session_of E token (get_accounts S) of
             Inl reason \<Rightarrow> (reject reason, S)
           | Inr ctx \<Rightarrow> next ctx (on_accounts (touch_session E (sx_hash ctx)) S)))"

definition session_middleware ::
  "auth_env \<Rightarrow> headers \<Rightarrow> (session_context \<Rightarrow> accounts \<Rightarrow> http_reply \<times> accounts) \<Rightarrow> accounts \<Rightarrow> http_reply \<times> accounts" where
  "session_middleware = session_layer (\<lambda>S. S) (\<lambda>f S. f S)"

subsection \<open>Login and logout\<close>

definition find_user :: "auth_env \<Rightarrow> string \<Rightarrow> accounts \<Rightarrow> (uuid \<times> user) option" where
  "find_user E email S = List.find (\<lambda>(_, u). ae_lower E (us_email u) = ae_lower E email) (ac_users S)"

definition verified :: "auth_env \<Rightarrow> string \<Rightarrow> string \<Rightarrow> bool" where
  "verified E pw phc = (case argon_verify (ae_argon E) pw phc of Inr b \<Rightarrow> b | Inl _ \<Rightarrow> False)"

definition mint_session_token :: "auth_env \<Rightarrow> string" where
  "mint_session_token E = to_ascii_lowercase (ae_base32 E (ae_random E))"

definition audited :: "auth_env \<Rightarrow> uuid option \<Rightarrow> uuid option \<Rightarrow> string \<Rightarrow> uuid option \<Rightarrow> json \<Rightarrow> accounts \<Rightarrow> accounts" where
  "audited E project actor act target payload S = S\<lparr>ac_audit := ac_audit S @
     [\<lparr>au_project = project, au_actor = actor, au_action = act, au_target_type = ''user'',
       au_target = (case target of Some t \<Rightarrow> ae_uuid_text E t | None \<Rightarrow> []), au_payload = payload\<rparr>]\<rparr>"

text \<open>An attempt is recorded outside any transaction; a failure to do so is only logged.\<close>
definition auth_attempt :: "auth_env \<Rightarrow> uuid option \<Rightarrow> string \<Rightarrow> string \<Rightarrow> string \<Rightarrow> accounts \<Rightarrow> accounts" where
  "auth_attempt E actor act email result S =
     (if ae_audit_fails E then S
      else audited E None actor act None (JObj [(''account'', JStr email), (''result'', JStr result)]) S)"

definition SESSION_TTL_DAYS :: nat where "SESSION_TTL_DAYS = 30"
definition RESET_TTL_MINUTES :: nat where "RESET_TTL_MINUTES = 30"

definition days :: "nat \<Rightarrow> duration" where "days n = secs (n * 86400)"

definition login_failed :: "auth_env \<Rightarrow> uuid option \<Rightarrow> string \<Rightarrow> accounts \<Rightarrow> http_reply \<times> accounts" where
  "login_failed E actor account S =
     (failure 401 ''invalid_credentials'', auth_attempt E actor ''auth.login_failed'' account ''invalid_credentials'' S)"

definition login :: "auth_env \<Rightarrow> string \<Rightarrow> string \<Rightarrow> accounts \<Rightarrow> http_reply \<times> accounts" where
  "login E email pw S =
     (if ae_fails E then (internal, S)
      else case find_user E email S of
        None \<Rightarrow> login_failed E None email S
      | Some (i, u) \<Rightarrow>
          if \<not> verified E pw (us_phc u) then login_failed E (Some i) email S
          else
            let token = mint_session_token E; hash = session_hash E token in
            if ae_late_fails E \<or> map_of (ac_sessions S) hash \<noteq> None then (internal, S)
            else
              let S = S\<lparr>ac_sessions := ac_sessions S @ [(hash, \<lparr>ss_user = i, ss_expires = ae_now E + days SESSION_TTL_DAYS,
                        ss_last_seen = ae_now E, ss_ip = ae_ip E, ss_agent = ae_agent E\<rparr>)]\<rparr>;
                  S = S\<lparr>ac_users := update_row i (\<lambda>u. u\<lparr>us_last_login := Some (ae_now E)\<rparr>) (ac_users S)\<rparr>;
                  S = audited E None (Some i) ''auth.login'' (Some i)
                        (JObj [(''account'', JStr email), (''result'', JStr ''ok'')]) S
              in (\<lparr>hr_status = 200,
                   hr_cookie = Some (''sentori_session='' @ token @ ''; Path=/; HttpOnly; SameSite=Lax; Max-Age=''
                     @ show_nat (SESSION_TTL_DAYS * 86400)),
                   hr_body = JObj [(''userId'', JStr (ae_uuid_text E i)), (''role'', JStr (us_role u)),
                     (''sessionToken'', JStr token)]\<rparr>, S))"

definition logout :: "auth_env \<Rightarrow> session_context \<Rightarrow> accounts \<Rightarrow> http_reply \<times> accounts" where
  "logout E ctx S =
     (if ae_fails E then (internal, S)
      else (ok_reply\<lparr>hr_cookie := Some ''sentori_session=; Path=/; HttpOnly; SameSite=Lax; Max-Age=0''\<rparr>,
        S\<lparr>ac_sessions := filter (\<lambda>(h, _). h \<noteq> sx_hash ctx) (ac_sessions S)\<rparr>))"

definition me :: "auth_env \<Rightarrow> session_context \<Rightarrow> accounts \<Rightarrow> http_reply \<times> accounts" where
  "me E ctx S =
     (case (if ae_fails E then None else map_of (ac_users S) (sx_user ctx)) of
        Some u \<Rightarrow> (plain 200 (JObj [(''userId'', JStr (ae_uuid_text E (sx_user ctx))), (''email'', JStr (us_email u)),
            (''displayName'', (case us_display u of None \<Rightarrow> JNull | Some d \<Rightarrow> JStr d)),
            (''role'', JStr (role_db_str (sx_role ctx)))]), S)
      | None \<Rightarrow> (failure 401 ''user_not_found'', S))"

subsection \<open>Changing a password\<close>

definition password_rule :: "string \<Rightarrow> http_reply + unit" where
  "password_rule pw = (if char_count pw < 12
     then Inl (plain 400 (JObj [(''error'', JStr ''password_too_short''), (''min'', JInt 12)])) else Inr ())"

definition hash_failed :: http_reply where "hash_failed = failure 500 ''hash_failed''"

definition use_resets :: "instant \<Rightarrow> (reset_row \<Rightarrow> bool) \<Rightarrow> accounts \<Rightarrow> accounts" where
  "use_resets now P S = S\<lparr>ac_resets := map (\<lambda>(i, r). (i,
     if P r \<and> rs_used r = None then r\<lparr>rs_used := Some now\<rparr> else r)) (ac_resets S)\<rparr>"

definition set_password :: "uuid \<Rightarrow> string \<Rightarrow> accounts \<Rightarrow> accounts" where
  "set_password i phc S = S\<lparr>ac_users := update_row i (\<lambda>u. u\<lparr>us_phc := phc\<rparr>) (ac_users S)\<rparr>"

definition drop_sessions :: "(bytes \<Rightarrow> auth_session \<Rightarrow> bool) \<Rightarrow> accounts \<Rightarrow> accounts" where
  "drop_sessions P S = S\<lparr>ac_sessions := filter (\<lambda>(h, s). \<not> P h s) (ac_sessions S)\<rparr>"

definition change_password_inner ::
  "auth_env \<Rightarrow> session_context \<Rightarrow> string \<Rightarrow> string \<Rightarrow> accounts \<Rightarrow> (http_reply + http_reply) \<times> accounts" where
  "change_password_inner E ctx current_pw new_pw S =
     (case password_rule new_pw of Inl r \<Rightarrow> (Inl r, S) | Inr _ \<Rightarrow>
      if ae_fails E then (Inl internal, S)
      else case map_of (ac_users S) (sx_user ctx) of
        None \<Rightarrow> (Inl (failure 401 ''user_not_found''), S)
      | Some u \<Rightarrow>
          let live = (case map_of (ac_sessions S) (sx_hash ctx) of
                None \<Rightarrow> False | Some s \<Rightarrow> ss_user s = sx_user ctx \<and> ae_now E < ss_expires s) in
          if \<not> live \<or> \<not> verified E current_pw (us_phc u) then (Inl (failure 401 ''wrong_password''), S)
          else (case argon_hash (ae_argon E) new_pw of
             Inl _ \<Rightarrow> (Inl hash_failed, S)
           | Inr phc \<Rightarrow>
               if ae_late_fails E then (Inl internal, S)
               else
                 let S = set_password (sx_user ctx) phc S;
                     S = use_resets (ae_now E) (\<lambda>r. rs_user r = sx_user ctx) S;
                     S = drop_sessions (\<lambda>h s. ss_user s = sx_user ctx \<and> h \<noteq> sx_hash ctx) S;
                     S = audited E None (Some (sx_user ctx)) ''auth.password_changed'' (Some (sx_user ctx)) (JObj []) S
                 in (Inr ok_reply, S)))"

definition logged_failure ::
  "auth_env \<Rightarrow> uuid option \<Rightarrow> string \<Rightarrow> (http_reply + http_reply) \<times> accounts \<Rightarrow> http_reply \<times> accounts" where
  "logged_failure E actor act result = (case result of
     (Inr r, S) \<Rightarrow> (r, S)
   | (Inl r, S) \<Rightarrow> (r, auth_attempt E actor act [] (show_nat (hr_status r)) S))"

definition change_password :: "auth_env \<Rightarrow> session_context \<Rightarrow> string \<Rightarrow> string \<Rightarrow> accounts \<Rightarrow> http_reply \<times> accounts" where
  "change_password E ctx current_pw new_pw S = logged_failure E (Some (sx_user ctx)) ''auth.password_change_failed''
     (change_password_inner E ctx current_pw new_pw S)"

subsection \<open>Resetting a password\<close>

text \<open>The token goes to the address as it was typed, which only matches the stored one up to case.\<close>
definition forgot_password :: "auth_env \<Rightarrow> string \<Rightarrow> accounts \<Rightarrow> http_reply \<times> accounts" where
  "forgot_password E email S =
     (let row = (if ae_fails E then None else map_option fst (find_user E email S));
          S = auth_attempt E row ''auth.reset_requested'' email ''ok'' S in
      case row of
        None \<Rightarrow> (ok_reply, S)
      | Some i \<Rightarrow>
          let token = mint_session_token E; hash = session_hash E token in
          if ae_late_fails E \<or> hash \<in> rs_hash ` snd ` set (ac_resets S) then (ok_reply, S)
          else (ok_reply, S\<lparr>ac_resets := ac_resets S @ [(ae_fresh E, \<lparr>rs_user = i, rs_hash = hash,
                  rs_expires = ae_now E + mins RESET_TTL_MINUTES, rs_used = None\<rparr>)],
                ac_mails := ac_mails S @ [(email, token)]\<rparr>))"

definition invalid_reset :: http_reply where "invalid_reset = failure 400 ''invalid_or_expired_token''"

definition usable :: "auth_env \<Rightarrow> bytes \<Rightarrow> reset_row \<Rightarrow> bool" where
  "usable E hash r \<longleftrightarrow> rs_hash r = hash \<and> rs_used r = None \<and> ae_now E < rs_expires r"

text \<open>The user a reset token is for: one who has a usable row with its hash.\<close>
definition reset_user :: "auth_env \<Rightarrow> bytes \<Rightarrow> accounts \<Rightarrow> uuid option" where
  "reset_user E hash S = map_option fst
     (List.find (\<lambda>(i, _). \<exists>(_, r) \<in> set (ac_resets S). rs_user r = i \<and> usable E hash r) (ac_users S))"

definition reset_password_inner ::
  "auth_env \<Rightarrow> string \<Rightarrow> string \<Rightarrow> accounts \<Rightarrow> (http_reply + http_reply) \<times> accounts" where
  "reset_password_inner E token new_pw S =
     (case password_rule new_pw of Inl r \<Rightarrow> (Inl r, S) | Inr _ \<Rightarrow>
      let hash = session_hash E token in
      if ae_fails E then (Inl internal, S)
      else case reset_user E hash S of
        None \<Rightarrow> (Inl invalid_reset, S)
      | Some i \<Rightarrow>
          let S' = use_resets (ae_now E) (\<lambda>r. rs_user r = i \<and> usable E hash r) S in
          (case argon_hash (ae_argon E) new_pw of
             Inl _ \<Rightarrow> (Inl hash_failed, S)
           | Inr phc \<Rightarrow>
               if ae_late_fails E then (Inl internal, S)
               else
                 let S' = set_password i phc S';
                     S' = use_resets (ae_now E) (\<lambda>r. rs_user r = i) S';
                     S' = drop_sessions (\<lambda>_ s. ss_user s = i) S';
                     S' = audited E None (Some i) ''auth.password_reset'' (Some i) (JObj []) S'
                 in (Inr ok_reply, S')))"

definition reset_password :: "auth_env \<Rightarrow> string \<Rightarrow> string \<Rightarrow> accounts \<Rightarrow> http_reply \<times> accounts" where
  "reset_password E token new_pw S =
     logged_failure E None ''auth.password_reset_failed'' (reset_password_inner E token new_pw S)"

subsection \<open>Managing admins\<close>

definition superadmin_only :: "session_context \<Rightarrow> http_reply + unit" where
  "superadmin_only ctx = (if sx_role ctx = Superadmin then Inr () else Inl (failure 403 ''superadmin_only''))"

text \<open>An audit record of a committed change; its loss is only logged.\<close>
definition recorded :: "auth_env \<Rightarrow> uuid option \<Rightarrow> uuid \<Rightarrow> string \<Rightarrow> uuid \<Rightarrow> json \<Rightarrow> accounts \<Rightarrow> accounts" where
  "recorded E project actor act target payload S =
     (if ae_audit_fails E then S else audited E project (Some actor) act (Some target) payload S)"

definition valid_email :: "string \<Rightarrow> bool" where
  "valid_email typed = (let email = trim typed in
     email \<noteq> [] \<and> CHR ''@'' \<in> set email \<and> hd email \<noteq> CHR ''@'' \<and> last email \<noteq> CHR ''@'')"

definition create_user ::
  "auth_env \<Rightarrow> session_context \<Rightarrow> string \<Rightarrow> string \<Rightarrow> string option \<Rightarrow> accounts \<Rightarrow> http_reply \<times> accounts" where
  "create_user E ctx email pw display S =
     (case superadmin_only ctx of Inl r \<Rightarrow> (r, S) | Inr _ \<Rightarrow>
      if \<not> valid_email email then (plain 400 (JObj [(''error'', JStr ''invalid_email''),
          (''detail'', JStr ''an admin signs in with this address; it must contain a local part and a domain'')]), S)
      else if length pw < 8 then
        (plain 400 (JObj [(''error'', JStr ''password_too_short''), (''min'', JInt 8)]), S)
      else case argon_hash (ae_argon E) pw of
        Inl _ \<Rightarrow> (hash_failed, S)
      | Inr phc \<Rightarrow>
          if ae_fails E then (internal, S)
          else if ae_fresh E \<in> fst ` set (ac_users S) \<or> find_user E email S \<noteq> None
          then (failure 409 ''email_taken'', S)
          else
            (plain 201 (JObj [(''id'', JStr (ae_uuid_text E (ae_fresh E)))]),
             recorded E None (sx_user ctx) ''user.create'' (ae_fresh E) (JObj [(''email'', JStr email)])
               (S\<lparr>ac_users := ac_users S @ [(ae_fresh E, \<lparr>us_email = email, us_phc = phc, us_role = ''admin'',
                   us_display = display, us_last_login = None\<rparr>)]\<rparr>)))"

text \<open>Deleting a user cascades to its sessions, resets and assignments; audit rows lose their actor.\<close>
definition erase_user :: "uuid \<Rightarrow> accounts \<Rightarrow> accounts" where
  "erase_user i S = S\<lparr>ac_users := filter (\<lambda>(j, _). j \<noteq> i) (ac_users S),
     ac_sessions := filter (\<lambda>(_, s). ss_user s \<noteq> i) (ac_sessions S),
     ac_resets := filter (\<lambda>(_, r). rs_user r \<noteq> i) (ac_resets S),
     ac_assigned := filter (\<lambda>(u, _). u \<noteq> i) (ac_assigned S),
     ac_audit := map (\<lambda>a. if au_actor a = Some i then a\<lparr>au_actor := None\<rparr> else a) (ac_audit S)\<rparr>"

definition delete_user :: "auth_env \<Rightarrow> session_context \<Rightarrow> uuid \<Rightarrow> accounts \<Rightarrow> http_reply \<times> accounts" where
  "delete_user E ctx i S =
     (case superadmin_only ctx of Inl r \<Rightarrow> (r, S) | Inr _ \<Rightarrow>
      if i = sx_user ctx then (failure 400 ''cannot_delete_self'', S)
      else if ae_fails E then (internal, S)
      else if map_option us_role (map_of (ac_users S) i) \<noteq> Some ''admin'' then (failure 404 ''admin_not_found'', S)
      else (ok_reply, recorded E None (sx_user ctx) ''user.delete'' i (JObj []) (erase_user i S)))"

definition assign :: "auth_env \<Rightarrow> session_context \<Rightarrow> uuid \<Rightarrow> uuid \<Rightarrow> accounts \<Rightarrow> http_reply \<times> accounts" where
  "assign E ctx i project S =
     (case superadmin_only ctx of Inl r \<Rightarrow> (r, S) | Inr _ \<Rightarrow>
      if ae_fails E then (internal, S)
      else if (i, project) \<in> set (ac_assigned S) then
        (ok_reply, recorded E (Some project) (sx_user ctx) ''assignment.grant'' i (JObj []) S)
      else if i \<notin> fst ` set (ac_users S) \<or> project \<notin> set (ac_projects S) then (internal, S)
      else (ok_reply, recorded E (Some project) (sx_user ctx) ''assignment.grant'' i (JObj [])
             (S\<lparr>ac_assigned := ac_assigned S @ [(i, project)]\<rparr>)))"

definition unassign :: "auth_env \<Rightarrow> session_context \<Rightarrow> uuid \<Rightarrow> uuid \<Rightarrow> accounts \<Rightarrow> http_reply \<times> accounts" where
  "unassign E ctx i project S =
     (case superadmin_only ctx of Inl r \<Rightarrow> (r, S) | Inr _ \<Rightarrow>
      if ae_fails E then (internal, S)
      else (ok_reply, recorded E (Some project) (sx_user ctx) ''assignment.revoke'' i (JObj [])
             (S\<lparr>ac_assigned := filter (\<lambda>a. a \<noteq> (i, project)) (ac_assigned S)\<rparr>)))"

subsection \<open>Requests\<close>

datatype request =
    Login string string
  | Logout headers
  | Me headers
  | ChangePassword headers string string
  | ForgotPassword string
  | ResetPassword string string
  | CreateUser headers string string "string option"
  | DeleteUser headers uuid
  | AssignProject headers uuid uuid
  | UnassignProject headers uuid uuid

fun serve :: "auth_env \<Rightarrow> request \<Rightarrow> accounts \<Rightarrow> http_reply \<times> accounts" where
  "serve E (Login email pw) S = login E email pw S"
| "serve E (Logout h) S = session_middleware E h (logout E) S"
| "serve E (Me h) S = session_middleware E h (me E) S"
| "serve E (ChangePassword h old new) S = session_middleware E h (\<lambda>ctx. change_password E ctx old new) S"
| "serve E (ForgotPassword email) S = forgot_password E email S"
| "serve E (ResetPassword token pw) S = reset_password E token pw S"
| "serve E (CreateUser h email pw d) S = session_middleware E h (\<lambda>ctx. create_user E ctx email pw d) S"
| "serve E (DeleteUser h i) S = session_middleware E h (\<lambda>ctx. delete_user E ctx i) S"
| "serve E (AssignProject h i p) S = session_middleware E h (\<lambda>ctx. assign E ctx i p) S"
| "serve E (UnassignProject h i p) S = session_middleware E h (\<lambda>ctx. unassign E ctx i p) S"

definition after :: "(auth_env \<times> request) list \<Rightarrow> accounts \<Rightarrow> accounts" where
  "after rs S = foldl (\<lambda>S (E, r). snd (serve E r S)) S rs"

subsection \<open>Which sessions exist\<close>

text \<open>A sign-in that succeeds: it opens the session with this hash for this user.\<close>
definition signs_in :: "auth_env \<Rightarrow> request \<Rightarrow> accounts \<Rightarrow> bytes \<Rightarrow> uuid \<Rightarrow> bool" where
  "signs_in E r S h u \<longleftrightarrow> hr_status (fst (serve E r S)) = 200
     \<and> (case r of Login email pw \<Rightarrow> (case find_user E email S of
            Some (i, v) \<Rightarrow> i = u \<and> verified E pw (us_phc v) | None \<Rightarrow> False)
          \<and> session_hash E (mint_session_token E) = h
        | _ \<Rightarrow> False)"

text \<open>A request that succeeds and must end the user's session with this hash.\<close>
definition ends :: "auth_env \<Rightarrow> request \<Rightarrow> accounts \<Rightarrow> bytes \<Rightarrow> uuid \<Rightarrow> bool" where
  "ends E r S h u \<longleftrightarrow> hr_status (fst (serve E r S)) = 200
     \<and> (case r of
          Logout hds \<Rightarrow> map_option (session_hash E) (extract_token hds) = Some h
        | ChangePassword hds _ _ \<Rightarrow> (case map_option (\<lambda>t. session_of E t S) (extract_token hds) of
              Some (Inr ctx) \<Rightarrow> sx_user ctx = u \<and> sx_hash ctx \<noteq> h | _ \<Rightarrow> False)
        | ResetPassword t _ \<Rightarrow> reset_user E (session_hash E t) S = Some u
        | DeleteUser _ i \<Rightarrow> i = u
        | _ \<Rightarrow> False)"

text \<open>The session with this hash and user goes on from one table to the next.\<close>
definition carried :: "accounts \<Rightarrow> bytes \<Rightarrow> auth_session \<Rightarrow> bool" where
  "carried S h s' \<longleftrightarrow> (\<exists>s. (h, s) \<in> set (ac_sessions S) \<and> ss_user s = ss_user s' \<and> ss_expires s = ss_expires s')"

named_theorems session_simps \<open>what the operations leave of the sessions\<close>

lemma sessions_of_updates [session_simps]:
  "ac_sessions (audited E p a act t j S) = ac_sessions S"
  "ac_sessions (auth_attempt E a act m res S) = ac_sessions S"
  "ac_sessions (recorded E p c act t2 j S) = ac_sessions S"
  "ac_sessions (use_resets now P S) = ac_sessions S"
  "ac_sessions (set_password i phc S) = ac_sessions S"
  "ac_sessions (drop_sessions Q S) = filter (\<lambda>(h, s). \<not> Q h s) (ac_sessions S)"
  "ac_sessions (erase_user i S) = filter (\<lambda>(_, s). ss_user s \<noteq> i) (ac_sessions S)"
  by (simp_all add: audited_def auth_attempt_def recorded_def use_resets_def set_password_def
    drop_sessions_def erase_user_def)

lemma reply_status [simp]:
  "hr_status (plain n b) = n" "hr_status (failure n c) = n" "hr_status ok_reply = 200" "hr_status internal = 500"
  by (simp_all add: plain_def failure_def ok_reply_def internal_def)

lemma reject_status [simp]: "hr_status (reject w) = 401" "hr_status hash_failed = 500" "hr_status invalid_reset = 400"
  by (simp_all add: reject_def hash_failed_def invalid_reset_def)

lemma carried_refl: "(h, s) \<in> set (ac_sessions S) \<Longrightarrow> carried S h s"
  unfolding carried_def by blast

lemma carried_touch: "carried (touch_session E k S) h s \<longleftrightarrow> carried S h s"
  unfolding carried_def touch_session_def by (auto simp: image_iff split: if_splits) force+

text \<open>The handler of an authenticated request runs in the context of the token's session.\<close>
lemma layer_cases:
  obtains w where "session_layer get upd E h next S = (reject w, S)"
  | t ctx where "extract_token h = Some t" and "session_of E t (get S) = Inr ctx"
      and "session_layer get upd E h next S = next ctx (upd (touch_session E (sx_hash ctx)) S)"
  by (cases "extract_token h"; cases "session_of E (the (extract_token h)) (get S)")
    (auto simp: session_layer_def)

lemma middleware_cases:
  obtains w where "session_middleware E h next S = (reject w, S)"
  | t ctx where "extract_token h = Some t" and "session_of E t S = Inr ctx"
      and "session_middleware E h next S = next ctx (touch_session E (sx_hash ctx) S)"
  unfolding session_middleware_def by (rule layer_cases) blast+

lemma session_of_hash: "session_of E t S = Inr ctx \<Longrightarrow> sx_hash ctx = session_hash E t"
  by (auto simp: session_of_def Let_def split: if_splits option.splits)

lemma session_ofD:
  assumes "session_of E t S = Inr ctx"
  obtains s where "(session_hash E t, s) \<in> set (ac_sessions S)" and "ss_user s = sx_user ctx" and "ae_now E < ss_expires s"
  using assms by (auto simp: session_of_def Let_def split: if_splits option.splits dest: map_of_SomeD)

lemma login_sessions:
  assumes "(h, s) \<in> set (ac_sessions (snd (login E email pw S)))"
  shows "(h, s) \<in> set (ac_sessions S)
    \<or> signs_in E (Login email pw) S h (ss_user s) \<and> ss_expires s = ae_now E + days SESSION_TTL_DAYS"
  using assms by (auto simp: login_def login_failed_def signs_in_def Let_def session_simps
      split: if_splits option.splits prod.splits)

lemma change_password_status: "hr_status (fst (change_password E ctx old new S)) = 200
    \<longleftrightarrow> (\<exists>S'. change_password_inner E ctx old new S = (Inr ok_reply, S'))"
  by (auto simp: change_password_def logged_failure_def change_password_inner_def password_rule_def Let_def
      split: if_splits option.splits sum.splits)

lemma change_password_sessions:
  assumes "(h, s) \<in> set (ac_sessions (snd (change_password E ctx old new S)))"
  shows "(h, s) \<in> set (ac_sessions S)
    \<and> (hr_status (fst (change_password E ctx old new S)) = 200 \<longrightarrow> ss_user s = sx_user ctx \<longrightarrow> h = sx_hash ctx)"
  using assms by (auto simp: change_password_def logged_failure_def change_password_inner_def password_rule_def
      Let_def session_simps split: if_splits option.splits sum.splits)

lemma reset_password_sessions:
  assumes "(h, s) \<in> set (ac_sessions (snd (reset_password E token new S)))"
  shows "(h, s) \<in> set (ac_sessions S)
    \<and> (hr_status (fst (reset_password E token new S)) = 200
        \<longrightarrow> reset_user E (session_hash E token) S \<noteq> Some (ss_user s))"
  using assms by (auto simp: reset_password_def logged_failure_def reset_password_inner_def password_rule_def
      Let_def session_simps split: if_splits option.splits sum.splits)

lemma admin_sessions [session_simps]:
  "ac_sessions (snd (create_user E ctx email pw d S)) = ac_sessions S"
  "ac_sessions (snd (assign E ctx i p S)) = ac_sessions S"
  "ac_sessions (snd (unassign E ctx i p S)) = ac_sessions S"
  "ac_sessions (snd (forgot_password E email S)) = ac_sessions S"
  "ac_sessions (snd (me E ctx S)) = ac_sessions S"
  by (auto simp: create_user_def assign_def unassign_def superadmin_only_def forgot_password_def me_def Let_def
      session_simps split: option.splits sum.splits)

lemma delete_user_sessions:
  assumes "(h, s) \<in> set (ac_sessions (snd (delete_user E ctx i S)))"
  shows "(h, s) \<in> set (ac_sessions S) \<and> (hr_status (fst (delete_user E ctx i S)) = 200 \<longrightarrow> ss_user s \<noteq> i)"
  using assms by (auto simp: delete_user_def superadmin_only_def session_simps split: if_splits)

lemma logout_sessions:
  assumes "(h, s) \<in> set (ac_sessions (snd (logout E ctx S)))"
  shows "(h, s) \<in> set (ac_sessions S) \<and> (hr_status (fst (logout E ctx S)) = 200 \<longrightarrow> h \<noteq> sx_hash ctx)"
  using assms by (auto simp: logout_def split: if_splits)

text \<open>One step: a session there afterwards was there and not ended, or the step is its sign-in.\<close>
lemma session_step:
  assumes s: "(h, s) \<in> set (ac_sessions (snd (serve E r S)))"
  shows "carried S h s \<and> \<not> ends E r S h (ss_user s)
    \<or> signs_in E r S h (ss_user s) \<and> ss_expires s = ae_now E + days SESSION_TTL_DAYS"
proof -
  have other: ?thesis if run: "serve E r S = session_middleware E hds nxt S"
    and step: "\<And>ctx S1. (h, s) \<in> set (ac_sessions (snd (nxt ctx S1))) \<Longrightarrow> (h, s) \<in> set (ac_sessions S1)"
    and kept: "\<And>t ctx S1. extract_token hds = Some t \<Longrightarrow> session_of E t S = Inr ctx \<Longrightarrow>
      (h, s) \<in> set (ac_sessions (snd (nxt ctx S1))) \<Longrightarrow> hr_status (fst (nxt ctx S1)) = 200 \<Longrightarrow>
      hr_status (fst (serve E r S)) = 200 \<Longrightarrow> \<not> ends E r S h (ss_user s)" for hds and nxt :: "session_context \<Rightarrow> accounts \<Rightarrow> http_reply \<times> accounts"
  proof (cases rule: middleware_cases [of E hds nxt S])
    case (1 w)
    with s run show ?thesis by (auto simp: ends_def carried_refl)
  next
    case (2 t ctx)
    with s run have in1: "(h, s) \<in> set (ac_sessions (snd (nxt ctx (touch_session E (sx_hash ctx) S))))" by simp
    from step [OF this] have "carried S h s" using carried_refl carried_touch by blast
    moreover have "\<not> ends E r S h (ss_user s)"
      using kept [OF 2(1,2) in1] 2(3) run by (auto simp: ends_def)
    ultimately show ?thesis by blast
  qed
  show ?thesis
  proof (cases r)
    case (Login email pw)
    with s login_sessions [of h s E email pw S] show ?thesis by (auto simp: ends_def carried_refl)
  next
    case (Logout hds)
    then show ?thesis
      by (intro other [where hds = hds and nxt = "logout E"])
        (auto dest: logout_sessions simp: ends_def dest!: session_of_hash)
  next
    case (Me hds)
    then show ?thesis by (intro other [where hds = hds and nxt = "me E"]) (auto simp: ends_def session_simps)
  next
    case (ChangePassword hds old new)
    then show ?thesis
      by (intro other [where hds = hds and nxt = "\<lambda>ctx. change_password E ctx old new"])
        (auto dest: change_password_sessions simp: ends_def)
  next
    case (ForgotPassword email)
    with s show ?thesis by (auto simp: ends_def session_simps carried_refl)
  next
    case (ResetPassword t pw)
    with s reset_password_sessions [of h s E t pw S] show ?thesis by (auto simp: ends_def carried_refl)
  next
    case (CreateUser hds email pw d)
    then show ?thesis
      by (intro other [where hds = hds and nxt = "\<lambda>ctx. create_user E ctx email pw d"])
        (auto simp: ends_def session_simps)
  next
    case (DeleteUser hds i)
    then show ?thesis
      by (intro other [where hds = hds and nxt = "\<lambda>ctx. delete_user E ctx i"])
        (auto dest: delete_user_sessions simp: ends_def)
  next
    case (AssignProject hds i p)
    then show ?thesis
      by (intro other [where hds = hds and nxt = "\<lambda>ctx. assign E ctx i p"]) (auto simp: ends_def session_simps)
  next
    case (UnassignProject hds i p)
    then show ?thesis
      by (intro other [where hds = hds and nxt = "\<lambda>ctx. unassign E ctx i p"]) (auto simp: ends_def session_simps)
  qed
qed

lemma after_snoc: "after (rs @ [(E, r)]) S = snd (serve E r (after rs S))"
  by (simp add: after_def)

text \<open>A session in the table was opened by a sign-in that nothing since has undone.\<close>
lemma session_history:
  assumes none: "ac_sessions S0 = []"
  shows "(h, s) \<in> set (ac_sessions (after rs S0)) \<Longrightarrow>
    (\<exists>k E r. k < length rs \<and> rs ! k = (E, r) \<and> signs_in E r (after (take k rs) S0) h (ss_user s)
       \<and> ss_expires s = ae_now E + days SESSION_TTL_DAYS
       \<and> (\<forall>j F q. k < j \<longrightarrow> j < length rs \<longrightarrow> rs ! j = (F, q) \<longrightarrow> \<not> ends F q (after (take j rs) S0) h (ss_user s)))"
proof (induction rs arbitrary: s rule: rev_induct)
  case Nil
  then show ?case using none by (simp add: after_def)
next
  case (snoc x rs)
  obtain E r where x: "x = (E, r)" by fastforce
  let ?S = "after rs S0"
  from snoc.prems have "(h, s) \<in> set (ac_sessions (snd (serve E r ?S)))" by (simp add: x after_snoc)
  then consider "carried ?S h s" "\<not> ends E r ?S h (ss_user s)"
    | "signs_in E r ?S h (ss_user s)" "ss_expires s = ae_now E + days SESSION_TTL_DAYS"
    using session_step by blast
  then show ?case
  proof cases
    case 1
    then obtain p where "(h, p) \<in> set (ac_sessions ?S)" and same: "ss_user p = ss_user s" "ss_expires p = ss_expires s"
      unfolding carried_def by blast
    from snoc.IH [OF this(1)] obtain k F q where k: "k < length rs" "rs ! k = (F, q)"
        "signs_in F q (after (take k rs) S0) h (ss_user s)" "ss_expires s = ae_now F + days SESSION_TTL_DAYS"
        "\<forall>j F q. k < j \<longrightarrow> j < length rs \<longrightarrow> rs ! j = (F, q) \<longrightarrow> \<not> ends F q (after (take j rs) S0) h (ss_user s)"
      unfolding same by blast
    show ?thesis
    proof (rule exI [of _ k], rule exI [of _ F], rule exI [of _ q], intro conjI allI impI)
      fix j G g
      assume "k < j" "j < length (rs @ [x])" "(rs @ [x]) ! j = (G, g)"
      with k(5) 1(2) x show "\<not> ends G g (after (take j (rs @ [x])) S0) h (ss_user s)"
        by (cases "j < length rs") (auto simp: nth_append less_Suc_eq)
    qed (use k in \<open>auto simp: nth_append\<close>)
  next
    case 2
    then show ?thesis
      by (intro exI [of _ "length rs"] exI [of _ E] exI [of _ r]) (auto simp: x)
  qed
qed


subsection \<open>Resets close an account to whoever held it\<close>

lemma map_of_update_user: "map_of (ac_users (set_password i phc S)) j
    = map_option (if j = i then \<lambda>u. u\<lparr>us_phc := phc\<rparr> else id) (map_of (ac_users S) j)"
  by (simp add: set_password_def map_of_update_row)

lemma resets_used_up:
  assumes "(k, r) \<in> set (ac_resets (use_resets now (\<lambda>r. rs_user r = i) S))" and "rs_user r = i"
  shows "rs_used r \<noteq> None"
proof -
  from assms(1) obtain q where "r = (if rs_user q = i \<and> rs_used q = None then q\<lparr>rs_used := Some now\<rparr> else q)"
    unfolding use_resets_def by auto
  with assms(2) show ?thesis by (cases "rs_user q = i \<and> rs_used q = None") simp_all
qed

lemma other_tables [simp]:
  "ac_users (use_resets now P S) = ac_users S" "ac_users (drop_sessions Q S) = ac_users S"
  "ac_users (audited E p a act t j S) = ac_users S" "ac_resets (audited E p a act t j S) = ac_resets S"
  "ac_resets (set_password i phc S) = ac_resets S" "ac_resets (drop_sessions Q S) = ac_resets S"
  by (simp_all add: use_resets_def drop_sessions_def audited_def set_password_def)

text \<open>
  A reset that succeeds: the account answers to the new password and to no other, none of its
  sessions is left and none of its reset links works any more, the one just used included.
\<close>
lemma reset_password_closes:
  assumes law: "argon_lawful (ae_argon E)" and short: "length pw \<le> MAX_PASSWORD_BYTES"
    and okay: "hr_status (fst (reset_password E token pw S)) = 200"
  obtains i u where "reset_user E (session_hash E token) S = Some i"
    and "map_of (ac_users (snd (reset_password E token pw S))) i = Some u"
    and "\<And>q. length q \<le> MAX_PASSWORD_BYTES \<Longrightarrow> verified E q (us_phc u) \<longleftrightarrow> q = pw"
    and "\<And>h s. (h, s) \<in> set (ac_sessions (snd (reset_password E token pw S))) \<Longrightarrow> ss_user s \<noteq> i"
    and "\<And>k r. (k, r) \<in> set (ac_resets (snd (reset_password E token pw S))) \<Longrightarrow> rs_user r = i \<Longrightarrow> rs_used r \<noteq> None"
proof -
  let ?S = "snd (reset_password E token pw S)"
  from okay obtain i phc where i: "reset_user E (session_hash E token) S = Some i"
    and phc: "argon_hash (ae_argon E) pw = Inr phc"
    and S': "?S = (let S' = use_resets (ae_now E) (\<lambda>r. rs_user r = i \<and> usable E (session_hash E token) r) S;
                 S' = set_password i phc S';
                 S' = use_resets (ae_now E) (\<lambda>r. rs_user r = i) S';
                 S' = drop_sessions (\<lambda>_ s. ss_user s = i) S'
               in audited E None (Some i) ''auth.password_reset'' (Some i) (JObj []) S')"
    by (auto simp: reset_password_def logged_failure_def reset_password_inner_def password_rule_def Let_def
        split: if_splits option.splits sum.splits)
  from i have "i \<in> fst ` set (ac_users S)"
    by (auto simp: reset_user_def find_Some_iff image_iff) (metis fst_conv nth_mem)
  then obtain v where v: "map_of (ac_users S) i = Some v"
    by (metis map_of_eq_None_iff not_None_eq)
  show thesis
  proof (rule that [OF i])
    show "map_of (ac_users ?S) i = Some (v\<lparr>us_phc := phc\<rparr>)"
      by (simp add: S' Let_def map_of_update_user v)
    show "verified E q (us_phc (v\<lparr>us_phc := phc\<rparr>)) \<longleftrightarrow> q = pw" if "length q \<le> MAX_PASSWORD_BYTES" for q
      using argon_round_trip [OF law phc, of q] that by (simp add: verified_def)
    show "ss_user s \<noteq> i" if "(h, s) \<in> set (ac_sessions ?S)" for h s
      using that by (simp add: S' Let_def session_simps)
    show "rs_used r \<noteq> None" if "(k, r) \<in> set (ac_resets ?S)" and "rs_user r = i" for k r
      using resets_used_up [OF _ that(2)] that(1) by (auto simp: S' Let_def)
  qed
qed

subsection \<open>Instances for the witnesses\<close>

definition toy_argon :: argon where
  "toy_argon = \<lparr>ag_params = \<lambda>p. Inr (), ag_hash = \<lambda>p w. Inr w, ag_algorithm = \<lambda>s. Some ''argon2id'',
     ag_verify = \<lambda>q s. if q = s then Matches else Differs\<rparr>"

lemma toy_argon_lawful: "argon_lawful toy_argon"
  by (simp add: argon_lawful_def toy_argon_def)

definition toy_env :: "instant \<Rightarrow> bytes \<Rightarrow> auth_env" where
  "toy_env n b = \<lparr>ae_now = n, ae_fails = False, ae_late_fails = False, ae_audit_fails = False,
     ae_sha256 = id, ae_lower = id, ae_argon = toy_argon, ae_base32 = chars_of, ae_random = b,
     ae_fresh = 9, ae_uuid_text = show_nat, ae_ip = None, ae_agent = None\<rparr>"

definition toy_accounts :: accounts where
  "toy_accounts = \<lparr>ac_users = [(1, \<lparr>us_email = ''a@b'', us_phc = ''secret'', us_role = ''admin'', us_display = None,
       us_last_login = None\<rparr>)], ac_sessions = [], ac_resets = [], ac_projects = [], ac_assigned = [],
     ac_audit = [], ac_mails = []\<rparr>"

definition toy_history :: "(auth_env \<times> request) list" where
  "toy_history = [(toy_env 0 (bytes_of ''q''), Login ''a@b'' ''wrong''), (toy_env 5 (bytes_of ''x''), Login ''a@b'' ''secret'')]"

lemmas toy_eval = toy_env_def toy_accounts_def toy_argon_def after_def login_def login_failed_def auth_attempt_def
  audited_def find_user_def verified_def argon_verify_def MAX_PASSWORD_BYTES_def mint_session_token_def
  session_hash_def to_ascii_lowercase_def char_val_def days_def secs_def SESSION_TTL_DAYS_def update_row_def Let_def

lemma toy_history_session:
  "session_of (toy_env 7 []) ''x'' (after toy_history toy_accounts)
     = Inr \<lparr>sx_user = 1, sx_role = Admin, sx_hash = bytes_of ''x''\<rparr>"
  by (simp add: session_of_def toy_history_def toy_eval role_from_db_def)


subsection \<open>Addresses as they were typed\<close>

text \<open>The reset token is mailed to the request's spelling of the address, not to the account's.\<close>
lemma reset_mail_to_typed_address:
  assumes "ac_mails (snd (forgot_password E email S)) \<noteq> ac_mails S"
  shows "\<exists>i u. find_user E email S = Some (i, u) \<and> ae_lower E (us_email u) = ae_lower E email
    \<and> ac_mails (snd (forgot_password E email S)) = ac_mails S @ [(email, mint_session_token E)]"
proof -
  have "find_user E email S = Some (i, u) \<Longrightarrow> ae_lower E (us_email u) = ae_lower E email" for i u
    by (auto simp: find_user_def find_Some_iff)
  moreover have "ac_mails (auth_attempt E r a m w S) = ac_mails S" for r a m w
    by (simp add: auth_attempt_def audited_def)
  ultimately show ?thesis using assms
    by (cases "find_user E email S") (auto simp: forgot_password_def Let_def split: if_splits)
qed

text \<open>The address is validated without the blanks around it and stored with them.\<close>
lemma create_user_keeps_blanks:
  assumes "hr_status (fst (create_user E ctx email pw d S)) = 201"
  shows "valid_email email \<and> (\<exists>u. ac_users (snd (create_user E ctx email pw d S)) = ac_users S @ [(ae_fresh E, u)] \<and> us_email u = email)"
  using assms by (auto simp: create_user_def superadmin_only_def recorded_def audited_def
      split: if_splits option.splits sum.splits)

end
