(* ===== verification/IngestToken.thy ===== *)
theory IngestToken
  imports Accounts
begin

text \<open>
  Tokens of SDKs and automation: the ingest-token crate, \<^verbatim>\<open>core/crates/ingest-token/src\<close> (minting,
  looking up and revoking a token, and the bearer middleware), and the console's commands on
  them, \<^verbatim>\<open>handlers/admin/tokens.rs\<close>.  A token row keeps its scope as the column's text.  A row is
  found by the hash of its token, which is unique; SHA-256, base32 and the random bytes are the
  parameters of \<open>Accounts\<close>, of which \<open>ae_random\<close> is what the request's one draw gives.
\<close>

subsection \<open>Rows\<close>

datatype scope = Ingest | Api

definition scope_from_db :: "string \<Rightarrow> scope option" where
  "scope_from_db s = (if s = ''ingest'' then Some Ingest else if s = ''api'' then Some Api else None)"

fun scope_db_str :: "scope \<Rightarrow> string" where
  "scope_db_str Ingest = ''ingest''"
| "scope_db_str Api = ''api''"

record token_row =
  tr_project :: uuid
  tr_name :: string
  tr_scope :: string
  tr_hash :: string
  tr_last4 :: "string option"
  tr_created :: instant
  tr_last_used :: "instant option"
  tr_revoked :: "instant option"

record token =
  tk_id :: uuid
  tk_project :: uuid
  tk_scope :: scope
  tk_name :: string
  tk_last4 :: "string option"
  tk_created :: instant
  tk_revoked :: "instant option"

datatype token_error =
    MissingHeader | MalformedHeader | WrongPrefix | WrongLength | NotFound
  | KindMismatch scope scope | TokenDb

definition is_active :: "token \<Rightarrow> bool" where "is_active t \<longleftrightarrow> tk_revoked t = None"

definition EM_DASH :: string where "EM_DASH = [CHR 0xE2, CHR 0x80, CHR 0x94]"

fun user_hint :: "token_error \<Rightarrow> string" where
  "user_hint MissingHeader = ''send `Authorization: Bearer st_<token>` header''"
| "user_hint MalformedHeader = ''Authorization header must be `Bearer st_<token>`''"
| "user_hint WrongPrefix = ''token must start with `st_`''"
| "user_hint WrongLength = ''token starts with `st_` but is the wrong length '' @ EM_DASH @ '' it was probably truncated when copied''"
| "user_hint NotFound = ''token unknown or revoked''"
| "user_hint (KindMismatch _ _) = ''token has wrong scope for this endpoint''"
| "user_hint TokenDb = ''internal error''"

definition row_to_token :: "uuid \<Rightarrow> token_row \<Rightarrow> token_error + token" where
  "row_to_token i r =
     bind_res (ok_or TokenDb (scope_from_db (tr_scope r))) (\<lambda>s.
       Inr \<lparr>tk_id = i, tk_project = tr_project r, tk_scope = s, tk_name = tr_name r, tk_last4 = tr_last4 r,
            tk_created = tr_created r, tk_revoked = tr_revoked r\<rparr>)"

subsection \<open>Wire format\<close>

definition TOKEN_PREFIX :: string where "TOKEN_PREFIX = ''st_''"
definition TOKEN_VALUE_LEN :: nat where "TOKEN_VALUE_LEN = 26"

definition to_hex_digit :: "nat \<Rightarrow> char" where
  "to_hex_digit n = (if n < 10 then char_of (48 + n) else char_of (87 + n))"

text \<open>\<open>hex::encode\<close>\<close>
definition hex_encode :: "bytes \<Rightarrow> string" where
  "hex_encode b = concat (map (\<lambda>w. [to_hex_digit (unat w div 16), to_hex_digit (unat w mod 16)]) b)"

definition hash_token :: "auth_env \<Rightarrow> string \<Rightarrow> string" where
  "hash_token E t = hex_encode (ae_sha256 E (bytes_of t))"

definition looks_like_token :: "string \<Rightarrow> bool" where
  "looks_like_token t \<longleftrightarrow> starts_with t TOKEN_PREFIX \<and> length TOKEN_PREFIX + TOKEN_VALUE_LEN \<le> length t"

text \<open>\<open>ae_random\<close> is here the draw of 16 bytes.\<close>
definition mint_random_token :: "auth_env \<Rightarrow> string" where
  "mint_random_token E = TOKEN_PREFIX @ to_ascii_lowercase (ae_base32 E (ae_random E))"

subsection \<open>The store\<close>

type_synonym token_table = "(uuid \<times> token_row) list"

text \<open>\<open>projects\<close>: the projects there are, for the foreign key.  The token is ASCII: \<open>last4\<close> is its last four bytes.\<close>
definition token_create ::
  "auth_env \<Rightarrow> uuid list \<Rightarrow> uuid \<Rightarrow> scope \<Rightarrow> string \<Rightarrow> token_table \<Rightarrow> (token_error + uuid \<times> string) \<times> token_table" where
  "token_create E projects project s name rows =
     (let plaintext = mint_random_token E; hash = hash_token E plaintext in
      if ae_late_fails E \<or> project \<notin> set projects \<or> map_of rows (ae_fresh E) \<noteq> None
         \<or> hash \<in> tr_hash ` snd ` set rows
      then (Inl TokenDb, rows)
      else (Inr (ae_fresh E, plaintext), rows @ [(ae_fresh E, \<lparr>tr_project = project, tr_name = name,
              tr_scope = scope_db_str s, tr_hash = hash, tr_last4 = Some (drop (length plaintext - 4) plaintext),
              tr_created = ae_now E, tr_last_used = None, tr_revoked = None\<rparr>)]))"

definition lookup_by_plaintext :: "auth_env \<Rightarrow> string \<Rightarrow> token_table \<Rightarrow> token_error + token option" where
  "lookup_by_plaintext E plaintext rows =
     (if ae_fails E then Inl TokenDb
      else case List.find (\<lambda>(_, r). tr_hash r = hash_token E plaintext) rows of
        None \<Rightarrow> Inr None
      | Some (i, r) \<Rightarrow> bind_res (row_to_token i r) (\<lambda>t. Inr (Some t)))"

definition mark_revoked :: "instant \<Rightarrow> token_row \<Rightarrow> token_row" where
  "mark_revoked now r = (if tr_revoked r = None then r\<lparr>tr_revoked := Some now\<rparr> else r)"

definition token_revoke :: "auth_env \<Rightarrow> uuid \<Rightarrow> token_table \<Rightarrow> (token_error + unit) \<times> token_table" where
  "token_revoke E i rows =
     (if ae_late_fails E then (Inl TokenDb, rows)
      else (Inr (), update_row i (mark_revoked (ae_now E)) rows))"

definition list_for_project :: "auth_env \<Rightarrow> uuid \<Rightarrow> token_table \<Rightarrow> token_error + token list" where
  "list_for_project E project rows =
     (if ae_fails E then Inl TokenDb
      else
        let mine = sort_key (\<lambda>(_, r). - int (tr_created r)) (filter (\<lambda>(_, r). tr_project r = project) rows) in
        foldr (\<lambda>(i, r) acc. bind_res (row_to_token i r) (\<lambda>t. bind_res acc (\<lambda>ts. Inr (t # ts)))) mine (Inr []))"

definition token_touch :: "auth_env \<Rightarrow> uuid \<Rightarrow> token_table \<Rightarrow> token_table" where
  "token_touch E i rows = (if ae_late_fails E then rows
     else update_row i (\<lambda>r. r\<lparr>tr_last_used := Some (ae_now E)\<rparr>) rows)"

subsection \<open>The bearer middleware\<close>

record ingest_context =
  ic_token :: uuid
  ic_project :: uuid
  ic_scope :: scope

text \<open>The header: absent, not visible ASCII (\<open>Some None\<close>), or its text.\<close>
definition resolve_token :: "auth_env \<Rightarrow> string option option \<Rightarrow> token_table \<Rightarrow> token_error + ingest_context" where
  "resolve_token E hdr rows =
     bind_res (ok_or MissingHeader hdr) (\<lambda>v.
     bind_res (ok_or MalformedHeader v) (\<lambda>auth.
     bind_res (ok_or MalformedHeader (strip_prefix auth ''Bearer '')) (\<lambda>rest.
       let plaintext = trim rest in
       if \<not> starts_with plaintext TOKEN_PREFIX then Inl WrongPrefix
       else if \<not> looks_like_token plaintext then Inl WrongLength
       else
         bind_res (lookup_by_plaintext E plaintext rows) (\<lambda>found.
         bind_res (ok_or NotFound found) (\<lambda>t.
           if \<not> is_active t then Inl NotFound
           else Inr \<lparr>ic_token = tk_id t, ic_project = tk_project t, ic_scope = tk_scope t\<rparr>)))))"

definition unauthorized_token :: "token_error \<Rightarrow> http_reply" where
  "unauthorized_token e = plain 401 (JObj [(''error'', JStr ''unauthorized''), (''hint'', JStr (user_hint e))])"

definition bearer_middleware ::
  "auth_env \<Rightarrow> string option option \<Rightarrow> token_table \<Rightarrow> (ingest_context \<Rightarrow> 's \<Rightarrow> http_reply \<times> 's) \<Rightarrow> 's \<Rightarrow> http_reply \<times> 's" where
  "bearer_middleware E hdr rows nxt S = (case resolve_token E hdr rows of
     Inr ctx \<Rightarrow> nxt ctx S | Inl e \<Rightarrow> (unauthorized_token e, S))"

text \<open>Endpoints that a shipped application has no business calling ask for the \<open>api\<close> scope.\<close>
definition require_admin_token :: "ingest_context \<Rightarrow> http_reply + unit" where
  "require_admin_token ctx = (if ic_scope ctx = Api then Inr ()
     else Inl (plain 403 (JObj [(''error'', JStr ''admin_token_required''),
       (''hint'', JStr (''this endpoint needs a token whose scope is `api`. The token used has scope `ingest` ''
         @ EM_DASH @ '' the one that ships inside your application, which is why it cannot send. Mint one at Settings ''
         @ [CHR 0xE2, CHR 0x96, CHR 0xB8] @ '' Tokens with scope `api`.''))])))"

definition require_api_scope :: "ingest_context \<Rightarrow> http_reply + unit" where
  "require_api_scope ctx = (if ic_scope ctx = Api then Inr ()
     else Inl (plain 403 (JObj [(''error'', JStr ''api_token_required''),
       (''hint'', JStr ''this endpoint needs an `api`-scope token; the one used is `ingest` and ships inside the app'')])))"

subsection \<open>The console's commands\<close>

record token_state =
  tk_accounts :: accounts
  tk_rows :: token_table

definition project_access :: "auth_env \<Rightarrow> accounts \<Rightarrow> session_context \<Rightarrow> uuid \<Rightarrow> http_reply + unit" where
  "project_access E A ctx project =
     (if sx_role ctx = Superadmin \<or> \<not> ae_fails E \<and> (sx_user ctx, project) \<in> set (ac_assigned A) then Inr ()
      else Inl (failure 403 ''project_access_denied''))"

definition token_audited :: "auth_env \<Rightarrow> uuid \<Rightarrow> session_context \<Rightarrow> string \<Rightarrow> uuid \<Rightarrow> json \<Rightarrow> token_state \<Rightarrow> token_state" where
  "token_audited E project ctx act target payload S =
     (if ae_audit_fails E then S
      else S\<lparr>tk_accounts := (tk_accounts S)\<lparr>ac_audit := ac_audit (tk_accounts S) @
        [\<lparr>au_project = Some project, au_actor = Some (sx_user ctx), au_action = act, au_target_type = ''token'',
          au_target = ae_uuid_text E target, au_payload = payload\<rparr>]\<rparr>\<rparr>)"

definition create_token :: "auth_env \<Rightarrow> session_context \<Rightarrow> uuid \<Rightarrow> string \<Rightarrow> string \<Rightarrow> token_state \<Rightarrow> http_reply \<times> token_state" where
  "create_token E ctx project name scope_text S =
     (case project_access E (tk_accounts S) ctx project of Inl r \<Rightarrow> (r, S) | Inr _ \<Rightarrow>
      case scope_from_db scope_text of
        None \<Rightarrow> (plain 400 (JObj [(''error'', JStr ''invalid_scope''), (''hint'', JStr ''ingest | api'')]), S)
      | Some s \<Rightarrow>
          (case token_create E (ac_projects (tk_accounts S)) project s name (tk_rows S) of
             (Inl _, rows) \<Rightarrow> (internal, S\<lparr>tk_rows := rows\<rparr>)
           | (Inr (i, plaintext), rows) \<Rightarrow>
               (plain 201 (JObj [(''id'', JStr (ae_uuid_text E i)), (''token'', JStr plaintext)]),
                token_audited E project ctx ''token.create'' i (JObj [(''name'', JStr name), (''scope'', JStr scope_text)])
                  (S\<lparr>tk_rows := rows\<rparr>))))"

definition revoke_token :: "auth_env \<Rightarrow> session_context \<Rightarrow> uuid \<Rightarrow> token_state \<Rightarrow> http_reply \<times> token_state" where
  "revoke_token E ctx i S =
     (case (if ae_fails E then None else map_of (tk_rows S) i) of
        None \<Rightarrow> (failure 404 ''token_not_found'', S)
      | Some r \<Rightarrow>
          (case project_access E (tk_accounts S) ctx (tr_project r) of Inl e \<Rightarrow> (e, S) | Inr _ \<Rightarrow>
           case token_revoke E i (tk_rows S) of
             (Inl _, rows) \<Rightarrow> (internal, S\<lparr>tk_rows := rows\<rparr>)
           | (Inr _, rows) \<Rightarrow> (ok_reply,
               token_audited E (tr_project r) ctx ''token.revoke'' i (JObj []) (S\<lparr>tk_rows := rows\<rparr>))))"

subsection \<open>Histories of the console\<close>

datatype console_request =
    Account request
  | CreateToken headers uuid string string
  | RevokeToken headers uuid

abbreviation token_layer ::
  "auth_env \<Rightarrow> headers \<Rightarrow> (session_context \<Rightarrow> token_state \<Rightarrow> http_reply \<times> token_state) \<Rightarrow> token_state \<Rightarrow> http_reply \<times> token_state" where
  "token_layer \<equiv> session_layer tk_accounts tk_accounts_update"

fun serve_console :: "auth_env \<Rightarrow> console_request \<Rightarrow> token_state \<Rightarrow> http_reply \<times> token_state" where
  "serve_console E (Account r) S = (case serve E r (tk_accounts S) of (rep, A) \<Rightarrow> (rep, S\<lparr>tk_accounts := A\<rparr>))"
| "serve_console E (CreateToken h project name s) S = token_layer E h (\<lambda>ctx. create_token E ctx project name s) S"
| "serve_console E (RevokeToken h i) S = token_layer E h (\<lambda>ctx. revoke_token E ctx i) S"

definition console_after :: "(auth_env \<times> console_request) list \<Rightarrow> token_state \<Rightarrow> token_state" where
  "console_after rs S = foldl (\<lambda>S (E, r). snd (serve_console E r S)) S rs"

text \<open>A request that mints the token with this hash, for this context, by somebody who may.\<close>
definition mints :: "auth_env \<Rightarrow> console_request \<Rightarrow> token_state \<Rightarrow> string \<Rightarrow> ingest_context \<Rightarrow> bool" where
  "mints E q S hash ctx \<longleftrightarrow> hr_status (fst (serve_console E q S)) = 201
     \<and> (case q of CreateToken h project name s \<Rightarrow>
          project = ic_project ctx \<and> scope_from_db s = Some (ic_scope ctx)
          \<and> ae_fresh E = ic_token ctx \<and> hash_token E (mint_random_token E) = hash
          \<and> (case map_option (\<lambda>t. session_of E t (tk_accounts S)) (extract_token h) of
              Some (Inr sx) \<Rightarrow> sx_role sx = Superadmin \<or> (sx_user sx, project) \<in> set (ac_assigned (tk_accounts S))
            | _ \<Rightarrow> False)
        | _ \<Rightarrow> False)"

definition revokes :: "auth_env \<Rightarrow> console_request \<Rightarrow> token_state \<Rightarrow> uuid \<Rightarrow> bool" where
  "revokes E q S i \<longleftrightarrow> hr_status (fst (serve_console E q S)) = 200
     \<and> (case q of RevokeToken _ j \<Rightarrow> j = i | _ \<Rightarrow> False)"

lemma token_audited_rows [simp]: "tk_rows (token_audited E p ctx act i j S) = tk_rows S"
  by (simp add: token_audited_def)

lemma assigned_touch [simp]: "ac_assigned (touch_session E k A) = ac_assigned A"
  by (simp add: touch_session_def)

lemma scope_round_trip [simp]: "scope_from_db (scope_db_str s) = Some s"
  by (cases s) (simp_all add: scope_from_db_def)

text \<open>What the row of a token is the same in, whatever happens to it.\<close>
definition same_token :: "token_row \<Rightarrow> token_row \<Rightarrow> bool" where
  "same_token r r' \<longleftrightarrow> tr_project r = tr_project r' \<and> tr_scope r = tr_scope r' \<and> tr_hash r = tr_hash r'"

lemma mark_revoked_token [simp]: "same_token r (mark_revoked now r)" "tr_revoked (mark_revoked now r) \<noteq> None"
  by (simp_all add: mark_revoked_def same_token_def)

lemma create_token_rows:
  assumes "(i, r) \<in> set (tk_rows (snd (create_token E sx project name s S)))"
  shows "(i, r) \<in> set (tk_rows S)
    \<or> hr_status (fst (create_token E sx project name s S)) = 201 \<and> i = ae_fresh E \<and> tr_project r = project
      \<and> scope_from_db (tr_scope r) = scope_from_db s \<and> scope_from_db s \<noteq> None
      \<and> tr_hash r = hash_token E (mint_random_token E) \<and> project_access E (tk_accounts S) sx project = Inr ()"
  using assms by (auto simp: create_token_def token_create_def Let_def split: if_splits option.splits sum.splits)

lemma revoke_token_result:
  "hr_status (fst (revoke_token E sx j S)) \<noteq> 200 \<and> tk_rows (snd (revoke_token E sx j S)) = tk_rows S
   \<or> hr_status (fst (revoke_token E sx j S)) = 200 \<and> tk_rows (snd (revoke_token E sx j S))
      = update_row j (mark_revoked (ae_now E)) (tk_rows S)"
proof (cases "if ae_fails E then None else map_of (tk_rows S) j")
  case None
  then show ?thesis unfolding revoke_token_def by simp
next
  case (Some r)
  show ?thesis
  proof (cases "project_access E (tk_accounts S) sx (tr_project r)")
    case (Inl e)
    then have "hr_status e = 403" by (auto simp: project_access_def split: if_splits)
    with Some Inl show ?thesis unfolding revoke_token_def by simp
  next
    case (Inr u)
    with Some show ?thesis unfolding revoke_token_def by (simp add: token_revoke_def)
  qed
qed

lemma revoke_token_rows:
  assumes "(i, r) \<in> set (tk_rows (snd (revoke_token E sx j S)))"
  shows "\<exists>q. (i, q) \<in> set (tk_rows S) \<and> same_token q r \<and> (tr_revoked r = None \<longrightarrow> tr_revoked q = None)
    \<and> (hr_status (fst (revoke_token E sx j S)) = 200 \<longrightarrow> i = j \<longrightarrow> tr_revoked r \<noteq> None)"
  using revoke_token_result [of E sx j S]
proof (elim disjE conjE)
  assume "tk_rows (snd (revoke_token E sx j S)) = tk_rows S" and "hr_status (fst (revoke_token E sx j S)) \<noteq> 200"
  with assms show ?thesis by (auto simp: same_token_def)
next
  assume "tk_rows (snd (revoke_token E sx j S)) = update_row j (mark_revoked (ae_now E)) (tk_rows S)"
  with assms have "(i, r) \<in> set (update_row j (mark_revoked (ae_now E)) (tk_rows S))" by simp
  then obtain q where q: "(i, q) \<in> set (tk_rows S)" and r: "r = (if i = j then mark_revoked (ae_now E) q else q)"
    by (rule in_update_row)
  show ?thesis
  proof (cases "i = j")
    case True
    with q r mark_revoked_token show ?thesis by (intro exI [of _ q]) simp
  next
    case False
    with q r show ?thesis by (intro exI [of _ q]) (simp add: same_token_def)
  qed
qed

text \<open>One step: an unrevoked row afterwards was there, unrevoked, or the step mints it.\<close>
lemma token_step:
  assumes row: "(i, r) \<in> set (tk_rows (snd (serve_console E q S)))" and live: "tr_revoked r = None"
    and sc: "scope_from_db (tr_scope r) = Some s"
  shows "(\<exists>p. (i, p) \<in> set (tk_rows S) \<and> same_token p r \<and> tr_revoked p = None) \<and> \<not> revokes E q S i
    \<or> mints E q S (tr_hash r) \<lparr>ic_token = i, ic_project = tr_project r, ic_scope = s\<rparr>"
proof (cases q)
  case (Account a)
  with row live show ?thesis by (auto simp: revokes_def same_token_def split: prod.splits)
next
  case (CreateToken h project name t)
  show ?thesis
  proof (cases rule: layer_cases [of tk_accounts tk_accounts_update E h "\<lambda>ctx. create_token E ctx project name t" S])
    case (1 w)
    with CreateToken row live show ?thesis by (auto simp: revokes_def same_token_def)
  next
    case (2 tok sx)
    let ?S = "tk_accounts_update (touch_session E (sx_hash sx)) S"
    from row CreateToken 2(3) have "(i, r) \<in> set (tk_rows (snd (create_token E sx project name t ?S)))" by simp
    from create_token_rows [OF this] CreateToken 2 live sc show ?thesis
      by (auto simp: revokes_def same_token_def mints_def project_access_def split: if_splits)
  qed
next
  case (RevokeToken h j)
  show ?thesis
  proof (cases rule: layer_cases [of tk_accounts tk_accounts_update E h "\<lambda>ctx. revoke_token E ctx j" S])
    case (1 w)
    with RevokeToken row live show ?thesis by (auto simp: revokes_def same_token_def)
  next
    case (2 tok sx)
    let ?S = "tk_accounts_update (touch_session E (sx_hash sx)) S"
    from row RevokeToken 2(3) have "(i, r) \<in> set (tk_rows (snd (revoke_token E sx j ?S)))" by simp
    from revoke_token_rows [OF this] RevokeToken 2 live show ?thesis
      by (auto simp: revokes_def)
  qed
qed

lemma console_after_snoc: "console_after (rs @ [(E, q)]) S = snd (serve_console E q (console_after rs S))"
  by (simp add: console_after_def)

text \<open>An unrevoked row of the table was minted by a request that nothing since has revoked.\<close>
lemma token_history:
  assumes none: "tk_rows S0 = []"
  shows "(i, r) \<in> set (tk_rows (console_after rs S0)) \<Longrightarrow> tr_revoked r = None \<Longrightarrow> scope_from_db (tr_scope r) = Some s \<Longrightarrow>
    (\<exists>k E q. k < length rs \<and> rs ! k = (E, q)
       \<and> mints E q (console_after (take k rs) S0) (tr_hash r) \<lparr>ic_token = i, ic_project = tr_project r, ic_scope = s\<rparr>
       \<and> (\<forall>j F p. k < j \<longrightarrow> j < length rs \<longrightarrow> rs ! j = (F, p) \<longrightarrow> \<not> revokes F p (console_after (take j rs) S0) i))"
proof (induction rs arbitrary: r rule: rev_induct)
  case Nil
  then show ?case using none by (simp add: console_after_def)
next
  case (snoc x rs)
  obtain E q where x: "x = (E, q)" by fastforce
  let ?S = "console_after rs S0"
  let ?ctx = "\<lambda>r. \<lparr>ic_token = i, ic_project = tr_project r, ic_scope = s\<rparr>"
  from snoc.prems have "(i, r) \<in> set (tk_rows (snd (serve_console E q ?S)))" by (simp add: x console_after_snoc)
  from token_step [OF this snoc.prems(2,3)] show ?case
  proof (elim disjE conjE exE)
    fix p
    assume p: "(i, p) \<in> set (tk_rows ?S)" "same_token p r" "tr_revoked p = None" and kept: "\<not> revokes E q ?S i"
    then have "scope_from_db (tr_scope p) = Some s" using snoc.prems(3) by (simp add: same_token_def)
    from snoc.IH [OF p(1,3) this] p(2) obtain k F g where k: "k < length rs" "rs ! k = (F, g)"
      "mints F g (console_after (take k rs) S0) (tr_hash r) (?ctx r)"
      "\<forall>j F p. k < j \<longrightarrow> j < length rs \<longrightarrow> rs ! j = (F, p) \<longrightarrow> \<not> revokes F p (console_after (take j rs) S0) i"
      unfolding same_token_def by auto
    show ?thesis
    proof (rule exI [of _ k], rule exI [of _ F], rule exI [of _ g], intro conjI allI impI)
      fix j G c
      assume "k < j" "j < length (rs @ [x])" "(rs @ [x]) ! j = (G, c)"
      with k(4) kept x show "\<not> revokes G c (console_after (take j (rs @ [x])) S0) i"
        by (cases "j < length rs") (auto simp: nth_append less_Suc_eq)
    qed (use k in \<open>auto simp: nth_append\<close>)
  next
    assume "mints E q ?S (tr_hash r) (?ctx r)"
    then show ?thesis by (intro exI [of _ "length rs"] exI [of _ E] exI [of _ q]) (auto simp: x)
  qed
qed

lemma find_Some_in: "List.find P xs = Some x \<Longrightarrow> x \<in> set xs \<and> P x"
  by (induction xs) (auto split: if_splits)

lemma resolve_tokenD:
  assumes "resolve_token E hdr rows = Inr ctx"
  obtains auth rest r where "hdr = Some (Some auth)" and "strip_prefix auth ''Bearer '' = Some rest"
    and "(ic_token ctx, r) \<in> set rows" and "tr_hash r = hash_token E (trim rest)" and "tr_revoked r = None"
    and "tr_project r = ic_project ctx" and "scope_from_db (tr_scope r) = Some (ic_scope ctx)"
proof -
  from assms obtain auth rest t where a: "hdr = Some (Some auth)" "strip_prefix auth ''Bearer '' = Some rest"
    and t: "lookup_by_plaintext E (trim rest) rows = Inr (Some t)" "is_active t"
      "ctx = \<lparr>ic_token = tk_id t, ic_project = tk_project t, ic_scope = tk_scope t\<rparr>"
    by (auto simp: resolve_token_def result_simps ok_or_def Let_def split: option.splits if_splits)
  from t(1) obtain i r where f: "List.find (\<lambda>(_, r). tr_hash r = hash_token E (trim rest)) rows = Some (i, r)"
    and rt: "row_to_token i r = Inr t"
    by (auto simp: lookup_by_plaintext_def result_simps split: if_splits option.splits)
  from f have "(i, r) \<in> set rows" "tr_hash r = hash_token E (trim rest)"
    using find_Some_in [OF f] by auto
  with that [OF a, of r] rt t(2,3) show thesis
    by (auto simp: row_to_token_def result_simps ok_or_def is_active_def split: option.splits)
qed

text \<open>C32. A bearer token is accepted only when a console request minted one of the same hash for
  that very project and scope, from a live session of a superadmin or of an admin assigned to the
  project at that moment, and no revocation of it has succeeded since, whatever account and token
  requests came between.\<close>
theorem token_provenance:
  assumes "tk_rows S0 = []" and "resolve_token E hdr (tk_rows (console_after rs S0)) = Inr ctx"
  shows "\<exists>auth rest k F q. hdr = Some (Some auth) \<and> strip_prefix auth ''Bearer '' = Some rest
    \<and> k < length rs \<and> rs ! k = (F, q)
    \<and> mints F q (console_after (take k rs) S0) (hash_token E (trim rest)) ctx
    \<and> (\<forall>j G p. k < j \<longrightarrow> j < length rs \<longrightarrow> rs ! j = (G, p) \<longrightarrow>
         \<not> revokes G p (console_after (take j rs) S0) (ic_token ctx))"
proof -
  from resolve_tokenD [OF assms(2)] obtain auth rest r where h: "hdr = Some (Some auth)" "strip_prefix auth ''Bearer '' = Some rest"
    and r: "(ic_token ctx, r) \<in> set (tk_rows (console_after rs S0))" "tr_revoked r = None"
      "scope_from_db (tr_scope r) = Some (ic_scope ctx)" "tr_hash r = hash_token E (trim rest)" "tr_project r = ic_project ctx"
    by metis
  have "\<lparr>ic_token = ic_token ctx, ic_project = ic_project ctx, ic_scope = ic_scope ctx\<rparr> = ctx" by simp
  with token_history [OF assms(1) r(1,2,3)] h show ?thesis unfolding r(4,5) by auto
qed

subsection \<open>A minted token works at once\<close>

lemma starts_with_take: "length p \<le> length s \<Longrightarrow> starts_with (p @ s) p"
  by simp

text \<open>The token in the answer of a mint resolves, by its hash, to the row the mint made.\<close>
lemma created_token_found:
  assumes "token_create E projects project s name rows = (Inr (i, plaintext), rows')" and "\<not> ae_fails E"
  shows "lookup_by_plaintext E plaintext rows' = Inr (Some \<lparr>tk_id = i, tk_project = project, tk_scope = s, tk_name = name,
     tk_last4 = Some (drop (length plaintext - 4) plaintext), tk_created = ae_now E, tk_revoked = None\<rparr>)"
proof -
  let ?P = "\<lambda>(_, r). tr_hash r = hash_token E plaintext"
  from assms(1) have new: "hash_token E plaintext \<notin> tr_hash ` snd ` set rows" and i: "i = ae_fresh E"
    and rows': "rows' = rows @ [(i, \<lparr>tr_project = project, tr_name = name,
              tr_scope = scope_db_str s, tr_hash = hash_token E plaintext, tr_last4 = Some (drop (length plaintext - 4) plaintext),
              tr_created = ae_now E, tr_last_used = None, tr_revoked = None\<rparr>)]"
    by (auto simp: token_create_def Let_def split: if_splits)
  from new have "List.find ?P rows = None" by (force simp: find_None_iff)
  moreover have "List.find ?P rows = None \<Longrightarrow> List.find ?P (rows @ ys) = List.find ?P ys" for ys
    by (induction rows) (auto split: if_splits)
  ultimately show ?thesis using assms(2) by (simp add: lookup_by_plaintext_def rows' row_to_token_def)
qed

subsection \<open>Instances for the witnesses\<close>

definition toy_token_state :: token_state where
  "toy_token_state = \<lparr>tk_accounts = toy_accounts\<lparr>ac_users := [(1, \<lparr>us_email = ''a@b'', us_phc = ''secret'',
       us_role = ''superadmin'', us_display = None, us_last_login = None\<rparr>)], ac_projects := [4]\<rparr>, tk_rows = []\<rparr>"

definition toy_token_history :: "(auth_env \<times> console_request) list" where
  "toy_token_history =
     [(toy_env 5 (bytes_of ''x''), Account (Login ''a@b'' ''secret'')),
      (toy_env 6 (bytes_of ''aaaaaaaaaaaaaaaaaaaaaaaaaa''), CreateToken \<lparr>hd_authorization = Some ''Bearer x'', hd_cookie = None\<rparr> 4 ''ci'' ''api'')]"

definition toy_header :: string where "toy_header = ''Bearer st_aaaaaaaaaaaaaaaaaaaaaaaaaa''"

lemma toy_trims: "trim ''x'' = ''x''" "trim ''st_aaaaaaaaaaaaaaaaaaaaaaaaaa'' = ''st_aaaaaaaaaaaaaaaaaaaaaaaaaa''"
  by code_simp+

lemma toy_mint: "mint_random_token (toy_env 6 (bytes_of ''aaaaaaaaaaaaaaaaaaaaaaaaaa'')) = ''st_aaaaaaaaaaaaaaaaaaaaaaaaaa''"
  by (simp add: mint_random_token_def TOKEN_PREFIX_def toy_env_def to_ascii_lowercase_def char_val_def)

lemma toy_login: "tk_rows (snd (serve_console (toy_env 5 (bytes_of ''x'')) (Account (Login ''a@b'' ''secret'')) toy_token_state)) = []"
  "session_of (toy_env n b) ''x''
    (tk_accounts (snd (serve_console (toy_env 5 (bytes_of ''x'')) (Account (Login ''a@b'' ''secret'')) toy_token_state)))
     = (if days SESSION_TTL_DAYS + 5 \<le> n then Inl ''session expired or invalid''
        else Inr \<lparr>sx_user = 1, sx_role = Superadmin, sx_hash = bytes_of ''x''\<rparr>)"
  "ac_projects (tk_accounts (snd (serve_console (toy_env 5 (bytes_of ''x'')) (Account (Login ''a@b'' ''secret'')) toy_token_state))) = [4]"
  by (simp_all add: toy_token_state_def toy_eval session_of_def role_from_db_def)

lemma toy_token_resolves:
  "resolve_token (toy_env 7 []) (Some (Some toy_header)) (tk_rows (console_after toy_token_history toy_token_state))
     = Inr \<lparr>ic_token = 9, ic_project = 4, ic_scope = Api\<rparr>"
proof -
  let ?E = "toy_env 6 (bytes_of ''aaaaaaaaaaaaaaaaaaaaaaaaaa'')"
  let ?S = "snd (serve_console (toy_env 5 (bytes_of ''x'')) (Account (Login ''a@b'' ''secret'')) toy_token_state)"
  have r: "tk_rows ?S = []" and p: "ac_projects (tk_accounts ?S) = [4]"
    and s: "session_of ?E ''x'' (tk_accounts ?S) = Inr \<lparr>sx_user = 1, sx_role = Superadmin, sx_hash = bytes_of ''x''\<rparr>"
    using toy_login by (simp_all add: days_def secs_def SESSION_TTL_DAYS_def)
  have e: "extract_token \<lparr>hd_authorization = Some ''Bearer x'', hd_cookie = None\<rparr> = Some ''x''"
    by (simp add: extract_token_def strip_prefix_def starts_with_def toy_trims)
  obtain S1 where S1: "?S = S1" by blast
  have f: "ae_fresh ?E = 9" "ae_now ?E = 6" "\<not> ae_late_fails ?E" "\<not> ae_fails ?E" by (simp_all add: toy_env_def)
  have "tk_rows (console_after toy_token_history toy_token_state)
      = tk_rows (snd (serve_console ?E (CreateToken \<lparr>hd_authorization = Some ''Bearer x'', hd_cookie = None\<rparr> 4 ''ci'' ''api'') S1))"
    by (simp add: console_after_def toy_token_history_def flip: S1)
  also have "\<dots> = [(9, \<lparr>tr_project = 4, tr_name = ''ci'',
       tr_scope = ''api'', tr_hash = hash_token ?E ''st_aaaaaaaaaaaaaaaaaaaaaaaaaa'', tr_last4 = Some ''aaaa'',
       tr_created = 6, tr_last_used = None, tr_revoked = None\<rparr>)]"
    using r p s unfolding S1 by (simp add: session_layer_def e create_token_def token_create_def f
        project_access_def scope_from_db_def toy_mint touch_session_def Let_def)
  finally have t: "tk_rows (console_after toy_token_history toy_token_state) = [(9, \<lparr>tr_project = 4, tr_name = ''ci'',
       tr_scope = ''api'', tr_hash = hash_token ?E ''st_aaaaaaaaaaaaaaaaaaaaaaaaaa'', tr_last4 = Some ''aaaa'',
       tr_created = 6, tr_last_used = None, tr_revoked = None\<rparr>)]" .
  have "hash_token ?E t = hash_token (toy_env 7 []) t" for t by (simp add: hash_token_def toy_env_def)
  then show ?thesis unfolding t toy_header_def
    by (simp add: resolve_token_def strip_prefix_def starts_with_def toy_trims TOKEN_PREFIX_def looks_like_token_def
        TOKEN_VALUE_LEN_def lookup_by_plaintext_def row_to_token_def scope_from_db_def is_active_def toy_env_def)
qed

theorem token_provenance_witness:
  "\<exists>auth rest k F q. Some (Some toy_header) = Some (Some auth) \<and> strip_prefix auth ''Bearer '' = Some rest
    \<and> k < length toy_token_history \<and> toy_token_history ! k = (F, q)
    \<and> mints F q (console_after (take k toy_token_history) toy_token_state) (hash_token (toy_env 7 []) (trim rest))
        \<lparr>ic_token = 9, ic_project = 4, ic_scope = Api\<rparr>
    \<and> (\<forall>j G p. k < j \<longrightarrow> j < length toy_token_history \<longrightarrow> toy_token_history ! j = (G, p) \<longrightarrow>
         \<not> revokes G p (console_after (take j toy_token_history) toy_token_state)
              (ic_token \<lparr>ic_token = 9, ic_project = 4, ic_scope = Api\<rparr>))"
  by (rule token_provenance [OF _ toy_token_resolves]) (simp add: toy_token_state_def)

end
