(* ===== verification/IngestPolicy.thy ===== *)
theory IngestPolicy
  imports Pipeline NativeSymbolicate IngestToken
begin

text \<open>
  The operator's ingest policy, \<^verbatim>\<open>self-hosted/server/src/ingest_policy.rs\<close>: tokens of one project
  whose events belong to another, chosen by the application's identifier or the namespace of its
  release; retired traces that are dropped; and the attachments that follow a routed event.
  Reading the policy as JSON is a parameter, as is reading its file.
\<close>

record route =
  rt_token :: uuid
  rt_source :: uuid
  rt_target :: uuid
  rt_identifiers :: "string list"
  rt_namespaces :: "string list"

record trace_filter =
  tf_project :: uuid
  tf_names :: "string list"

record policy =
  po_routes :: "route list"
  po_filters :: "trace_filter list"

definition no_policy :: policy where "no_policy = \<lparr>po_routes = [], po_filters = []\<rparr>"

subsection \<open>Loading\<close>

definition clash :: "route \<Rightarrow> route \<Rightarrow> bool" where
  "clash r other \<longleftrightarrow> rt_token other = rt_token r \<and> rt_source other = rt_source r
     \<and> (list_ex (\<lambda>s. s \<in> set (rt_identifiers other)) (rt_identifiers r)
        \<or> list_ex (\<lambda>s. s \<in> set (rt_namespaces other)) (rt_namespaces r))"

definition ensure :: "bool \<Rightarrow> string \<Rightarrow> string + unit" where
  "ensure b msg = (if b then Inr () else Inl msg)"

definition check_route :: "token_table \<Rightarrow> uuid list \<Rightarrow> route list \<Rightarrow> route \<Rightarrow> string + unit" where
  "check_route rows known before r =
     bind_res (ensure (rt_source r \<noteq> rt_target r) ''ingest route cannot target its source'') (\<lambda>_.
     bind_res (ensure (rt_identifiers r \<noteq> [] \<or> rt_namespaces r \<noteq> []) ''empty ingest route'') (\<lambda>_.
     bind_res (ensure (list_all (\<lambda>s. trim s \<noteq> []) (rt_identifiers r @ rt_namespaces r)) ''empty ingest selector'') (\<lambda>_.
     bind_res (ensure (rt_target r \<in> set known
         \<and> (case map_of rows (rt_token r) of None \<Rightarrow> False
            | Some t \<Rightarrow> tr_project t = rt_source r \<and> tr_revoked t = None))
       ''ingest route requires an active source token and existing target'') (\<lambda>_.
     ensure (\<not> list_ex (clash r) before) ''ambiguous ingest routes''))))"

text \<open>\<open>before\<close>: the routes already looked at.\<close>
fun check_routes :: "token_table \<Rightarrow> uuid list \<Rightarrow> route list \<Rightarrow> route list \<Rightarrow> string + unit" where
  "check_routes rows known before [] = Inr ()"
| "check_routes rows known before (r # rs) =
     bind_res (check_route rows known before r) (\<lambda>_. check_routes rows known (before @ [r]) rs)"

fun check_filters :: "uuid list \<Rightarrow> trace_filter list \<Rightarrow> string + unit" where
  "check_filters known [] = Inr ()"
| "check_filters known (f # fs) =
     bind_res (ensure (tf_project f \<in> set known) ''trace filter requires an existing project'') (\<lambda>_.
       check_filters known fs)"

definition policy_text ::
  "(string \<rightharpoonup> string) \<Rightarrow> (string \<Rightarrow> string + string) \<Rightarrow> string + string option" where
  "policy_text vars read_file =
     (case (case vars ''SENTORI_INGEST_POLICY'' of Some raw \<Rightarrow> if trim raw \<noteq> [] then Some raw else None | None \<Rightarrow> None) of
        Some raw \<Rightarrow> Inr (Some raw)
      | None \<Rightarrow> (case vars ''SENTORI_INGEST_POLICY_FILE'' of
          None \<Rightarrow> Inr None | Some path \<Rightarrow> bind_res (read_file path) (\<lambda>t. Inr (Some t))))"

definition policy_load ::
  "(string \<rightharpoonup> string) \<Rightarrow> (string \<Rightarrow> string + string) \<Rightarrow> (string \<Rightarrow> string + policy) \<Rightarrow> token_table \<Rightarrow> uuid list \<Rightarrow> string + policy" where
  "policy_load vars read_file parser rows known =
     bind_res (policy_text vars read_file) (\<lambda>raw.
     bind_res (case raw of None \<Rightarrow> Inr no_policy | Some t \<Rightarrow> parser t) (\<lambda>p.
     bind_res (check_routes rows known [] (po_routes p)) (\<lambda>_.
     bind_res (check_filters known (po_filters p)) (\<lambda>_. Inr p))))"

subsection \<open>Routing\<close>

text \<open>The identifier the application states: the first usable one of three keys.\<close>
definition app_identity :: "json \<Rightarrow> string option" where
  "app_identity payload =
     List.find (\<lambda>s. s \<noteq> [] \<and> length s \<le> 200 \<and> \<not> has_control s)
       (map trim (List.map_filter (\<lambda>key. Option.bind (Option.bind (jget ''app'' payload) (jget key)) as_str)
          [''identifier'', ''bundleIdentifier'', ''packageName'']))"

definition release_namespace :: "string \<Rightarrow> string" where
  "release_namespace release = (case rsplit_once (CHR ''@'') release of None \<Rightarrow> [] | Some (n, _) \<Rightarrow> trim n)"

definition of_credential :: "ingest_context \<Rightarrow> route \<Rightarrow> bool" where
  "of_credential ctx r \<longleftrightarrow> rt_token r = ic_token ctx \<and> rt_source r = ic_project ctx"

definition selects :: "string option \<Rightarrow> string \<Rightarrow> route \<Rightarrow> bool" where
  "selects identity ns r = (case identity of
     Some i \<Rightarrow> i \<in> set (rt_identifiers r) | None \<Rightarrow> ns \<in> set (rt_namespaces r))"

definition policy_project :: "policy \<Rightarrow> ingest_context \<Rightarrow> string \<Rightarrow> json \<Rightarrow> uuid" where
  "policy_project p ctx release payload =
     (case List.find (\<lambda>r. of_credential ctx r \<and> selects (app_identity payload) (release_namespace release) r) (po_routes p) of
        None \<Rightarrow> ic_project ctx | Some r \<Rightarrow> rt_target r)"

definition filtered :: "policy \<Rightarrow> uuid \<Rightarrow> kind \<Rightarrow> string option \<Rightarrow> bool" where
  "filtered p project k name \<longleftrightarrow> k = Trace
     \<and> (case name of None \<Rightarrow> False
        | Some n \<Rightarrow> list_ex (\<lambda>f. tf_project f = project \<and> n \<in> set (tf_names f)) (po_filters p))"

definition permits :: "policy \<Rightarrow> ingest_context \<Rightarrow> uuid \<Rightarrow> bool" where
  "permits p ctx target \<longleftrightarrow> target = ic_project ctx
     \<or> list_ex (\<lambda>r. of_credential ctx r \<and> rt_target r = target) (po_routes p)"

subsection \<open>Attachments of a routed event\<close>

text \<open>An attachment's reference, its event and its project; the events table is the pipeline's.\<close>
type_synonym attachment_rows = "(uuid \<times> uuid \<times> uuid) list"

definition attachment_project :: "policy \<Rightarrow> ingest_context \<Rightarrow> uuid \<Rightarrow> (uuid \<times> event_row) list \<Rightarrow> uuid" where
  "attachment_project p ctx event evs =
     (if \<not> list_ex (of_credential ctx) (po_routes p) then ic_project ctx
      else case map_of evs event of
        Some e \<Rightarrow> if permits p ctx (er_project e) then er_project e else ic_project ctx
      | None \<Rightarrow> ic_project ctx)"

text \<open>\<open>fails\<close>: the transaction fails, and nothing is moved.\<close>
definition reconcile_attachments ::
  "bool \<Rightarrow> policy \<Rightarrow> ingest_context \<Rightarrow> uuid \<Rightarrow> uuid \<Rightarrow> (uuid \<times> event_row) list
     \<Rightarrow> attachment_rows \<times> (uuid \<times> uuid) list \<Rightarrow> unit option \<times> attachment_rows \<times> (uuid \<times> uuid) list" where
  "reconcile_attachments fails p ctx event target evs = (\<lambda>(rows, replays).
     if target = ic_project ctx then (Some (), rows, replays)
     else if fails then (None, rows, replays)
     else
       let project = attachment_project p ctx event evs;
           rows = map (\<lambda>(ref, e, q). (ref, e, if e = event \<and> q = ic_project ctx then project else q)) rows;
           replays = (if (ic_project ctx, event) \<in> set replays \<and> (project, event) \<notin> set replays
                      then (project, event) # replays else replays);
           replays = filter (\<lambda>(q, e). \<not> (e = event \<and> q = ic_project ctx \<and> q \<noteq> project)) replays
       in (Some (), rows, replays))"

subsection \<open>No request selects its own destination\<close>

lemma policy_project_permitted: "permits p ctx (policy_project p ctx release payload)"
proof (cases "List.find (\<lambda>r. of_credential ctx r \<and> selects (app_identity payload) (release_namespace release) r) (po_routes p)")
  case None
  then show ?thesis by (simp add: policy_project_def permits_def)
next
  case (Some r)
  from find_Some_in [OF this] Some show ?thesis
    by (auto simp: policy_project_def permits_def list_ex_iff)
qed

lemma attachment_project_permitted: "permits p ctx (attachment_project p ctx event evs)"
  by (auto simp: attachment_project_def permits_def split: option.splits)

text \<open>A loaded policy delegates only named live tokens to other existing known.\<close>
lemma check_routes_ok:
  assumes "check_routes rows known before rs = Inr ()" and "r \<in> set rs"
  shows "rt_target r \<in> set known \<and> rt_target r \<noteq> rt_source r
    \<and> (\<exists>t. map_of rows (rt_token r) = Some t \<and> tr_project t = rt_source r \<and> tr_revoked t = None)"
  using assms by (induction rs arbitrary: before)
    (auto simp: result_simps check_route_def ensure_def split: if_splits option.splits)

lemma check_routes_unambiguous:
  "check_routes rows known before rs = Inr () \<Longrightarrow> i < j \<Longrightarrow> j < length rs \<Longrightarrow> \<not> clash (rs ! j) (rs ! i)"
  "check_routes rows known before rs = Inr () \<Longrightarrow> r \<in> set rs \<Longrightarrow> b \<in> set before \<Longrightarrow> \<not> clash r b"
proof -
  have before: "check_routes rows known before rs = Inr () \<Longrightarrow> r \<in> set rs \<Longrightarrow> b \<in> set before \<Longrightarrow> \<not> clash r b" for before rs r b
  proof (induction rs arbitrary: before)
    case (Cons a rs)
    from Cons.prems(1) have rest: "check_routes rows known (before @ [a]) rs = Inr ()"
      and first: "\<not> list_ex (clash a) before"
      by (auto simp: result_simps check_route_def ensure_def split: if_splits)
    show ?case
    proof (cases "r = a")
      case True
      with first Cons.prems(3) show ?thesis by (simp add: list_ex_iff)
    next
      case False
      with Cons.IH [OF rest] Cons.prems(2,3) show ?thesis by simp
    qed
  qed simp
  show "check_routes rows known before rs = Inr () \<Longrightarrow> r \<in> set rs \<Longrightarrow> b \<in> set before \<Longrightarrow> \<not> clash r b"
    by (rule before)
  show "check_routes rows known before rs = Inr () \<Longrightarrow> i < j \<Longrightarrow> j < length rs \<Longrightarrow> \<not> clash (rs ! j) (rs ! i)"
  proof (induction rs arbitrary: before i j)
    case (Cons r rs)
    from Cons.prems(1) have rest: "check_routes rows known (before @ [r]) rs = Inr ()" by (simp add: result_simps)
    show ?case
    proof (cases i)
      case 0
      with before [OF rest, of "rs ! (j - 1)" r] Cons.prems(2,3) show ?thesis by (cases j) auto
    next
      case (Suc k)
      with Cons.IH [OF rest, of k "j - 1"] Cons.prems(2,3) show ?thesis by (cases j) auto
    qed
  qed simp
qed

end
