(* ===== verification/SdkIngest.thy ===== *)
theory SdkIngest
  imports IngestPolicy
begin

text \<open>
  Ingest over HTTP: one event, \<^verbatim>\<open>handlers/sdk/events.rs\<close>; a batch with its sessions, assertion
  totals and health address, \<^verbatim>\<open>handlers/sdk/events_batch.rs\<close>; the validator that needs no token,
  \<^verbatim>\<open>handlers/sdk/events_validate.rs\<close>; and the counters of \<^verbatim>\<open>ingest_metrics.rs\<close>.  It composes the
  policy, the symbolication of errors and the pipeline.  Parameters: reading an event or a session
  from JSON, printing an instant, the length of the body, discovering the application of a session,
  and the failures of the database; the index in \<open>si_ingest\<close> and \<open>si_ids\<close> is the event's in its batch.
\<close>

subsection \<open>Counters\<close>

record counters =
  ct_accepted :: "64 word"
  ct_rejected :: "64 word"
  ct_failed :: "64 word"
  ct_rate_limited :: "64 word"
  ct_client_dropped :: "64 word"
  ct_unknown_platform :: "64 word"

definition no_counts :: counters where
  "no_counts = \<lparr>ct_accepted = 0, ct_rejected = 0, ct_failed = 0, ct_rate_limited = 0, ct_client_dropped = 0, ct_unknown_platform = 0\<rparr>"

definition count_accepted :: "counters \<Rightarrow> counters" where "count_accepted c = c\<lparr>ct_accepted := ct_accepted c + 1\<rparr>"
definition count_rejected :: "counters \<Rightarrow> counters" where "count_rejected c = c\<lparr>ct_rejected := ct_rejected c + 1\<rparr>"
definition count_failed :: "counters \<Rightarrow> counters" where "count_failed c = c\<lparr>ct_failed := ct_failed c + 1\<rparr>"
definition count_limited :: "counters \<Rightarrow> counters" where "count_limited c = c\<lparr>ct_rate_limited := ct_rate_limited c + 1\<rparr>"
definition count_unknown :: "counters \<Rightarrow> counters" where "count_unknown c = c\<lparr>ct_unknown_platform := ct_unknown_platform c + 1\<rparr>"
definition count_dropped :: "nat \<Rightarrow> counters \<Rightarrow> counters" where
  "count_dropped n c = (if 0 < n then c\<lparr>ct_client_dropped := ct_client_dropped c + of_nat n\<rparr> else c)"

definition snapshot :: "counters \<Rightarrow> (string \<times> 64 word) list" where
  "snapshot c = [(''accepted'', ct_accepted c), (''rejected'', ct_rejected c), (''failed'', ct_failed c),
     (''rate_limited'', ct_rate_limited c)]"

subsection \<open>The event as sent\<close>

record wire_event =
  we_id :: "uuid option"
  we_kind :: kind
  we_occurred_at :: instant
  we_platform :: string
  we_release :: string
  we_environment :: string
  we_name :: "string option"
  we_surface :: "json option"
  we_user_key :: "string option"
  we_payload :: json

definition VALID_PLATFORMS :: "string list" where
  "VALID_PLATFORMS = [''javascript'', ''ios'', ''android'', ''web'', ''weapp'']"
definition UNKNOWN_PLATFORM :: string where "UNKNOWN_PLATFORM = ''unknown''"

definition NUL :: char where "NUL = CHR 0x00"

text \<open>\<open>s.replace('\0', "\u{fffd}")\<close>\<close>
definition replace_nul :: "string \<Rightarrow> string" where
  "replace_nul s = concat (map (\<lambda>c. if c = NUL then [CHR 0xEF, CHR 0xBF, CHR 0xBD] else [c]) s)"

definition rename_key :: "string \<Rightarrow> json \<Rightarrow> json" where
  "rename_key k v = (let x = unwrap_or JNull (jget k v) in jset (replace_nul k) x (jdel k v))"

definition dirty_keys :: "(string \<times> json) list \<Rightarrow> string list" where
  "dirty_keys fs = filter (\<lambda>k. NUL \<in> set k) (map fst fs)"

text \<open>The members are cleaned first here and the keys first in the code: neither step reads the other's.\<close>
fun scrub_nuls :: "json \<Rightarrow> json" where
  "scrub_nuls (JStr s) = JStr (replace_nul s)"
| "scrub_nuls (JArr xs) = JArr (map scrub_nuls xs)"
| "scrub_nuls (JObj fs) = fold rename_key (dirty_keys fs) (JObj (map (\<lambda>(k, v). (k, scrub_nuls v)) fs))"
| "scrub_nuls v = v"

subsection \<open>Preparing an event\<close>

record wire_session =
  ws_id :: uuid
  ws_status :: string
  ws_release :: string
  ws_environment :: string
  ws_platform :: string
  ws_started_at :: instant
  ws_duration_ms :: int
  ws_user_key :: "string option"
  ws_user_id :: "string option"

record session_row =
  sr_project :: uuid
  sr_status :: string
  sr_release :: string
  sr_environment :: string
  sr_platform :: string
  sr_started_at :: instant
  sr_duration_ms :: int
  sr_user_key :: "string option"
  sr_app :: "uuid option"

record tick =
  ti_project :: uuid
  ti_issue :: uuid
  ti_event :: uuid
  ti_kind :: string
  ti_release :: string
  ti_environment :: string
  ti_platform :: string
  ti_at :: instant

record ('c, 'x) sdk_state =
  si_db :: "'x db"
  si_attachments :: attachment_rows
  si_sessions :: "(uuid \<times> session_row) list"
  si_asserts :: assert_table
  si_health :: "(uuid \<times> string) list"
  si_counters :: counters
  si_cache :: "'c resolver_cache"
  si_bus :: "tick list"

record ('c, 'i, 'e, 'x) sdk_env =
  si_cloud :: bool
  si_times :: times
  si_bytes :: nat
  si_now :: instant
  si_ids :: "nat \<Rightarrow> uuid"
  si_ingest :: "nat \<Rightarrow> 'x env"
  si_native :: "('c, 'i, 'e) native_env"
  si_policy :: policy
  si_moves_fail :: "nat \<Rightarrow> bool"
  si_session_fails :: "nat \<Rightarrow> bool"
  si_meta_fails :: "nat \<Rightarrow> bool"
  si_parse_session :: "json \<Rightarrow> wire_session option"
  si_observe_session :: "uuid \<Rightarrow> string \<Rightarrow> string \<Rightarrow> json \<Rightarrow> 'x \<Rightarrow> uuid \<times> 'x"
  si_rfc3339 :: "instant \<Rightarrow> string option"

definition rfc3339 :: "('c, 'i, 'e, 'x) sdk_env \<Rightarrow> instant \<Rightarrow> json" where
  "rfc3339 E t = (case si_rfc3339 E t of None \<Rightarrow> JNull | Some s \<Rightarrow> JStr s)"

definition HOUR :: duration where "HOUR = secs 3600"

text \<open>An event that claims to be from the future happened on arrival; the claim is kept.\<close>
definition clamp_clock :: "('c, 'i, 'e, 'x) sdk_env \<Rightarrow> wire_event \<Rightarrow> wire_event" where
  "clamp_clock E w =
     (if si_now E + HOUR < we_occurred_at w
      then w\<lparr>we_payload := jset ''_clockSkew'' (JObj [(''reportedOccurredAt'', rfc3339 E (we_occurred_at w)),
               (''clampedTo'', JStr ''arrival'')]) (we_payload w), we_occurred_at := si_now E\<rparr>
      else w)"

definition scrub_event :: "wire_event \<Rightarrow> wire_event" where
  "scrub_event w = w\<lparr>we_payload := scrub_nuls (we_payload w), we_release := replace_nul (we_release w),
     we_environment := replace_nul (we_environment w), we_name := map_option replace_nul (we_name w),
     we_user_key := map_option replace_nul (we_user_key w)\<rparr>"

definition known_platform :: "string \<Rightarrow> string" where
  "known_platform p = (if p \<in> set VALID_PLATFORMS then p else UNKNOWN_PLATFORM)"

definition symbolicated_payload ::
  "('c, 'i, 'e, 'x) sdk_env \<Rightarrow> uuid \<Rightarrow> wire_event \<Rightarrow> 'c resolver_cache \<Rightarrow> json \<times> 'c resolver_cache" where
  "symbolicated_payload E project w c =
     (if we_kind w \<noteq> Error then (we_payload w, c)
      else
        let ((_, payload), c) = symbolicate_payload (symbol_env.truncate (si_native E)) project (we_release w) (we_payload w) c
        in (snd (symbolicate_native (si_native E) project (we_release w) (we_platform w) payload), c))"

definition prepare ::
  "('c, 'i, 'e, 'x) sdk_env \<Rightarrow> nat \<Rightarrow> uuid \<Rightarrow> wire_event \<Rightarrow> ('c, 'x) sdk_state \<Rightarrow> incoming_event \<times> ('c, 'x) sdk_state" where
  "prepare E i project w S =
     (let S = (if we_platform w \<in> set VALID_PLATFORMS then S else S\<lparr>si_counters := count_unknown (si_counters S)\<rparr>);
          w = clamp_clock E (scrub_event (w\<lparr>we_platform := known_platform (we_platform w)\<rparr>));
          (payload, c) = symbolicated_payload E project w (si_cache S)
      in (\<lparr>ev_id = unwrap_or (si_ids E i) (we_id w), ev_project = project, ev_kind = we_kind w, ev_platform = we_platform w,
           ev_occurred_at = we_occurred_at w, ev_release = we_release w, ev_environment = we_environment w,
           ev_name = we_name w, ev_surface = unwrap_or (JObj []) (we_surface w), ev_user_key = we_user_key w,
           ev_payload = payload\<rparr>, S\<lparr>si_cache := c\<rparr>))"

subsection \<open>One event\<close>

datatype verdict = Retired | Stored ingest_outcome | Refused quota_error | Unacceptable string | Faulted bool

definition tick_of :: "incoming_event \<Rightarrow> uuid \<Rightarrow> tick" where
  "tick_of ev i = \<lparr>ti_project = ev_project ev, ti_issue = i, ti_event = ev_id ev, ti_kind = as_db_str (ev_kind ev),
     ti_release = ev_release ev, ti_environment = ev_environment ev, ti_platform = ev_platform ev,
     ti_at = ev_occurred_at ev\<rparr>"

definition move_attachments ::
  "('c, 'i, 'e, 'x) sdk_env \<Rightarrow> nat \<Rightarrow> ingest_context \<Rightarrow> uuid \<Rightarrow> uuid \<Rightarrow> ('c, 'x) sdk_state \<Rightarrow> unit option \<times> ('c, 'x) sdk_state" where
  "move_attachments E i ctx event target S =
     (let (res, rows, replays) = reconcile_attachments (si_moves_fail E i) (si_policy E) ctx event target
            (events (si_db S)) (si_attachments S, replay_usage (quota (si_db S)))
      in (res, S\<lparr>si_attachments := rows,
           si_db := (si_db S)\<lparr>quota := (quota (si_db S))\<lparr>replay_usage := replays\<rparr>\<rparr>\<rparr>))"

text \<open>
  What happens to one event; \<open>Faulted\<close> says whether the counter of failures moved (it does when
  the pipeline fails, not when the attachments of a routed event could not be moved).
\<close>
definition deliver ::
  "('c, 'i, 'e, 'x) sdk_env \<Rightarrow> nat \<Rightarrow> ingest_context \<Rightarrow> wire_event \<Rightarrow> ('c, 'x) sdk_state \<Rightarrow> verdict \<times> ('c, 'x) sdk_state" where
  "deliver E i ctx w S =
     (let project = policy_project (si_policy E) ctx (we_release w) (we_payload w) in
      if filtered (si_policy E) project (we_kind w) (we_name w) then (Retired, S)
      else
        let (ev, S) = prepare E i project w S;
            (res, db) = ingest ((si_ingest E i)\<lparr>cloud := si_cloud E\<rparr>) ev (si_db S);
            S = S\<lparr>si_db := db\<rparr>
        in case res of
             Inr out \<Rightarrow>
               (case move_attachments E i ctx (out_event out) project S of
                  (None, S) \<Rightarrow> (Faulted False, S)
                | (Some _, S) \<Rightarrow> (Stored out, S\<lparr>si_counters := count_accepted (si_counters S),
                    si_bus := si_bus S @ [tick_of ev (out_issue out)]\<rparr>))
           | Inl (Quota e) \<Rightarrow> (Refused e, S\<lparr>si_counters := count_rejected (si_counters S)\<rparr>)
           | Inl (Invalid msg) \<Rightarrow> (Unacceptable msg, S\<lparr>si_counters := count_rejected (si_counters S)\<rparr>)
           | Inl (Db _) \<Rightarrow> (Faulted True, S\<lparr>si_counters := count_failed (si_counters S)\<rparr>))"

definition event_reply :: "('c, 'i, 'e, 'x) sdk_env \<Rightarrow> nat \<Rightarrow> ingest_outcome \<Rightarrow> json" where
  "event_reply E i out = JObj [(''eventId'', JStr (uuid_text (si_ingest E i) (out_event out))),
     (''issueId'', JStr (uuid_text (si_ingest E i) (out_issue out))),
     (''isNewIssue'', JBool (is_new_issue out)), (''regressed'', JBool (regressed out))]"

definition retired_reply :: json where
  "retired_reply = JObj [(''filtered'', JBool True), (''reason'', JStr ''retired_trace'')]"

definition invalid_payload :: "string \<Rightarrow> json" where
  "invalid_payload msg = JObj [(''error'', JStr ''invalid_payload''), (''detail'', JStr msg)]"

definition quota_reply :: "quota_error \<Rightarrow> http_reply" where
  "quota_reply e = (case reply e of (n, c) \<Rightarrow> failure n c)"

text \<open>The body is charged before anything else; a refusal leaves no trace.\<close>
definition charged ::
  "('c, 'i, 'e, 'x) sdk_env \<Rightarrow> (('c, 'x) sdk_state \<Rightarrow> http_reply \<times> ('c, 'x) sdk_state) \<Rightarrow> ('c, 'x) sdk_state
     \<Rightarrow> http_reply \<times> ('c, 'x) sdk_state" where
  "charged E k S = (case payload_charge (si_cloud E) (si_times E) (si_bytes E) (quota (si_db S)) of
     Inl e \<Rightarrow> (quota_reply e, S)
   | Inr q \<Rightarrow> k (S\<lparr>si_db := (si_db S)\<lparr>quota := q\<rparr>\<rparr>))"

definition handle_event ::
  "('c, 'i, 'e, 'x) sdk_env \<Rightarrow> ingest_context \<Rightarrow> wire_event \<Rightarrow> ('c, 'x) sdk_state \<Rightarrow> http_reply \<times> ('c, 'x) sdk_state" where
  "handle_event E ctx w = charged E (\<lambda>S.
     case deliver E 0 ctx w S of
       (Retired, S) \<Rightarrow> (plain 202 retired_reply, S)
     | (Stored out, S) \<Rightarrow> (plain 202 (event_reply E 0 out), S)
     | (Refused e, S) \<Rightarrow> (quota_reply e, S)
     | (Unacceptable msg, S) \<Rightarrow> (plain 400 (invalid_payload msg), S)
     | (Faulted _, S) \<Rightarrow> (failure 500 ''ingest_failed'', S))"

subsection \<open>A batch\<close>

record envelope =
  en_events :: "wire_event list"
  en_stats :: "assert_stat list"
  en_health :: "string option"
  en_dropped :: "nat option"
  en_sessions :: "json list"

definition MAX_BATCH :: nat where "MAX_BATCH = 200"

definition VALID_SESSION_STATUS :: "string list" where
  "VALID_SESSION_STATUS = [''ok'', ''exited'', ''errored'', ''crashed'']"

definition app_payload :: "json \<Rightarrow> json" where
  "app_payload raw = JObj [(''app'', unwrap_or JNull (jget ''app'' raw))]"

definition session_row_of :: "uuid \<Rightarrow> wire_session \<Rightarrow> session_row" where
  "session_row_of project s =
     \<lparr>sr_project = project,
      sr_status = (if ws_status s \<in> set VALID_SESSION_STATUS then ws_status s else ''ok''),
      sr_release = ws_release s, sr_environment = ws_environment s, sr_platform = known_platform (ws_platform s),
      sr_started_at = ws_started_at s, sr_duration_ms = max (ws_duration_ms s) 0,
      sr_user_key = (case ws_user_key s of Some k \<Rightarrow> Some k | None \<Rightarrow> ws_user_id s), sr_app = None\<rparr>"

definition store_session ::
  "('c, 'i, 'e, 'x) sdk_env \<Rightarrow> ingest_context \<Rightarrow> nat \<times> json \<Rightarrow> ('c, 'x) sdk_state \<Rightarrow> ('c, 'x) sdk_state" where
  "store_session E ctx = (\<lambda>(i, raw) S.
     case si_parse_session E raw of
       None \<Rightarrow> S\<lparr>si_counters := count_rejected (si_counters S)\<rparr>
     | Some s \<Rightarrow>
         let project = policy_project (si_policy E) ctx (ws_release s) (app_payload raw); row = session_row_of project s in
         if si_session_fails E i \<or> map_of (si_sessions S) (ws_id s) \<noteq> None then S
         else
           let (app, o') = si_observe_session E project (sr_platform row) (ws_release s) (app_payload raw) (others (si_db S))
           in S\<lparr>si_sessions := si_sessions S @ [(ws_id s, row\<lparr>sr_app := Some app\<rparr>)],
                si_db := (si_db S)\<lparr>others := o'\<rparr>\<rparr>)"

definition store_sessions ::
  "('c, 'i, 'e, 'x) sdk_env \<Rightarrow> ingest_context \<Rightarrow> json list \<Rightarrow> ('c, 'x) sdk_state \<Rightarrow> ('c, 'x) sdk_state" where
  "store_sessions E ctx ss S = fold (store_session E ctx) (enumerate 0 ss) S"

definition absorb_telemetry ::
  "('c, 'i, 'e, 'x) sdk_env \<Rightarrow> ingest_context \<Rightarrow> envelope \<Rightarrow> ('c, 'x) sdk_state \<Rightarrow> ('c, 'x) sdk_state" where
  "absorb_telemetry E ctx en S =
     store_sessions E ctx (en_sessions en)
       (case en_dropped en of None \<Rightarrow> S | Some n \<Rightarrow> S\<lparr>si_counters := count_dropped n (si_counters S)\<rparr>)"

definition batch_projects :: "policy \<Rightarrow> ingest_context \<Rightarrow> envelope \<Rightarrow> uuid list" where
  "batch_projects p ctx en = remdups
     (map (\<lambda>w. policy_project p ctx (we_release w) (we_payload w)) (en_events en)
      @ map (\<lambda>s. policy_project p ctx (unwrap_or [] (str_at ''release'' s)) (app_payload s)) (en_sessions en))"

definition usable_url :: "string \<Rightarrow> bool" where
  "usable_url u \<longleftrightarrow> length u \<le> 512 \<and> (starts_with u ''http://'' \<or> starts_with u ''https://'')"

definition record_stat ::
  "('c, 'i, 'e, 'x) sdk_env \<Rightarrow> ingest_context \<Rightarrow> nat \<times> assert_stat \<Rightarrow> assert_table \<Rightarrow> assert_table" where
  "record_stat E ctx = (\<lambda>(i, s) tab.
     if si_meta_fails E (Suc i) then tab
     else record_assert_stats (si_now E) (policy_project (si_policy E) ctx (as_release s) JNull) [s] tab)"

definition record_batch_metadata ::
  "('c, 'i, 'e, 'x) sdk_env \<Rightarrow> ingest_context \<Rightarrow> envelope \<Rightarrow> ('c, 'x) sdk_state \<Rightarrow> ('c, 'x) sdk_state" where
  "record_batch_metadata E ctx en S =
     (let project = (case batch_projects (si_policy E) ctx en of
            [] \<Rightarrow> Some (ic_project ctx) | [p] \<Rightarrow> Some p | _ \<Rightarrow> None);
          S = (case (project, en_health en) of
            (Some p, Some u) \<Rightarrow> if usable_url u \<and> \<not> si_meta_fails E 0
                then S\<lparr>si_health := AList.update p u (si_health S)\<rparr> else S
          | _ \<Rightarrow> S)
      in S\<lparr>si_asserts := fold (record_stat E ctx) (enumerate 0 (en_stats en)) (si_asserts S)\<rparr>)"

text \<open>The events in order; each has its outcome, whatever becomes of the others.\<close>
fun deliver_all ::
  "('c, 'i, 'e, 'x) sdk_env \<Rightarrow> ingest_context \<Rightarrow> nat \<Rightarrow> wire_event list \<Rightarrow> ('c, 'x) sdk_state \<Rightarrow> verdict list \<times> ('c, 'x) sdk_state" where
  "deliver_all E ctx i [] S = ([], S)"
| "deliver_all E ctx i (w # ws) S =
     (let (v, S) = deliver E i ctx w S; (vs, S) = deliver_all E ctx (Suc i) ws S in (v # vs, S))"

fun outcome_json :: "('c, 'i, 'e, 'x) sdk_env \<Rightarrow> nat \<Rightarrow> verdict \<Rightarrow> json" where
  "outcome_json E i Retired = retired_reply"
| "outcome_json E i (Stored out) = event_reply E i out"
| "outcome_json E i (Refused e) = hr_body (quota_reply e)"
| "outcome_json E i (Unacceptable msg) = invalid_payload msg"
| "outcome_json E i (Faulted b) = JObj [(''error'', JStr ''ingest_failed'')]"

fun is_stored :: "verdict \<Rightarrow> bool" where
  "is_stored (Stored _) \<longleftrightarrow> True" | "is_stored _ \<longleftrightarrow> False"

definition batch_reply :: "('c, 'i, 'e, 'x) sdk_env \<Rightarrow> verdict list \<Rightarrow> http_reply" where
  "batch_reply E vs = plain 200 (JObj [(''accepted'', JInt (int (length (filter is_stored vs)))),
     (''filtered'', JInt (int (count_list vs Retired))),
     (''outcomes'', JArr (map (\<lambda>(i, v). outcome_json E i v) (enumerate 0 vs)))])"

definition handle_batch ::
  "('c, 'i, 'e, 'x) sdk_env \<Rightarrow> ingest_context \<Rightarrow> envelope \<Rightarrow> ('c, 'x) sdk_state \<Rightarrow> http_reply \<times> ('c, 'x) sdk_state" where
  "handle_batch E ctx en = charged E (\<lambda>S.
     let S = absorb_telemetry E ctx en S in
     if MAX_BATCH < length (en_events en)
     then (plain 413 (JObj [(''error'', JStr ''batch_too_large''), (''max'', JInt (int MAX_BATCH))]),
           S\<lparr>si_counters := count_rejected (si_counters S)\<rparr>)
     else
       let S = record_batch_metadata E ctx en S; (vs, S) = deliver_all E ctx 0 (en_events en) S
       in (batch_reply E vs, S))"

subsection \<open>The validator\<close>

definition KNOWN :: "string list" where
  "KNOWN = [''id'', ''kind'', ''occurredAt'', ''platform'', ''release'', ''environment'', ''name'', ''surface'',
     ''userKey'', ''payload'']"

text \<open>The text between the first pair of backticks.\<close>
definition field_from :: "string \<Rightarrow> string option" where
  "field_from msg =
     (let rest = dropWhile (\<lambda>c. c \<noteq> CHR 0x60) msg in
      if rest = [] \<or> CHR 0x60 \<notin> set (tl rest) then None
      else Some (takeWhile (\<lambda>c. c \<noteq> CHR 0x60) (tl rest)))"

fun needs_name :: "kind \<Rightarrow> string option" where
  "needs_name Warn = Some ''warn requires name''"
| "needs_name Trace = Some ''trace/assert requires name''"
| "needs_name Assert = Some ''trace/assert requires name''"
| "needs_name Probe = Some ''probe requires ref''"
| "needs_name Error = None"

definition validate_event ::
  "(json \<Rightarrow> string + wire_event) \<Rightarrow> (instant \<Rightarrow> string option) \<Rightarrow> json \<Rightarrow> http_reply" where
  "validate_event reader format body =
     (let ignored = (case body of JObj fs \<Rightarrow> filter (\<lambda>k. k \<notin> set KNOWN) (map fst fs) | _ \<Rightarrow> []) in
      case reader body of
        Inl msg \<Rightarrow> plain 400 (JObj [(''ok'', JBool False), (''error'', JStr ''invalid_payload''), (''detail'', JStr msg),
            (''field'', (case field_from msg of None \<Rightarrow> JNull | Some f \<Rightarrow> JStr f)),
            (''hint'', JStr (''top-level keys are kind, occurredAt, platform, release, environment, userKey, name, surface, id. ''
               @ ''Everything else about the event goes in `payload`.''))])
      | Inr w \<Rightarrow>
          (case (needs_name (we_kind w), we_name w) of
             (Some detail, None) \<Rightarrow> plain 400 (JObj [(''ok'', JBool False), (''error'', JStr ''invalid_payload''),
                 (''detail'', JStr detail), (''field'', JStr ''name'')])
           | _ \<Rightarrow>
               plain 200 (JObj [(''ok'', JBool True),
                 (''parsed'', JObj [(''kind'', JStr (as_db_str (we_kind w))),
                    (''occurredAt'', (case format (we_occurred_at w) of None \<Rightarrow> JNull | Some t \<Rightarrow> JStr t)),
                    (''platform'', JStr (known_platform (we_platform w))), (''release'', JStr (we_release w)),
                    (''environment'', JStr (we_environment w)),
                    (''hasPayload'', JBool (we_payload w \<noteq> JNull \<and> we_payload w \<noteq> JObj []))]),
                 (''ignored'', JArr (map JStr ignored)),
                 (''nulScrubbed'', JBool (scrub_nuls (we_payload w) \<noteq> we_payload w)),
                 (''platformDegraded'', JBool (we_platform w \<notin> set VALID_PLATFORMS)),
                 (''note'', JStr (if ignored = []
                    then ''parsed only '' @ EM_DASH @ '' no token was checked and nothing was stored''
                    else ''parsed, but the keys in `ignored` were dropped '' @ EM_DASH
                      @ '' they are not top-level fields. Anything about the event itself belongs inside `payload`. ''
                      @ ''Nothing was checked or stored.''))])))"

subsection \<open>NUL bytes\<close>

text \<open>No string of the value, key or text, holds a NUL.\<close>
fun nul_free :: "json \<Rightarrow> bool" where
  "nul_free (JStr s) \<longleftrightarrow> NUL \<notin> set s"
| "nul_free (JArr xs) \<longleftrightarrow> list_all nul_free xs"
| "nul_free (JObj fs) \<longleftrightarrow> list_all (\<lambda>(k, v). NUL \<notin> set k \<and> nul_free v) fs"
| "nul_free v \<longleftrightarrow> True"

lemma replace_nul_clean [simp]: "NUL \<notin> set (replace_nul s)"
  by (auto simp: replace_nul_def NUL_def split: if_splits)

lemma replace_nul_same: "NUL \<notin> set s \<Longrightarrow> replace_nul s = s"
  by (induction s) (auto simp: replace_nul_def)

text \<open>The keys left by the renaming are clean or were neither dirty nor renamed; the values were there.\<close>
lemma rename_key_obj:
  obtains gs where "rename_key k (JObj fs) = JObj gs"
    and "fst ` set gs \<subseteq> (fst ` set fs - {k}) \<union> {replace_nul k}"
    and "snd ` set gs \<subseteq> snd ` set fs \<union> {JNull}"
proof (rule that)
  let ?x = "unwrap_or JNull (jget k (JObj fs))" and ?fs = "filter (\<lambda>(j, _). j \<noteq> k) fs"
  show "rename_key k (JObj fs) = JObj (AList.update (replace_nul k) ?x ?fs)"
    by (simp add: rename_key_def jset_def jdel_def Let_def)
  have x: "?x \<in> snd ` set fs \<union> {JNull}"
    by (cases "map_of fs k") (auto simp: jget_def dest: map_of_SomeD intro: rev_image_eqI)
  have "set (AList.update a y hs) \<subseteq> insert (a, y) (set hs)" for a and y :: json and hs
    by (induction hs) auto
  then have "snd ` set (AList.update a y hs) \<subseteq> insert y (snd ` set hs)" for a and y :: json and hs
    using image_mono [of _ _ snd] by (metis image_insert snd_conv)
  then have "snd ` set (AList.update (replace_nul k) ?x ?fs) \<subseteq> insert ?x (snd ` set ?fs)" .
  moreover have "snd ` set ?fs \<subseteq> snd ` set fs" by (intro image_mono) auto
  moreover have "A \<subseteq> insert z B \<Longrightarrow> B \<subseteq> C \<Longrightarrow> z \<in> C \<union> {JNull} \<Longrightarrow> A \<subseteq> C \<union> {JNull}" for A B C z by blast
  ultimately show "snd ` set (AList.update (replace_nul k) ?x ?fs) \<subseteq> snd ` set fs \<union> {JNull}"
    using x by metis
  have "fst ` set ?fs \<subseteq> fst ` set fs - {k}" by auto
  then show "fst ` set (AList.update (replace_nul k) ?x ?fs) \<subseteq> (fst ` set fs - {k}) \<union> {replace_nul k}"
    unfolding dom_update by blast
qed

lemma rename_keys_obj:
  "\<exists>gs. fold rename_key ks (JObj fs) = JObj gs
     \<and> fst ` set gs \<subseteq> (fst ` set fs - set ks) \<union> {k. NUL \<notin> set k} \<and> snd ` set gs \<subseteq> snd ` set fs \<union> {JNull}"
proof (induction ks arbitrary: fs)
  case Nil
  show ?case by auto
next
  case (Cons k ks)
  obtain gs where g: "rename_key k (JObj fs) = JObj gs"
    "fst ` set gs \<subseteq> (fst ` set fs - {k}) \<union> {replace_nul k}" "snd ` set gs \<subseteq> snd ` set fs \<union> {JNull}"
    by (rule rename_key_obj)
  from Cons.IH [of gs] obtain hs where h: "fold rename_key ks (JObj gs) = JObj hs"
    "fst ` set hs \<subseteq> (fst ` set gs - set ks) \<union> {k. NUL \<notin> set k}" "snd ` set hs \<subseteq> snd ` set gs \<union> {JNull}" by blast
  have "fst ` set hs \<subseteq> (fst ` set fs - set (k # ks)) \<union> {k. NUL \<notin> set k}"
  proof
    fix y assume "y \<in> fst ` set hs"
    then have "y \<in> fst ` set gs - set ks \<or> NUL \<notin> set y" using h(2) by blast
    then show "y \<in> (fst ` set fs - set (k # ks)) \<union> {k. NUL \<notin> set k}"
    proof (cases "y = k")
      case True
      with \<open>y \<in> fst ` set gs - set ks \<or> NUL \<notin> set y\<close> subsetD [OF g(2), of y] show ?thesis
        using replace_nul_clean [of k] by (metis DiffD1 Diff_iff Un_iff insertI1 mem_Collect_eq singletonD)
    next
      case False
      with \<open>y \<in> fst ` set gs - set ks \<or> NUL \<notin> set y\<close> subsetD [OF g(2), of y] show ?thesis
        by (cases "y \<in> fst ` set gs") (auto simp del: image_iff)
    qed
  qed
  moreover have "A \<subseteq> B \<union> {z} \<Longrightarrow> B \<subseteq> C \<union> {z} \<Longrightarrow> A \<subseteq> C \<union> {z}" for A B C :: "json set" and z by blast
  then have "snd ` set hs \<subseteq> snd ` set fs \<union> {JNull}" using h(3) g(3) .
  moreover have "fold rename_key (k # ks) (JObj fs) = JObj hs" using g(1) h(1) by simp
  ultimately show ?case by blast
qed

lemma scrub_nuls_clean: "nul_free (scrub_nuls v)"
proof (induction v rule: scrub_nuls.induct)
  case (3 fs)
  let ?fs = "map (\<lambda>(k, v). (k, scrub_nuls v)) fs"
  obtain gs where g: "fold rename_key (dirty_keys fs) (JObj ?fs) = JObj gs"
    and k: "fst ` set gs \<subseteq> (fst ` set ?fs - set (dirty_keys fs)) \<union> {k. NUL \<notin> set k}"
    and v: "snd ` set gs \<subseteq> snd ` set ?fs \<union> {JNull}"
    using rename_keys_obj by blast
  have keys: "fst ` set ?fs = fst ` set fs" by (simp add: image_image split_beta)
  have "NUL \<notin> set a \<and> nul_free b" if "(a, b) \<in> set gs" for a b
  proof
    have "a \<in> (fst ` set fs - set (dirty_keys fs)) \<union> {k. NUL \<notin> set k}" using k keys imageI [OF that, of fst] by auto
    then show "NUL \<notin> set a" by (auto simp: dirty_keys_def)
    have "b \<in> snd ` set ?fs \<union> {JNull}" using v imageI [OF that, of snd] by auto
    then show "nul_free b" using 3 by (auto simp: image_image split_beta)
  qed
  then show ?case by (auto simp: g list_all_iff)
qed (auto simp: list_all_iff)

lemma scrub_nuls_same: "nul_free v \<Longrightarrow> scrub_nuls v = v"
proof (induction v rule: nul_free.induct)
  case (2 xs)
  then show ?case by (simp add: list_all_iff map_idI)
next
  case (3 fs)
  have "dirty_keys fs = []" using 3(2) by (auto simp: dirty_keys_def list_all_iff filter_empty_conv)
  moreover have "map (\<lambda>(k, v). (k, scrub_nuls v)) fs = fs"
    using 3 by (intro map_idI) (auto simp: list_all_iff)
  ultimately show ?case by simp
qed (simp_all add: replace_nul_same)

lemma scrub_changes_iff: "scrub_nuls v \<noteq> v \<longleftrightarrow> \<not> nul_free v"
  using scrub_nuls_clean [of v] scrub_nuls_same by metis

subsection \<open>What reaches the pipeline\<close>

text \<open>An instant prints without NUL.\<close>
definition prints_clean :: "('c, 'i, 'e, 'x) sdk_env \<Rightarrow> bool" where
  "prints_clean E \<longleftrightarrow> (\<forall>t s. si_rfc3339 E t = Some s \<longrightarrow> NUL \<notin> set s)"

definition ready_event :: "('c, 'i, 'e, 'x) sdk_env \<Rightarrow> wire_event \<Rightarrow> wire_event" where
  "ready_event E w = clamp_clock E (scrub_event (w\<lparr>we_platform := known_platform (we_platform w)\<rparr>))"

lemma prepare_fields:
  "fst (prepare E i project w S) =
     (let w' = ready_event E w in
      \<lparr>ev_id = unwrap_or (si_ids E i) (we_id w), ev_project = project, ev_kind = we_kind w, ev_platform = known_platform (we_platform w),
       ev_occurred_at = we_occurred_at w', ev_release = replace_nul (we_release w), ev_environment = replace_nul (we_environment w),
       ev_name = map_option replace_nul (we_name w), ev_surface = unwrap_or (JObj []) (we_surface w),
       ev_user_key = map_option replace_nul (we_user_key w), ev_payload = fst (symbolicated_payload E project w' (si_cache S))\<rparr>)"
proof -
  have same: "we_id (ready_event E w) = we_id w" "we_kind (ready_event E w) = we_kind w"
    "we_platform (ready_event E w) = known_platform (we_platform w)" "we_release (ready_event E w) = replace_nul (we_release w)"
    "we_environment (ready_event E w) = replace_nul (we_environment w)" "we_name (ready_event E w) = map_option replace_nul (we_name w)"
    "we_surface (ready_event E w) = we_surface w" "we_user_key (ready_event E w) = map_option replace_nul (we_user_key w)"
    by (simp_all add: ready_event_def clamp_clock_def scrub_event_def)
  have "si_cache (if we_platform w \<in> set VALID_PLATFORMS then S else S\<lparr>si_counters := count_unknown (si_counters S)\<rparr>) = si_cache S"
    by simp
  then show ?thesis
    by (simp add: prepare_def ready_event_def [symmetric] Let_def split_beta same)
qed

lemma jset_clean: "nul_free v \<Longrightarrow> NUL \<notin> set k \<Longrightarrow> nul_free x \<Longrightarrow> nul_free (jset k x v)"
proof (cases v)
  case (JObj fs)
  have "set (AList.update k x fs) \<subseteq> insert (k, x) (set fs)" by (induction fs) auto
  moreover assume "nul_free v" "NUL \<notin> set k" "nul_free x"
  ultimately show ?thesis using JObj by (auto simp: jset_def list_all_iff)
qed (simp_all add: jset_def)

lemma ready_payload_clean:
  assumes "prints_clean E"
  shows "nul_free (we_payload (ready_event E w))"
proof -
  have "nul_free (rfc3339 E t)" for t
    using assms by (auto simp: rfc3339_def prints_clean_def split: option.splits)
  then show ?thesis
    by (auto simp: ready_event_def clamp_clock_def scrub_event_def scrub_nuls_clean NUL_def intro!: jset_clean)
qed

text \<open>Whatever an SDK sends, the event that reaches the pipeline can be stored: its release,
  environment, name and user hold no NUL, nor does any key or text of its payload (of an error's
  payload as it is handed to symbolication), its platform is one the schema allows, and it did
  not happen more than an hour after it arrived; and an event that was fine already is passed on
  as it was sent.\<close>
theorem prepared_event_storable:
  assumes "prints_clean E" and ev: "ev = fst (prepare E i project w S)"
  shows "NUL \<notin> set (ev_release ev) \<and> NUL \<notin> set (ev_environment ev)
    \<and> (\<forall>s. ev_name ev = Some s \<longrightarrow> NUL \<notin> set s) \<and> (\<forall>s. ev_user_key ev = Some s \<longrightarrow> NUL \<notin> set s)
    \<and> (\<exists>w'. ev_payload ev = fst (symbolicated_payload E project w' (si_cache S)) \<and> we_kind w' = we_kind w \<and> nul_free (we_payload w'))
    \<and> (ev_kind ev \<noteq> Error \<longrightarrow> nul_free (ev_payload ev))
    \<and> ev_platform ev \<in> set (UNKNOWN_PLATFORM # VALID_PLATFORMS)
    \<and> ev_occurred_at ev \<le> si_now E + HOUR
    \<and> (nul_free (we_payload w) \<and> we_occurred_at w \<le> si_now E + HOUR \<and> we_platform w \<in> set VALID_PLATFORMS
         \<and> ev_kind ev \<noteq> Error \<longrightarrow>
       ev_payload ev = we_payload w \<and> ev_occurred_at ev = we_occurred_at w \<and> ev_platform ev = we_platform w)"
proof -
  let ?w = "ready_event E w"
  note f = prepare_fields [of E i project w S, folded ev]
  have kind: "we_kind ?w = we_kind w" by (simp add: ready_event_def clamp_clock_def scrub_event_def)
  have clean: "nul_free (we_payload ?w)" using assms(1) by (rule ready_payload_clean)
  have at: "we_occurred_at ?w \<le> si_now E + HOUR"
    by (simp add: ready_event_def clamp_clock_def scrub_event_def)
  have plain: "we_kind w \<noteq> Error \<Longrightarrow> ev_payload ev = we_payload ?w"
    by (simp add: f Let_def symbolicated_payload_def kind)
  have fine: "we_payload ?w = we_payload w \<and> we_occurred_at ?w = we_occurred_at w"
    if "nul_free (we_payload w)" "we_occurred_at w \<le> si_now E + HOUR"
    using that by (simp add: ready_event_def clamp_clock_def scrub_event_def scrub_nuls_same)
  show ?thesis
    using clean at plain fine kind
    by (auto simp: f Let_def known_platform_def intro!: exI [of _ ?w])
qed

text \<open>The surface of an event is not scrubbed.\<close>
lemma surface_keeps_nul: "we_surface w = Some s \<Longrightarrow> ev_surface (fst (prepare E i project w S)) = s"
  by (simp add: prepare_fields Let_def)

subsection \<open>The validator tells the truth\<close>

lemma group_identity_names:
  "(\<exists>g. group_identity ev = Inr g) \<longleftrightarrow> needs_name (ev_kind ev) = None \<or> ev_name ev \<noteq> None"
  "group_identity ev = Inl e \<longleftrightarrow> (\<exists>d. e = Invalid d \<and> needs_name (ev_kind ev) = Some d \<and> ev_name ev = None)"
  by (cases "ev_kind ev"; cases "ev_name ev"; auto simp: group_identity_def Let_def)+


subsection \<open>A batch accounts for every event\<close>

fun is_refused :: "verdict \<Rightarrow> bool" where
  "is_refused (Refused _) \<longleftrightarrow> True" | "is_refused (Unacceptable _) \<longleftrightarrow> True" | "is_refused _ \<longleftrightarrow> False"

lemma prepare_frame:
  "snd (prepare E i project w S) =
     S\<lparr>si_counters := (if we_platform w \<in> set VALID_PLATFORMS then si_counters S else count_unknown (si_counters S)),
       si_cache := snd (symbolicated_payload E project (ready_event E w) (si_cache S))\<rparr>"
proof -
  have "si_cache (if we_platform w \<in> set VALID_PLATFORMS then S else S\<lparr>si_counters := count_unknown (si_counters S)\<rparr>) = si_cache S"
    by simp
  then show ?thesis by (simp add: prepare_def Let_def split_beta ready_event_def)
qed

lemma move_frame:
  assumes "move_attachments E i ctx event target S = (r, S')"
  shows "si_counters S' = si_counters S" and "si_bus S' = si_bus S" and "si_sessions S' = si_sessions S"
    and "issues (si_db S') = issues (si_db S)" and "events (si_db S') = events (si_db S)"
    and "user_hits (si_db S') = user_hits (si_db S)"
  using assms by (auto simp: move_attachments_def split_beta Let_def)

text \<open>What the counters are to show of an outcome.\<close>
fun book :: "verdict \<Rightarrow> counters \<Rightarrow> counters" where
  "book Retired c = c"
| "book (Stored _) c = count_accepted c"
| "book (Refused _) c = count_rejected c"
| "book (Unacceptable _) c = count_rejected c"
| "book (Faulted b) c = (if b then count_failed c else c)"

lemma book_counts [simp]:
  "ct_accepted (book v c) = ct_accepted c + of_bool (is_stored v)"
  "ct_rejected (book v c) = ct_rejected c + of_bool (is_refused v)"
  "ct_failed (book v c) = ct_failed c + of_bool (v = Faulted True)"
  "ct_rate_limited (book v c) = ct_rate_limited c" "ct_client_dropped (book v c) = ct_client_dropped c"
  by (cases v; simp add: count_accepted_def count_rejected_def count_failed_def)+

lemma count_unknown_frame [simp]:
  "ct_accepted (count_unknown c) = ct_accepted c" "ct_rejected (count_unknown c) = ct_rejected c"
  "ct_failed (count_unknown c) = ct_failed c" "ct_rate_limited (count_unknown c) = ct_rate_limited c"
  "ct_client_dropped (count_unknown c) = ct_client_dropped c"
  by (simp_all add: count_unknown_def)

text \<open>An event that was not retired, step by step.\<close>
lemma deliver_cases:
  assumes "deliver E i ctx w S = (v, S')"
  obtains (retired) "v = Retired" and "S' = S"
  | (stored) ev S1 db out S2 where "prepare E i (policy_project (si_policy E) ctx (we_release w) (we_payload w)) w S = (ev, S1)"
      and "ingest ((si_ingest E i)\<lparr>cloud := si_cloud E\<rparr>) ev (si_db S1) = (Inr out, db)"
      and "move_attachments E i ctx (out_event out) (policy_project (si_policy E) ctx (we_release w) (we_payload w)) (S1\<lparr>si_db := db\<rparr>) = (Some (), S2)"
      and "v = Stored out" and "S' = S2\<lparr>si_counters := count_accepted (si_counters S2), si_bus := si_bus S2 @ [tick_of ev (out_issue out)]\<rparr>"
  | (stuck) ev S1 db out where "prepare E i (policy_project (si_policy E) ctx (we_release w) (we_payload w)) w S = (ev, S1)"
      and "ingest ((si_ingest E i)\<lparr>cloud := si_cloud E\<rparr>) ev (si_db S1) = (Inr out, db)"
      and "move_attachments E i ctx (out_event out) (policy_project (si_policy E) ctx (we_release w) (we_payload w)) (S1\<lparr>si_db := db\<rparr>) = (None, S')"
      and "v = Faulted False"
  | (refused) ev S1 db e where "prepare E i (policy_project (si_policy E) ctx (we_release w) (we_payload w)) w S = (ev, S1)"
      and "ingest ((si_ingest E i)\<lparr>cloud := si_cloud E\<rparr>) ev (si_db S1) = (Inl e, db)"
      and "v = (case e of Quota q \<Rightarrow> Refused q | Invalid m \<Rightarrow> Unacceptable m | Db _ \<Rightarrow> Faulted True)"
      and "S' = S1\<lparr>si_db := db, si_counters := book v (si_counters S1)\<rparr>"
proof (cases "filtered (si_policy E) (policy_project (si_policy E) ctx (we_release w) (we_payload w)) (we_kind w) (we_name w)")
  case True
  with assms have "v = Retired" and "S' = S" by (simp_all add: deliver_def)
  then show thesis by (rule retired)
next
  case False
  let ?p = "policy_project (si_policy E) ctx (we_release w) (we_payload w)"
  obtain ev S1 where p: "prepare E i ?p w S = (ev, S1)" by fastforce
  obtain res db where ing: "ingest ((si_ingest E i)\<lparr>cloud := si_cloud E\<rparr>) ev (si_db S1) = (res, db)" by fastforce
  have d: "deliver E i ctx w S = (case res of
             Inr out \<Rightarrow>
               (case move_attachments E i ctx (out_event out) ?p (S1\<lparr>si_db := db\<rparr>) of
                  (None, S) \<Rightarrow> (Faulted False, S)
                | (Some _, S) \<Rightarrow> (Stored out, S\<lparr>si_counters := count_accepted (si_counters S),
                    si_bus := si_bus S @ [tick_of ev (out_issue out)]\<rparr>))
           | Inl (Quota e) \<Rightarrow> (Refused e, S1\<lparr>si_db := db, si_counters := count_rejected (si_counters S1)\<rparr>)
           | Inl (Invalid msg) \<Rightarrow> (Unacceptable msg, S1\<lparr>si_db := db, si_counters := count_rejected (si_counters S1)\<rparr>)
           | Inl (Db _) \<Rightarrow> (Faulted True, S1\<lparr>si_db := db, si_counters := count_failed (si_counters S1)\<rparr>))"
    using False by (simp add: deliver_def p ing Let_def cong: sum.case_cong ingest_error.case_cong)
  show thesis
  proof (cases res)
    case (Inr out)
    obtain r S2 where m: "move_attachments E i ctx (out_event out) ?p (S1\<lparr>si_db := db\<rparr>) = (r, S2)" by fastforce
    show thesis
    proof (cases r)
      case None
      with d m Inr assms have "v = Faulted False" and "S2 = S'" by simp_all
      with p ing m show thesis unfolding Inr None by (intro stuck) simp_all
    next
      case (Some u)
      with d m Inr assms have "v = Stored out"
        and "S' = S2\<lparr>si_counters := count_accepted (si_counters S2), si_bus := si_bus S2 @ [tick_of ev (out_issue out)]\<rparr>"
        by simp_all
      then show thesis using p ing [unfolded Inr] m [unfolded Some] by (intro stored) simp_all
    qed
  next
    case (Inl e)
    have "v = (case e of Quota q \<Rightarrow> Refused q | Invalid m \<Rightarrow> Unacceptable m | Db _ \<Rightarrow> Faulted True)"
      and "S' = S1\<lparr>si_db := db, si_counters := book v (si_counters S1)\<rparr>"
      using d Inl assms by (cases e; simp)+
    then show thesis by (rule refused [OF p ing [unfolded Inl]])
  qed
qed

text \<open>At most one counter of outcomes moves, by one, and the bus hears of the event if it was stored.\<close>
lemma deliver_book:
  assumes "deliver E i ctx w S = (v, S')"
  shows "(\<exists>c. (c = si_counters S \<or> c = count_unknown (si_counters S)) \<and> si_counters S' = book v c)
    \<and> length (si_bus S') = length (si_bus S) + of_bool (is_stored v)"
  using assms
proof (cases rule: deliver_cases)
  case retired
  then show ?thesis by auto
next
  case (stored ev S1 db out S2)
  with prepare_frame [of E i "policy_project (si_policy E) ctx (we_release w) (we_payload w)" w S] move_frame(1,2) [OF stored(3)]
  show ?thesis by auto
next
  case (stuck ev S1 db out)
  with prepare_frame [of E i "policy_project (si_policy E) ctx (we_release w) (we_payload w)" w S] move_frame(1,2) [OF stuck(3)]
  show ?thesis by auto
next
  case (refused ev S1 db e)
  with prepare_frame [of E i "policy_project (si_policy E) ctx (we_release w) (we_payload w)" w S]
  show ?thesis by (cases e) auto
qed

lemma deliver_all_counts:
  assumes "deliver_all E ctx i ws S = (vs, S')"
  shows "length vs = length ws
    \<and> ct_accepted (si_counters S') = ct_accepted (si_counters S) + of_nat (length (filter is_stored vs))
    \<and> ct_rejected (si_counters S') = ct_rejected (si_counters S) + of_nat (length (filter is_refused vs))
    \<and> ct_failed (si_counters S') = ct_failed (si_counters S) + of_nat (count_list vs (Faulted True))
    \<and> ct_rate_limited (si_counters S') = ct_rate_limited (si_counters S)
    \<and> ct_client_dropped (si_counters S') = ct_client_dropped (si_counters S)
    \<and> length (si_bus S') = length (si_bus S) + length (filter is_stored vs)"
  using assms
proof (induction ws arbitrary: i S vs S')
  case (Cons w ws)
  obtain v S1 where d: "deliver E i ctx w S = (v, S1)" by fastforce
  obtain us S2 where r: "deliver_all E ctx (Suc i) ws S1 = (us, S2)" by fastforce
  from Cons.prems d r have vs: "vs = v # us" "S' = S2" by simp_all
  obtain c where c: "c = si_counters S \<or> c = count_unknown (si_counters S)" and b: "si_counters S1 = book v c"
    and l: "length (si_bus S1) = length (si_bus S) + of_bool (is_stored v)"
    using deliver_book [OF d] by blast
  from c have "ct_accepted c = ct_accepted (si_counters S)" "ct_rejected c = ct_rejected (si_counters S)"
    "ct_failed c = ct_failed (si_counters S)" "ct_rate_limited c = ct_rate_limited (si_counters S)"
    "ct_client_dropped c = ct_client_dropped (si_counters S)" by auto
  with Cons.IH [OF r] b l vs show ?case by simp
qed simp

lemma store_sessions_counts:
  assumes "S' = store_sessions E ctx ss S"
  shows "si_bus S' = si_bus S \<and> issues (si_db S') = issues (si_db S) \<and> events (si_db S') = events (si_db S)
    \<and> user_hits (si_db S') = user_hits (si_db S) \<and> si_attachments S' = si_attachments S
    \<and> ct_rejected (si_counters S') = ct_rejected (si_counters S) + of_nat (length (filter (\<lambda>s. si_parse_session E s = None) ss))
    \<and> ct_accepted (si_counters S') = ct_accepted (si_counters S) \<and> ct_failed (si_counters S') = ct_failed (si_counters S)
    \<and> ct_client_dropped (si_counters S') = ct_client_dropped (si_counters S)"
proof -
  have step: "si_bus T = si_bus S \<and> issues (si_db T) = issues (si_db S) \<and> events (si_db T) = events (si_db S)
      \<and> user_hits (si_db T) = user_hits (si_db S) \<and> si_attachments T = si_attachments S
      \<and> si_counters T = (if si_parse_session E raw = None then count_rejected (si_counters S) else si_counters S)"
    if "T = store_session E ctx (i, raw) S" for T i raw S
    using that by (auto simp: store_session_def Let_def split_beta split: option.splits)
  have "si_bus T = si_bus S \<and> issues (si_db T) = issues (si_db S) \<and> events (si_db T) = events (si_db S)
    \<and> user_hits (si_db T) = user_hits (si_db S) \<and> si_attachments T = si_attachments S
    \<and> ct_rejected (si_counters T) = ct_rejected (si_counters S) + of_nat (length (filter (\<lambda>s. si_parse_session E s = None) (map snd rs)))
    \<and> ct_accepted (si_counters T) = ct_accepted (si_counters S) \<and> ct_failed (si_counters T) = ct_failed (si_counters S)
    \<and> ct_client_dropped (si_counters T) = ct_client_dropped (si_counters S)"
    if "T = fold (store_session E ctx) rs S" for T rs S
    using that
  proof (induction rs arbitrary: S)
    case (Cons r rs)
    let ?S = "store_session E ctx r S"
    from Cons.prems have "T = fold (store_session E ctx) rs ?S" by simp
    from Cons.IH [OF this] step [of ?S "fst r" "snd r" S] show ?case
      by (cases r) (simp add: count_rejected_def split: if_splits)
  qed simp
  from this [of S' "enumerate 0 ss" S] show ?thesis using assms by (simp add: store_sessions_def)
qed

lemma metadata_frame:
  "si_bus (record_batch_metadata E ctx en S) = si_bus S" "si_db (record_batch_metadata E ctx en S) = si_db S"
  "si_counters (record_batch_metadata E ctx en S) = si_counters S"
  "si_attachments (record_batch_metadata E ctx en S) = si_attachments S"
  by (simp_all add: record_batch_metadata_def Let_def split: option.splits list.splits)

lemma quota_reply_status: "hr_status (quota_reply e) \<noteq> 200"
  by (cases e) (simp_all add: quota_reply_def reply_def)

text \<open>A batch that was answered, step by step.\<close>
lemma handle_batch_cases:
  assumes "handle_batch E ctx en S = (rep, S')" and "hr_status rep = 200"
  obtains q S1 S2 vs where "payload_charge (si_cloud E) (si_times E) (si_bytes E) (quota (si_db S)) = Inr q"
    and "S1 = absorb_telemetry E ctx en (S\<lparr>si_db := (si_db S)\<lparr>quota := q\<rparr>\<rparr>)" and "length (en_events en) \<le> MAX_BATCH"
    and "S2 = record_batch_metadata E ctx en S1" and "deliver_all E ctx 0 (en_events en) S2 = (vs, S')"
    and "rep = batch_reply E vs"
proof (cases "payload_charge (si_cloud E) (si_times E) (si_bytes E) (quota (si_db S))")
  case (Inl e)
  with assms quota_reply_status [of e] show thesis by (auto simp: handle_batch_def charged_def)
next
  case (Inr q)
  let ?S1 = "absorb_telemetry E ctx en (S\<lparr>si_db := (si_db S)\<lparr>quota := q\<rparr>\<rparr>)"
  let ?S2 = "record_batch_metadata E ctx en ?S1"
  obtain vs S3 where d: "deliver_all E ctx 0 (en_events en) ?S2 = (vs, S3)" by fastforce
  have small: "length (en_events en) \<le> MAX_BATCH"
    using assms Inr by (auto simp: handle_batch_def charged_def Let_def plain_def split: if_splits)
  then have "(rep, S') = (batch_reply E vs, S3)"
    using assms(1) Inr d by (simp add: handle_batch_def charged_def Let_def)
  then show thesis using that [OF Inr refl small refl] d by simp
qed


subsection \<open>A batch keeps the pipeline's invariant\<close>

lemma counts_parts:
  "issues db' = issues db \<Longrightarrow> events db' = events db \<Longrightarrow> user_hits db' = user_hits db \<Longrightarrow>
     counts_ok db' = counts_ok db \<and> unused j db' = unused j db"
  by (simp add: counts_ok_def unused_def tallies_def event_keys_def)

text \<open>
  The other transactions keep the same invariant and do not use the ids the batch draws, which
  are all different.
\<close>
definition batch_calm :: "('c, 'i, 'e, 'x) sdk_env \<Rightarrow> nat \<Rightarrow> bool" where
  "batch_calm E n \<longleftrightarrow>
     inj_on (\<lambda>i. new_issue (si_ingest E i)) {..<n}
     \<and> (\<forall>i < n. \<forall>k d. (counts_ok d \<longrightarrow> counts_ok (race (si_ingest E i) k d))
          \<and> (\<forall>j < n. unused (new_issue (si_ingest E j)) d \<longrightarrow> unused (new_issue (si_ingest E j)) (race (si_ingest E i) k d)))"

definition batch_ready :: "('c, 'i, 'e, 'x) sdk_env \<Rightarrow> nat \<Rightarrow> nat \<Rightarrow> 'x db \<Rightarrow> bool" where
  "batch_ready E i n db \<longleftrightarrow> counts_ok db \<and> (\<forall>j. i \<le> j \<and> j < n \<longrightarrow> unused (new_issue (si_ingest E j)) db)"

lemma batch_ready_parts:
  assumes "issues db' = issues db" "events db' = events db" "user_hits db' = user_hits db"
  shows "batch_ready E i n db' = batch_ready E i n db"
  using counts_parts [OF assms] by (simp add: batch_ready_def)

lemma ingest_ready:
  assumes calm: "batch_calm E n" and ready: "batch_ready E i n db" and i: "i < n"
    and run: "ingest ((si_ingest E i)\<lparr>cloud := c\<rparr>) ev db = (res, db')"
  shows "batch_ready E (Suc i) n db'"
proof -
  let ?env = "(si_ingest E i)\<lparr>cloud := c\<rparr>"
  have race: "counts_ok d \<Longrightarrow> counts_ok (race ?env k d)"
    "j < n \<Longrightarrow> unused (new_issue (si_ingest E j)) d \<Longrightarrow> unused (new_issue (si_ingest E j)) (race ?env k d)" for j k d
    using calm i by (simp_all add: batch_calm_def)
  have "sound_state ?env db" using ready i by (simp add: sound_state_def batch_ready_def)
  moreover have "\<forall>k d. sound_state ?env d \<longrightarrow> sound_state ?env (race ?env k d)"
    using race i by (simp add: sound_state_def)
  ultimately have "counts_ok db'" using run by (rule ingest_counts)
  moreover have "unused (new_issue (si_ingest E j)) db'" if "Suc i \<le> j" "j < n" for j
  proof (rule ingest_unused [OF _ _ _ run])
    show "unused (new_issue (si_ingest E j)) db" using ready that by (simp add: batch_ready_def)
    show "new_issue (si_ingest E j) \<noteq> new_issue ?env"
      using calm i that by (auto simp: batch_calm_def dest: inj_onD)
    show "unused (new_issue (si_ingest E j)) (race ?env k d)" if "unused (new_issue (si_ingest E j)) d" for k d
      using race(2) \<open>j < n\<close> that by blast
  qed
  ultimately show ?thesis by (simp add: batch_ready_def)
qed

lemma batch_ready_Suc: "batch_ready E i n db \<Longrightarrow> batch_ready E (Suc i) n db"
  by (simp add: batch_ready_def)

lemma deliver_ready:
  assumes "batch_calm E n" and "batch_ready E i n (si_db S)" and "i < n" and "deliver E i ctx w S = (v, S')"
  shows "batch_ready E (Suc i) n (si_db S')"
  using assms(4)
proof (cases rule: deliver_cases)
  case retired
  with assms(2) show ?thesis by (simp add: batch_ready_Suc)
next
  case (stored ev S1 db out S2)
  with prepare_frame [of E i "policy_project (si_policy E) ctx (we_release w) (we_payload w)" w S]
  have "ingest ((si_ingest E i)\<lparr>cloud := si_cloud E\<rparr>) ev (si_db S) = (Inr out, db)" by simp
  from ingest_ready [OF assms(1,2,3) this] move_frame(4-6) [OF stored(3)] stored(5) show ?thesis
    by (simp add: batch_ready_parts [of "si_db S2" db])
next
  case (stuck ev S1 db out)
  with prepare_frame [of E i "policy_project (si_policy E) ctx (we_release w) (we_payload w)" w S]
  have "ingest ((si_ingest E i)\<lparr>cloud := si_cloud E\<rparr>) ev (si_db S) = (Inr out, db)" by simp
  from ingest_ready [OF assms(1,2,3) this] move_frame(4-6) [OF stuck(3)] show ?thesis
    by (simp add: batch_ready_parts [of "si_db S'" db])
next
  case (refused ev S1 db e)
  with prepare_frame [of E i "policy_project (si_policy E) ctx (we_release w) (we_payload w)" w S]
  have "ingest ((si_ingest E i)\<lparr>cloud := si_cloud E\<rparr>) ev (si_db S) = (Inl e, db)" by simp
  from ingest_ready [OF assms(1,2,3) this] refused(4) show ?thesis by simp
qed

lemma deliver_all_ready:
  assumes "batch_calm E n" and "batch_ready E i n (si_db S)" and "i + length ws = n"
    and "deliver_all E ctx i ws S = (vs, S')"
  shows "batch_ready E n n (si_db S')"
  using assms(2-)
proof (induction ws arbitrary: i S vs S')
  case (Cons w ws)
  obtain v S1 where d: "deliver E i ctx w S = (v, S1)" by fastforce
  obtain us S2 where r: "deliver_all E ctx (Suc i) ws S1 = (us, S2)" by fastforce
  from Cons.prems d r have "S' = S2" by simp
  with Cons.IH [OF deliver_ready [OF assms(1) Cons.prems(1) _ d] _ r] Cons.prems(2) show ?case by simp
qed simp

text \<open>The counters of the issues survive whole batches: however a batch mixes kinds, duplicates,
  retired traces, refused events and failures, sessions and metadata, afterwards every issue's
  event count, breadth and depth are still those of its stored events; provided the other
  transactions keep the same and the ids the batch draws for new issues are fresh.\<close>
theorem batch_keeps_counters:
  assumes "batch_calm E (length (en_events en))" and "batch_ready E 0 (length (en_events en)) (si_db S)"
    and "handle_batch E ctx en S = (rep, S')" and "hr_status rep = 200"
  shows "counts_ok (si_db S')"
proof -
  from assms(3,4) obtain q S1 S2 vs where S1: "S1 = absorb_telemetry E ctx en (S\<lparr>si_db := (si_db S)\<lparr>quota := q\<rparr>\<rparr>)"
    and S2: "S2 = record_batch_metadata E ctx en S1" and d: "deliver_all E ctx 0 (en_events en) S2 = (vs, S')"
    by (rule handle_batch_cases)
  have "issues (si_db S2) = issues (si_db S) \<and> events (si_db S2) = events (si_db S) \<and> user_hits (si_db S2) = user_hits (si_db S)"
    using store_sessions_counts [OF S1 [unfolded absorb_telemetry_def]] by (simp add: S2 metadata_frame split: option.splits)
  then have "batch_ready E 0 (length (en_events en)) (si_db S2)"
    using assms(2) batch_ready_parts [of "si_db S2" "si_db S"] by blast
  from deliver_all_ready [OF assms(1) this _ d] show ?thesis by (simp add: batch_ready_def)
qed

subsection \<open>Events and attachments stay where the policy permits\<close>

text \<open>C33. No request chooses its own destination: an accepted event is stored under the token's own
  project or under one that the operator's policy names for that very token, and the attachments
  of other events and of other projects stay where they are; the event's own only ever move from
  the token's project to a permitted one.\<close>
theorem routed_where_permitted:
  assumes "deliver E i ctx w S = (Stored out, S')"
  shows "(\<exists>e. map_of (events (si_db S')) (out_event out) = Some e \<and> permits (si_policy E) ctx (er_project e))
    \<and> length (si_attachments S') = length (si_attachments S)
    \<and> (\<forall>k < length (si_attachments S). case (si_attachments S ! k, si_attachments S' ! k) of ((r, e, p), (r', e', p')) \<Rightarrow>
         r' = r \<and> e' = e \<and> (p' = p \<or> e = out_event out \<and> p = ic_project ctx \<and> permits (si_policy E) ctx p'))"
  using assms
proof (cases rule: deliver_cases)
  case (stored ev S1 db o2 S2)
  let ?p = "policy_project (si_policy E) ctx (we_release w) (we_payload w)"
  from stored(1) have "ev_project ev = ?p" using prepare_fields [of E i ?p w S] by (simp add: Let_def)
  with ingest_stored [OF stored(2)] obtain e where e: "map_of (events db) (out_event o2) = Some e" "er_project e = ?p" by auto
  have S2: "events (si_db S2) = events db" "o2 = out" using move_frame(5) [OF stored(3)] stored(4) by simp_all
  have "si_attachments S1 = si_attachments S" using prepare_frame [of E i ?p w S] stored(1) by simp
  moreover have "si_attachments S2 = (if ?p = ic_project ctx then si_attachments S1
      else map (\<lambda>(ref, e, q). (ref, e, if e = out_event out \<and> q = ic_project ctx
        then attachment_project (si_policy E) ctx (out_event out) (events db) else q)) (si_attachments S1))"
    using stored(3) S2(2) by (auto simp: move_attachments_def reconcile_attachments_def Let_def split_beta split: if_splits)
  ultimately show ?thesis
    using e S2 policy_project_permitted [of "si_policy E" ctx "we_release w" "we_payload w"] stored(5)
      attachment_project_permitted [of "si_policy E" ctx "out_event out" "events db"]
    by (auto split: prod.splits if_splits)
next
  case (refused ev S1 db e)
  then show ?thesis by (cases e) simp_all
qed simp_all

subsection \<open>Instances for the witnesses\<close>

definition toy_sdk_env :: "(nat \<times> (string \<times> parsed_map) option, unit, unit, unit) sdk_env" where
  "toy_sdk_env = \<lparr>si_cloud = False, si_times = sample_times, si_bytes = 10, si_now = secs 10, si_ids = (\<lambda>i. 50 + i),
     si_ingest = (\<lambda>i. sample_env\<lparr>new_issue := 100 + i\<rparr>), si_native = toy_native_env,
     si_policy = \<lparr>po_routes = [\<lparr>rt_token = 9, rt_source = 4, rt_target = 7, rt_identifiers = [], rt_namespaces = [''app'']\<rparr>],
       po_filters = []\<rparr>,
     si_moves_fail = (\<lambda>_. False), si_session_fails = (\<lambda>_. False), si_meta_fails = (\<lambda>_. False),
     si_parse_session = (\<lambda>_. None), si_observe_session = (\<lambda>_ _ _ _ x. (9, x)), si_rfc3339 = (\<lambda>_. None)\<rparr>"

definition toy_sdk_state :: "(nat \<times> (string \<times> parsed_map) option, unit) sdk_state" where
  "toy_sdk_state = \<lparr>si_db = empty_db, si_attachments = [(1, 3, 4), (2, 8, 4)], si_sessions = [], si_asserts = [], si_health = [],
     si_counters = no_counts, si_cache = new_cache toy_lru, si_bus = []\<rparr>"

definition toy_wire :: wire_event where
  "toy_wire = \<lparr>we_id = Some 3, we_kind = Trace, we_occurred_at = 5, we_platform = ''playdate'', we_release = ''app@1'',
     we_environment = ''test'', we_name = Some ''boot'', we_surface = None, we_user_key = None, we_payload = JNull\<rparr>"

definition toy_ctx :: ingest_context where "toy_ctx = \<lparr>ic_token = 9, ic_project = 4, ic_scope = Ingest\<rparr>"

definition toy_envelope :: envelope where
  "toy_envelope = \<lparr>en_events = [toy_wire, toy_wire], en_stats = [], en_health = None, en_dropped = Some 2, en_sessions = [JNull]\<rparr>"

lemma toy_namespace: "release_namespace ''app@1'' = ''app''"
  by code_simp

lemma toy_routed: "policy_project (si_policy toy_sdk_env) toy_ctx (we_release toy_wire) (we_payload toy_wire) = 7"
  by (simp add: policy_project_def toy_sdk_env_def toy_ctx_def toy_wire_def of_credential_def selects_def toy_namespace
      app_identity_def jget_def map_filter_simps)

lemma toy_prints_clean: "prints_clean toy_sdk_env"
  by (simp add: prints_clean_def toy_sdk_env_def)

theorem prepared_event_storable_witness:
  "ev_platform (fst (prepare toy_sdk_env 0 7 toy_wire toy_sdk_state)) \<in> set (UNKNOWN_PLATFORM # VALID_PLATFORMS)
   \<and> nul_free (ev_payload (fst (prepare toy_sdk_env 0 7 toy_wire toy_sdk_state)))"
proof -
  have "ev_kind (fst (prepare toy_sdk_env 0 7 toy_wire toy_sdk_state)) \<noteq> Error"
    by (simp add: prepare_fields Let_def toy_wire_def)
  with prepared_event_storable [OF toy_prints_clean refl, of 0 7 toy_wire toy_sdk_state] show ?thesis by blast
qed


lemma toy_batch_answered:
  obtains rep S' where "handle_batch toy_sdk_env toy_ctx toy_envelope toy_sdk_state = (rep, S')" and "hr_status rep = 200"
proof -
  obtain rep S' where h: "handle_batch toy_sdk_env toy_ctx toy_envelope toy_sdk_state = (rep, S')" by fastforce
  then have "\<exists>vs. rep = batch_reply toy_sdk_env vs"
    by (auto simp: handle_batch_def charged_def payload_charge_def toy_envelope_def MAX_BATCH_def Let_def split: prod.splits sum.splits if_splits)
      (simp_all add: toy_sdk_env_def)
  then have "hr_status rep = 200" by (auto simp: batch_reply_def)
  with h show thesis by (rule that)
qed


theorem batch_keeps_counters_witness:
  "\<exists>rep S'. handle_batch toy_sdk_env toy_ctx toy_envelope toy_sdk_state = (rep, S') \<and> counts_ok (si_db S')"
proof -
  obtain rep S' where h: "handle_batch toy_sdk_env toy_ctx toy_envelope toy_sdk_state = (rep, S')" "hr_status rep = 200"
    by (rule toy_batch_answered)
  have "batch_calm toy_sdk_env (length (en_events toy_envelope))"
    by (simp add: batch_calm_def toy_sdk_env_def sample_env_def inj_on_def)
  moreover have "batch_ready toy_sdk_env 0 (length (en_events toy_envelope)) (si_db toy_sdk_state)"
    by (simp add: batch_ready_def counts_ok_def unused_def tallies_def event_keys_def hits_of_def empty_db_def toy_sdk_state_def)
  ultimately show ?thesis using batch_keeps_counters [OF _ _ h] h(1) by blast
qed

lemma toy_delivered:
  obtains out S' where "deliver toy_sdk_env 0 toy_ctx toy_wire toy_sdk_state = (Stored out, S')"
proof -
  let ?p = "policy_project (si_policy toy_sdk_env) toy_ctx (we_release toy_wire) (we_payload toy_wire)"
  obtain ev S1 where p: "prepare toy_sdk_env 0 ?p toy_wire toy_sdk_state = (ev, S1)" by fastforce
  have db: "si_db S1 = empty_db" "si_attachments S1 = si_attachments toy_sdk_state"
    using prepare_frame [of toy_sdk_env 0 ?p toy_wire toy_sdk_state] p by (simp_all add: toy_sdk_state_def)
  have ev: "ev_kind ev = Trace" "ev_name ev = Some ''boot''" "ev_user_key ev = None" "ev_id ev = 3"
    using prepare_fields [of toy_sdk_env 0 ?p toy_wire toy_sdk_state] p
    by (simp_all add: Let_def toy_wire_def replace_nul_def NUL_def)
  have "map_sum id (\<lambda>_. ()) (fst (ingest ((si_ingest toy_sdk_env 0)\<lparr>cloud := si_cloud toy_sdk_env\<rparr>) ev (si_db S1))) = Inr ()"
    by (simp add: ingest_def group_identity_def ev db Let_def others_only_def find_issue_def empty_db_def sample_env_def
        ingest_tx_def attach_issue_def record_hit_def update_issue_def finish_event_def notify_def issue_event_def
        fresh_issue_def enqueue_def db_result_def set_app_def event_row_of_def toy_sdk_env_def)
  then obtain out db where i: "ingest ((si_ingest toy_sdk_env 0)\<lparr>cloud := si_cloud toy_sdk_env\<rparr>) ev (si_db S1) = (Inr out, db)"
    by (cases "ingest ((si_ingest toy_sdk_env 0)\<lparr>cloud := si_cloud toy_sdk_env\<rparr>) ev (si_db S1)";
        cases "fst (ingest ((si_ingest toy_sdk_env 0)\<lparr>cloud := si_cloud toy_sdk_env\<rparr>) ev (si_db S1))") auto
  obtain S2 where m: "move_attachments toy_sdk_env 0 toy_ctx (out_event out) ?p (S1\<lparr>si_db := db\<rparr>) = (Some (), S2)"
    by (auto simp: move_attachments_def reconcile_attachments_def Let_def split_beta toy_sdk_env_def)
  obtain v S' where d: "deliver toy_sdk_env 0 toy_ctx toy_wire toy_sdk_state = (v, S')" by fastforce
  then show thesis
  proof (cases rule: deliver_cases)
    case retired
    have "\<not> filtered (si_policy toy_sdk_env) ?p (we_kind toy_wire) (we_name toy_wire)"
      by (simp add: filtered_def toy_sdk_env_def toy_wire_def)
    with retired d show thesis by (auto simp: deliver_def Let_def split: prod.splits sum.splits ingest_error.splits option.splits)
  next
    case (stored ev S1 db out S2)
    with d show thesis using that by blast
  next
    case (stuck ev' S1' db' out')
    with p i m show thesis by simp
  next
    case (refused ev' S1' db' e)
    with p i show thesis by simp
  qed
qed

theorem routed_where_permitted_witness:
  "\<exists>out S'. deliver toy_sdk_env 0 toy_ctx toy_wire toy_sdk_state = (Stored out, S')
     \<and> (\<exists>e. map_of (events (si_db S')) (out_event out) = Some e \<and> permits (si_policy toy_sdk_env) toy_ctx (er_project e))"
proof -
  obtain out S' where d: "deliver toy_sdk_env 0 toy_ctx toy_wire toy_sdk_state = (Stored out, S')" by (rule toy_delivered)
  from routed_where_permitted [OF d] d show ?thesis by blast
qed

end
