(* ===== verification/Tasks.thy ===== *)
theory Tasks
  imports Pipeline IngestToken
begin

text \<open>
  Work items: the typed, versioned commands of \<^verbatim>\<open>self-hosted/server/src/handlers/tasks.rs\<close> and the
  dispatcher of \<^verbatim>\<open>team.rs\<close> that turns committed task events into inbox items.  A command runs in
  one transaction under the project's lock: the receipt of an earlier run answers it, otherwise
  the task, its history, the notification, the audit record and the receipt are written together
  or not at all.  The tables of the pipeline (\<open>dk_core\<close>) are shared with ingestion, which reopens
  the tasks of a regressed issue.  The date parsers, the printing of a timestamp and
  \<open>serde_json::to_vec\<close> are parameters; \<open>ae_fails\<close> and \<open>ae_late_fails\<close> say that the database refuses
  the request's reads, or its writes.
\<close>

subsection \<open>Tables\<close>

record inbox_item =
  ib_id :: uuid
  ib_user :: uuid
  ib_project :: uuid
  ib_task :: uuid
  ib_source :: uuid
  ib_category :: string
  ib_title :: string
  ib_body :: string
  ib_created :: instant
  ib_read :: "instant option"
  ib_archived :: "instant option"

record preferences =
  pf_assignments :: bool
  pf_mentions :: bool
  pf_task_updates :: bool
  pf_monitors :: bool

record integration =
  ti_repository :: string
  ti_environment :: string
  ti_secret :: bytes
  ti_enabled :: bool
  ti_version :: int

record delivery_row =
  dl_id :: uuid
  dl_project :: uuid
  dl_task :: uuid
  dl_delivery :: string
  dl_config :: int
  dl_commit :: string
  dl_kind :: string
  dl_occurred :: instant
  dl_digest :: string
  dl_payload :: json
  dl_outcome :: string

record 'x desk =
  dk_core :: "'x db"
  dk_accounts :: accounts
  dk_receipts :: "((uuid \<times> uuid \<times> uuid) \<times> string \<times> json) list"   \<comment> \<open>project, actor, command\<close>
  dk_integrations :: "(uuid \<times> integration) list"
  dk_deliveries :: "delivery_row list"
  dk_delivered :: "uuid list"                          \<comment> \<open>acknowledged outbox events, by task event\<close>
  dk_inbox :: "inbox_item list"
  dk_prefs :: "(uuid \<times> preferences) list"

record desk_env =
  de_auth :: auth_env
  de_event :: uuid
  de_note :: uuid
  de_clock :: instant
  de_stamp :: "instant \<Rightarrow> string"                      \<comment> \<open>a timestamp inside a \<open>jsonb\<close>\<close>
  de_date :: "string \<Rightarrow> bool"                          \<comment> \<open>\<open>time::Date::parse\<close> accepts it\<close>
  de_pg_date :: "string \<Rightarrow> string option"              \<comment> \<open>\<open>$7::text::date\<close>\<close>
  de_print :: "json \<Rightarrow> bytes"

abbreviation uuid_str :: "desk_env \<Rightarrow> uuid \<Rightarrow> json" where
  "uuid_str E i \<equiv> JStr (ae_uuid_text (de_auth E) i)"

definition opt_json :: "('a \<Rightarrow> json) \<Rightarrow> 'a option \<Rightarrow> json" where
  "opt_json f x = (case x of None \<Rightarrow> JNull | Some v \<Rightarrow> f v)"

subsection \<open>Commands\<close>

record fields =
  fd_title :: string
  fd_description :: string
  fd_kind :: string
  fd_priority :: string
  fd_assignee :: "uuid option"
  fd_due :: "string option"
  fd_reproduction :: string
  fd_root_cause :: string

definition validate :: "desk_env \<Rightarrow> fields \<Rightarrow> http_reply + fields" where
  "validate E f =
     (let f = f\<lparr>fd_title := trim (fd_title f)\<rparr> in
      if fd_title f = [] \<or> 200 < char_count (fd_title f)
         \<or> fd_kind f \<notin> {''task'', ''bug''}
         \<or> fd_priority f \<notin> {''urgent'', ''high'', ''normal'', ''low''}
         \<or> (\<exists>s \<in> {fd_description f, fd_reproduction f, fd_root_cause f}. 16000 < length s)
      then Inl (failure 400 ''invalid_task'')
      else case fd_due f of
        Some day \<Rightarrow> if de_date E day then Inr f else Inl (failure 400 ''invalid_due'')
      | None \<Rightarrow> Inr f)"

datatype task_command =
    CreateTask uuid "uuid option" fields
  | EditTask uuid uuid int fields
  | TransitionTask uuid uuid int string
  | CommentTask uuid uuid int string "uuid option"

fun command_key :: "task_command \<Rightarrow> uuid" where
  "command_key (CreateTask k _ _) = k"
| "command_key (EditTask k _ _ _) = k"
| "command_key (TransitionTask k _ _ _) = k"
| "command_key (CommentTask k _ _ _ _) = k"

fun command_target :: "task_command \<Rightarrow> (uuid \<times> int) option" where
  "command_target (CreateTask _ _ _) = None"
| "command_target (EditTask _ i v _) = Some (i, v)"
| "command_target (TransitionTask _ i v _) = Some (i, v)"
| "command_target (CommentTask _ i v _ _) = Some (i, v)"

definition fields_json :: "desk_env \<Rightarrow> fields \<Rightarrow> json" where
  "fields_json E f = JObj [(''title'', JStr (fd_title f)), (''description'', JStr (fd_description f)),
     (''kind'', JStr (fd_kind f)), (''priority'', JStr (fd_priority f)),
     (''assignee'', opt_json (uuid_str E) (fd_assignee f)), (''due'', opt_json JStr (fd_due f)),
     (''reproduction'', JStr (fd_reproduction f)), (''rootCause'', JStr (fd_root_cause f))]"

text \<open>The derived serialisation: tagged by the action, fields in the order of the declaration.\<close>
fun command_json :: "desk_env \<Rightarrow> task_command \<Rightarrow> json" where
  "command_json E (CreateTask k issue f) = JObj [(''action'', JStr ''create''), (''commandId'', uuid_str E k),
     (''issueId'', opt_json (uuid_str E) issue), (''fields'', fields_json E f)]"
| "command_json E (EditTask k i v f) = JObj [(''action'', JStr ''edit''), (''commandId'', uuid_str E k),
     (''taskId'', uuid_str E i), (''expectedVersion'', JInt v), (''fields'', fields_json E f)]"
| "command_json E (TransitionTask k i v stage) = JObj [(''action'', JStr ''transition''), (''commandId'', uuid_str E k),
     (''taskId'', uuid_str E i), (''expectedVersion'', JInt v), (''stage'', JStr stage)]"
| "command_json E (CommentTask k i v body mention) = JObj [(''action'', JStr ''comment''), (''commandId'', uuid_str E k),
     (''taskId'', uuid_str E i), (''expectedVersion'', JInt v), (''body'', JStr body),
     (''mention'', opt_json (uuid_str E) mention)]"

definition identity :: "desk_env \<Rightarrow> task_command \<Rightarrow> uuid \<times> string" where
  "identity E cmd = (command_key cmd, hex_encode (ae_sha256 (de_auth E) (de_print E (command_json E cmd))))"

definition works_on :: "accounts \<Rightarrow> uuid \<Rightarrow> uuid \<Rightarrow> bool" where
  "works_on A project u \<longleftrightarrow> (case map_of (ac_users A) u of
      None \<Rightarrow> False
    | Some w \<Rightarrow> us_role w = ''superadmin'' \<or> (u, project) \<in> set (ac_assigned A))"

definition member :: "accounts \<Rightarrow> uuid \<Rightarrow> uuid option \<Rightarrow> http_reply + unit" where
  "member A project user = (case user of
      Some u \<Rightarrow> if works_on A project u then Inr () else Inl (failure 400 ''invalid_member'')
    | None \<Rightarrow> Inr ())"

definition allowed :: "string \<Rightarrow> string \<Rightarrow> bool" where
  "allowed from to =
     (if from = ''triage'' then to \<in> {''ready'', ''cancelled''}
      else if from = ''ready'' then to \<in> {''inProgress'', ''triage'', ''cancelled''}
      else if from = ''inProgress'' then to \<in> {''review'', ''ready'', ''cancelled''}
      else if from = ''review'' then to \<in> {''verify'', ''inProgress'', ''cancelled''}
      else if from = ''verify'' then to \<in> {''done'', ''inProgress'', ''cancelled''}
      else if from = ''done'' then to = ''inProgress''
      else if from = ''cancelled'' then to = ''triage''
      else False)"

subsection \<open>Carrying a command out\<close>

definition not_found :: http_reply where "not_found = failure 404 ''not_found''"

definition find_task :: "uuid \<Rightarrow> 'x db \<Rightarrow> task option" where
  "find_task i db = List.find (\<lambda>t. ta_id t = i) (tasks (team db))"

definition update_task :: "uuid \<Rightarrow> (task \<Rightarrow> task) \<Rightarrow> 'x db \<Rightarrow> 'x db" where
  "update_task i f db = db\<lparr>team := (team db)\<lparr>tasks := map (\<lambda>t. if ta_id t = i then f t else t) (tasks (team db))\<rparr>\<rparr>"

definition insert_task :: "task \<Rightarrow> 'x db \<Rightarrow> 'x db" where
  "insert_task t db = db\<lparr>team := (team db)\<lparr>tasks := tasks (team db) @ [t]\<rparr>\<rparr>"

definition blank_task :: "uuid \<Rightarrow> uuid \<Rightarrow> uuid option \<Rightarrow> uuid \<Rightarrow> instant \<Rightarrow> fields \<Rightarrow> task" where
  "blank_task i project issue actor now f =
     \<lparr>ta_id = i, ta_issue = issue, ta_project = project, ta_title = fd_title f, ta_stage = ''triage'',
      ta_verified = False, ta_fix_release = [], ta_version = 1, ta_assignee = None,
      ta_created_by = Some actor, ta_kind = fd_kind f, ta_priority = fd_priority f, ta_description = [],
      ta_reproduction = [], ta_root_cause = [], ta_due = None, ta_automation = JObj [],
      ta_created = now, ta_updated = now\<rparr>"

definition write_fields :: "fields \<Rightarrow> string option \<Rightarrow> nat \<Rightarrow> instant \<Rightarrow> task \<Rightarrow> task" where
  "write_fields f day step now t = t\<lparr>ta_title := fd_title f, ta_description := fd_description f,
     ta_kind := fd_kind f, ta_priority := fd_priority f, ta_assignee := fd_assignee f, ta_due := day,
     ta_reproduction := fd_reproduction f, ta_root_cause := fd_root_cause f,
     ta_version := ta_version t + step, ta_updated := now\<rparr>"

definition bump_task :: "instant \<Rightarrow> task \<Rightarrow> task" where
  "bump_task now t = t\<lparr>ta_version := Suc (ta_version t), ta_updated := now\<rparr>"

text \<open>The update of the issue that closing or resuming its task makes.\<close>
definition settle_issue :: "instant \<Rightarrow> string \<Rightarrow> issue \<Rightarrow> issue" where
  "settle_issue now stage r = r\<lparr>is_status := (if stage = ''done'' then ''resolved'' else ''open''),
     is_resolved_at := (if stage = ''done'' then Some now else None), is_resolved_in := None,
     is_regressed_at := None, is_regressed_in := None\<rparr>"

type_synonym outcome = "string \<times> string \<times> uuid option \<times> string"   \<comment> \<open>action, body, recipient, category\<close>

text \<open>Creating a task when there is no current row, editing it otherwise.\<close>
definition apply_fields ::
  "desk_env \<Rightarrow> accounts \<Rightarrow> uuid \<Rightarrow> uuid \<Rightarrow> fields \<Rightarrow> task option \<Rightarrow> uuid \<Rightarrow> uuid option \<Rightarrow> 'x db
     \<Rightarrow> http_reply + outcome \<times> 'x db" where
  "apply_fields E A project actor f current i issue db =
     bind_res (validate E f) (\<lambda>f.
     bind_res (member A project (fd_assignee f)) (\<lambda>_.
     bind_res (case current of
         Some _ \<Rightarrow> Inr db
       | None \<Rightarrow>
           if issue \<noteq> None \<and> (\<exists>t \<in> set (tasks (team db)). ta_issue t = issue)
           then Inl (failure 409 ''issue_task_exists'')
           else if find_task i db \<noteq> None then Inl internal
           else Inr (insert_task (blank_task i project issue actor (ae_now (de_auth E)) f) db)) (\<lambda>db.
     bind_res (case fd_due f of
         None \<Rightarrow> Inr None
       | Some day \<Rightarrow> (case de_pg_date E day of Some d \<Rightarrow> Inr (Some d) | None \<Rightarrow> Inl internal)) (\<lambda>day.
     let changed = (case current of None \<Rightarrow> True | Some r \<Rightarrow> ta_assignee r \<noteq> fd_assignee f) in
     Inr ((if current = None then ''created'' else ''updated'', [], fd_assignee f,
           if changed then ''assignment'' else ''task''),
          update_task i (write_fields f day (if current = None then 0 else 1) (ae_now (de_auth E))) db)))))"

definition apply_transition ::
  "desk_env \<Rightarrow> uuid \<Rightarrow> string \<Rightarrow> task option \<Rightarrow> uuid \<Rightarrow> uuid option \<Rightarrow> 'x db \<Rightarrow> http_reply + outcome \<times> 'x db" where
  "apply_transition E actor stage current i issue db =
     bind_res (ok_or not_found current) (\<lambda>r.
       if \<not> allowed (ta_stage r) stage then Inl (failure 409 ''invalid_transition'')
       else
         let now = ae_now (de_auth E);
             db = update_task i (restage_task stage now (de_stamp E (de_clock E))) db;
             db = (case issue of
                 Some g \<Rightarrow>
                   if stage = ''done'' \<or> stage = ''inProgress'' then
                     (update_issue g (settle_issue now stage) db)\<lparr>activity := activity db @
                       [(g, ''status'', JObj [(''taskId'', uuid_str E i), (''stage'', JStr stage)], Some actor)]\<rparr>
                   else db
               | None \<Rightarrow> db)
         in Inr ((''stage'', stage, ta_assignee r, ''task''), db))"

definition apply_comment ::
  "desk_env \<Rightarrow> accounts \<Rightarrow> uuid \<Rightarrow> string \<Rightarrow> uuid option \<Rightarrow> task option \<Rightarrow> uuid \<Rightarrow> 'x db
     \<Rightarrow> http_reply + outcome \<times> 'x db" where
  "apply_comment E A project text mention current i db =
     (let body = trim text in
      if body = [] \<or> 16000 < length body then Inl (failure 400 ''invalid_comment'')
      else bind_res (member A project mention) (\<lambda>_.
        Inr ((''comment'', body,
              (case mention of Some u \<Rightarrow> Some u | None \<Rightarrow> Option.bind current ta_assignee),
              if mention \<noteq> None then ''mention'' else ''task''),
             update_task i (bump_task (ae_now (de_auth E))) db)))"

fun apply_command ::
  "desk_env \<Rightarrow> accounts \<Rightarrow> uuid \<Rightarrow> uuid \<Rightarrow> task_command \<Rightarrow> task option \<Rightarrow> uuid \<Rightarrow> uuid option \<Rightarrow> 'x db
     \<Rightarrow> http_reply + outcome \<times> 'x db" where
  "apply_command E A project actor (CreateTask _ _ f) current i issue db = apply_fields E A project actor f current i issue db"
| "apply_command E A project actor (EditTask _ _ _ f) current i issue db = apply_fields E A project actor f current i issue db"
| "apply_command E A project actor (TransitionTask _ _ _ stage) current i issue db = apply_transition E actor stage current i issue db"
| "apply_command E A project actor (CommentTask _ _ _ text mention) current i issue db = apply_comment E A project text mention current i db"

text \<open>The columns the API shows, \<open>FIELDS\<close>.\<close>
definition task_json :: "desk_env \<Rightarrow> task \<Rightarrow> json" where
  "task_json E t = JObj [(''id'', uuid_str E (ta_id t)), (''projectId'', uuid_str E (ta_project t)),
     (''issueId'', opt_json (uuid_str E) (ta_issue t)), (''assignee'', opt_json (uuid_str E) (ta_assignee t)),
     (''title'', JStr (ta_title t)), (''description'', JStr (ta_description t)), (''kind'', JStr (ta_kind t)),
     (''priority'', JStr (ta_priority t)), (''stage'', JStr (ta_stage t)), (''due'', opt_json JStr (ta_due t)),
     (''reproduction'', JStr (ta_reproduction t)), (''rootCause'', JStr (ta_root_cause t)),
     (''fixRelease'', JStr (ta_fix_release t)), (''verified'', JBool (ta_verified t)),
     (''automation'', ta_automation t), (''version'', JInt (int (ta_version t))),
     (''createdAt'', JStr (de_stamp E (ta_created t))), (''updatedAt'', JStr (de_stamp E (ta_updated t)))]"

definition db_failed :: "db_error + 'a \<Rightarrow> http_reply + 'a" where
  "db_failed r = (case r of Inl _ \<Rightarrow> Inl internal | Inr v \<Rightarrow> Inr v)"

text \<open>The issue a command concerns: the one named, or the task's.\<close>
definition command_issue :: "uuid \<Rightarrow> task_command \<Rightarrow> 'x db \<Rightarrow> http_reply + uuid option" where
  "command_issue project cmd db =
     bind_res (case cmd of
         CreateTask _ issue _ \<Rightarrow> Inr issue
       | _ \<Rightarrow> (case Option.bind (command_target cmd) (\<lambda>(i, _). find_task i db) of
             Some t \<Rightarrow> if ta_project t = project then Inr (ta_issue t) else Inl not_found
           | None \<Rightarrow> Inl not_found)) (\<lambda>issue.
       case issue of
         None \<Rightarrow> Inr None
       | Some g \<Rightarrow> if map_option is_project (map_of (issues db) g) = Some project then Inr (Some g)
                   else Inl (failure 400 ''invalid_issue''))"

text \<open>The row a command changes, at the version it expects.\<close>
definition command_row :: "uuid \<Rightarrow> task_command \<Rightarrow> 'x db \<Rightarrow> http_reply + task option" where
  "command_row project cmd db = (case command_target cmd of
      None \<Rightarrow> Inr None
    | Some (i, v) \<Rightarrow> (case find_task i db of
          None \<Rightarrow> Inl not_found
        | Some t \<Rightarrow>
            if ta_project t \<noteq> project then Inl not_found
            else if int (ta_version t) \<noteq> v then Inl (failure 409 ''task_changed'')
            else Inr (Some t)))"

definition command_id :: "desk_env \<Rightarrow> task_command \<Rightarrow> uuid" where
  "command_id E cmd = (case command_target cmd of None \<Rightarrow> ae_fresh (de_auth E) | Some (i, _) \<Rightarrow> i)"

text \<open>What follows the receipt check: the change, its history, the audit record and the answer.\<close>
definition carry_out ::
  "desk_env \<Rightarrow> accounts \<Rightarrow> uuid \<Rightarrow> uuid \<Rightarrow> task_command \<Rightarrow> 'x db \<Rightarrow> http_reply + json \<times> 'x db" where
  "carry_out E A project actor cmd db =
     bind_res (command_issue project cmd db) (\<lambda>issue.
     bind_res (command_row project cmd db) (\<lambda>current.
     let i = command_id E cmd in
     bind_res (apply_command E A project actor cmd current i issue db) (\<lambda>((act, body, recipient, category), db).
     bind_res (db_failed (team_event (ae_uuid_text (de_auth E)) (generation_row db) (de_event E) (de_note E) i
         (Some actor) act body recipient category (team db))) (\<lambda>tm.
     let db = db\<lparr>team := tm\<lparr>audit := record_in_transaction (Some project) (Some actor) (''task.'' @ act) ''task''
                (ae_uuid_text (de_auth E) i) (JObj []) (audit tm)\<rparr>\<rparr> in
     bind_res (ok_or internal (find_task i db)) (\<lambda>t.
     if ae_late_fails (de_auth E) then Inl internal else Inr (task_json E t, db))))))"

definition run_command ::
  "desk_env \<Rightarrow> uuid \<Rightarrow> uuid \<Rightarrow> task_command \<Rightarrow> 'x desk \<Rightarrow> http_reply + json \<times> 'x desk" where
  "run_command E actor project cmd S =
     (case identity E cmd of (key, digest) \<Rightarrow>
      if ae_fails (de_auth E) then Inl internal
      else if project \<notin> set (ac_projects (dk_accounts S)) then Inl not_found
      else
        bind_res (member (dk_accounts S) project (Some actor)) (\<lambda>_.
        case map_of (dk_receipts S) (project, actor, key) of
          Some (d, response) \<Rightarrow>
            if d \<noteq> digest then Inl (failure 409 ''idempotency_conflict'') else Inr (response, S)
        | None \<Rightarrow>
            bind_res (carry_out E (dk_accounts S) project actor cmd (dk_core S)) (\<lambda>(response, db).
            Inr (response, S\<lparr>dk_core := db,
              dk_receipts := dk_receipts S @ [((project, actor, key), digest, response)]\<rparr>))))"

definition settled :: "http_reply + json \<times> 's \<Rightarrow> 's \<Rightarrow> http_reply \<times> 's" where
  "settled r S = (case r of Inl e \<Rightarrow> (e, S) | Inr (j, S') \<Rightarrow> (plain 200 j, S'))"

definition task_command_handler ::
  "desk_env \<Rightarrow> session_context \<Rightarrow> uuid \<Rightarrow> task_command \<Rightarrow> 'x desk \<Rightarrow> http_reply \<times> 'x desk" where
  "task_command_handler E ctx project cmd S =
     (case project_access (de_auth E) (dk_accounts S) ctx project of
        Inl r \<Rightarrow> (r, S)
      | Inr _ \<Rightarrow> settled (run_command E (sx_user ctx) project cmd S) S)"

subsection \<open>Reading\<close>

record task_query =
  tq_q :: "string option"
  tq_issue :: "uuid option"
  tq_stage :: "string option"
  tq_mine :: "bool option"
  tq_offset :: "int option"
  tq_limit :: "int option"

definition clamp :: "int \<Rightarrow> int \<Rightarrow> int \<Rightarrow> nat" where
  "clamp lo hi x = nat (max lo (min hi x))"

definition selects :: "desk_env \<Rightarrow> uuid \<Rightarrow> uuid \<Rightarrow> task_query \<Rightarrow> task \<Rightarrow> bool" where
  "selects E user project q t \<longleftrightarrow> ta_project t = project
     \<and> (case tq_q q of None \<Rightarrow> True
        | Some s \<Rightarrow> str_contains (ae_lower (de_auth E) (ta_title t)) (ae_lower (de_auth E) s))
     \<and> (case tq_stage q of None \<Rightarrow> True | Some s \<Rightarrow> ta_stage t = s)
     \<and> (unwrap_or False (tq_mine q) \<longrightarrow> ta_assignee t = Some user)
     \<and> (case tq_issue q of None \<Rightarrow> True | Some g \<Rightarrow> ta_issue t = Some g)"

definition newest_first :: "task list \<Rightarrow> task list" where
  "newest_first ts = sort_key (\<lambda>t. (- int (ta_updated t), - int (ta_id t))) ts"

definition next_offset :: "nat \<Rightarrow> nat \<Rightarrow> nat \<Rightarrow> json" where
  "next_offset offset limit n = (if offset + limit < n then JInt (int (offset + limit)) else JNull)"

definition closed :: "task \<Rightarrow> bool" where
  "closed t \<longleftrightarrow> ta_stage t = ''done'' \<or> ta_stage t = ''cancelled''"

text \<open>\<open>overdue day\<close>: the due date is before \<open>current_date\<close>.\<close>
definition task_summary :: "(string \<Rightarrow> bool) \<Rightarrow> task list \<Rightarrow> json" where
  "task_summary overdue ts =
     (let n = (\<lambda>P. JInt (int (length (filter P ts)))) in
      JObj [(''active'', n (\<lambda>t. \<not> closed t)),
        (''review'', n (\<lambda>t. ta_stage t = ''review'' \<or> ta_stage t = ''verify'')),
        (''done'', n (\<lambda>t. ta_stage t = ''done'')),
        (''overdue'', n (\<lambda>t. (case ta_due t of None \<Rightarrow> False | Some d \<Rightarrow> overdue d) \<and> \<not> closed t))])"

definition task_members :: "desk_env \<Rightarrow> accounts \<Rightarrow> uuid \<Rightarrow> json list" where
  "task_members E A project = map (\<lambda>(u, w). JObj [(''id'', uuid_str E u),
       (''name'', JStr (case us_display w of None \<Rightarrow> us_email w | Some d \<Rightarrow> d))])
     (sort_key fst (filter (\<lambda>(u, w). us_role w = ''superadmin'' \<or> (u, project) \<in> set (ac_assigned A)) (ac_users A)))"

definition list_tasks ::
  "desk_env \<Rightarrow> (string \<Rightarrow> bool) \<Rightarrow> session_context \<Rightarrow> uuid \<Rightarrow> task_query \<Rightarrow> 'x desk \<Rightarrow> http_reply" where
  "list_tasks E overdue ctx project q S =
     (case project_access (de_auth E) (dk_accounts S) ctx project of
        Inl r \<Rightarrow> r
      | Inr _ \<Rightarrow>
          if ae_fails (de_auth E) then internal
          else
            let offset = clamp 0 1000000 (unwrap_or 0 (tq_offset q));
                limit = clamp 1 100 (unwrap_or 50 (tq_limit q));
                chosen = filter (selects E (sx_user ctx) project q) (tasks (team (dk_core S)))
            in plain 200 (JObj [
                 (''tasks'', JArr (map (task_json E) (take limit (drop offset (newest_first chosen))))),
                 (''members'', JArr (task_members E (dk_accounts S) project)),
                 (''total'', JInt (int (length chosen))),
                 (''summary'', task_summary overdue chosen),
                 (''nextOffset'', next_offset offset limit (length chosen))]))"

definition get_task :: "desk_env \<Rightarrow> (uuid \<Rightarrow> nat \<Rightarrow> json list) \<Rightarrow> session_context \<Rightarrow> uuid \<Rightarrow> uuid \<Rightarrow> int option \<Rightarrow> 'x desk \<Rightarrow> http_reply" where
  "get_task E history ctx project i offset S =
     (case project_access (de_auth E) (dk_accounts S) ctx project of
        Inl r \<Rightarrow> r
      | Inr _ \<Rightarrow>
          if ae_fails (de_auth E) then internal
          else (case find_task i (dk_core S) of
              None \<Rightarrow> not_found
            | Some t \<Rightarrow>
                if ta_project t \<noteq> project then not_found
                else
                  let offset = clamp 0 1000000 (unwrap_or 0 offset); rows = history i offset in
                  plain 200 (JObj [(''task'', task_json E t), (''events'', JArr (take 50 rows)),
                    (''nextOffset'', if 50 < length rows then JInt (int (offset + 50)) else JNull)])))"

subsection \<open>What a command does to the table\<close>

text \<open>The columns satisfy the schema's checks.\<close>
definition columns_ok :: "task \<Rightarrow> bool" where
  "columns_ok t \<longleftrightarrow> ta_title t \<noteq> [] \<and> char_count (ta_title t) \<le> 200 \<and> ta_kind t \<in> {''task'', ''bug''}
     \<and> ta_priority t \<in> {''urgent'', ''high'', ''normal'', ''low''}
     \<and> ta_stage t \<in> {''triage'', ''ready'', ''inProgress'', ''review'', ''verify'', ''done'', ''cancelled''}
     \<and> 0 < ta_version t"

text \<open>A task after one more change of its row: who it is stays, and a verdict of the automation is not made up.\<close>
definition follows :: "task \<Rightarrow> task \<Rightarrow> bool" where
  "follows t t' \<longleftrightarrow> ta_id t' = ta_id t \<and> ta_issue t' = ta_issue t \<and> ta_project t' = ta_project t
     \<and> ta_created t' = ta_created t \<and> ta_version t' = Suc (ta_version t)
     \<and> (ta_stage t' = ta_stage t \<and> ta_verified t' = ta_verified t \<and> ta_fix_release t' = ta_fix_release t
          \<and> ta_automation t' = ta_automation t
        \<or> \<not> ta_verified t' \<and> allowed (ta_stage t) (ta_stage t'))
     \<and> (columns_ok t \<longrightarrow> columns_ok t')"

definition fields_ok :: "fields \<Rightarrow> bool" where
  "fields_ok f \<longleftrightarrow> fd_title f \<noteq> [] \<and> char_count (fd_title f) \<le> 200 \<and> fd_kind f \<in> {''task'', ''bug''}
     \<and> fd_priority f \<in> {''urgent'', ''high'', ''normal'', ''low''}"

lemma validate_ok: "validate E f = Inr f' \<Longrightarrow> fields_ok f' \<and> f' = f\<lparr>fd_title := trim (fd_title f)\<rparr>"
  by (auto simp: validate_def fields_ok_def Let_def split: if_splits option.splits)

lemma follows_write: "fields_ok f \<Longrightarrow> follows t (write_fields f d 1 now t)"
  by (simp add: follows_def write_fields_def columns_ok_def fields_ok_def)

lemma follows_bump: "follows t (bump_task now t)"
  by (simp add: follows_def bump_task_def columns_ok_def)

lemma allowed_stage: "allowed a b \<Longrightarrow> b \<in> {''triage'', ''ready'', ''inProgress'', ''review'', ''verify'', ''done'', ''cancelled''}"
  by (auto simp: allowed_def split: if_splits)

lemma follows_restage: "allowed (ta_stage t) stage \<Longrightarrow> follows t (restage_task stage now stamp t)"
  using allowed_stage by (auto simp: follows_def restage_task_def columns_ok_def)

lemma tasks_update_task [simp]: "tasks (team (update_task i f db)) = map (\<lambda>t. if ta_id t = i then f t else t) (tasks (team db))"
  "issues (update_task i f db) = issues db" "generation_row (update_task i f db) = generation_row db"
  by (simp_all add: update_task_def)

lemma tasks_insert_task [simp]: "tasks (team (insert_task t db)) = tasks (team db) @ [t]"
  "issues (insert_task t db) = issues db"
  by (simp_all add: insert_task_def)

lemma find_task_Some: "find_task i db = Some t \<Longrightarrow> t \<in> set (tasks (team db)) \<and> ta_id t = i"
  by (auto simp: find_task_def find_Some_iff)

lemma find_task_None: "find_task i db = None \<longleftrightarrow> i \<notin> ta_id ` set (tasks (team db))"
  by (auto simp: find_task_def find_None_iff)

text \<open>The table after a command that had a row: exactly that task moved on.\<close>
definition moved_on :: "uuid \<Rightarrow> task list \<Rightarrow> task list \<Rightarrow> bool" where
  "moved_on i ts ts' \<longleftrightarrow> (\<exists>f. ts' = map (\<lambda>t. if ta_id t = i then f t else t) ts \<and> (\<forall>t. ta_id t = i \<longrightarrow> t \<in> set ts \<longrightarrow> follows t (f t)))"

lemma apply_fields_edit:
  assumes "apply_fields E A p a f (Some r) i g db = Inr (out, db')"
  obtains f' d where "validate E f = Inr f'"
    and "db' = update_task i (write_fields f' d 1 (ae_now (de_auth E))) db"
proof -
  obtain f' where f': "validate E f = Inr f'" using assms by (auto simp: apply_fields_def result_simps)
  with assms that show ?thesis
    by (cases "fd_due f'") (auto simp: apply_fields_def result_simps Let_def split: option.splits)
qed

lemma apply_fields_row:
  assumes "apply_fields E A p a f (Some r) i g db = Inr (out, db')"
  shows "moved_on i (tasks (team db)) (tasks (team db'))"
  using assms
proof (rule apply_fields_edit)
  fix f' d assume "validate E f = Inr f'" and d: "db' = update_task i (write_fields f' d 1 (ae_now (de_auth E))) db"
  then have "follows t (write_fields f' d 1 (ae_now (de_auth E)) t)" for t
    using validate_ok follows_write by blast
  with d show ?thesis unfolding moved_on_def by auto
qed

lemma apply_comment_row:
  assumes "apply_comment E A p text m cur i db = Inr (out, db')"
  shows "moved_on i (tasks (team db)) (tasks (team db'))"
  using assms follows_bump
  by (auto simp: apply_comment_def result_simps moved_on_def Let_def split: if_splits)

lemma tasks_update_issue [simp]: "team (update_issue g f db) = team db"
  by (simp add: update_issue_def)

lemma apply_transition_row:
  assumes "apply_transition E a stage (Some r) i g db = Inr (out, db')"
    and one: "\<forall>t \<in> set (tasks (team db)). ta_id t = i \<longrightarrow> t = r"
  shows "moved_on i (tasks (team db)) (tasks (team db'))"
proof -
  have "allowed (ta_stage r) stage" and "tasks (team db') = map (\<lambda>t. if ta_id t = i
      then restage_task stage (ae_now (de_auth E)) (de_stamp E (de_clock E)) t else t) (tasks (team db))"
    using assms(1) by (auto simp: apply_transition_def result_simps Let_def split: if_splits option.splits)
  then show ?thesis using follows_restage one unfolding moved_on_def by blast
qed

lemma map_if_append: "map (\<lambda>t. if P t then f t else t) (xs @ [x]) = map (\<lambda>t. if P t then f t else t) xs @ [if P x then f x else x]"
  by simp

lemma map_if_absent: "\<forall>t \<in> set ts. \<not> P t \<Longrightarrow> map (\<lambda>t. if P t then f t else t) ts = ts"
  by (induction ts) auto

lemma apply_fields_create:
  assumes "apply_fields E A p a f None i g db = Inr (out, db')"
  obtains t where "tasks (team db') = tasks (team db) @ [t]" and "ta_id t = i" and "i \<notin> ta_id ` set (tasks (team db))"
    and "ta_project t = p" and "ta_issue t = g" and "columns_ok t" and "\<not> ta_verified t" and "ta_version t = 1"
    and "ta_stage t = ''triage''" and "g = None \<or> (\<forall>q \<in> set (tasks (team db)). ta_issue q \<noteq> g)"
proof -
  let ?now = "ae_now (de_auth E)"
  obtain f' where f': "validate E f = Inr f'" using assms by (auto simp: apply_fields_def result_simps)
  with assms have new: "find_task i db = None" "g = None \<or> (\<forall>q \<in> set (tasks (team db)). ta_issue q \<noteq> g)"
    by (auto simp: apply_fields_def result_simps Let_def split: option.splits if_splits)
  from assms f' obtain d where
    d: "db' = update_task i (write_fields f' d 0 ?now) (insert_task (blank_task i p g a ?now f') db)"
    by (cases "fd_due f'") (auto simp: apply_fields_def result_simps Let_def split: option.splits if_splits)
  let ?t = "write_fields f' d 0 ?now (blank_task i p g a ?now f')"
  have i: "i \<notin> ta_id ` set (tasks (team db))" using new(1) by (simp add: find_task_None)
  then have "\<forall>t \<in> set (tasks (team db)). ta_id t \<noteq> i" by auto
  then have "tasks (team db') = tasks (team db) @ [?t]"
    unfolding d by (simp add: map_if_absent [of _ "\<lambda>t. ta_id t = i"] blank_task_def)
  moreover have "columns_ok ?t"
    using validate_ok [OF f', THEN conjunct1] by (simp add: columns_ok_def fields_ok_def write_fields_def blank_task_def)
  ultimately show ?thesis
    using that i new(2) by (simp add: write_fields_def blank_task_def)
qed

lemma team_event_tasks: "team_event ut gen e n tid actor act body rcp cat tm = Inr tm' \<Longrightarrow> tasks tm' = tasks tm"
  by (rule team_event_frame)

lemma db_failed_Inr [simp]: "db_failed r = Inr v \<longleftrightarrow> r = Inr v"
  by (cases r) (simp_all add: db_failed_def)

lemma carry_out_cases:
  assumes "carry_out E A p a cmd db = Inr (j, db')"
  obtains issue cur act body rcp cat db1 tm t where
    "command_issue p cmd db = Inr issue" and "command_row p cmd db = Inr cur"
    and "apply_command E A p a cmd cur (command_id E cmd) issue db = Inr ((act, body, rcp, cat), db1)"
    and "team_event (ae_uuid_text (de_auth E)) (generation_row db1) (de_event E) (de_note E) (command_id E cmd)
         (Some a) act body rcp cat (team db1) = Inr tm"
    and "db' = db1\<lparr>team := tm\<lparr>audit := record_in_transaction (Some p) (Some a) (''task.'' @ act) ''task''
                (ae_uuid_text (de_auth E) (command_id E cmd)) (JObj []) (audit tm)\<rparr>\<rparr>"
    and "find_task (command_id E cmd) db' = Some t" and "j = task_json E t" and "\<not> ae_late_fails (de_auth E)"
proof -
  from assms obtain issue cur act body rcp cat db1 where
    1: "command_issue p cmd db = Inr issue" "command_row p cmd db = Inr cur"
      "apply_command E A p a cmd cur (command_id E cmd) issue db = Inr ((act, body, rcp, cat), db1)"
    unfolding carry_out_def Let_def bind_res_Inr_conv by fastforce
  from assms obtain tm where 2: "team_event (ae_uuid_text (de_auth E)) (generation_row db1) (de_event E) (de_note E)
      (command_id E cmd) (Some a) act body rcp cat (team db1) = Inr tm"
    by (auto simp: carry_out_def Let_def result_simps 1)
  show ?thesis
    using assms that [OF 1 2] by (auto simp: carry_out_def Let_def result_simps 1 2 split: option.splits if_splits)
qed

text \<open>The table after a command that went through: one task more, or its own task moved on.\<close>
lemma carry_out_tasks:
  assumes run: "carry_out E A p a cmd db = Inr (j, db')" and ids: "distinct (map ta_id (tasks (team db)))"
  obtains (created) t g f where "cmd = CreateTask (command_key cmd) g f" and "tasks (team db') = tasks (team db) @ [t]"
      and "ta_id t = ae_fresh (de_auth E)" and "ae_fresh (de_auth E) \<notin> ta_id ` set (tasks (team db))"
      and "ta_project t = p" and "ta_issue t = g" and "columns_ok t" and "\<not> ta_verified t" and "ta_version t = 1"
      and "ta_stage t = ''triage''" and "g = None \<or> (\<forall>q \<in> set (tasks (team db)). ta_issue q \<noteq> g)"
    | (changed) i r where "command_target cmd = Some (i, int (ta_version r))" and "r \<in> set (tasks (team db))"
      and "ta_id r = i" and "ta_project r = p" and "moved_on i (tasks (team db)) (tasks (team db'))"
proof -
  from run obtain issue cur act body rcp cat db1 tm where
    issue: "command_issue p cmd db = Inr issue" and row: "command_row p cmd db = Inr cur"
    and app: "apply_command E A p a cmd cur (command_id E cmd) issue db = Inr ((act, body, rcp, cat), db1)"
    and ev: "team_event (ae_uuid_text (de_auth E)) (generation_row db1) (de_event E) (de_note E) (command_id E cmd)
         (Some a) act body rcp cat (team db1) = Inr tm"
    and db': "tasks (team db') = tasks tm"
    by (rule carry_out_cases) auto
  have ts: "tasks (team db') = tasks (team db1)" using db' team_event_tasks [OF ev] by simp
  show ?thesis
  proof (cases "command_target cmd")
    case None
    then obtain k g f where c: "cmd = CreateTask k g f" by (cases cmd) auto
    with row issue have "cur = None" "issue = g"
      by (auto simp: command_row_def command_issue_def result_simps split: option.splits if_splits)
    with app c have "apply_fields E A p a f None (ae_fresh (de_auth E)) g db = Inr ((act, body, rcp, cat), db1)"
      by (simp add: command_id_def)
    then show ?thesis
      by (rule apply_fields_create) (intro created; simp add: c ts)
  next
    case (Some iv)
    obtain i v where iv: "iv = (i, v)" by (cases iv)
    with row Some obtain r where r: "find_task i db = Some r" "ta_project r = p" "int (ta_version r) = v" "cur = Some r"
      by (auto simp: command_row_def split: option.splits if_splits)
    from find_task_Some [OF r(1)] have rin: "r \<in> set (tasks (team db))" "ta_id r = i" by auto
    with ids have one: "\<forall>t \<in> set (tasks (team db)). ta_id t = i \<longrightarrow> t = r"
      by (metis distinct_map inj_onD)
    have id: "command_id E cmd = i" using Some iv by (simp add: command_id_def)
    have "moved_on i (tasks (team db)) (tasks (team db1))"
    proof (cases cmd)
      case (EditTask k x v f)
      with app r(4) id show ?thesis by (auto intro: apply_fields_row)
    next
      case (TransitionTask k x v stage)
      with app r(4) id one show ?thesis by (auto intro: apply_transition_row)
    next
      case (CommentTask k x v words m)
      with app r(4) id show ?thesis by (auto intro: apply_comment_row)
    qed (use Some in simp)
    with ts rin r Some iv show ?thesis by (intro changed) simp_all
  qed
qed

subsection \<open>An instance for the witnesses\<close>

definition toy_desk_env :: desk_env where
  "toy_desk_env = \<lparr>de_auth = (toy_env 5 [])\<lparr>ae_fresh := 9\<rparr>, de_event = 20, de_note = 30, de_clock = 5,
     de_stamp = (\<lambda>t. show_nat t), de_date = (\<lambda>_. True), de_pg_date = Some, de_print = (\<lambda>_. [])\<rparr>"

definition toy_user :: "string \<Rightarrow> string \<Rightarrow> user" where
  "toy_user email r = \<lparr>us_email = email, us_phc = [], us_role = r, us_display = None, us_last_login = None\<rparr>"

text \<open>User 1 is an owner, user 2 works on project 4.\<close>
definition toy_desk :: "unit desk" where
  "toy_desk = \<lparr>dk_core = empty_db, dk_accounts = toy_accounts\<lparr>ac_users := [(1, toy_user ''a@b'' ''superadmin''),
       (2, toy_user ''c@d'' ''admin'')], ac_projects := [4], ac_assigned := [(2, 4)]\<rparr>, dk_receipts = [],
     dk_integrations = [], dk_deliveries = [], dk_delivered = [], dk_inbox = [], dk_prefs = []\<rparr>"

definition toy_fields :: fields where
  "toy_fields = \<lparr>fd_title = ''fix it'', fd_description = [], fd_kind = ''bug'', fd_priority = ''high'',
     fd_assignee = Some 2, fd_due = None, fd_reproduction = [], fd_root_cause = []\<rparr>"

definition toy_task :: task where
  "toy_task = \<lparr>ta_id = 9, ta_issue = None, ta_project = 4, ta_title = ''fix it'', ta_stage = ''triage'',
     ta_verified = False, ta_fix_release = [], ta_version = 1, ta_assignee = Some 2, ta_created_by = Some 1,
     ta_kind = ''bug'', ta_priority = ''high'', ta_description = [], ta_reproduction = [], ta_root_cause = [],
     ta_due = None, ta_automation = JObj [], ta_created = 5, ta_updated = 5\<rparr>"

lemma toy_fields_valid: "validate E toy_fields = Inr toy_fields"
proof -
  have "trim ''fix it'' = ''fix it''" by code_simp
  moreover have "char_count ''fix it'' = 6" by code_simp
  ultimately show ?thesis by (simp add: validate_def toy_fields_def)
qed

lemmas toy_desk_simps = toy_desk_def toy_desk_env_def toy_env_def toy_user_def toy_accounts_def empty_db_def

lemma toy_create:
  "\<exists>db. carry_out toy_desk_env (dk_accounts toy_desk) 4 1 (CreateTask 7 None toy_fields) (dk_core toy_desk)
      = Inr (task_json toy_desk_env toy_task, db)
    \<and> tasks (team db) = [toy_task] \<and> outbox (team db) = [20] \<and> generation_row db = Some 1
    \<and> task_events (team db) = [\<lparr>te_id = 20, te_task = 9, te_actor = Some 1, te_action = ''created'', te_body = [],
       te_notify = Some 2, te_category = ''assignment''\<rparr>] \<and> issues db = []"
  by (simp add: carry_out_def command_issue_def command_row_def command_id_def apply_fields_def toy_fields_valid
      member_def works_on_def find_task_def insert_task_def update_task_def blank_task_def write_fields_def
      team_event_def task_notification_def enqueue_def toy_desk_simps Let_def) (simp add: toy_fields_def toy_task_def works_on_def
      db_failed_def find_task_def toy_desk_simps)

end
