(* ===== verification/TaskSignals.thy ===== *)
theory TaskSignals
  imports Tasks
begin

text \<open>
  Evidence from CI, the repository and deployments,
  \<^verbatim>\<open>self-hosted/server/src/handlers/task_signals.rs\<close>: configuring a project's signing secret, and
  receiving a signal.  A signal is checked against the secret, the clock, the repository and the
  environment, recorded once under its delivery id, and then the task's stage is recomputed from
  all evidence recorded since the barrier: the latest work on a commit (the authority) and, for
  that commit, the latest checks and deployment.  HMAC-SHA256, the RFC 3339 reader and printer,
  the uuid reader and serde\_json's reader are parameters; a \<open>timestamptz\<close> column keeps microseconds.
\<close>

subsection \<open>Configuration\<close>

record signal_env =
  se_desk :: desk_env
  se_vault :: "vault option"
  se_aead :: aead
  se_rng :: rng
  se_hmac :: "bytes \<Rightarrow> bytes \<Rightarrow> bytes"
  se_now :: instant
  se_unix :: int
  se_read :: "bytes \<Rightarrow> json option"            \<comment> \<open>the body's value, with its entries as they are written\<close>
  se_uuid :: "string \<Rightarrow> uuid option"
  se_parse :: "string \<Rightarrow> instant option"
  se_show :: "instant \<Rightarrow> string option"
  se_delivery :: uuid

abbreviation se_auth :: "signal_env \<Rightarrow> auth_env" where "se_auth E \<equiv> de_auth (se_desk E)"

record configure =
  cf_repository :: string
  cf_environment :: string
  cf_enabled :: bool
  cf_rotate :: bool
  cf_version :: int

definition name_chars :: "string \<Rightarrow> string \<Rightarrow> bool" where
  "name_chars extra s \<longleftrightarrow> list_all (\<lambda>c. is_ascii_alphanumeric c \<or> c \<in> set extra) s"

definition valid_configuration :: "configure \<Rightarrow> bool" where
  "valid_configuration b \<longleftrightarrow> cf_repository b \<noteq> [] \<and> length (cf_repository b) \<le> 200
     \<and> name_chars ''/._-'' (cf_repository b)
     \<and> cf_environment b \<noteq> [] \<and> length (cf_environment b) \<le> 100 \<and> name_chars ''._-'' (cf_environment b)"

definition bound_secret :: "signal_env \<Rightarrow> uuid \<Rightarrow> string \<Rightarrow> string" where
  "bound_secret E project secret = ae_uuid_text (se_auth E) project @ '':'' @ secret"

definition upsert_integration :: "uuid \<Rightarrow> configure \<Rightarrow> bytes \<Rightarrow> (uuid \<times> integration) list \<Rightarrow> (uuid \<times> integration) list" where
  "upsert_integration project b sealed rows = AList.update project
     \<lparr>ti_repository = cf_repository b, ti_environment = cf_environment b, ti_secret = sealed,
      ti_enabled = cf_enabled b,
      ti_version = (case map_of rows project of None \<Rightarrow> 1 | Some r \<Rightarrow> ti_version r + 1)\<rparr> rows"

definition configure_task_signals ::
  "signal_env \<Rightarrow> session_context \<Rightarrow> uuid \<Rightarrow> configure \<Rightarrow> 'x desk \<Rightarrow> http_reply \<times> 'x desk" where
  "configure_task_signals E ctx project b S =
     (if sx_role ctx \<noteq> Superadmin then (failure 403 ''owner_required'', S)
      else case se_vault E of
        None \<Rightarrow> (failure 503 ''vault_unconfigured'', S)
      | Some v \<Rightarrow>
          if \<not> valid_configuration b then (failure 400 ''invalid_integration'', S)
          else if ae_fails (se_auth E) then (internal, S)
          else if project \<notin> set (ac_projects (dk_accounts S)) then (not_found, S)
          else
            let current = map_of (dk_integrations S) project;
                version = (case current of None \<Rightarrow> 0 | Some r \<Rightarrow> ti_version r) in
            if cf_version b \<noteq> version then (failure 409 ''integration_changed'', S)
            else
              let secret = (if current = None \<or> cf_rotate b then Some (hex_encode (ae_random (se_auth E))) else None);
                  sealed = (case secret of
                      Some s \<Rightarrow> (case vault_seal (se_aead E) (se_rng E) v (bytes_of (bound_secret E project s)) of
                          Inl _ \<Rightarrow> Inl (failure 500 ''encryption_failed'')
                        | Inr b \<Rightarrow> Inr b)
                    | None \<Rightarrow> ok_or internal (map_option ti_secret current))
              in (case sealed of
                    Inl r \<Rightarrow> (r, S)
                  | Inr blob \<Rightarrow>
                      if ae_late_fails (se_auth E) then (internal, S)
                      else
                        (plain 200 (JObj [(''version'', JInt (version + 1)), (''secret'', opt_json JStr secret)]),
                         S\<lparr>dk_integrations := upsert_integration project b blob (dk_integrations S),
                           dk_core := (dk_core S)\<lparr>team := (team (dk_core S))\<lparr>audit := record_in_transaction
                             (Some project) (Some (sx_user ctx)) ''task.integration_updated'' ''project''
                             (ae_uuid_text (se_auth E) project)
                             (JObj [(''version'', JInt (version + 1)), (''rotated'', JBool (secret \<noteq> None))])
                             (audit (team (dk_core S)))\<rparr>\<rparr>\<rparr>)))"

definition get_integration :: "signal_env \<Rightarrow> session_context \<Rightarrow> uuid \<Rightarrow> 'x desk \<Rightarrow> http_reply" where
  "get_integration E ctx project S =
     (case project_access (se_auth E) (dk_accounts S) ctx project of
        Inl r \<Rightarrow> r
      | Inr _ \<Rightarrow>
          if ae_fails (se_auth E) then internal
          else plain 200 (JObj [(''vaultConfigured'', JBool (se_vault E \<noteq> None)),
            (''configuration'', opt_json (\<lambda>c. JObj [(''repository'', JStr (ti_repository c)),
               (''environment'', JStr (ti_environment c)), (''enabled'', JBool (ti_enabled c)),
               (''version'', JInt (ti_version c)), (''secretConfigured'', JBool True)])
             (map_of (dk_integrations S) project))]))"

subsection \<open>Signatures\<close>

definition parse_i64 :: "string \<Rightarrow> int option" where
  "parse_i64 s = (case strip_prefix s ''-'' of
      Some r \<Rightarrow> if starts_with r ''+'' then None else map_option (\<lambda>n. - int n) (parse_unsigned (nat (I64_MAX + 1)) r)
    | None \<Rightarrow> map_option int (parse_unsigned (nat I64_MAX) s))"

definition hex_digit :: "char \<Rightarrow> nat option" where
  "hex_digit c = (let n = char_val c in
     if is_ascii_digit c then Some (n - 48)
     else if 97 \<le> n \<and> n \<le> 102 then Some (n - 87)
     else if 65 \<le> n \<and> n \<le> 70 then Some (n - 55)
     else None)"

text \<open>\<open>hex::decode\<close>\<close>
fun hex_decode :: "string \<Rightarrow> bytes option" where
  "hex_decode [] = Some []"
| "hex_decode [c] = None"
| "hex_decode (c # d # s) =
     (case (hex_digit c, hex_digit d, hex_decode s) of
        (Some a, Some b, Some r) \<Rightarrow> Some (of_nat (16 * a + b) # r)
      | _ \<Rightarrow> None)"

record signal_headers =
  sh_timestamp :: "string option"
  sh_signature :: "string option"

definition signed_text :: "string \<Rightarrow> bytes \<Rightarrow> bytes" where
  "signed_text timestamp body = bytes_of timestamp @ bytes_of ''.'' @ body"

text \<open>Opening a sealed value never panics (the vault's totality), so \<open>None\<close> is not distinguished.\<close>
definition signing_key :: "signal_env \<Rightarrow> vault \<Rightarrow> uuid \<Rightarrow> bytes \<Rightarrow> string option" where
  "signing_key E v project blob = (case vault_open (se_aead E) v blob of
      Some (Inr b) \<Rightarrow> Option.bind (from_utf8 b) (\<lambda>s. strip_prefix s (bound_secret E project []))
    | _ \<Rightarrow> None)"

definition verify_signature ::
  "signal_env \<Rightarrow> vault \<Rightarrow> integration \<Rightarrow> uuid \<Rightarrow> signal_headers \<Rightarrow> bytes \<Rightarrow> http_reply + unit" where
  "verify_signature E v c project h body =
     (let bad = failure 401 ''invalid_signature'' in
      bind_res (ok_or bad (sh_timestamp h)) (\<lambda>timestamp.
      bind_res (ok_or bad (parse_i64 timestamp)) (\<lambda>at.
      if 300 < \<bar>se_unix E - at\<bar> then Inl (failure 401 ''expired_signature'')
      else
        bind_res (ok_or bad (Option.bind (Option.bind (sh_signature h) (\<lambda>s. strip_prefix s ''sha256='')) hex_decode)) (\<lambda>sig.
        bind_res (ok_or (failure 503 ''decryption_failed'') (signing_key E v project (ti_secret c))) (\<lambda>key.
        if se_hmac E (bytes_of key) (signed_text timestamp body) = sig then Inr () else Inl bad)))))"

subsection \<open>Signals\<close>

record signal =
  sg_delivery_id :: string
  sg_task :: uuid
  sg_repository :: string
  sg_commit :: string
  sg_kind :: string
  sg_occurred_at :: instant
  sg_number :: "int option"
  sg_unit :: "string option"
  sg_e2e :: "string option"
  sg_release :: "string option"
  sg_environment :: "string option"

definition signal_keys :: "string list" where
  "signal_keys = [''deliveryId'', ''taskId'', ''repository'', ''commit'', ''kind'', ''occurredAt'', ''number'',
     ''unit'', ''e2e'', ''release'', ''environment'']"

text \<open>An optional field: absent or null is \<open>None\<close>, anything else must read.\<close>
definition optional :: "(json \<Rightarrow> 'a option) \<Rightarrow> json option \<Rightarrow> 'a option option" where
  "optional f v = (case v of None \<Rightarrow> Some None | Some JNull \<Rightarrow> Some None | Some j \<Rightarrow> map_option Some (f j))"

definition signal_from :: "signal_env \<Rightarrow> (nat \<Rightarrow> json option) \<Rightarrow> signal option" where
  "signal_from E at =
     Option.bind (Option.bind (at 0) as_str) (\<lambda>delivery.
     Option.bind (Option.bind (Option.bind (at 1) as_str) (se_uuid E)) (\<lambda>tid.
     Option.bind (Option.bind (at 2) as_str) (\<lambda>repository.
     Option.bind (Option.bind (at 3) as_str) (\<lambda>commit.
     Option.bind (Option.bind (at 4) as_str) (\<lambda>kind.
     Option.bind (Option.bind (Option.bind (at 5) as_str) (se_parse E)) (\<lambda>occurred.
     Option.bind (optional as_i64 (at 6)) (\<lambda>number.
     Option.bind (optional as_str (at 7)) (\<lambda>un.
     Option.bind (optional as_str (at 8)) (\<lambda>e2e.
     Option.bind (optional as_str (at 9)) (\<lambda>release.
     Option.bind (optional as_str (at 10)) (\<lambda>environment.
     Some \<lparr>sg_delivery_id = delivery, sg_task = tid, sg_repository = repository, sg_commit = commit,
           sg_kind = kind, sg_occurred_at = occurred, sg_number = number, sg_unit = un, sg_e2e = e2e,
           sg_release = release, sg_environment = environment\<rparr>)))))))))))"

text \<open>
  The derived reader refuses a field it does not know and one that comes twice; an array is read
  in the order of the fields and must have all of them.
\<close>
definition signal_of_json :: "signal_env \<Rightarrow> json \<Rightarrow> signal option" where
  "signal_of_json E v = (case v of
      JObj fs \<Rightarrow> if distinct (map fst fs) \<and> set (map fst fs) \<subseteq> set signal_keys
        then signal_from E (\<lambda>i. map_of fs (signal_keys ! i)) else None
    | JArr xs \<Rightarrow> if length xs = length signal_keys then signal_from E (\<lambda>i. Some (xs ! i)) else None
    | _ \<Rightarrow> None)"

definition signal_json :: "signal_env \<Rightarrow> string \<Rightarrow> signal \<Rightarrow> json" where
  "signal_json E occurred s = JObj [(''deliveryId'', JStr (sg_delivery_id s)),
     (''taskId'', uuid_str (se_desk E) (sg_task s)), (''repository'', JStr (sg_repository s)),
     (''commit'', JStr (sg_commit s)), (''kind'', JStr (sg_kind s)), (''occurredAt'', JStr occurred),
     (''number'', opt_json JInt (sg_number s)), (''unit'', opt_json JStr (sg_unit s)),
     (''e2e'', opt_json JStr (sg_e2e s)), (''release'', opt_json JStr (sg_release s)),
     (''environment'', opt_json JStr (sg_environment s))]"

definition verdict :: "string option \<Rightarrow> bool" where
  "verdict v \<longleftrightarrow> v = Some ''passed'' \<or> v = Some ''failed''"

definition signal_valid :: "instant \<Rightarrow> signal \<Rightarrow> bool" where
  "signal_valid now s \<longleftrightarrow>
     sg_delivery_id s \<noteq> [] \<and> length (sg_delivery_id s) \<le> 128 \<and> list_all is_ascii_graphic (sg_delivery_id s)
     \<and> (length (sg_commit s) = 40 \<or> length (sg_commit s) = 64) \<and> list_all is_ascii_hexdigit (sg_commit s)
     \<and> sg_occurred_at s \<le> now
     \<and> (if sg_kind s = ''work.started'' then True
        else if sg_kind s = ''pr.opened'' \<or> sg_kind s = ''pr.merged''
        then (case sg_number s of Some n \<Rightarrow> 0 < n | None \<Rightarrow> False)
        else if sg_kind s = ''ci.completed'' then verdict (sg_unit s) \<and> verdict (sg_e2e s)
        else if sg_kind s = ''release.deployed''
        then (case sg_release s of Some v \<Rightarrow> trim v \<noteq> [] \<and> length v \<le> 200 | None \<Rightarrow> False)
          \<and> sg_environment s \<noteq> None
        else False)"

text \<open>A \<open>timestamptz\<close> column keeps whole microseconds.\<close>
definition micros :: "instant \<Rightarrow> instant" where
  "micros t = t div 1000 * 1000"

subsection \<open>Evidence\<close>

definition latest :: "(delivery_row \<Rightarrow> bool) \<Rightarrow> delivery_row list \<Rightarrow> delivery_row option" where
  "latest P rows = (case sort_key (\<lambda>d. (- int (dl_occurred d), - int (dl_id d))) (filter P rows) of
      [] \<Rightarrow> None | d # _ \<Rightarrow> Some d)"

text \<open>What counts for a task: accepted under this configuration and after the barrier.\<close>
definition counts_for :: "uuid \<Rightarrow> int \<Rightarrow> instant \<Rightarrow> delivery_row \<Rightarrow> bool" where
  "counts_for tid version barrier d \<longleftrightarrow> dl_task d = tid \<and> dl_config d = version
     \<and> micros barrier < dl_occurred d \<and> dl_outcome d = ''accepted''"

definition authority_of :: "uuid \<Rightarrow> int \<Rightarrow> instant \<Rightarrow> delivery_row list \<Rightarrow> json option" where
  "authority_of tid version barrier rows = map_option dl_payload (latest (\<lambda>d. counts_for tid version barrier d
     \<and> dl_kind d \<in> {''work.started'', ''pr.opened'', ''pr.merged''}) rows)"

definition proof_of :: "uuid \<Rightarrow> int \<Rightarrow> instant \<Rightarrow> string \<Rightarrow> string \<Rightarrow> delivery_row list \<Rightarrow> json option" where
  "proof_of tid version barrier commit kind rows = map_option dl_payload (latest (\<lambda>d.
     counts_for tid version barrier d \<and> dl_commit d = commit \<and> dl_kind d = kind) rows)"

definition member_is :: "string \<Rightarrow> string \<Rightarrow> json \<Rightarrow> bool" where
  "member_is k s v \<longleftrightarrow> str_at k v = Some s"

text \<open>What the evidence says: the stage, whether the fix is verified, and its release.\<close>
definition judge ::
  "(string \<Rightarrow> instant option) \<Rightarrow> json \<Rightarrow> json option \<Rightarrow> json option \<Rightarrow> string \<times> bool \<times> string" where
  "judge parse_time authority checks deployment =
     (let merged = member_is ''kind'' ''pr.merged'' authority;
          passed = merged \<and> (case checks of None \<Rightarrow> False
            | Some v \<Rightarrow> member_is ''unit'' ''passed'' v \<and> member_is ''e2e'' ''passed'' v);
          time = (\<lambda>v. Option.bind (str_at ''occurredAt'' v) parse_time);
          deployed = (case deployment of None \<Rightarrow> False
            | Some d \<Rightarrow> (case (time d, time authority) of (Some t, Some m) \<Rightarrow> m \<le> t | _ \<Rightarrow> False));
          vouched = passed \<and> deployed;
          stage = (if vouched then ''done'' else if merged then ''verify''
            else if member_is ''kind'' ''pr.opened'' authority then ''review'' else ''inProgress'')
      in (stage, vouched,
          if vouched then unwrap_or [] (Option.bind deployment (str_at ''release'')) else []))"

definition time_json :: "signal_env \<Rightarrow> instant \<Rightarrow> json" where
  "time_json E t = (case se_show E t of Some s \<Rightarrow> JStr s | None \<Rightarrow> JNull)"

definition evidence_json ::
  "signal_env \<Rightarrow> instant \<Rightarrow> int \<Rightarrow> string \<Rightarrow> json \<Rightarrow> json option \<Rightarrow> json option \<Rightarrow> json" where
  "evidence_json E barrier version commit authority checks deployment =
     JObj [(''regressionAt'', time_json E barrier), (''configurationVersion'', JInt version),
       (''workingCommit'', JStr commit), (''authority'', authority), (''checks'', opt_json id checks),
       (''deployment'', opt_json id deployment)]"

definition automate :: "string \<Rightarrow> bool \<Rightarrow> string \<Rightarrow> json \<Rightarrow> instant \<Rightarrow> task \<Rightarrow> task" where
  "automate stage vouched release evidence now t = t\<lparr>ta_stage := stage, ta_verified := vouched,
     ta_fix_release := release, ta_automation := evidence, ta_version := Suc (ta_version t), ta_updated := now\<rparr>"

definition note_issue :: "uuid \<Rightarrow> json \<Rightarrow> 'x db \<Rightarrow> 'x db" where
  "note_issue g body db = db\<lparr>activity := activity db @ [(g, ''status'', body, None)]\<rparr>"

text \<open>A closed task whose fix is no longer verified reopens its issue; a verified fix resolves it.\<close>
definition settle_evidence ::
  "signal_env \<Rightarrow> signal \<Rightarrow> string \<Rightarrow> bool \<Rightarrow> string \<Rightarrow> string \<Rightarrow> uuid option \<Rightarrow> 'x db \<Rightarrow> 'x db" where
  "settle_evidence E s commit vouched release old_stage issue db = (case issue of
      None \<Rightarrow> db
    | Some g \<Rightarrow>
        if vouched then
          note_issue g (JObj [(''taskId'', uuid_str (se_desk E) (sg_task s)), (''commit'', JStr commit),
              (''release'', JStr release), (''verified'', JBool True)])
            (update_issue g (\<lambda>r. r\<lparr>is_status := ''resolved'', is_resolved_in := Some release,
               is_resolved_at := Some (ae_now (se_auth E)), is_regressed_at := None, is_regressed_in := None\<rparr>) db)
        else if old_stage = ''done'' then
          note_issue g (JObj [(''taskId'', uuid_str (se_desk E) (sg_task s)), (''commit'', JStr commit),
              (''verified'', JBool False)])
            (update_issue g (\<lambda>r. if is_status r = ''resolved'' then r\<lparr>is_status := ''open'',
               is_resolved_at := None, is_resolved_in := None\<rparr> else r) db)
        else db)"

text \<open>\<open>t\<close> is the locked row; \<open>rows\<close> are the deliveries, this one included.\<close>
definition apply_evidence ::
  "signal_env \<Rightarrow> uuid \<Rightarrow> signal \<Rightarrow> int \<Rightarrow> instant \<Rightarrow> task \<Rightarrow> uuid option \<Rightarrow> delivery_row list \<Rightarrow> 'x db
     \<Rightarrow> http_reply + 'x db" where
  "apply_evidence E project s version barrier t issue rows db =
     (case authority_of (sg_task s) version barrier rows of
        None \<Rightarrow> Inr db
      | Some authority \<Rightarrow>
          bind_res (ok_or internal (str_at ''commit'' authority)) (\<lambda>commit.
          let checks = proof_of (sg_task s) version barrier commit ''ci.completed'' rows;
              deployment = proof_of (sg_task s) version barrier commit ''release.deployed'' rows;
              evidence = evidence_json E barrier version commit authority checks deployment
          in case judge (se_parse E) authority checks deployment of (stage, vouched, release) \<Rightarrow>
             if evidence = ta_automation t \<and> ta_stage t = stage then Inr db
             else
               let db = update_task (sg_task s) (automate stage vouched release evidence (ae_now (se_auth E))) db in
               bind_res (db_failed (team_event (ae_uuid_text (se_auth E)) (generation_row db) (de_event (se_desk E))
                   (de_note (se_desk E)) (sg_task s) None (''auto.'' @ sg_kind s) commit (ta_assignee t) ''task''
                   (team db))) (\<lambda>tm.
               Inr (settle_evidence E s commit vouched release (ta_stage t) issue
                 (db\<lparr>team := tm\<lparr>audit := record_in_transaction (Some project) None ''task.automated'' ''task''
                    (ae_uuid_text (se_auth E) (sg_task s))
                    (JObj [(''deliveryId'', JStr (sg_delivery_id s)), (''stage'', JStr stage), (''commit'', JStr commit)])
                    (audit tm)\<rparr>\<rparr>)))))"

subsection \<open>Receiving\<close>

text \<open>The instant evidence must be later than.\<close>
definition barrier_of :: "signal_env \<Rightarrow> task \<Rightarrow> instant" where
  "barrier_of E t = unwrap_or (ta_created t) (Option.bind (str_at ''regressionAt'' (ta_automation t)) (se_parse E))"

definition ignores :: "signal_env \<Rightarrow> signal \<Rightarrow> task \<Rightarrow> bool" where
  "ignores E s t \<longleftrightarrow> sg_occurred_at s \<le> barrier_of E t \<or> ta_stage t = ''cancelled''"

definition in_scope :: "signal_env \<Rightarrow> integration \<Rightarrow> signal \<Rightarrow> bool" where
  "in_scope E c s \<longleftrightarrow> signal_valid (se_now E) s \<and> sg_repository s = ti_repository c
     \<and> (sg_kind s = ''release.deployed'' \<longrightarrow> sg_environment s = Some (ti_environment c))"

definition read_signal :: "signal_env \<Rightarrow> integration \<Rightarrow> bytes \<Rightarrow> http_reply + signal" where
  "read_signal E c body =
     bind_res (ok_or (failure 400 ''invalid_signal'') (Option.bind (se_read E body) (signal_of_json E))) (\<lambda>s.
       if in_scope E c s then Inr (s\<lparr>sg_commit := to_ascii_lowercase (sg_commit s)\<rparr>)
       else Inl (failure 400 ''signal_scope_mismatch''))"

definition delivery_of :: "signal_env \<Rightarrow> uuid \<Rightarrow> int \<Rightarrow> signal \<Rightarrow> string \<Rightarrow> json \<Rightarrow> bool \<Rightarrow> delivery_row" where
  "delivery_of E project version s digest payload ignored =
     \<lparr>dl_id = se_delivery E, dl_project = project, dl_task = sg_task s, dl_delivery = sg_delivery_id s,
      dl_config = version, dl_commit = sg_commit s, dl_kind = sg_kind s,
      dl_occurred = micros (sg_occurred_at s), dl_digest = digest, dl_payload = payload,
      dl_outcome = (if ignored then ''ignored'' else ''accepted'')\<rparr>"

definition outcome_json :: "string \<Rightarrow> json" where
  "outcome_json s = JObj [(''outcome'', JStr s)]"

text \<open>A checked signal of a delivery id not seen before.\<close>
definition take_in ::
  "signal_env \<Rightarrow> uuid \<Rightarrow> int \<Rightarrow> signal \<Rightarrow> string \<Rightarrow> 'x desk \<Rightarrow> http_reply + json \<times> 'x desk" where
  "take_in E project version s digest S =
     bind_res (ok_or not_found (Option.bind (find_task (sg_task s) (dk_core S))
         (\<lambda>t. if ta_project t = project then Some t else None))) (\<lambda>t.
     bind_res (ok_or (failure 400 ''invalid_signal'') (se_show E (sg_occurred_at s))) (\<lambda>occurred.
     let ignored = ignores E s t;
         row = delivery_of E project version s digest (signal_json E occurred s) ignored;
         rows = dk_deliveries S @ [row]
     in if se_delivery E \<in> dl_id ` set (dk_deliveries S) then Inl internal
        else bind_res (if ignored then Inr (dk_core S)
          else apply_evidence E project s version (barrier_of E t) t (ta_issue t) rows (dk_core S)) (\<lambda>db.
        if ae_late_fails (se_auth E) then Inl internal
        else Inr (outcome_json (dl_outcome row), S\<lparr>dk_core := db, dk_deliveries := rows\<rparr>))))"

definition receive_inner ::
  "signal_env \<Rightarrow> uuid \<Rightarrow> signal_headers \<Rightarrow> bytes \<Rightarrow> 'x desk \<Rightarrow> http_reply + json \<times> 'x desk" where
  "receive_inner E project h body S =
     (if 16384 < length body then Inl (failure 413 ''signal_too_large'')
      else bind_res (ok_or (failure 503 ''vault_unconfigured'') (se_vault E)) (\<lambda>v.
        if ae_fails (se_auth E) then Inl internal
        else if project \<notin> set (ac_projects (dk_accounts S)) then Inl not_found
        else
          bind_res (ok_or (failure 404 ''integration_unavailable'') (Option.bind (map_of (dk_integrations S) project)
              (\<lambda>c. if ti_enabled c then Some c else None))) (\<lambda>c.
          bind_res (verify_signature E v c project h body) (\<lambda>_.
          bind_res (read_signal E c body) (\<lambda>s.
          let digest = hex_encode (ae_sha256 (se_auth E) body) in
          case List.find (\<lambda>d. dl_project d = project \<and> dl_delivery d = sg_delivery_id s) (dk_deliveries S) of
            Some prior \<Rightarrow>
              if dl_digest prior \<noteq> digest then Inl (failure 409 ''delivery_conflict'')
              else Inr (outcome_json ''duplicate'', S)
          | None \<Rightarrow> take_in E project (ti_version c) s digest S)))))"

definition receive ::
  "signal_env \<Rightarrow> uuid \<Rightarrow> signal_headers \<Rightarrow> bytes \<Rightarrow> 'x desk \<Rightarrow> http_reply \<times> 'x desk" where
  "receive E project h body S = settled (receive_inner E project h body S) S"

subsection \<open>What is signed under a configured secret is accepted\<close>

lemma strip_prefix_append [simp]: "strip_prefix (p @ s) p = Some s"
  by (simp add: strip_prefix_def)

text \<open>The key read back from the sealed value is the secret that was shown when it was configured.\<close>
lemma signing_key_sealed:
  assumes "aead_lawful (se_aead E)" and "rng_fills g" and "key_id_new i = Inr (vault_key_id v)"
    and "vault_seal (se_aead E) g v (bytes_of (bound_secret E p s)) = Inr blob" and "utf8 (bound_secret E p s)"
  shows "signing_key E v p blob = Some s"
proof -
  have "vault_open (se_aead E) v blob = Some (Inr (bytes_of (bound_secret E p s)))"
    using vault_open_sealed [OF assms(1-4)] .
  moreover have "strip_prefix (bound_secret E p s) (bound_secret E p []) = Some s"
    using strip_prefix_append [of "bound_secret E p []" s] by (simp add: bound_secret_def)
  ultimately show ?thesis using assms(5) by (simp add: signing_key_def from_utf8_def)
qed

text \<open>A signal written by the derived serialisation is read back.\<close>
lemma signal_round_trip:
  assumes "se_uuid E (ae_uuid_text (se_auth E) (sg_task s)) = Some (sg_task s)" and "se_parse E occurred = Some (sg_occurred_at s)"
    and "\<forall>n. sg_number s = Some n \<longrightarrow> I64_MIN \<le> n \<and> n \<le> I64_MAX"
  shows "signal_of_json E (signal_json E occurred s) = Some s"
  using assms
  by (cases "sg_number s"; cases "sg_unit s"; cases "sg_e2e s"; cases "sg_release s"; cases "sg_environment s")
    (simp_all add: signal_of_json_def signal_json_def signal_keys_def signal_from_def optional_def opt_json_def as_str_def as_i64_def)

lemma hex_digit_to [simp]: "n < 16 \<Longrightarrow> hex_digit (to_hex_digit n) = Some n"
  by (auto simp: hex_digit_def to_hex_digit_def char_val_def is_ascii_digit_def Let_def)

lemma hex_round_trip [simp]: "hex_decode (hex_encode b) = Some b"
proof (induction b)
  case (Cons w b)
  have "unat w < 256" using unsigned_less [of w, where 'a = nat] by simp
  then have "unat w div 16 < 16" "unat w mod 16 < 16" by auto
  moreover have "16 * (unat w div 16) + unat w mod 16 = unat w" by simp
  ultimately have "hex_decode (hex_encode (w # b)) = Some (of_nat (unat w) # b)"
    using Cons by (simp add: hex_encode_def)
  then show ?case by simp
qed (simp add: hex_encode_def)

lemma ascii_hex_encode: "list_all (\<lambda>c. char_val c < 128) (hex_encode b)"
proof -
  have "char_val (to_hex_digit n) < 128" if "n < 16" for n
    using that by (simp add: to_hex_digit_def char_val_def)
  moreover have "unat w div 16 < 16" for w :: byte
    using unsigned_less [of w, where 'a = nat] by simp
  ultimately show ?thesis by (simp add: hex_encode_def list_all_iff)
qed

text \<open>C16. Whatever a caller signs with the secret it was shown is accepted: when configuring a
  project's integration answers with a secret, a request whose signature is the hexadecimal
  HMAC of \<open>timestamp.body\<close> under that secret, with a timestamp at most 300 seconds from the clock,
  passes the signature check of the integration as it is now stored.\<close>
theorem configured_secret_signs:
  assumes lawful: "aead_lawful (se_aead E)" "rng_fills (se_rng E)" "key_id_new i = Inr (vault_key_id v)"
    and vault: "se_vault E = Some v"
    and run: "configure_task_signals E ctx p b S = (plain 200 (JObj [(''version'', n), (''secret'', JStr secret)]), S')"
    and ascii: "list_all (\<lambda>c. char_val c < 128) (ae_uuid_text (se_auth E) p)"
    and time: "parse_i64 timestamp = Some at" "\<bar>se_unix F - at\<bar> \<le> 300"
    and same: "se_aead F = se_aead E" "ae_uuid_text (se_auth F) = ae_uuid_text (se_auth E)"
    and key: "signature = hex_encode (se_hmac F (bytes_of secret) (signed_text timestamp body))"
  shows "\<exists>c. map_of (dk_integrations S') p = Some c
    \<and> verify_signature F v c p \<lparr>sh_timestamp = Some timestamp, sh_signature = Some (''sha256='' @ signature)\<rparr> body = Inr ()"
proof -
  let ?shown = "hex_encode (ae_random (se_auth E))"
  from run vault obtain blob where secret: "secret = ?shown"
    and sealed: "vault_seal (se_aead E) (se_rng E) v (bytes_of (bound_secret E p ?shown)) = Inr blob"
    and S': "dk_integrations S' = upsert_integration p b blob (dk_integrations S)"
    by (auto simp: configure_task_signals_def internal_def not_found_def plain_def failure_def opt_json_def Let_def
        split: if_splits option.splits sum.splits)
  have "list_all (\<lambda>c. char_val c < 128) (bound_secret E p ?shown)"
    using ascii ascii_hex_encode by (simp add: bound_secret_def char_val_def)
  then have "utf8 (bound_secret E p ?shown)"
    using utf8_ascii_append [of "bound_secret E p ?shown" "[]"] by simp
  then have "signing_key E v p blob = Some secret"
    using signing_key_sealed [OF lawful sealed] secret by simp
  moreover have b: "bound_secret F p [] = bound_secret E p []" using same(2) by (simp add: bound_secret_def)
  ultimately have k: "signing_key F v p blob = Some secret" unfolding signing_key_def same(1) b by simp
  obtain c where c: "map_of (dk_integrations S') p = Some c" "ti_secret c = blob"
    unfolding S' upsert_integration_def by (simp add: update_conv')
  have "verify_signature F v c p \<lparr>sh_timestamp = Some timestamp, sh_signature = Some (''sha256='' @ signature)\<rparr> body = Inr ()"
    using time strip_prefix_append [of "''sha256=''" signature]
    by (simp only: verify_signature_def signal_headers.simps) (simp add: c k key not_less Let_def)
  with c show ?thesis by blast
qed

subsection \<open>An instance for the witnesses\<close>

text \<open>Timestamps in unary, so that reading one back is measuring it.\<close>
definition toy_text :: "nat \<Rightarrow> string" where "toy_text t = replicate t (CHR ''x'')"

lemma length_toy_text [simp]: "length (toy_text t) = t"
  by (simp add: toy_text_def)

definition toy_vault :: vault where
  "toy_vault = \<lparr>master = MasterKey (replicate 32 7), vault_key_id = KeyId ''k1''\<rparr>"

definition toy_signal_env :: "(bytes \<Rightarrow> json option) \<Rightarrow> uuid \<Rightarrow> signal_env" where
  "toy_signal_env f i = \<lparr>se_desk = toy_desk_env, se_vault = Some toy_vault, se_aead = toy_aead, se_rng = toy_rng,
     se_hmac = (\<lambda>k m. []), se_now = 100000, se_unix = 0, se_read = f, se_uuid = (\<lambda>_. Some 9),
     se_parse = (\<lambda>s. Some (length s)), se_show = (\<lambda>t. Some (toy_text t)), se_delivery = i\<rparr>"

lemma toy_signal_env_sel [simp]:
  "se_desk (toy_signal_env f i) = toy_desk_env" "se_vault (toy_signal_env f i) = Some toy_vault"
  "se_aead (toy_signal_env f i) = toy_aead" "se_rng (toy_signal_env f i) = toy_rng"
  "se_hmac (toy_signal_env f i) = (\<lambda>k m. [])" "se_now (toy_signal_env f i) = 100000" "se_unix (toy_signal_env f i) = 0"
  "se_read (toy_signal_env f i) = f" "se_uuid (toy_signal_env f i) = (\<lambda>_. Some 9)"
  "se_parse (toy_signal_env f i) = (\<lambda>s. Some (length s))" "se_show (toy_signal_env f i) = (\<lambda>t. Some (toy_text t))"
  "se_delivery (toy_signal_env f i) = i"
  by (simp_all add: toy_signal_env_def)

definition toy_configure :: configure where
  "toy_configure = \<lparr>cf_repository = ''o/r'', cf_environment = ''live'', cf_enabled = True, cf_rotate = False, cf_version = 0\<rparr>"

lemma toy_configure_valid: "valid_configuration toy_configure"
  unfolding toy_configure_def by code_simp

lemma toy_key_id: "key_id_new ''k1'' = Inr (vault_key_id toy_vault)"
  by (simp add: toy_vault_def key_id_new_def KEY_ID_MAX_LEN_def char_val_def)

lemma toy_number: "ae_uuid_text (de_auth toy_desk_env) 4 = ''4''" "parse_i64 ''7'' = Some 7"
proof -
  have "show_nat 4 = ''4''" by code_simp
  then show "ae_uuid_text (de_auth toy_desk_env) 4 = ''4''" by (simp add: toy_desk_env_def toy_env_def)
  show "parse_i64 ''7'' = Some 7"
    by (simp add: parse_i64_def parse_unsigned_def strip_prefix_def starts_with_def I64_MAX_def is_ascii_digit_def char_val_def)
qed

theorem configured_secret_signs_witness:
  "\<exists>(S' :: unit desk) c. configure_task_signals (toy_signal_env (\<lambda>_. None) 50) \<lparr>sx_user = 1, sx_role = Superadmin, sx_hash = []\<rparr> 4
       toy_configure toy_desk = (plain 200 (JObj [(''version'', JInt 1), (''secret'', JStr [])]), S')
     \<and> map_of (dk_integrations S') 4 = Some c
     \<and> verify_signature (toy_signal_env (\<lambda>_. None) 50) toy_vault c 4
         \<lparr>sh_timestamp = Some ''7'', sh_signature = Some (''sha256='' @ [])\<rparr> [1, 2] = Inr ()"
proof -
  let ?E = "toy_signal_env (\<lambda>_. None) 50"
  have "\<exists>S' :: unit desk. configure_task_signals ?E \<lparr>sx_user = 1, sx_role = Superadmin, sx_hash = []\<rparr> 4
       toy_configure toy_desk = (plain 200 (JObj [(''version'', JInt 1), (''secret'', JStr [])]), S')"
    by (simp add: configure_task_signals_def toy_configure_valid)
      (simp add: toy_configure_def toy_desk_simps vault_seal_def toy_rng_def toy_aead_def toy_vault_def Let_def hex_encode_def opt_json_def)
  then obtain S' :: "unit desk" where run: "configure_task_signals ?E \<lparr>sx_user = 1, sx_role = Superadmin, sx_hash = []\<rparr> 4
       toy_configure toy_desk = (plain 200 (JObj [(''version'', JInt 1), (''secret'', JStr [])]), S')" by blast
  have "aead_lawful (se_aead ?E)" "rng_fills (se_rng ?E)" "se_vault ?E = Some toy_vault"
    "list_all (\<lambda>c. char_val c < 128) (ae_uuid_text (se_auth ?E) 4)" "\<bar>se_unix ?E - 7\<bar> \<le> 300"
    "[] = hex_encode (se_hmac ?E (bytes_of []) (signed_text ''7'' [1, 2]))"
    by (simp_all add: toy_aead_lawful toy_rng_fills toy_number char_val_def hex_encode_def)
  from configured_secret_signs [OF this(1,2) toy_key_id this(3) run this(4) toy_number(2) this(5) refl refl this(6)] run
  show ?thesis by blast
qed

end
