(* ===== verification/Inbox.thy ===== *)
theory Inbox
  imports Tasks
begin

text \<open>
  Personal notifications: the dispatcher of \<^verbatim>\<open>self-hosted/server/src/team.rs\<close>, which turns each
  committed task event into at most one inbox item, and the inbox's operations,
  \<^verbatim>\<open>handlers/inbox.rs\<close>, which check on every call that the user still works on the project.
  \<open>outbox\<close> is in the order the events were written; an event is pending until its transaction has
  acknowledged it (\<open>dk_delivered\<close>).  Several dispatchers may run: \<open>locked\<close> are the rows the others
  hold.
\<close>

subsection \<open>The dispatcher\<close>

record dispatch_env =
  di_now :: instant
  di_fresh :: uuid
  di_locked :: "uuid list"
  di_fails :: bool

definition pending :: "'x desk \<Rightarrow> uuid list" where
  "pending S = filter (\<lambda>e. e \<notin> set (dk_delivered S)) (outbox (team (dk_core S)))"

definition wants :: "preferences option \<Rightarrow> string \<Rightarrow> bool" where
  "wants p category = (case p of None \<Rightarrow> True
    | Some p \<Rightarrow> if category = ''assignment'' then pf_assignments p
        else if category = ''mention'' then pf_mentions p else pf_task_updates p)"

definition inbox_row :: "dispatch_env \<Rightarrow> 'x desk \<Rightarrow> uuid \<Rightarrow> inbox_item option" where
  "inbox_row E S event =
     Option.bind (List.find (\<lambda>e. te_id e = event) (task_events (team (dk_core S)))) (\<lambda>e.
     Option.bind (find_task (te_task e) (dk_core S)) (\<lambda>t.
     Option.bind (te_notify e) (\<lambda>u.
       if works_on (dk_accounts S) (ta_project t) u \<and> wants (map_of (dk_prefs S) u) (te_category e)
       then Some \<lparr>ib_id = di_fresh E, ib_user = u, ib_project = ta_project t, ib_task = ta_id t,
              ib_source = te_id e, ib_category = te_category e, ib_title = ta_title t, ib_body = te_body e,
              ib_created = di_now E, ib_read = None, ib_archived = None\<rparr>
       else None)))"

definition put_item :: "inbox_item option \<Rightarrow> inbox_item list \<Rightarrow> inbox_item list" where
  "put_item x items = (case x of
      None \<Rightarrow> items
    | Some b \<Rightarrow> if \<exists>a \<in> set items. ib_user a = ib_user b \<and> ib_source a = ib_source b then items else items @ [b])"

text \<open>\<open>Ok(false)\<close> when there is nothing to do; \<open>None\<close> is the error, after which nothing has changed.\<close>
definition dispatch :: "dispatch_env \<Rightarrow> 'x desk \<Rightarrow> bool option \<times> 'x desk" where
  "dispatch E S =
     (if di_fails E then (None, S)
      else case List.find (\<lambda>e. e \<notin> set (di_locked E)) (pending S) of
        None \<Rightarrow> (Some False, S)
      | Some e \<Rightarrow>
          if di_fresh E \<in> ib_id ` set (dk_inbox S) then (None, S)
          else (Some True, S\<lparr>dk_inbox := put_item (inbox_row E S e) (dk_inbox S),
                  dk_delivered := dk_delivered S @ [e]\<rparr>))"

subsection \<open>The inbox\<close>

text \<open>\<open>ACCESS\<close>: the user's own items, of projects the user still works on.\<close>
definition own_item :: "session_context \<Rightarrow> 'x desk \<Rightarrow> inbox_item \<Rightarrow> bool" where
  "own_item ctx S b \<longleftrightarrow> ib_user b = sx_user ctx
     \<and> (sx_role ctx = Superadmin \<or> (sx_user ctx, ib_project b) \<in> set (ac_assigned (dk_accounts S)))"

record inbox_query =
  iq_project :: "uuid option"
  iq_unread :: "bool option"
  iq_archived :: "bool option"
  iq_offset :: "int option"
  iq_limit :: "int option"

definition item_json :: "desk_env \<Rightarrow> inbox_item \<Rightarrow> json" where
  "item_json E b = JObj [(''id'', uuid_str E (ib_id b)), (''projectId'', uuid_str E (ib_project b)),
     (''taskId'', uuid_str E (ib_task b)), (''category'', JStr (ib_category b)), (''title'', JStr (ib_title b)),
     (''body'', JStr (ib_body b)), (''at'', JStr (de_stamp E (ib_created b))), (''read'', JBool (ib_read b \<noteq> None)),
     (''archived'', JBool (ib_archived b \<noteq> None))]"

definition inbox_selected :: "inbox_query \<Rightarrow> inbox_item \<Rightarrow> bool" where
  "inbox_selected q b \<longleftrightarrow> (case iq_project q of None \<Rightarrow> True | Some p \<Rightarrow> ib_project b = p)
     \<and> (unwrap_or False (iq_unread q) \<longrightarrow> ib_read b = None)
     \<and> (ib_archived b \<noteq> None) = unwrap_or False (iq_archived q)"

definition list_inbox :: "desk_env \<Rightarrow> session_context \<Rightarrow> inbox_query \<Rightarrow> 'x desk \<Rightarrow> http_reply" where
  "list_inbox E ctx q S =
     (if ae_fails (de_auth E) then internal
      else
        let offset = clamp 0 1000000 (unwrap_or 0 (iq_offset q));
            limit = clamp 1 100 (unwrap_or 50 (iq_limit q));
            visible = filter (own_item ctx S) (dk_inbox S);
            chosen = filter (inbox_selected q) visible;
            page = take limit (drop offset (sort_key (\<lambda>b. (- int (ib_created b), - int (ib_id b))) chosen))
        in plain 200 (JObj [(''items'', JArr (map (item_json E) page)), (''total'', JInt (int (length chosen))),
             (''unread'', JInt (int (length (filter (\<lambda>b. ib_read b = None \<and> ib_archived b = None) visible)))),
             (''nextOffset'', next_offset offset limit (length chosen))]))"

text \<open>\<open>CASE WHEN $4 IS NULL THEN read_at WHEN $4 THEN COALESCE(read_at,now()) ELSE NULL END\<close>\<close>
definition mark :: "instant \<Rightarrow> bool option \<Rightarrow> instant option \<Rightarrow> instant option" where
  "mark now flag at = (case flag of
      None \<Rightarrow> at
    | Some True \<Rightarrow> (case at of None \<Rightarrow> Some now | Some t \<Rightarrow> Some t)
    | Some False \<Rightarrow> None)"

definition update_inbox ::
  "desk_env \<Rightarrow> session_context \<Rightarrow> uuid \<Rightarrow> bool option \<Rightarrow> bool option \<Rightarrow> 'x desk \<Rightarrow> http_reply \<times> 'x desk" where
  "update_inbox E ctx i read_flag archived S =
     (let now = ae_now (de_auth E); hit = (\<lambda>b. own_item ctx S b \<and> ib_id b = i) in
      if ae_fails (de_auth E) then (internal, S)
      else if \<not> list_ex hit (dk_inbox S) then (not_found, S)
      else (ok_reply, S\<lparr>dk_inbox := map (\<lambda>b. if hit b then b\<lparr>ib_read := mark now read_flag (ib_read b),
              ib_archived := mark now archived (ib_archived b)\<rparr> else b) (dk_inbox S)\<rparr>))"

definition read_all :: "desk_env \<Rightarrow> session_context \<Rightarrow> 'x desk \<Rightarrow> http_reply \<times> 'x desk" where
  "read_all E ctx S =
     (let hit = (\<lambda>b. own_item ctx S b \<and> ib_read b = None \<and> ib_archived b = None) in
      if ae_fails (de_auth E) then (internal, S)
      else (plain 200 (JObj [(''updated'', JInt (int (length (filter hit (dk_inbox S)))))]),
            S\<lparr>dk_inbox := map (\<lambda>b. if hit b then b\<lparr>ib_read := Some (ae_now (de_auth E))\<rparr> else b) (dk_inbox S)\<rparr>))"

definition preferences_json :: "preferences \<Rightarrow> json" where
  "preferences_json p = JObj [(''assignments'', JBool (pf_assignments p)), (''mentions'', JBool (pf_mentions p)),
     (''taskUpdates'', JBool (pf_task_updates p)), (''monitors'', JBool (pf_monitors p))]"

definition default_preferences :: preferences where
  "default_preferences = \<lparr>pf_assignments = True, pf_mentions = True, pf_task_updates = True, pf_monitors = True\<rparr>"

definition get_preferences :: "desk_env \<Rightarrow> session_context \<Rightarrow> 'x desk \<Rightarrow> http_reply" where
  "get_preferences E ctx S = (if ae_fails (de_auth E) then internal
     else plain 200 (preferences_json (unwrap_or default_preferences (map_of (dk_prefs S) (sx_user ctx)))))"

definition save_preferences :: "desk_env \<Rightarrow> session_context \<Rightarrow> preferences \<Rightarrow> 'x desk \<Rightarrow> http_reply \<times> 'x desk" where
  "save_preferences E ctx p S =
     (if ae_fails (de_auth E) \<or> map_of (ac_users (dk_accounts S)) (sx_user ctx) = None then (internal, S)
      else (ok_reply, S\<lparr>dk_prefs := AList.update (sx_user ctx) p (dk_prefs S)\<rparr>))"

subsection \<open>Every event is delivered, and once\<close>

fun dispatches :: "(nat \<Rightarrow> dispatch_env) \<Rightarrow> nat \<Rightarrow> 'x desk \<Rightarrow> 'x desk" where
  "dispatches E 0 S = S"
| "dispatches E (Suc n) S = snd (dispatch (E n) (dispatches E n S))"

text \<open>Calls in which the database answers and no other dispatcher holds a row.\<close>
definition working :: "dispatch_env \<Rightarrow> bool" where
  "working E \<longleftrightarrow> \<not> di_fails E \<and> di_locked E = []"

text \<open>The user an event is for, if it is to reach the inbox.\<close>
definition addressee :: "'x desk \<Rightarrow> uuid \<Rightarrow> uuid option" where
  "addressee S e = map_option ib_user (inbox_row \<lparr>di_now = 0, di_fresh = 0, di_locked = [], di_fails = False\<rparr> S e)"

definition has_item :: "'x desk \<Rightarrow> uuid \<Rightarrow> uuid \<Rightarrow> bool" where
  "has_item S u e \<longleftrightarrow> (\<exists>b \<in> set (dk_inbox S). ib_user b = u \<and> ib_source b = e)"

text \<open>No user has two items of one event.\<close>
definition items_once :: "'x desk \<Rightarrow> bool" where
  "items_once S \<longleftrightarrow> distinct (map (\<lambda>b. (ib_user b, ib_source b)) (dk_inbox S))"

lemma dispatch_cases:
  obtains (idle) "dispatch E S = (Some False, S)" and "\<forall>e \<in> set (pending S). e \<in> set (di_locked E)"
  | (failed) "dispatch E S = (None, S)" and "di_fails E \<or> di_fresh E \<in> ib_id ` set (dk_inbox S)"
  | (delivered) e where "dispatch E S = (Some True, S\<lparr>dk_inbox := put_item (inbox_row E S e) (dk_inbox S),
        dk_delivered := dk_delivered S @ [e]\<rparr>)" and "e \<in> set (pending S)"
proof (cases "di_fails E")
  case True
  then show ?thesis by (intro failed) (simp_all add: dispatch_def)
next
  case ok: False
  show ?thesis
  proof (cases "List.find (\<lambda>e. e \<notin> set (di_locked E)) (pending S)")
    case None
    then have "\<forall>e \<in> set (pending S). e \<in> set (di_locked E)" by (auto simp: find_None_iff)
    with None ok show ?thesis by (intro idle) (simp_all add: dispatch_def)
  next
    case (Some e)
    then have "e \<in> set (pending S)" by (auto simp: find_Some_iff)
    with Some ok show ?thesis
      by (cases "di_fresh E \<in> ib_id ` set (dk_inbox S)")
        (rule failed delivered; simp add: dispatch_def)+
  qed
qed

lemma put_item_once:
  "distinct (map (\<lambda>b. (ib_user b, ib_source b)) items) \<Longrightarrow>
   distinct (map (\<lambda>b. (ib_user b, ib_source b)) (put_item x items))"
  by (auto simp: put_item_def split: option.splits)

lemma dispatch_once: "items_once S \<Longrightarrow> items_once (snd (dispatch E S))"
  by (cases rule: dispatch_cases [of E S]) (simp_all add: items_once_def put_item_once)

lemma dispatch_frame [simp]: "dk_core (snd (dispatch E S)) = dk_core S" "dk_accounts (snd (dispatch E S)) = dk_accounts S"
  "dk_prefs (snd (dispatch E S)) = dk_prefs S" "dk_receipts (snd (dispatch E S)) = dk_receipts S"
  "dk_deliveries (snd (dispatch E S)) = dk_deliveries S" "dk_integrations (snd (dispatch E S)) = dk_integrations S"
  by (cases rule: dispatch_cases [of E S]; simp)+

lemma dispatches_frame [simp]: "dk_core (dispatches E n S) = dk_core S" "dk_accounts (dispatches E n S) = dk_accounts S"
  "dk_prefs (dispatches E n S) = dk_prefs S"
  by (induction n) simp_all

lemma inbox_row_cong: "dk_core S = dk_core S' \<Longrightarrow> dk_accounts S = dk_accounts S' \<Longrightarrow> dk_prefs S = dk_prefs S' \<Longrightarrow>
   inbox_row E S e = inbox_row E S' e"
  by (simp add: inbox_row_def)

lemma inbox_row_shape:
  "inbox_row E S e = map_option (\<lambda>b. b\<lparr>ib_id := di_fresh E, ib_created := di_now E\<rparr>) (inbox_row F S e)"
  by (simp add: inbox_row_def split: Option.bind_splits)

lemma inbox_row_source:
  assumes "inbox_row E S e = Some b"
  shows "ib_source b = e" and "ib_id b = di_fresh E"
proof -
  from assms obtain v where v: "List.find (\<lambda>e'. te_id e' = e) (task_events (team (dk_core S))) = Some v"
    by (cases "List.find (\<lambda>e'. te_id e' = e) (task_events (team (dk_core S)))") (simp_all add: inbox_row_def)
  then have "te_id v = e" by (auto simp: find_Some_iff)
  with assms v show "ib_source b = e" and "ib_id b = di_fresh E"
    by (auto simp: inbox_row_def bind_eq_Some_conv split: if_splits)
qed

lemma inbox_row_user:
  assumes "addressee S e = Some u"
  obtains b where "inbox_row E S e = Some b" "ib_user b = u" "ib_source b = e"
proof -
  from assms obtain b where "inbox_row E S e = Some b" "ib_user b = u"
    unfolding addressee_def by (subst (asm) inbox_row_shape [of _ S e E]) auto
  with that inbox_row_source show ?thesis by blast
qed

lemma put_item_has: "inbox_row E S e = Some b \<Longrightarrow> \<exists>a \<in> set (put_item (inbox_row E S e) items). ib_user a = ib_user b \<and> ib_source a = ib_source b"
  by (auto simp: put_item_def)

lemma put_item_keeps: "set items \<subseteq> set (put_item x items)"
  by (auto simp: put_item_def split: option.splits)

lemma put_item_ids: "ib_id ` set (put_item (inbox_row E S e) items) \<subseteq> insert (di_fresh E) (ib_id ` set items)"
  by (auto simp: put_item_def dest: inbox_row_source(2) split: option.splits if_splits)

lemma pending_deliver:
  "e \<in> set (pending S) \<Longrightarrow> pending (S\<lparr>dk_inbox := i, dk_delivered := dk_delivered S @ [e]\<rparr>) = filter (\<lambda>x. x \<noteq> e) (pending S)"
  unfolding pending_def by (auto intro: filter_cong)

lemma length_filter_neq: "e \<in> set xs \<Longrightarrow> length (filter (\<lambda>x. x \<noteq> e) xs) < length xs"
  using length_filter_less [of e xs "\<lambda>x. x \<noteq> e"] by simp

text \<open>The state of the dispatcher after n calls.\<close>
lemma dispatches_invariant:
  assumes fresh: "distinct (map (\<lambda>k. di_fresh (E k)) [0..<n])" and new: "\<forall>k < n. di_fresh (E k) \<notin> ib_id ` set (dk_inbox S)"
  shows "length (pending (dispatches E n S)) + length (filter (\<lambda>k. working (E k)) [0..<n]) \<le> length (pending S)
      \<or> pending (dispatches E n S) = []"
    and "ib_id ` set (dk_inbox (dispatches E n S)) \<subseteq> ib_id ` set (dk_inbox S) \<union> (\<lambda>k. di_fresh (E k)) ` {0..<n}"
    and "\<forall>e u. e \<in> set (pending S) \<longrightarrow> addressee S e = Some u \<longrightarrow>
        e \<in> set (pending (dispatches E n S)) \<or> has_item (dispatches E n S) u e"
proof -
  have "(length (pending (dispatches E n S)) + length (filter (\<lambda>k. working (E k)) [0..<n]) \<le> length (pending S)
      \<or> pending (dispatches E n S) = [])
    \<and> ib_id ` set (dk_inbox (dispatches E n S)) \<subseteq> ib_id ` set (dk_inbox S) \<union> (\<lambda>k. di_fresh (E k)) ` {0..<n}
    \<and> (\<forall>e u. e \<in> set (pending S) \<longrightarrow> addressee S e = Some u \<longrightarrow>
        e \<in> set (pending (dispatches E n S)) \<or> has_item (dispatches E n S) u e)"
    using fresh new
  proof (induction n)
    case (Suc n)
    let ?T = "dispatches E n S"
    from Suc have len: "length (pending ?T) + length (filter (\<lambda>k. working (E k)) [0..<n]) \<le> length (pending S) \<or> pending ?T = []"
      and ids: "ib_id ` set (dk_inbox ?T) \<subseteq> ib_id ` set (dk_inbox S) \<union> (\<lambda>k. di_fresh (E k)) ` {0..<n}"
      and has: "\<And>e u. e \<in> set (pending S) \<Longrightarrow> addressee S e = Some u \<Longrightarrow> e \<in> set (pending ?T) \<or> has_item ?T u e"
      by auto
    have sub: "(\<lambda>k. di_fresh (E k)) ` {0..<n} \<subseteq> (\<lambda>k. di_fresh (E k)) ` {0..<Suc n}" by auto
    show ?case
    proof (cases rule: dispatch_cases [of "E n" ?T])
      case idle
      then have "pending ?T = [] \<or> \<not> working (E n)" by (auto simp: working_def)
      with idle(1) len ids has sub show ?thesis by auto
    next
      case failed
      have "di_fresh (E n) \<notin> ib_id ` set (dk_inbox ?T)"
        using ids Suc.prems by (auto simp: atLeast0LessThan)
      with failed(2) have "\<not> working (E n)" by (simp add: working_def)
      with failed(1) len ids has sub show ?thesis by auto
    next
      case (delivered e)
      let ?U = "dispatches E (Suc n) S"
      have U: "?U = ?T\<lparr>dk_inbox := put_item (inbox_row (E n) ?T e) (dk_inbox ?T), dk_delivered := dk_delivered ?T @ [e]\<rparr>"
        using delivered(1) by simp
      have p: "pending ?U = filter (\<lambda>x. x \<noteq> e) (pending ?T)"
        unfolding U by (rule pending_deliver [OF delivered(2)])
      then have "length (pending ?U) < length (pending ?T)" using length_filter_neq [OF delivered(2)] by simp
      with len have 1: "length (pending ?U) + length (filter (\<lambda>k. working (E k)) [0..<Suc n]) \<le> length (pending S) \<or> pending ?U = []"
        by (auto simp: delivered(2))
      have 2: "ib_id ` set (dk_inbox ?U) \<subseteq> ib_id ` set (dk_inbox S) \<union> (\<lambda>k. di_fresh (E k)) ` {0..<Suc n}"
        using put_item_ids [of "E n" ?T e "dk_inbox ?T"] ids unfolding U
        by (simp add: atLeast0LessThan lessThan_Suc) blast
      have 3: "x \<in> set (pending ?U) \<or> has_item ?U u x" if x: "x \<in> set (pending S)" "addressee S x = Some u" for x u
      proof (cases "x = e")
        case True
        obtain b where b: "inbox_row (E n) S e = Some b" "ib_user b = u" "ib_source b = e"
          using inbox_row_user [of S e u "E n"] x True by auto
        then have "inbox_row (E n) ?T e = Some b" by (simp add: inbox_row_cong [of ?T S])
        then have "has_item ?U u e" unfolding U has_item_def using put_item_has [of "E n" ?T e b "dk_inbox ?T"] b by simp
        with True show ?thesis by simp
      next
        case False
        from has [OF x] show ?thesis
        proof
          assume "has_item ?T u x"
          then show ?thesis unfolding U has_item_def using put_item_keeps by auto
        qed (use False p in simp)
      qed
      from 1 2 3 show ?thesis by blast
    qed
  qed auto
  then show "length (pending (dispatches E n S)) + length (filter (\<lambda>k. working (E k)) [0..<n]) \<le> length (pending S)
      \<or> pending (dispatches E n S) = []"
    and "ib_id ` set (dk_inbox (dispatches E n S)) \<subseteq> ib_id ` set (dk_inbox S) \<union> (\<lambda>k. di_fresh (E k)) ` {0..<n}"
    and "\<forall>e u. e \<in> set (pending S) \<longrightarrow> addressee S e = Some u \<longrightarrow>
        e \<in> set (pending (dispatches E n S)) \<or> has_item (dispatches E n S) u e" by blast+
qed

lemma dispatches_once: "items_once S \<Longrightarrow> items_once (dispatches E n S)"
  by (induction n) (simp_all add: dispatch_once)

text \<open>C14. The dispatcher catches up: once as many of its calls have worked as there were pending
  events, whatever failed in between, no event is pending, every event has reached the inbox of
  the user it is for (who still works on the project and wants that category), and no user has
  two items of one event.\<close>
theorem dispatcher_catches_up:
  assumes "distinct (map (\<lambda>k. di_fresh (E k)) [0..<n])" and "\<forall>k < n. di_fresh (E k) \<notin> ib_id ` set (dk_inbox S)"
    and "length (pending S) \<le> length (filter (\<lambda>k. working (E k)) [0..<n])" and "items_once S"
  shows "pending (dispatches E n S) = [] \<and> items_once (dispatches E n S)
    \<and> (\<forall>e u. e \<in> set (pending S) \<longrightarrow> addressee S e = Some u \<longrightarrow> has_item (dispatches E n S) u e)"
proof -
  have "length (pending (dispatches E n S)) = 0" using dispatches_invariant(1) [OF assms(1,2)] assms(3) by (elim disjE) (linarith, simp)
  then have "pending (dispatches E n S) = []" by simp
  with dispatches_invariant(3) [OF assms(1,2)] dispatches_once [OF assms(4)] show ?thesis by auto
qed

definition toy_dispatch :: "nat \<Rightarrow> dispatch_env" where
  "toy_dispatch k = \<lparr>di_now = 6, di_fresh = 40 + k, di_locked = [], di_fails = False\<rparr>"

theorem dispatcher_catches_up_witness:
  "\<exists>S :: unit desk. pending S = [20] \<and> pending (dispatches toy_dispatch 1 S) = [] \<and> has_item (dispatches toy_dispatch 1 S) 2 20"
proof -
  obtain db :: "unit db" where db: "tasks (team db) = [toy_task]" "outbox (team db) = [20]"
    "task_events (team db) = [\<lparr>te_id = 20, te_task = 9, te_actor = Some 1, te_action = ''created'', te_body = [],
       te_notify = Some 2, te_category = ''assignment''\<rparr>]"
    using toy_create by blast
  let ?S = "toy_desk\<lparr>dk_core := db\<rparr> :: unit desk"
  have p: "pending ?S = [20]" by (simp add: pending_def db toy_desk_def)
  have a: "addressee ?S 20 = Some 2"
    by (simp add: addressee_def inbox_row_def db find_task_def toy_task_def works_on_def wants_def toy_desk_def toy_user_def)
  have "distinct (map (\<lambda>k. di_fresh (toy_dispatch k)) [0..<1])"
    and "\<forall>k < (1::nat). di_fresh (toy_dispatch k) \<notin> ib_id ` set (dk_inbox ?S)"
    and "length (pending ?S) \<le> length (filter (\<lambda>k. working (toy_dispatch k)) [0..<1])" and "items_once ?S"
    unfolding p by (simp_all add: working_def toy_dispatch_def items_once_def) (simp_all add: toy_desk_def)
  from dispatcher_catches_up [OF this] p a show ?thesis by (intro exI [of _ ?S]) auto
qed

end
