(* ===== verification/Desk.thy ===== *)
theory Desk
  imports TaskSignals Inbox
begin

text \<open>
  Histories of the shared tables: any interleaving of task commands, signal configuration, signed
  signals, ingested events, dispatcher calls, inbox operations and the accounts' requests, each
  one transaction.  Deleting a user clears or removes what refers to it, as the schema's foreign
  keys say.  A law a table of tasks satisfies is an instance of the locale \<open>board_law\<close>; the locale
  shows once that every step keeps such a law.
\<close>

subsection \<open>Deleting a user\<close>

definition if_kept :: "uuid set \<Rightarrow> uuid option \<Rightarrow> uuid option" where
  "if_kept U x = (case x of Some u \<Rightarrow> if u \<in> U then Some u else None | None \<Rightarrow> None)"

definition clear_task :: "uuid set \<Rightarrow> task \<Rightarrow> task" where
  "clear_task U t = t\<lparr>ta_assignee := if_kept U (ta_assignee t), ta_created_by := if_kept U (ta_created_by t)\<rparr>"

definition clear_team :: "uuid set \<Rightarrow> team_db \<Rightarrow> team_db" where
  "clear_team U tm = tm\<lparr>tasks := map (clear_task U) (tasks tm),
     task_events := map (\<lambda>e. e\<lparr>te_actor := if_kept U (te_actor e), te_notify := if_kept U (te_notify e)\<rparr>) (task_events tm),
     audit := map (\<lambda>a. a\<lparr>au_actor := if_kept U (au_actor a)\<rparr>) (audit tm),
     notifications := map (\<lambda>e. e\<lparr>ne_actor := if_kept U (ne_actor e)\<rparr>) (notifications tm)\<rparr>"

definition cascade :: "'x desk \<Rightarrow> 'x desk" where
  "cascade S = (let U = fst ` set (ac_users (dk_accounts S)) in
     S\<lparr>dk_core := (dk_core S)\<lparr>team := clear_team U (team (dk_core S)),
         issues := map (\<lambda>(g, r). (g, r\<lparr>is_assignee := if_kept U (is_assignee r)\<rparr>)) (issues (dk_core S)),
         activity := map (\<lambda>(g, k, b, a). (g, k, b, if_kept U a)) (activity (dk_core S))\<rparr>,
       dk_receipts := filter (\<lambda>((_, u, _), _). u \<in> U) (dk_receipts S),
       dk_inbox := filter (\<lambda>b. ib_user b \<in> U) (dk_inbox S),
       dk_prefs := filter (\<lambda>(u, _). u \<in> U) (dk_prefs S)\<rparr>)"

subsection \<open>Steps\<close>

datatype 'x desk_step =
    TaskCommand desk_env headers uuid task_command
  | ConfigureSignals signal_env headers uuid configure
  | Signal signal_env uuid signal_headers bytes
  | Ingested "'x env" incoming_event
  | Dispatched dispatch_env
  | InboxUpdate desk_env headers uuid "bool option" "bool option"
  | InboxReadAll desk_env headers
  | SavePreferences desk_env headers preferences
  | AccountsRequest auth_env request

abbreviation desk_layer ::
  "auth_env \<Rightarrow> headers \<Rightarrow> (session_context \<Rightarrow> 'x desk \<Rightarrow> http_reply \<times> 'x desk) \<Rightarrow> 'x desk \<Rightarrow> http_reply \<times> 'x desk" where
  "desk_layer \<equiv> session_layer dk_accounts dk_accounts_update"

fun take_step :: "'x desk_step \<Rightarrow> 'x desk \<Rightarrow> 'x desk" where
  "take_step (TaskCommand E h p cmd) S = snd (desk_layer (de_auth E) h (\<lambda>ctx. task_command_handler E ctx p cmd) S)"
| "take_step (ConfigureSignals E h p b) S = snd (desk_layer (se_auth E) h (\<lambda>ctx. configure_task_signals E ctx p b) S)"
| "take_step (Signal E p h body) S = snd (receive E p h body S)"
| "take_step (Ingested env ev) S = S\<lparr>dk_core := snd (ingest env ev (dk_core S))\<rparr>"
| "take_step (Dispatched E) S = snd (dispatch E S)"
| "take_step (InboxUpdate E h i r a) S = snd (desk_layer (de_auth E) h (\<lambda>ctx. update_inbox E ctx i r a) S)"
| "take_step (InboxReadAll E h) S = snd (desk_layer (de_auth E) h (read_all E) S)"
| "take_step (SavePreferences E h p) S = snd (desk_layer (de_auth E) h (\<lambda>ctx. save_preferences E ctx p) S)"
| "take_step (AccountsRequest E r) S = cascade (S\<lparr>dk_accounts := snd (serve E r (dk_accounts S))\<rparr>)"

definition desk_after :: "'x desk_step list \<Rightarrow> 'x desk \<Rightarrow> 'x desk" where
  "desk_after H S = foldl (\<lambda>S x. take_step x S) S H"

lemma desk_after_simps [simp]: "desk_after [] S = S" "desk_after (x # H) S = desk_after H (take_step x S)"
  "desk_after (H @ G) S = desk_after G (desk_after H S)"
  by (simp_all add: desk_after_def)

subsection \<open>Laws of the board\<close>

abbreviation board :: "'x desk \<Rightarrow> task list" where "board S \<equiv> tasks (team (dk_core S))"

definition reopen_all :: "uuid \<Rightarrow> instant \<Rightarrow> (uuid \<Rightarrow> string) \<Rightarrow> task list \<Rightarrow> task list" where
  "reopen_all g now stamp ts = map (\<lambda>t. if regressing g t then reopen_task now stamp t else t) ts"

definition no_race :: "'x env \<Rightarrow> bool" where
  "no_race env \<longleftrightarrow> (\<forall>k d. tasks (team (race env k d)) = tasks (team d))"

text \<open>Ingestion reopens tasks of issues and does nothing else to them.\<close>
locale reopening_law =
  fixes P :: "task list \<Rightarrow> bool"
  assumes reopening: "P ts \<Longrightarrow> P (reopen_all g now stamp ts)"
begin

lemma team_regress_keeps:
  assumes "team_regress ut gen ids now stamp g tm = Inr tm'" and "P (tasks tm)"
  shows "P (tasks tm')"
proof -
  have "tasks tm' = reopen_all g now stamp (tasks tm)"
    using regress_rows_frame assms(1) by (fastforce simp: team_regress_def reopen_all_def Let_def)
  with assms(2) reopening show ?thesis by simp
qed

lemma touch_issue_keeps:
  assumes "touch_issue env ev row db = Inr (m, db')" and "P (tasks (team db))"
  shows "P (tasks (team db'))"
  using assms team_regress_keeps
  by (fastforce simp: touch_issue_def db_result_def result_simps Let_def split: prod.splits sum.splits if_splits)

lemma attach_issue_keeps:
  assumes "attach_issue env ev fp gt ms db = Inr (m, db')" and "P (tasks (team db))" and "no_race env"
  shows "P (tasks (team db'))"
proof -
  have q: "tasks (team (race env k d)) = tasks (team d)" for k d using assms(3) by (simp add: no_race_def)
  from assms(1) consider (at) row d where "touch_issue env ev row d = Inr (m, db')" "tasks (team d) = tasks (team db)"
    | (new) "tasks (team db') = tasks (team db)"
    by (auto simp: attach_issue_def Let_def q split: option.splits)
  then show ?thesis using assms(2) by cases (auto dest: touch_issue_keeps)
qed

lemma notify_keeps:
  "notify env fresh p i e new db = Inr db' \<Longrightarrow> tasks (team db') = tasks (team db)"
  by (auto simp: notify_def result_simps Let_def)

lemma fire_probe_keeps:
  assumes "fire_probe env ev i r db = Inr db'" and "P (tasks (team db))"
  shows "P (tasks (team db'))"
  using assms team_regress_keeps notify_keeps
  by (fastforce simp: fire_probe_def db_result_def result_simps Let_def split: option.splits sum.splits if_splits)

lemma finish_event_keeps:
  assumes "finish_event env ev m db = Inr db'" and "P (tasks (team db))"
  shows "P (tasks (team db'))"
proof -
  obtain i new regr where m: "m = (i, new, regr)" by (cases m)
  from assms(1) obtain d1 d2 where
    p: "(case (ev_kind ev, ev_name ev) of (Probe, Some r) \<Rightarrow> fire_probe env ev i r db | _ \<Rightarrow> Inr db) = Inr d1"
    and e: "(if new \<or> regr then notify env (note_id env) (ev_project ev) i (ev_id ev) new
        (d1\<lparr>others := cutover env (ev_project ev) (ev_id ev) (events d1) (others d1)\<rparr>)
      else Inr (d1\<lparr>others := cutover env (ev_project ev) (ev_id ev) (events d1) (others d1)\<rparr>)) = Inr d2"
    and o: "db' = set_app env ev d2"
    by (auto simp: finish_event_def m result_simps Let_def)
  from e have n: "tasks (team d2) = tasks (team d1)" by (auto dest: notify_keeps split: if_splits)
  have "P (tasks (team d1))"
    using p fire_probe_keeps assms(2) by (auto split: kind.splits option.splits)
  with n show ?thesis by (simp add: o set_app_def split_beta)
qed

lemma others_only_board: "no_race env \<Longrightarrow> tasks (team (others_only env p fp db)) = tasks (team db)"
  by (simp add: others_only_def no_race_def Let_def)

lemma ingest_keeps:
  assumes "P (tasks (team db))" and "no_race env"
  shows "P (tasks (team (snd (ingest env ev db))))"
proof -
  have "P (tasks (team db'))" if tx: "ingest_tx env ev fp gt ms db = Inr (Some (out, db'))" for fp gt ms out db'
  proof (rule ingest_tx_Commit [OF tx])
    fix q i new regr d1 d2
    assume att: "attach_issue env ev fp gt ms (db\<lparr>quota := q\<rparr>) = Inr ((i, new, regr), d1)"
      and d2: "d2 = record_hit i (ev_user_key ev) (update_issue i (\<lambda>r. r\<lparr>is_event_count := Suc (is_event_count r)\<rparr>) d1)"
      and fin: "finish_event env ev (i, new, regr) (d2\<lparr>events := events d2 @ [(ev_id ev, event_row_of (tx_now (times env)) ev i)]\<rparr>) = Inr db'"
    have "P (tasks (team d1))" using attach_issue_keeps [OF att] assms by simp
    then have "P (tasks (team d2))"
      unfolding d2 by (simp add: record_hit_def update_issue_def Let_def split: option.splits)
    with finish_event_keeps [OF fin] show ?thesis by simp
  qed
  moreover have "tasks (team (others_only env p fp db)) = tasks (team db)" for p fp
    using others_only_board assms(2) .
  ultimately show ?thesis
    using assms(1) by (auto simp: ingest_def Let_def split: sum.splits option.splits ingest_error.splits prod.splits)
qed

end

text \<open>
  A law that commands keep as well: it does not see who a task is assigned to, it survives a
  change of one row by a command, and a task in its first state may be added under a new id.
\<close>
definition first_state :: "task \<Rightarrow> bool" where
  "first_state t \<longleftrightarrow> columns_ok t \<and> \<not> ta_verified t \<and> ta_version t = 1 \<and> ta_stage t = ''triage''"

locale board_law = reopening_law +
  assumes clearing: "P ts \<Longrightarrow> P (map (clear_task U) ts)"
    and moving: "P ts \<Longrightarrow> distinct (map ta_id ts) \<Longrightarrow> moved_on i ts ts' \<Longrightarrow> P ts'"
    and adding: "P ts \<Longrightarrow> ta_id t \<notin> ta_id ` set ts \<Longrightarrow> first_state t \<Longrightarrow>
      ta_issue t = None \<or> (\<forall>q \<in> set ts. ta_issue q \<noteq> ta_issue t) \<Longrightarrow> P (ts @ [t])"
begin

lemma carry_out_keeps:
  assumes "carry_out E A p a cmd db = Inr (j, db')" and "distinct (map ta_id (tasks (team db)))"
    and "P (tasks (team db))"
  shows "P (tasks (team db'))"
  using assms(1,2)
proof (cases rule: carry_out_tasks)
  case (created t g f)
  then show ?thesis using adding [of "tasks (team db)" t] assms(3) by (auto simp: first_state_def)
next
  case (changed i r)
  then show ?thesis using moving assms(2,3) by blast
qed

lemma run_command_keeps:
  assumes "run_command E a p cmd S = Inr (j, S')" and "distinct (map ta_id (board S))" and "P (board S)"
  shows "P (board S')"
proof -
  from assms(1) consider "S' = S"
    | (ran) db j' where "carry_out E (dk_accounts S) p a cmd (dk_core S) = Inr (j', db)" and "dk_core S' = db"
    by (auto simp: run_command_def result_simps split: prod.splits if_splits option.splits)
  then show ?thesis
    using assms(2,3) by cases (auto dest: carry_out_keeps)
qed

end
subsection \<open>What a signal does\<close>

lemma tasks_settle_evidence [simp]: "tasks (team (settle_evidence E s c v r old i db)) = tasks (team db)"
  by (simp add: settle_evidence_def note_issue_def split: option.splits)

lemma judge_stage: "judge P a c d = (st, v, rel) \<Longrightarrow> st \<in> {''done'', ''verify'', ''review'', ''inProgress''}"
  by (auto simp: judge_def Let_def split: if_splits)

text \<open>Evidence leaves the table alone or writes one row as the evidence says.\<close>
lemma apply_evidence_tasks:
  assumes "apply_evidence E p s version barrier t issue rows db = Inr db'"
  obtains (same) "tasks (team db') = tasks (team db)"
  | (judged) a commit st v rel ev where "authority_of (sg_task s) version barrier rows = Some a"
      and "str_at ''commit'' a = Some commit"
      and "judge (se_parse E) a (proof_of (sg_task s) version barrier commit ''ci.completed'' rows)
        (proof_of (sg_task s) version barrier commit ''release.deployed'' rows) = (st, v, rel)"
      and "tasks (team db') = map (\<lambda>t. if ta_id t = sg_task s then automate st v rel ev (ae_now (se_auth E)) t else t)
        (tasks (team db))"
proof (cases "authority_of (sg_task s) version barrier rows")
  case None
  with assms show ?thesis by (intro same) (simp add: apply_evidence_def)
next
  case (Some a)
  with assms obtain commit where c: "str_at ''commit'' a = Some commit"
    by (auto simp: apply_evidence_def ok_or_def bind_res_def split: option.splits)
  obtain st v rel where j: "judge (se_parse E) a (proof_of (sg_task s) version barrier commit ''ci.completed'' rows)
        (proof_of (sg_task s) version barrier commit ''release.deployed'' rows) = (st, v, rel)"
    using prod_cases3 by blast
  let ?ev = "evidence_json E barrier version commit a (proof_of (sg_task s) version barrier commit ''ci.completed'' rows)
        (proof_of (sg_task s) version barrier commit ''release.deployed'' rows)"
  show ?thesis
  proof (cases "?ev = ta_automation t \<and> ta_stage t = st")
    case True
    with assms Some c j show ?thesis by (intro same) (simp add: apply_evidence_def Let_def)
  next
    case False
    let ?db = "update_task (sg_task s) (automate st v rel ?ev (ae_now (se_auth E))) db"
    from assms Some c j False obtain tm where
      ev: "team_event (ae_uuid_text (se_auth E)) (generation_row ?db) (de_event (se_desk E)) (de_note (se_desk E))
          (sg_task s) None (''auto.'' @ sg_kind s) commit (ta_assignee t) ''task'' (team ?db) = Inr tm"
      and db': "tasks (team db') = tasks tm"
      by (auto simp: apply_evidence_def Let_def result_simps)
    show ?thesis
      by (rule judged [OF Some c j]) (simp only: db' team_event_tasks [OF ev] tasks_update_task)
  qed
qed

lemma receive_cases:
  assumes "receive_inner E p h body S = Inr (j, S')"
  obtains (again) "S' = S"
  | (taken) v c s t occurred db where "se_vault E = Some v" and "map_of (dk_integrations S) p = Some c" and "ti_enabled c"
      and "verify_signature E v c p h body = Inr ()" and "read_signal E c body = Inr s"
      and "List.find (\<lambda>d. dl_project d = p \<and> dl_delivery d = sg_delivery_id s) (dk_deliveries S) = None"
      and "find_task (sg_task s) (dk_core S) = Some t" and "ta_project t = p"
      and "se_show E (sg_occurred_at s) = Some occurred" and "se_delivery E \<notin> dl_id ` set (dk_deliveries S)"
      and "S' = S\<lparr>dk_core := db, dk_deliveries := dk_deliveries S @ [delivery_of E p (ti_version c) s
          (hex_encode (ae_sha256 (se_auth E) body)) (signal_json E occurred s) (ignores E s t)]\<rparr>"
      and "if ignores E s t then db = dk_core S
        else apply_evidence E p s (ti_version c) (barrier_of E t) t (ta_issue t) (dk_deliveries S') (dk_core S) = Inr db"
proof -
  from assms obtain v c s where 1: "se_vault E = Some v" "map_of (dk_integrations S) p = Some c" "ti_enabled c"
    "verify_signature E v c p h body = Inr ()" "read_signal E c body = Inr s"
    by (auto simp: receive_inner_def result_simps ok_or_def bind_eq_Some_conv split: option.splits if_splits)
  show ?thesis
  proof (cases "List.find (\<lambda>d. dl_project d = p \<and> dl_delivery d = sg_delivery_id s) (dk_deliveries S)")
    case (Some prior)
    with assms 1 show ?thesis by (intro again) (simp add: receive_inner_def Let_def split: if_splits)
  next
    case None
    with assms 1 have t: "take_in E p (ti_version c) s (hex_encode (ae_sha256 (se_auth E) body)) S = Inr (j, S')"
      by (simp add: receive_inner_def Let_def split: if_splits)
    then obtain t occurred where 2: "find_task (sg_task s) (dk_core S) = Some t" "ta_project t = p"
      "se_show E (sg_occurred_at s) = Some occurred"
      by (auto simp: take_in_def result_simps ok_or_def bind_eq_Some_conv split: option.splits if_splits)
    with t show ?thesis
      by (cases "ignores E s t")
        (auto simp: take_in_def result_simps Let_def split: if_splits intro!: taken [OF 1 None 2])
  qed
qed
subsection \<open>Every step keeps a law\<close>

text \<open>The layers around a handler do not touch the board.\<close>
lemma desk_layer_board:
  assumes "\<And>ctx S. board (snd (f ctx S)) = board S"
  shows "board (snd (desk_layer E h f S)) = board S"
  using assms by (simp add: session_layer_def split: option.splits sum.splits)

lemma configure_board [simp]: "board (snd (configure_task_signals E ctx p b S)) = board S"
  by (simp add: configure_task_signals_def Let_def split: option.splits sum.splits)

lemma update_inbox_board [simp]: "board (snd (update_inbox E ctx i r a S)) = board S"
  by (simp add: update_inbox_def Let_def)

lemma read_all_board [simp]: "board (snd (read_all E ctx S)) = board S"
  by (simp add: read_all_def Let_def)

lemma save_preferences_board [simp]: "board (snd (save_preferences E ctx p S)) = board S"
  by (simp add: save_preferences_def)

lemma cascade_board: "board (cascade S) = map (clear_task (fst ` set (ac_users (dk_accounts S)))) (board S)"
  by (simp add: cascade_def clear_team_def Let_def)

text \<open>A command's request either leaves the tables alone or runs.\<close>
lemma task_command_step:
  obtains (nothing) "dk_core (take_step (TaskCommand E h p cmd) (S :: 'x desk)) = dk_core S"
      and "dk_deliveries (take_step (TaskCommand E h p cmd) S) = dk_deliveries S"
  | (ran) ctx :: session_context and j :: json and S0 :: "'x desk" where "dk_core S0 = dk_core S" and "dk_deliveries S0 = dk_deliveries S"
      and "run_command E (sx_user ctx) p cmd S0 = Inr (j, take_step (TaskCommand E h p cmd) S)"
proof (cases rule: layer_cases [of dk_accounts dk_accounts_update "de_auth E" h "\<lambda>ctx. task_command_handler E ctx p cmd" S])
  case (1 w)
  then show ?thesis by - (rule nothing; simp)
next
  case (2 t ctx)
  let ?S = "dk_accounts_update (touch_session (de_auth E) (sx_hash ctx)) S"
  show ?thesis
  proof (cases "run_command E (sx_user ctx) p cmd ?S")
    case (Inl r)
    with 2 show ?thesis by - (rule nothing; auto simp: task_command_handler_def settled_def split: sum.splits)
  next
    case (Inr js)
    obtain j S' where js: "js = (j, S')" by (cases js)
    show ?thesis
    proof (cases "project_access (de_auth E) (dk_accounts ?S) ctx p")
      case (Inl r)
      with 2 show ?thesis by - (rule nothing; simp add: task_command_handler_def)
    next
      case (Inr u)
      with 2 \<open>run_command E (sx_user ctx) p cmd ?S = Inr js\<close> js show ?thesis
        by - (rule ran [of ?S ctx j]; simp add: task_command_handler_def settled_def)
    qed
  qed
qed

text \<open>A signal's request either leaves the tables alone or is taken in.\<close>
lemma signal_step:
  obtains (nothing) "take_step (Signal E p h body) S = S"
  | (taken) j where "receive_inner E p h body S = Inr (j, take_step (Signal E p h body) S)"
  by (cases "receive_inner E p h body S") (auto simp: receive_def settled_def)

definition quiet :: "'x desk_step \<Rightarrow> bool" where
  "quiet x \<longleftrightarrow> (case x of Ingested env _ \<Rightarrow> no_race env | _ \<Rightarrow> True)"

locale automated_law = board_law +
  assumes automating: "P ts \<Longrightarrow> stage \<in> {''done'', ''verify'', ''review'', ''inProgress''} \<Longrightarrow>
      P (map (\<lambda>t. if ta_id t = i then automate stage v rel ev now t else t) ts)"
begin

lemma receive_keeps:
  assumes "receive_inner E p h body S = Inr (j, S')" and "P (board S)"
  shows "P (board S')"
  using assms(1)
proof (cases rule: receive_cases)
  case again
  with assms(2) show ?thesis by simp
next
  case (taken v c s t occurred db)
  show ?thesis
  proof (cases "ignores E s t")
    case True
    with taken assms(2) show ?thesis by simp
  next
    case False
    with taken(12) have "apply_evidence E p s (ti_version c) (barrier_of E t) t (ta_issue t) (dk_deliveries S') (dk_core S) = Inr db"
      by simp
    then have "P (tasks (team db))"
      by (rule apply_evidence_tasks) (use assms(2) automating judge_stage in auto)
    with taken(11) show ?thesis by simp
  qed
qed

lemma step_keeps:
  assumes "P (board S)" and "distinct (map ta_id (board S))" and "quiet x"
  shows "P (board (take_step x S))"
proof (cases x)
  case (TaskCommand E h p cmd)
  show ?thesis
    unfolding TaskCommand
    by (cases rule: task_command_step [of E h p cmd S])
      (use assms in simp, rule run_command_keeps, assumption, use assms in simp_all)
next
  case (Signal E p h body)
  show ?thesis
    unfolding Signal by (cases rule: signal_step [of E p h body S]) (use assms receive_keeps in auto)
next
  case (Ingested env ev)
  with assms ingest_keeps show ?thesis by (simp add: quiet_def)
next
  case (AccountsRequest E r)
  with assms(1) clearing show ?thesis by (simp add: cascade_board)
qed (use assms(1) in \<open>simp_all add: desk_layer_board\<close>)

end
subsection \<open>The laws of this board\<close>

lemma map_if_fields:
  assumes "\<And>t. t \<in> set ts \<Longrightarrow> Q t \<Longrightarrow> g (f t) = g t"
  shows "map g (map (\<lambda>t. if Q t then f t else t) ts) = map g ts"
  using assms by (induction ts) auto

lemma all_map_if: "(\<forall>t \<in> set (map (\<lambda>t. if Q t then f t else t) ts). R t) \<longleftrightarrow> (\<forall>t \<in> set ts. if Q t then R (f t) else R t)"
  by auto

lemma row_kept [simp]:
  "ta_id (reopen_task now stamp t) = ta_id t" "ta_issue (reopen_task now stamp t) = ta_issue t"
  "ta_version (reopen_task now stamp t) = Suc (ta_version t)" "\<not> ta_verified (reopen_task now stamp t)"
  "ta_id (clear_task U t) = ta_id t" "ta_issue (clear_task U t) = ta_issue t"
  "ta_version (clear_task U t) = ta_version t" "ta_verified (clear_task U t) = ta_verified t"
  "ta_fix_release (clear_task U t) = ta_fix_release t" "columns_ok (clear_task U t) = columns_ok t"
  "ta_id (automate st v rel ev now t) = ta_id t" "ta_issue (automate st v rel ev now t) = ta_issue t"
  "ta_version (automate st v rel ev now t) = Suc (ta_version t)"
  "columns_ok t \<Longrightarrow> columns_ok (reopen_task now stamp t)"
  "columns_ok t \<Longrightarrow> st \<in> {''done'', ''verify'', ''review'', ''inProgress''} \<Longrightarrow> columns_ok (automate st v rel ev now t)"
  by (auto simp: reopen_task_def restage_task_def clear_task_def automate_def columns_ok_def)

definition ids_distinct :: "task list \<Rightarrow> bool" where
  "ids_distinct ts \<longleftrightarrow> distinct (map ta_id ts)"

definition issues_distinct :: "task list \<Rightarrow> bool" where
  "issues_distinct ts \<longleftrightarrow> distinct (filter (\<lambda>g. g \<noteq> None) (map ta_issue ts))"

text \<open>The task i exists and is past version v.\<close>
definition past_version :: "uuid \<Rightarrow> nat \<Rightarrow> task list \<Rightarrow> bool" where
  "past_version i v ts \<longleftrightarrow> i \<in> set (map ta_id ts) \<and> (\<forall>t \<in> set ts. ta_id t = i \<longrightarrow> v < ta_version t)"

lemma moved_on_rows:
  assumes "moved_on i ts ts'"
  shows "map ta_id ts' = map ta_id ts" "map ta_issue ts' = map ta_issue ts"
    and "\<forall>t' \<in> set ts'. t' \<in> set ts \<or> (\<exists>t \<in> set ts. ta_id t = i \<and> follows t t')"
proof -
  from assms obtain f where f: "ts' = map (\<lambda>t. if ta_id t = i then f t else t) ts"
    and w: "\<And>t. ta_id t = i \<Longrightarrow> t \<in> set ts \<Longrightarrow> follows t (f t)"
    unfolding moved_on_def by blast
  show "map ta_id ts' = map ta_id ts" "map ta_issue ts' = map ta_issue ts"
    using w unfolding f by (auto intro!: map_if_fields simp: follows_def)
  show "\<forall>t' \<in> set ts'. t' \<in> set ts \<or> (\<exists>t \<in> set ts. ta_id t = i \<and> follows t t')"
    using w unfolding f by auto
qed

interpretation ids: automated_law ids_distinct
proof
  fix ts ts' :: "task list" and i assume "ids_distinct ts" "moved_on i ts ts'"
  then show "ids_distinct ts'" using moved_on_rows(1) by (metis ids_distinct_def)
qed (simp_all only: ids_distinct_def reopen_all_def map_if_fields row_kept, simp_all add: comp_def)

interpretation one_task: automated_law issues_distinct
proof
  fix ts ts' :: "task list" and i assume "issues_distinct ts" "moved_on i ts ts'"
  then show "issues_distinct ts'" using moved_on_rows(2) by (metis issues_distinct_def)
next
  fix ts and t :: task assume "issues_distinct ts" "ta_issue t = None \<or> (\<forall>q\<in>set ts. ta_issue q \<noteq> ta_issue t)"
  then show "issues_distinct (ts @ [t])" by (auto simp: issues_distinct_def)
qed (simp_all only: issues_distinct_def reopen_all_def map_if_fields row_kept, simp_all add: comp_def)

interpretation columns: automated_law "\<lambda>ts. \<forall>t \<in> set ts. columns_ok t"
proof
  fix ts ts' :: "task list" and i assume ok: "\<forall>t \<in> set ts. columns_ok t" and m: "moved_on i ts ts'"
  show "\<forall>t \<in> set ts'. columns_ok t" using moved_on_rows(3) [OF m] ok by (auto simp: follows_def)
qed (auto simp: reopen_all_def first_state_def)

interpretation past: automated_law "past_version i v"
proof
  fix ts ts' :: "task list" and k assume p: "past_version i v ts" and m: "moved_on k ts ts'"
  show "past_version i v ts'"
    using moved_on_rows(1,3) [OF m] p by (fastforce simp: past_version_def follows_def)
qed (auto simp: past_version_def reopen_all_def)

context automated_law
begin

lemma history_keeps:
  assumes "P (board S)" and "ids_distinct (board S)" and "\<forall>x \<in> set H. quiet x"
  shows "P (board (desk_after H S)) \<and> ids_distinct (board (desk_after H S))"
  using assms
proof (induction H arbitrary: S)
  case (Cons x H)
  then have "P (board (take_step x S))" "ids_distinct (board (take_step x S))"
    using step_keeps ids.step_keeps by (auto simp: ids_distinct_def)
  with Cons show ?case by simp
qed simp

end
subsection \<open>The board stays well formed\<close>

text \<open>C15. Whatever commands, signals, ingested events, inbox operations and account requests are
  interleaved, the board keeps its shape: task ids are unique, no two tasks are for the same
  issue, and every task has a title of at most 200 characters, a known kind, priority and stage
  and a positive version.\<close>
theorem board_stays_well_formed:
  assumes "ids_distinct (board S)" and "issues_distinct (board S)" and "\<forall>t \<in> set (board S). columns_ok t"
    and "\<forall>x \<in> set H. quiet x"
  shows "ids_distinct (board (desk_after H S)) \<and> issues_distinct (board (desk_after H S))
    \<and> (\<forall>t \<in> set (board (desk_after H S)). columns_ok t)"
  using one_task.history_keeps [OF assms(2,1,4)] columns.history_keeps [OF assms(3,1,4)] by blast

subsection \<open>Commands on a version\<close>

lemma run_command_cases:
  assumes "run_command E a p cmd S = Inr (j, S')"
  obtains (replayed) d where "map_of (dk_receipts S) (p, a, command_key cmd) = Some (d, j)" and "S' = S"
  | (ran) db where "map_of (dk_receipts S) (p, a, command_key cmd) = None"
      and "carry_out E (dk_accounts S) p a cmd (dk_core S) = Inr (j, db)"
      and "S' = S\<lparr>dk_core := db, dk_receipts := dk_receipts S @ [((p, a, command_key cmd), snd (identity E cmd), j)]\<rparr>"
  using assms that
  by (auto simp: run_command_def identity_def result_simps split: option.splits if_splits)

lemma carried_out_past:
  assumes run: "carry_out E A p a cmd db = Inr (j, db')" and target: "command_target cmd = Some (i, v)"
    and ids: "ids_distinct (tasks (team db))"
  shows "past_version i (nat v) (tasks (team db'))" and "0 \<le> v"
proof -
  from run ids [unfolded ids_distinct_def] have "past_version i (nat v) (tasks (team db')) \<and> 0 \<le> v"
  proof (cases rule: carry_out_tasks)
    case (created t g f)
    with target show ?thesis by (metis command_target.simps(1) option.distinct(1))
  next
    case (changed k r)
    with target have k: "k = i" "v = int (ta_version r)" by auto
    have "\<forall>t \<in> set (tasks (team db)). ta_id t = i \<longrightarrow> t = r"
      using ids changed(2,3) k unfolding ids_distinct_def by (metis distinct_map inj_onD)
    with changed(2,3,5) k show ?thesis
      unfolding past_version_def moved_on_def by (fastforce simp: follows_def)
  qed
  then show "past_version i (nat v) (tasks (team db'))" and "0 \<le> v" by auto
qed

lemma carry_out_needs_version:
  assumes "past_version i v (tasks (team db))" and "command_target cmd = Some (i, w)" and "w \<le> int v"
  shows "\<exists>r. carry_out E A p a cmd db = Inl r"
proof -
  have "find_task i db \<noteq> None" using assms(1) by (auto simp: find_task_None past_version_def)
  then obtain t where t: "find_task i db = Some t" by blast
  with assms(1) find_task_Some have "v < ta_version t" by (auto simp: past_version_def)
  with assms(3) have "int (ta_version t) \<noteq> w" by simp
  with assms(2) t have "\<exists>r. command_row p cmd db = Inl r" by (simp add: command_row_def)
  then obtain r where "command_row p cmd db = Inl r" by blast
  then show ?thesis by (cases "command_issue p cmd db") (simp_all add: carry_out_def)
qed

text \<open>C12. No update of a task is lost: once a command that expects version v of a task has been
  carried out, no command that expects v or an older version of it is carried out again, after
  any history; it is answered with an error, unless its own receipt answers it.\<close>
theorem task_version_guards:
  assumes run: "run_command E a p cmd S = Inr (j, S')" and "map_of (dk_receipts S) (p, a, command_key cmd) = None"
    and "command_target cmd = Some (i, v)" and "ids_distinct (board S)" and "\<forall>x \<in> set H. quiet x"
    and "command_target cmd' = Some (i, w)" and "w \<le> v"
    and "map_of (dk_receipts (desk_after H S')) (p', a', command_key cmd') = None"
  shows "\<exists>r. run_command E' a' p' cmd' (desk_after H S') = Inl r"
  using run
proof (cases rule: run_command_cases)
  case (replayed d)
  with assms(2) show ?thesis by simp
next
  case (ran db)
  have past: "past_version i (nat v) (board S')" and v: "0 \<le> v"
    using carried_out_past [OF ran(2) assms(3,4)] ran(3) by simp_all
  have "ids_distinct (board S')"
    using ids.run_command_keeps [OF run] assms(4) by (simp add: ids_distinct_def)
  from past.history_keeps [OF past this assms(5)]
  have "past_version i (nat v) (board (desk_after H S'))" by blast
  then obtain r where "carry_out E' (dk_accounts (desk_after H S')) p' a' cmd' (dk_core (desk_after H S')) = Inl r"
    using carry_out_needs_version [OF _ assms(6)] assms(7) v by (metis int_nat_eq)
  with assms(8) show ?thesis
    by (cases "member (dk_accounts (desk_after H S')) p' (Some a')") (simp_all add: run_command_def identity_def)
qed

subsection \<open>Receipts\<close>

definition user_stays :: "uuid \<Rightarrow> 'x desk_step list \<Rightarrow> 'x desk \<Rightarrow> bool" where
  "user_stays u H S \<longleftrightarrow> (\<forall>k \<le> length H. u \<in> fst ` set (ac_users (dk_accounts (desk_after (take k H) S))))"

lemma layer_receipts:
  assumes "\<And>ctx S. dk_receipts (snd (f ctx S)) = dk_receipts S"
  shows "dk_receipts (snd (desk_layer E h f S)) = dk_receipts S"
  using assms by (simp add: session_layer_def split: option.splits sum.splits)

lemma handlers_receipts [simp]:
  "dk_receipts (snd (configure_task_signals E ctx p b S)) = dk_receipts S"
  "dk_receipts (snd (update_inbox F ctx i r a S)) = dk_receipts S"
  "dk_receipts (snd (read_all F ctx S)) = dk_receipts S"
  "dk_receipts (snd (save_preferences F ctx q S)) = dk_receipts S"
  by (simp_all add: configure_task_signals_def update_inbox_def read_all_def save_preferences_def Let_def
      split: option.splits sum.splits)

lemma handlers_core [simp]:
  "dk_core (snd (update_inbox F ctx i r a S)) = dk_core S"
  "dk_core (snd (read_all F ctx S)) = dk_core S"
  "dk_core (snd (save_preferences F ctx q S)) = dk_core S"
  by (simp_all add: update_inbox_def read_all_def save_preferences_def Let_def)

lemma map_of_filter_kept: "Q k \<Longrightarrow> map_of (filter (\<lambda>(j, _). Q j) xs) k = map_of xs k"
  by (induction xs) auto

lemma step_keeps_receipt:
  assumes "map_of (dk_receipts S) (p, u, k) = Some x" and "u \<in> fst ` set (ac_users (dk_accounts (take_step y S)))"
  shows "map_of (dk_receipts (take_step y S)) (p, u, k) = Some x"
proof (cases y)
  case (TaskCommand E h q cmd)
  have "\<exists>e. dk_receipts (snd (desk_layer (de_auth E) h (\<lambda>ctx. task_command_handler E ctx q cmd) S)) = dk_receipts S @ e"
    by (auto simp: session_layer_def task_command_handler_def settled_def elim!: run_command_cases
        split: option.splits sum.splits prod.splits)
  with assms(1) show ?thesis unfolding TaskCommand by (auto simp: map_add_Some_iff)
next
  case (Signal E q h body)
  show ?thesis
    unfolding Signal
  proof (cases rule: signal_step [of E q h body S])
    case (taken j)
    then show "map_of (dk_receipts (take_step (Signal E q h body) S)) (p, u, k) = Some x"
      using assms(1) by (cases rule: receive_cases) simp_all
  qed (use assms(1) in simp)
next
  case (AccountsRequest E r)
  let ?U = "fst ` set (ac_users (snd (serve E r (dk_accounts S))))"
  have "u \<in> ?U" using assms(2) by (simp add: AccountsRequest cascade_def Let_def)
  then have "map_of (filter (\<lambda>(j, _). case j of (_, u, _) \<Rightarrow> u \<in> ?U) (dk_receipts S)) (p, u, k) = Some x"
    using assms(1) map_of_filter_kept [of "\<lambda>j. case j of (_, u, _) \<Rightarrow> u \<in> ?U" "(p, u, k)" "dk_receipts S"] by simp
  moreover have "filter (\<lambda>((_, u, _), _). u \<in> ?U) (dk_receipts S)
      = filter (\<lambda>(j, _). case j of (_, u, _) \<Rightarrow> u \<in> ?U) (dk_receipts S)" by (rule filter_cong) auto
  ultimately have "map_of (filter (\<lambda>((_, u, _), _). u \<in> ?U) (dk_receipts S)) (p, u, k) = Some x" by simp
  then show ?thesis by (simp add: AccountsRequest cascade_def Let_def)
qed (use assms(1) in \<open>simp_all add: layer_receipts\<close>)

lemma history_keeps_receipt:
  assumes "map_of (dk_receipts S) (p, u, k) = Some x" and "user_stays u H S"
  shows "map_of (dk_receipts (desk_after H S)) (p, u, k) = Some x"
  using assms
proof (induction H arbitrary: S)
  case (Cons y H)
  have at: "u \<in> fst ` set (ac_users (dk_accounts (desk_after (take k H) (take_step y S))))" if "k \<le> length H" for k
    using Cons.prems(2) that unfolding user_stays_def by (elim allE [of _ "Suc k"]) simp
  from at [of 0] have "u \<in> fst ` set (ac_users (dk_accounts (take_step y S)))" by simp
  then have "map_of (dk_receipts (take_step y S)) (p, u, k) = Some x"
    using step_keeps_receipt Cons.prems(1) by blast
  moreover have "user_stays u H (take_step y S)"
    using at by (simp add: user_stays_def)
  ultimately show ?case using Cons.IH by simp
qed simp

text \<open>C13. A command is carried out once: sent again by the same user after any history in which
  the user is not deleted, it is answered as it was the first time and changes nothing.\<close>
theorem task_command_once:
  assumes run: "run_command E a p cmd S = Inr (j, S')" and stays: "user_stays a H S'"
    and same: "identity E' cmd = identity E cmd" and up: "\<not> ae_fails (de_auth E')"
    and project: "p \<in> set (ac_projects (dk_accounts (desk_after H S')))"
    and works: "works_on (dk_accounts (desk_after H S')) p a"
  shows "run_command E' a p cmd (desk_after H S') = Inr (j, desk_after H S')"
proof -
  have "map_of (dk_receipts S') (p, a, command_key cmd) = Some (snd (identity E cmd), j)"
    using run by (auto simp: run_command_def identity_def result_simps map_add_Some_iff split: option.splits if_splits)
  from history_keeps_receipt [OF this stays] show ?thesis
    using same up project works by (auto simp: run_command_def identity_def member_def)
qed
subsection \<open>A verified task has signed evidence\<close>

text \<open>What delivery rows have in common: the payload says what the columns say.\<close>
definition row_ok :: "delivery_row \<Rightarrow> bool" where
  "row_ok d \<longleftrightarrow> str_at ''commit'' (dl_payload d) = Some (dl_commit d) \<and> str_at ''kind'' (dl_payload d) = Some (dl_kind d)
     \<and> (dl_kind d = ''release.deployed'' \<longrightarrow> str_at ''release'' (dl_payload d) \<noteq> None)"

text \<open>The step that records a row: a signal with a valid signature under the project's enabled secret.\<close>
definition delivers :: "signal_env \<Rightarrow> uuid \<Rightarrow> signal_headers \<Rightarrow> bytes \<Rightarrow> 'x desk \<Rightarrow> delivery_row \<Rightarrow> bool" where
  "delivers E p h body S d \<longleftrightarrow> (\<exists>v c s occurred ignored. se_vault E = Some v \<and> map_of (dk_integrations S) p = Some c
     \<and> ti_enabled c \<and> verify_signature E v c p h body = Inr () \<and> read_signal E c body = Inr s
     \<and> d = delivery_of E p (ti_version c) s (hex_encode (ae_sha256 (se_auth E) body)) (signal_json E occurred s) ignored)"

definition delivered_in :: "'x desk_step list \<Rightarrow> 'x desk \<Rightarrow> delivery_row \<Rightarrow> bool" where
  "delivered_in H S d \<longleftrightarrow> (\<exists>k E p h body. k < length H \<and> H ! k = Signal E p h body
     \<and> delivers E p h body (desk_after (take k H) S) d)"

lemma delivers_row_ok:
  assumes "delivers E p h body S d"
  shows "row_ok d"
proof -
  from assms obtain v c s occurred ignored where s: "read_signal E c body = Inr s"
    and d: "d = delivery_of E p (ti_version c) s (hex_encode (ae_sha256 (se_auth E) body)) (signal_json E occurred s) ignored"
    by (auto simp: delivers_def)
  from s obtain s' where "in_scope E c s'" "s = s'\<lparr>sg_commit := to_ascii_lowercase (sg_commit s')\<rparr>"
    by (auto simp: read_signal_def result_simps split: if_splits)
  then have "sg_kind s = ''release.deployed'' \<Longrightarrow> sg_release s \<noteq> None"
    by (auto simp: in_scope_def signal_valid_def split: option.splits)
  then show ?thesis
    by (auto simp: d row_ok_def delivery_of_def signal_json_def jget_def as_str_def opt_json_def)
qed

lemma layer_deliveries:
  assumes "\<And>ctx S. dk_deliveries (snd (f ctx S)) = dk_deliveries S"
  shows "dk_deliveries (snd (desk_layer E h f S)) = dk_deliveries S"
  using assms by (simp add: session_layer_def split: option.splits sum.splits)

lemma handlers_deliveries [simp]:
  "dk_deliveries (snd (configure_task_signals E ctx p b S)) = dk_deliveries S"
  "dk_deliveries (snd (update_inbox F ctx i r a S)) = dk_deliveries S"
  "dk_deliveries (snd (read_all F ctx S)) = dk_deliveries S"
  "dk_deliveries (snd (save_preferences F ctx q S)) = dk_deliveries S"
  by (simp_all add: configure_task_signals_def update_inbox_def read_all_def save_preferences_def Let_def
      split: option.splits sum.splits)

lemma run_command_deliveries: "run_command E a p cmd S = Inr (j, S') \<Longrightarrow> dk_deliveries S' = dk_deliveries S"
  by (erule run_command_cases) simp_all

lemma step_deliveries:
  obtains (same) "dk_deliveries (take_step x S) = dk_deliveries S"
  | (more) E p h body d where "x = Signal E p h body" and "delivers E p h body S d"
      and "dk_deliveries (take_step x S) = dk_deliveries S @ [d]"
proof (cases x)
  case (TaskCommand E h p cmd)
  have "dk_deliveries (take_step x S) = dk_deliveries S"
    unfolding TaskCommand by (cases rule: task_command_step [of E h p cmd S]) (auto dest: run_command_deliveries)
  then show ?thesis by (rule same)
next
  case (Signal E p h body)
  show ?thesis
  proof (cases rule: signal_step [of E p h body S])
    case nothing
    then show ?thesis using Signal by - (rule same; simp)
  next
    case (taken j)
    from taken(1) show ?thesis
    proof (cases rule: receive_cases)
      case again
      then show ?thesis using Signal by - (rule same; simp)
    next
      case (taken v c s t occurred db)
      have "delivers E p h body S (delivery_of E p (ti_version c) s (hex_encode (ae_sha256 (se_auth E) body))
          (signal_json E occurred s) (ignores E s t))"
        unfolding delivers_def using taken(1-5) by blast
      then show ?thesis by (rule more [OF Signal]) (simp only: Signal taken(11), simp)
    qed
  qed
qed (rule same, simp add: layer_deliveries cascade_def Let_def)+

lemma deliveries_provenance:
  "d \<in> set (dk_deliveries (desk_after H S)) \<Longrightarrow> d \<in> set (dk_deliveries S) \<or> delivered_in H S d"
proof (induction H rule: rev_induct)
  case (snoc x H)
  let ?S = "desk_after H S"
  have old: "delivered_in (H @ [x]) S d" if "delivered_in H S d"
  proof -
    from that obtain k E p h body where k: "k < length H" "H ! k = Signal E p h body"
      "delivers E p h body (desk_after (take k H) S) d" by (auto simp: delivered_in_def)
    then show ?thesis unfolding delivered_in_def
      by (intro exI [of _ k] exI [of _ E] exI [of _ p] exI [of _ h] exI [of _ body]) (simp add: nth_append)
  qed
  show ?case
  proof (cases rule: step_deliveries [of x ?S])
    case same
    with snoc old show ?thesis by auto
  next
    case (more E p h body e)
    have "delivered_in (H @ [x]) S e" unfolding delivered_in_def
      using more(1,2) by (intro exI [of _ "length H"] exI [of _ E] exI [of _ p] exI [of _ h] exI [of _ body]) simp
    with snoc old more(3) show ?thesis by auto
  qed
qed simp

text \<open>Merged work, passing checks and a deployment of the same commit, all recorded for this task
  under one configuration and after one barrier, the deployment not before the merge.\<close>
definition proves ::
  "(string \<Rightarrow> instant option) \<Rightarrow> uuid \<Rightarrow> string \<Rightarrow> delivery_row \<Rightarrow> delivery_row \<Rightarrow> delivery_row \<Rightarrow> bool" where
  "proves parse_time i release m c d \<longleftrightarrow> (\<exists>version barrier.
       \<forall>x \<in> {m, c, d}. counts_for i version barrier x \<and> dl_commit x = dl_commit m)
     \<and> dl_kind m = ''pr.merged'' \<and> dl_kind c = ''ci.completed'' \<and> dl_kind d = ''release.deployed''
     \<and> member_is ''unit'' ''passed'' (dl_payload c) \<and> member_is ''e2e'' ''passed'' (dl_payload c)
     \<and> str_at ''release'' (dl_payload d) = Some release
     \<and> (\<exists>x y. Option.bind (str_at ''occurredAt'' (dl_payload m)) parse_time = Some x
          \<and> Option.bind (str_at ''occurredAt'' (dl_payload d)) parse_time = Some y \<and> x \<le> y)"

definition evidence_for :: "(string \<Rightarrow> instant option) \<Rightarrow> delivery_row list \<Rightarrow> task \<Rightarrow> bool" where
  "evidence_for parse_time rows t \<longleftrightarrow>
     (\<exists>m \<in> set rows. \<exists>c \<in> set rows. \<exists>d \<in> set rows. proves parse_time (ta_id t) (ta_fix_release t) m c d)"

definition all_evidenced :: "(string \<Rightarrow> instant option) \<Rightarrow> delivery_row list \<Rightarrow> task list \<Rightarrow> bool" where
  "all_evidenced parse_time rows ts \<longleftrightarrow> (\<forall>t \<in> set ts. ta_verified t \<longrightarrow> evidence_for parse_time rows t)"

lemma evidence_for_cong: "ta_id t' = ta_id t \<Longrightarrow> ta_fix_release t' = ta_fix_release t \<Longrightarrow>
    evidence_for P rows t \<Longrightarrow> evidence_for P rows t'"
  by (simp add: evidence_for_def)

lemma evidence_for_mono: "evidence_for P rows t \<Longrightarrow> set rows \<subseteq> set rows' \<Longrightarrow> evidence_for P rows' t"
  unfolding evidence_for_def by blast

lemma latest_in: "latest Q rows = Some d \<Longrightarrow> d \<in> set rows \<and> Q d"
proof (cases "sort_key (\<lambda>d. (- int (dl_occurred d), - int (dl_id d))) (filter Q rows)")
  case (Cons e es)
  then have "e \<in> set (filter Q rows)" by (metis list.set_intros(1) set_sort)
  moreover assume "latest Q rows = Some d"
  ultimately show ?thesis using Cons by (simp add: latest_def)
qed (simp add: latest_def)

text \<open>The verdict of \<open>judge\<close> is backed by rows.\<close>
lemma judged_evidence:
  assumes a: "authority_of (ta_id t) version barrier rows = Some a" and commit: "str_at ''commit'' a = Some commit"
    and j: "judge P a (proof_of (ta_id t) version barrier commit ''ci.completed'' rows)
        (proof_of (ta_id t) version barrier commit ''release.deployed'' rows) = (st, True, ta_fix_release t)"
    and ok: "\<forall>d \<in> set rows. row_ok d"
  shows "evidence_for P rows t"
proof -
  let ?n = "counts_for (ta_id t) version barrier"
  from a obtain m where m: "m \<in> set rows" "?n m" "dl_payload m = a"
    unfolding authority_of_def using latest_in by fastforce
  from j obtain cj dj x y where v: "member_is ''kind'' ''pr.merged'' a"
    "proof_of (ta_id t) version barrier commit ''ci.completed'' rows = Some cj"
    "member_is ''unit'' ''passed'' cj" "member_is ''e2e'' ''passed'' cj"
    "proof_of (ta_id t) version barrier commit ''release.deployed'' rows = Some dj"
    "ta_fix_release t = unwrap_or [] (str_at ''release'' dj)"
    "Option.bind (str_at ''occurredAt'' a) P = Some x" "Option.bind (str_at ''occurredAt'' dj) P = Some y" "x \<le> y"
    by (auto simp: judge_def Let_def split: option.splits if_splits)
  from v(2) obtain c where c: "c \<in> set rows" "?n c" "dl_commit c = commit" "dl_kind c = ''ci.completed''" "dl_payload c = cj"
    unfolding proof_of_def using latest_in by fastforce
  from v(5) obtain d where d: "d \<in> set rows" "?n d" "dl_commit d = commit" "dl_kind d = ''release.deployed''" "dl_payload d = dj"
    unfolding proof_of_def using latest_in by fastforce
  have "dl_commit m = commit" "dl_kind m = ''pr.merged''"
    using ok m commit v(1) by (auto simp: row_ok_def member_is_def)
  moreover have "str_at ''release'' dj = Some (ta_fix_release t)"
    using ok d v(6) unfolding row_ok_def by (metis option.exhaust unwrap_or_simps(2))
  moreover have "\<exists>version barrier. \<forall>x \<in> {m, c, d}. counts_for (ta_id t) version barrier x \<and> dl_commit x = dl_commit m"
    using m(2) c(2,3) d(2,3) calculation(1) by (intro exI [of _ version] exI [of _ barrier]) simp
  ultimately have "proves P (ta_id t) (ta_fix_release t) m c d"
    unfolding proves_def using m(3) c(4,5) d(4,5) v(3,4,7-9) by blast
  with m(1) c(1) d(1) show ?thesis unfolding evidence_for_def by blast
qed

interpretation evidenced: board_law "all_evidenced P rows"
proof
  fix ts ts' :: "task list" and k assume p: "all_evidenced P rows ts" and m: "moved_on k ts ts'"
  have "ta_verified t \<Longrightarrow> evidence_for P rows t" if "t \<in> set ts'" for t
    using moved_on_rows(3) [OF m] that p unfolding all_evidenced_def follows_def
    by (metis evidence_for_cong)
  then show "all_evidenced P rows ts'" by (simp add: all_evidenced_def)
next
  fix ts U assume "all_evidenced P rows ts"
  moreover have "evidence_for P rows t \<Longrightarrow> evidence_for P rows (clear_task U t)" for t
    by (rule evidence_for_cong) simp_all
  ultimately show "all_evidenced P rows (map (clear_task U) ts)" by (auto simp: all_evidenced_def)
qed (auto simp: all_evidenced_def reopen_all_def first_state_def)
definition reads_times :: "(string \<Rightarrow> instant option) \<Rightarrow> 'x desk_step \<Rightarrow> bool" where
  "reads_times parse_time x \<longleftrightarrow> (case x of Signal E _ _ _ \<Rightarrow> se_parse E = parse_time | _ \<Rightarrow> True)"

definition evidenced_desk :: "(string \<Rightarrow> instant option) \<Rightarrow> 'x desk \<Rightarrow> bool" where
  "evidenced_desk P S \<longleftrightarrow> all_evidenced P (dk_deliveries S) (board S) \<and> (\<forall>d \<in> set (dk_deliveries S). row_ok d)
     \<and> ids_distinct (board S)"

lemma all_evidenced_mono: "all_evidenced P rows ts \<Longrightarrow> set rows \<subseteq> set rows' \<Longrightarrow> all_evidenced P rows' ts"
  unfolding all_evidenced_def using evidence_for_mono by blast

lemma receive_evidenced:
  assumes inv: "evidenced_desk (se_parse E) S" and run: "receive_inner E p h body S = Inr (j, S')"
    and ok: "\<forall>d \<in> set (dk_deliveries S'). row_ok d"
  shows "all_evidenced (se_parse E) (dk_deliveries S') (board S')"
  using run
proof (cases rule: receive_cases)
  case again
  with inv show ?thesis by (simp add: evidenced_desk_def)
next
  case (taken v c s t occurred db)
  have old: "all_evidenced (se_parse E) (dk_deliveries S') (board S)"
    by (rule all_evidenced_mono [of _ "dk_deliveries S"]) (use inv in \<open>simp add: evidenced_desk_def\<close>, use taken(11) in auto)
  show ?thesis
  proof (cases "ignores E s t")
    case True
    with old taken(11,12) show ?thesis by simp
  next
    case False
    with taken(12) have "apply_evidence E p s (ti_version c) (barrier_of E t) t (ta_issue t) (dk_deliveries S') (dk_core S) = Inr db"
      by simp
    then show ?thesis
    proof (cases rule: apply_evidence_tasks)
      case same
      with old taken(11) show ?thesis by simp
    next
      case (judged a commit st v' rel ev)
      have "evidence_for (se_parse E) (dk_deliveries S') (automate st True rel ev now q)"
        if "v'" "ta_id q = sg_task s" for q now
        by (rule judged_evidence [OF _ judged(2) _ ok])
          (use judged(1,3) that in \<open>simp_all add: automate_def\<close>)
      moreover have "ta_verified (automate st v' rel ev now q) = v'" for q now by (simp add: automate_def)
      ultimately have "all_evidenced (se_parse E) (dk_deliveries S') (tasks (team db))"
        using old unfolding judged(4) all_evidenced_def by (auto split: if_splits)
      with taken(11) show ?thesis by simp
    qed
  qed
qed

lemma step_evidenced:
  assumes inv: "evidenced_desk P S" and q: "quiet x" "reads_times P x"
  shows "evidenced_desk P (take_step x S)"
proof -
  have ids: "ids_distinct (board (take_step x S))"
    using ids.step_keeps inv q(1) by (auto simp: evidenced_desk_def ids_distinct_def)
  have rows: "\<forall>d \<in> set (dk_deliveries (take_step x S)). row_ok d"
    using inv delivers_row_ok by (cases rule: step_deliveries [of x S]) (auto simp: evidenced_desk_def)
  have "all_evidenced P (dk_deliveries (take_step x S)) (board (take_step x S))"
  proof (cases x)
    case (TaskCommand E h p cmd)
    show ?thesis
    proof (cases rule: task_command_step [of E h p cmd S])
      case nothing
      with inv TaskCommand show ?thesis by (simp only: evidenced_desk_def)
    next
      case (ran ctx j S0)
      have "all_evidenced P (dk_deliveries S) (board (take_step x S))"
        unfolding TaskCommand by (rule evidenced.run_command_keeps [OF ran(3)])
          (use inv ran(1) in \<open>simp_all add: evidenced_desk_def ids_distinct_def\<close>)
      with ran(2) run_command_deliveries [OF ran(3)] TaskCommand show ?thesis by simp
    qed
  next
    case (Signal E p h body)
    show ?thesis
    proof (cases rule: signal_step [of E p h body S])
      case nothing
      with inv Signal show ?thesis by (simp only: evidenced_desk_def)
    next
      case (taken j)
      have "se_parse E = P" using q(2) Signal by (simp add: reads_times_def)
      with receive_evidenced [of E S p h body j] taken inv rows Signal show ?thesis by blast
    qed
  next
    case (Ingested env ev)
    have "all_evidenced P (dk_deliveries S) (tasks (team (snd (ingest env ev (dk_core S)))))"
      by (rule evidenced.ingest_keeps) (use inv q(1) Ingested in \<open>simp_all add: evidenced_desk_def quiet_def\<close>)
    with Ingested show ?thesis by simp
  next
    case (AccountsRequest E r)
    with inv evidenced.clearing show ?thesis
      by (simp add: evidenced_desk_def cascade_board) (simp add: cascade_def Let_def)
  qed (use inv in \<open>simp_all add: evidenced_desk_def desk_layer_board layer_deliveries\<close>)
  with ids rows show ?thesis by (simp add: evidenced_desk_def)
qed

lemma history_evidenced:
  "evidenced_desk P S \<Longrightarrow> \<forall>x \<in> set H. quiet x \<and> reads_times P x \<Longrightarrow> evidenced_desk P (desk_after H S)"
proof (induction H arbitrary: S)
  case (Cons x H)
  then show ?case using step_evidenced [of P S x] by simp
qed simp

text \<open>C9. A task that is marked verified, in any history that began with no verified task and no
  recorded signal, has been proved so: three signals were received with valid signatures under
  the secret of the project's enabled integration - the merge of the work, its checks with both
  suites passed, and its deployment, not before the merge - all for this task, the same commit
  and the same configuration, after one barrier, and the release the task names as its fix is the
  one deployed.\<close>
theorem verified_tasks_have_evidence:
  assumes "\<forall>t \<in> set (board S). \<not> ta_verified t" and "dk_deliveries S = []" and "ids_distinct (board S)"
    and "\<forall>x \<in> set H. quiet x \<and> reads_times parse_time x"
    and "t \<in> set (board (desk_after H S))" and "ta_verified t"
  shows "\<exists>m c d. proves parse_time (ta_id t) (ta_fix_release t) m c d
    \<and> delivered_in H S m \<and> delivered_in H S c \<and> delivered_in H S d"
proof -
  have "evidenced_desk parse_time S" using assms(1-3) by (simp add: evidenced_desk_def all_evidenced_def)
  from history_evidenced [OF this assms(4)] assms(5,6)
  have "evidence_for parse_time (dk_deliveries (desk_after H S)) t" by (simp add: evidenced_desk_def all_evidenced_def)
  then obtain m c d where "{m, c, d} \<subseteq> set (dk_deliveries (desk_after H S))"
    "proves parse_time (ta_id t) (ta_fix_release t) m c d"
    unfolding evidence_for_def by auto
  with deliveries_provenance assms(2) show ?thesis by fastforce
qed
subsection \<open>Instances\<close>

definition toy_blob :: bytes where
  "toy_blob = (case vault_seal toy_aead toy_rng toy_vault (bytes_of ''4:'') of Inr b \<Rightarrow> b | Inl _ \<Rightarrow> [])"

definition toy_integration :: integration where
  "toy_integration = \<lparr>ti_repository = ''o/r'', ti_environment = ''live'', ti_secret = toy_blob, ti_enabled = True, ti_version = 1\<rparr>"

definition toy_board :: "unit desk" where
  "toy_board = toy_desk\<lparr>dk_core := empty_db\<lparr>team := (team empty_db)\<lparr>tasks := [toy_task]\<rparr>\<rparr>,
     dk_integrations := [(4, toy_integration)]\<rparr>"

definition toy_commit :: string where "toy_commit = replicate 40 (CHR ''a'')"

definition toy_merge :: signal where
  "toy_merge = \<lparr>sg_delivery_id = ''m'', sg_task = 9, sg_repository = ''o/r'', sg_commit = toy_commit,
     sg_kind = ''pr.merged'', sg_occurred_at = 10000, sg_number = Some 1, sg_unit = None, sg_e2e = None,
     sg_release = None, sg_environment = None\<rparr>"

definition toy_checks :: signal where
  "toy_checks = toy_merge\<lparr>sg_delivery_id := ''c'', sg_kind := ''ci.completed'', sg_occurred_at := 11000,
     sg_unit := Some ''passed'', sg_e2e := Some ''passed''\<rparr>"

definition toy_deploy :: signal where
  "toy_deploy = toy_merge\<lparr>sg_delivery_id := ''d'', sg_kind := ''release.deployed'', sg_occurred_at := 12000,
     sg_release := Some ''r1'', sg_environment := Some ''live''\<rparr>"

lemmas toy_signal_defs = toy_merge_def toy_checks_def toy_deploy_def

definition toy_reader :: "bytes \<Rightarrow> json option" where
  "toy_reader body = (let s = (if body = [1] then toy_merge else if body = [2] then toy_checks else toy_deploy)
     in Some (signal_json (toy_signal_env (\<lambda>_. None) 0) (toy_text (sg_occurred_at s)) s))"

abbreviation toy_sender :: "nat \<Rightarrow> signal_env" where "toy_sender k \<equiv> toy_signal_env toy_reader (50 + k)"

definition toy_signed :: signal_headers where
  "toy_signed = \<lparr>sh_timestamp = Some ''7'', sh_signature = Some ''sha256=''\<rparr>"

lemma toy_signature: "verify_signature (toy_sender k) toy_vault toy_integration 4 toy_signed body = Inr ()"
proof -
  have b: "bound_secret (toy_sender k) 4 [] = ''4:''" by (simp add: bound_secret_def toy_number)
  have "utf8 ''4:''" by code_simp
  moreover have "vault_seal toy_aead toy_rng toy_vault (bytes_of ''4:'') = Inr toy_blob"
    by (simp add: toy_blob_def vault_seal_def toy_rng_def toy_aead_def)
  ultimately have "signing_key (toy_sender k) toy_vault 4 toy_blob = Some []"
    using signing_key_sealed [of "toy_sender k" toy_rng "''k1''" toy_vault 4 "[]" toy_blob]
    by (simp add: toy_aead_lawful toy_rng_fills toy_key_id b)
  then show ?thesis
    by (simp add: verify_signature_def toy_signed_def toy_number toy_integration_def strip_prefix_def starts_with_def Let_def)
qed

lemma toy_distinct: "toy_checks \<noteq> toy_merge" "toy_deploy \<noteq> toy_merge" "toy_deploy \<noteq> toy_checks"
proof -
  have "sg_kind toy_merge = ''pr.merged''" "sg_kind toy_checks = ''ci.completed''" "sg_kind toy_deploy = ''release.deployed''"
    by (simp_all add: toy_signal_defs)
  then show "toy_checks \<noteq> toy_merge" "toy_deploy \<noteq> toy_merge" "toy_deploy \<noteq> toy_checks" by auto
qed

lemma toy_read:
  assumes "s \<in> {toy_merge, toy_checks, toy_deploy}"
    and "body = (if s = toy_merge then [1] else if s = toy_checks then [2] else [3])"
  shows "read_signal (toy_sender k) toy_integration body = Inr s"
proof -
  have trimmed: "trim ''r1'' \<noteq> []" by code_simp
  have lower: "to_ascii_lowercase toy_commit = toy_commit"
    by (simp only: toy_commit_def to_ascii_lowercase_def map_replicate) (simp add: char_val_def)
  have hexa: "list_all is_ascii_hexdigit toy_commit" "length toy_commit = 40"
    by (simp only: toy_commit_def list_all_iff set_replicate_conv_if) (simp add: is_ascii_hexdigit_def char_val_def,
      simp only: toy_commit_def length_replicate)
  have json: "signal_json E occurred s = signal_json (toy_sender k) occurred s" if "se_desk E = toy_desk_env" for E occurred
    using that by (simp add: signal_json_def)
  have "toy_reader body = Some (signal_json (toy_sender k) (toy_text (sg_occurred_at s)) s)"
    using assms json [of "toy_signal_env (\<lambda>_. None) 0"] toy_distinct by (auto simp: toy_reader_def Let_def)
  moreover have "signal_of_json (toy_sender k) (signal_json (toy_sender k) (toy_text (sg_occurred_at s)) s) = Some s"
    by (rule signal_round_trip) (use assms(1) in \<open>auto simp: toy_signal_defs I64_MIN_def I64_MAX_def\<close>)
  moreover have "in_scope (toy_sender k) toy_integration s"
    using assms(1) trimmed hexa
    by (auto simp: in_scope_def signal_valid_def toy_signal_defs verdict_def toy_integration_def is_ascii_graphic_def char_val_def)
  moreover have "s\<lparr>sg_commit := to_ascii_lowercase (sg_commit s)\<rparr> = s"
    using assms(1) lower by (auto simp: toy_signal_defs)
  ultimately show ?thesis by (simp add: read_signal_def)
qed

definition toy_row :: "nat \<Rightarrow> signal \<Rightarrow> bytes \<Rightarrow> delivery_row" where
  "toy_row k s body = delivery_of (toy_sender k) 4 1 s (hex_encode body) (signal_json (toy_sender k) (toy_text (sg_occurred_at s)) s) False"

definition toy_payload :: "signal \<Rightarrow> json" where
  "toy_payload s = signal_json (toy_sender 0) (toy_text (sg_occurred_at s)) s"

lemma toy_payload: "signal_json (toy_sender k) (toy_text (sg_occurred_at s)) s = toy_payload s"
  by (simp add: toy_payload_def signal_json_def)

lemma toy_row_sel [simp]:
  "dl_id (toy_row k s body) = 50 + k" "dl_project (toy_row k s body) = 4" "dl_task (toy_row k s body) = sg_task s"
  "dl_delivery (toy_row k s body) = sg_delivery_id s" "dl_config (toy_row k s body) = 1"
  "dl_commit (toy_row k s body) = sg_commit s" "dl_kind (toy_row k s body) = sg_kind s"
  "dl_occurred (toy_row k s body) = micros (sg_occurred_at s)" "dl_outcome (toy_row k s body) = ''accepted''"
  "dl_payload (toy_row k s body) = toy_payload s"
  by (simp_all add: toy_row_def delivery_of_def toy_payload)

text \<open>A signal of the instance is taken in on a board that has just the task.\<close>
lemma toy_take_in:
  assumes s: "s \<in> {toy_merge, toy_checks, toy_deploy}"
    and body: "body = (if s = toy_merge then [1] else if s = toy_checks then [2] else [3])"
    and S: "S = toy_board\<lparr>dk_deliveries := rows\<rparr>" and new: "\<forall>d \<in> set rows. dl_delivery d \<noteq> sg_delivery_id s \<and> dl_id d \<noteq> 50 + k"
    and db: "apply_evidence (toy_sender k) 4 s 1 5 toy_task None (rows @ [toy_row k s body]) (dk_core toy_board) = Inr db"
  shows "take_step (Signal (toy_sender k) 4 toy_signed body) S = S\<lparr>dk_core := db, dk_deliveries := rows @ [toy_row k s body]\<rparr>"
proof -
  have f: "find_task (sg_task s) (dk_core S) = Some toy_task"
    using s by (auto simp: S toy_board_def find_task_def toy_task_def toy_signal_defs)
  have b: "barrier_of (toy_sender k) toy_task = 5" by (simp add: barrier_of_def toy_task_def jget_def)
  have i: "\<not> ignores (toy_sender k) s toy_task"
    using s by (auto simp: ignores_def b) (auto simp: toy_task_def toy_signal_defs)
  have t: "ta_project toy_task = 4" "ta_issue toy_task = None" by (simp_all add: toy_task_def)
  have sha: "ae_sha256 (de_auth toy_desk_env) = id" "\<not> ae_late_fails (de_auth toy_desk_env)" "\<not> ae_fails (de_auth toy_desk_env)"
    by (simp_all add: toy_desk_env_def toy_env_def)
  have none: "List.find (\<lambda>d. dl_project d = 4 \<and> dl_delivery d = sg_delivery_id s) rows = None"
    using new by (auto simp: find_None_iff)
  have S': "dk_core S = dk_core toy_board" "dk_deliveries S = rows" by (simp_all add: S)
  have row: "toy_row k s body = delivery_of (toy_sender k) 4 1 s (hex_encode body)
      (signal_json (toy_sender k) (toy_text (sg_occurred_at s)) s) False" by (simp add: toy_row_def)
  have free: "50 + k \<notin> dl_id ` set rows" using new by auto
  have "take_in (toy_sender k) 4 1 s (hex_encode body) S
      = Inr (outcome_json ''accepted'', S\<lparr>dk_core := db, dk_deliveries := rows @ [toy_row k s body]\<rparr>)"
    using db free unfolding take_in_def f row
    by (simp add: t i b sha S' Let_def) (simp add: delivery_of_def)
  moreover have "ti_version toy_integration = 1" "ti_enabled toy_integration" by (simp_all add: toy_integration_def)
  moreover have "length body \<le> 16384" using body by auto
  moreover have "map_of (dk_integrations S) 4 = Some toy_integration" "4 \<in> set (ac_projects (dk_accounts S))"
    by (simp_all add: S toy_board_def toy_desk_def)
  ultimately show ?thesis
    using toy_read [OF s body] none by (simp add: receive_def receive_inner_def settled_def toy_signature sha S')
qed
definition toy_evidence :: "unit desk_step list" where
  "toy_evidence = [Signal (toy_sender 0) 4 toy_signed [2], Signal (toy_sender 3) 4 toy_signed [3],
     Signal (toy_sender 2) 4 toy_signed [1]]"

lemma toy_payload_members:
  "str_at ''kind'' (toy_payload s) = Some (sg_kind s)" "str_at ''commit'' (toy_payload s) = Some (sg_commit s)"
  "str_at ''occurredAt'' (toy_payload s) = Some (toy_text (sg_occurred_at s))"
  "str_at ''unit'' (toy_payload s) = sg_unit s" "str_at ''e2e'' (toy_payload s) = sg_e2e s"
  "str_at ''release'' (toy_payload s) = sg_release s"
  by (simp_all add: toy_payload_def signal_json_def jget_def as_str_def opt_json_def split: option.splits)

lemma toy_signal_sel [simp]:
  "sg_kind toy_merge = ''pr.merged''" "sg_kind toy_checks = ''ci.completed''" "sg_kind toy_deploy = ''release.deployed''"
  "sg_commit toy_merge = toy_commit" "sg_commit toy_checks = toy_commit" "sg_commit toy_deploy = toy_commit"
  "sg_task toy_merge = 9" "sg_task toy_checks = 9" "sg_task toy_deploy = 9"
  "sg_delivery_id toy_merge = ''m''" "sg_delivery_id toy_checks = ''c''" "sg_delivery_id toy_deploy = ''d''"
  "sg_occurred_at toy_merge = 10000" "sg_occurred_at toy_checks = 11000" "sg_occurred_at toy_deploy = 12000"
  "sg_unit toy_checks = Some ''passed''" "sg_e2e toy_checks = Some ''passed''" "sg_release toy_deploy = Some ''r1''"
  by (simp_all add: toy_signal_defs)

lemma toy_verified: "\<exists>t \<in> set (board (desk_after toy_evidence toy_board)). ta_verified t"
proof -
  let ?c = "toy_row 0 toy_checks [2]" and ?d = "toy_row 3 toy_deploy [3]" and ?m = "toy_row 2 toy_merge [1]"
  let ?core = "dk_core toy_board"
  have s0: "toy_board = toy_board\<lparr>dk_deliveries := []\<rparr>" by (simp add: toy_board_def toy_desk_def)
  note counts = counts_for_def micros_def latest_def authority_of_def
  have none: "apply_evidence (toy_sender k) 4 s 1 5 toy_task None rows db = Inr db"
    if "authority_of (sg_task s) 1 5 rows = None" for k s rows and db :: "unit db"
    using that by (simp add: apply_evidence_def)
  have 1: "take_step (Signal (toy_sender 0) 4 toy_signed [2]) toy_board = toy_board\<lparr>dk_core := ?core, dk_deliveries := [?c]\<rparr>"
    using toy_take_in [of toy_checks "[2]" toy_board "[]" 0 ?core] s0 none [of toy_checks "[?c]" 0 ?core] toy_distinct
    by (simp add: counts)
  let ?S = "toy_board\<lparr>dk_core := ?core, dk_deliveries := [?c]\<rparr>"
  have s1: "?S = toy_board\<lparr>dk_deliveries := [?c]\<rparr>" by simp
  let ?T = "toy_board\<lparr>dk_core := ?core, dk_deliveries := [?c, ?d]\<rparr>"
  have 2: "take_step (Signal (toy_sender 3) 4 toy_signed [3]) ?S = ?T"
    using toy_take_in [OF _ _ s1, of toy_deploy "[3]" 3 ?core] none [of toy_deploy "[?c, ?d]" 3 ?core] toy_distinct
    by (simp add: counts)
  have s2: "?T = toy_board\<lparr>dk_deliveries := [?c, ?d]\<rparr>" by simp
  have a: "authority_of 9 1 5 [?c, ?d, ?m] = Some (toy_payload toy_merge)"
    and p: "proof_of 9 1 5 toy_commit ''ci.completed'' [?c, ?d, ?m] = Some (toy_payload toy_checks)"
      "proof_of 9 1 5 toy_commit ''release.deployed'' [?c, ?d, ?m] = Some (toy_payload toy_deploy)"
    by (simp_all add: counts proof_of_def)
  have j: "judge (\<lambda>s. Some (length s)) (toy_payload toy_merge) (Some (toy_payload toy_checks)) (Some (toy_payload toy_deploy))
      = (''done'', True, ''r1'')"
    by (simp add: judge_def member_is_def toy_payload_members Let_def del: Option.bind_assoc)
  have "\<exists>db. apply_evidence (toy_sender 2) 4 toy_merge 1 5 toy_task None ([?c, ?d] @ [?m]) ?core = Inr db
      \<and> (\<exists>t \<in> set (tasks (team db)). ta_verified t)"
    by (simp add: apply_evidence_def a p j toy_payload_members)
      (simp add: Let_def toy_task_def update_task_def automate_def team_event_def task_notification_def enqueue_def
        toy_board_def toy_desk_simps settle_evidence_def db_failed_def)
  then obtain db where db: "apply_evidence (toy_sender 2) 4 toy_merge 1 5 toy_task None ([?c, ?d] @ [?m]) ?core = Inr db"
    and t: "\<exists>t \<in> set (tasks (team db)). ta_verified t" by blast
  have 3: "take_step (Signal (toy_sender 2) 4 toy_signed [1]) ?T = ?T\<lparr>dk_core := db, dk_deliveries := [?c, ?d, ?m]\<rparr>"
    using toy_take_in [OF _ _ s2, of toy_merge "[1]" 2 db] db by simp
  show ?thesis unfolding toy_evidence_def desk_after_simps 1 2 3 using t by simp
qed

lemma toy_board_start: "ids_distinct (board toy_board)" "issues_distinct (board toy_board)"
  "\<forall>t \<in> set (board toy_board). columns_ok t \<and> \<not> ta_verified t" "dk_deliveries toy_board = []"
proof -
  have "char_count ''fix it'' = 6" by code_simp
  then show "ids_distinct (board toy_board)" "issues_distinct (board toy_board)"
    "\<forall>t \<in> set (board toy_board). columns_ok t \<and> \<not> ta_verified t" "dk_deliveries toy_board = []"
    by (simp_all add: toy_board_def toy_desk_def ids_distinct_def issues_distinct_def columns_ok_def toy_task_def)
qed

lemma toy_evidence_quiet: "\<forall>x \<in> set toy_evidence. quiet x \<and> reads_times (\<lambda>s. Some (length s)) x"
  by (simp add: toy_evidence_def quiet_def reads_times_def)

theorem verified_tasks_have_evidence_witness:
  "\<exists>t \<in> set (board (desk_after toy_evidence toy_board)). ta_verified t \<and>
     (\<exists>m c d. proves (\<lambda>s. Some (length s)) (ta_id t) (ta_fix_release t) m c d
       \<and> delivered_in toy_evidence toy_board m \<and> delivered_in toy_evidence toy_board c \<and> delivered_in toy_evidence toy_board d)"
proof -
  obtain t where t: "t \<in> set (board (desk_after toy_evidence toy_board))" "ta_verified t" using toy_verified by blast
  from verified_tasks_have_evidence [OF _ toy_board_start(4,1) toy_evidence_quiet t] toy_board_start(3) t
  show ?thesis by blast
qed

theorem board_stays_well_formed_witness:
  "ids_distinct (board (desk_after toy_evidence toy_board)) \<and> issues_distinct (board (desk_after toy_evidence toy_board))
    \<and> list_all columns_ok (board (desk_after toy_evidence toy_board))"
  using board_stays_well_formed [OF toy_board_start(1,2)] toy_board_start(3) toy_evidence_quiet
  unfolding list_all_iff by blast

text \<open>A comment by user 1 on version 1 of the task.\<close>
definition toy_comment :: task_command where "toy_comment = CommentTask 8 9 1 ''hm'' None"

lemma toy_comment_runs: "\<exists>j S'. run_command toy_desk_env 1 4 toy_comment toy_board = Inr (j, S')
    \<and> dk_accounts S' = dk_accounts toy_board \<and> dk_receipts S' = [((4, 1, 8), snd (identity toy_desk_env toy_comment), j)]"
proof -
  have "trim ''hm'' = ''hm''" by code_simp
  moreover have "\<not> ae_fails (de_auth toy_desk_env)" "4 \<in> set (ac_projects (dk_accounts toy_board))"
    "member (dk_accounts toy_board) 4 (Some 1) = Inr ()" "dk_receipts toy_board = []"
    by (simp_all add: toy_board_def toy_desk_simps member_def works_on_def)
  moreover have "\<exists>j db. carry_out toy_desk_env (dk_accounts toy_board) 4 1 toy_comment (dk_core toy_board) = Inr (j, db)"
    using calculation(1)
    by (simp add: toy_comment_def carry_out_def command_issue_def command_row_def command_id_def apply_comment_def member_def
        find_task_def update_task_def team_event_def task_notification_def enqueue_def toy_board_def toy_desk_simps Let_def)
      (simp add: toy_task_def bump_task_def db_failed_def find_task_def toy_desk_simps)
  ultimately show ?thesis
    by (auto simp: run_command_def identity_def toy_comment_def)
qed

theorem task_version_guards_witness:
  "\<exists>j S' r. run_command toy_desk_env 1 4 toy_comment toy_board = Inr (j, S')
     \<and> run_command toy_desk_env 2 4 (TransitionTask 9 9 1 ''ready'') (desk_after [Dispatched (toy_dispatch 0)] S') = Inl r"
proof -
  obtain j S' where run: "run_command toy_desk_env 1 4 toy_comment toy_board = Inr (j, S')"
    and r: "dk_receipts S' = [((4, 1, 8), snd (identity toy_desk_env toy_comment), j)]"
    using toy_comment_runs by blast
  have "map_of (dk_receipts toy_board) (4, 1, command_key toy_comment) = None" "command_target toy_comment = Some (9, 1)"
    "\<forall>x \<in> set [Dispatched (toy_dispatch 0) :: unit desk_step]. quiet x"
    by (simp_all add: toy_board_def toy_desk_def toy_comment_def quiet_def)
  moreover have "map_of (dk_receipts (desk_after [Dispatched (toy_dispatch 0)] S'))
      (4, 2, command_key (TransitionTask 9 9 1 ''ready'')) = None"
    by (simp add: r)
  moreover have "command_target (TransitionTask 9 9 1 ''ready'') = Some (9, 1)" by simp
  ultimately show ?thesis
    using task_version_guards [OF run _ _ toy_board_start(1), of 9 1 _ "TransitionTask 9 9 1 ''ready''" 1 4 2] run by blast
qed

theorem task_command_once_witness:
  "\<exists>j S'. run_command toy_desk_env 1 4 toy_comment toy_board = Inr (j, S')
     \<and> run_command toy_desk_env 1 4 toy_comment (desk_after [Dispatched (toy_dispatch 0)] S')
       = Inr (j, desk_after [Dispatched (toy_dispatch 0)] S')"
proof -
  obtain j S' where run: "run_command toy_desk_env 1 4 toy_comment toy_board = Inr (j, S')"
    and a: "dk_accounts S' = dk_accounts toy_board"
    using toy_comment_runs by blast
  have "user_stays 1 [Dispatched (toy_dispatch 0)] S'"
    by (auto simp: user_stays_def a less_Suc_eq_le le_Suc_eq) (simp_all add: toy_board_def toy_desk_def)
  moreover have "\<not> ae_fails (de_auth toy_desk_env)"
    "4 \<in> set (ac_projects (dk_accounts (desk_after [Dispatched (toy_dispatch 0)] S')))"
    "works_on (dk_accounts (desk_after [Dispatched (toy_dispatch 0)] S')) 4 1"
    by (simp_all add: a) (simp_all add: toy_board_def toy_desk_simps works_on_def)
  ultimately show ?thesis using task_command_once [OF run _ refl] run by blast
qed

end
