(* ===== verification/IssueCommands.thy ===== *)
theory IssueCommands
  imports Tasks "HOL-Library.List_Lexorder"
begin

text \<open>
  The issues of the console and of automation: \<^verbatim>\<open>self-hosted/server/src/handlers/issues.rs\<close> (the
  list with its filters, orders and totals, one issue, its occurrences, and the decisions on it),
  \<^verbatim>\<open>handlers/api.rs\<close> (the same for a token of scope \<open>api\<close>, and the registration of probes) and
  \<^verbatim>\<open>event_filter.rs\<close>.  A query reads the tables of the pipeline.  \<open>ie_collate\<close> is the collation's sort
  key; the printing of instants and of \<open>jsonb\<close> scalars, reading the tags of a filter, the newest
  screens of an event and the registered apps are parameters.
\<close>

record issue_env =
  ie_desk :: desk_env
  ie_rfc3339 :: "instant \<Rightarrow> string option"
  ie_collate :: "string \<Rightarrow> bytes"
  ie_tags :: "string \<Rightarrow> json list option"
  ie_text :: "json \<Rightarrow> string"
  ie_screens :: "uuid \<Rightarrow> uuid option"
  ie_app_exists :: "uuid \<Rightarrow> uuid \<Rightarrow> bool"

abbreviation ie_auth :: "issue_env \<Rightarrow> auth_env" where "ie_auth E \<equiv> de_auth (ie_desk E)"

definition stamp_json :: "issue_env \<Rightarrow> instant \<Rightarrow> json" where
  "stamp_json E t = opt_json JStr (ie_rfc3339 E t)"

definition stamp_json_opt :: "issue_env \<Rightarrow> instant option \<Rightarrow> json" where
  "stamp_json_opt E t = (case t of None \<Rightarrow> JNull | Some t \<Rightarrow> stamp_json E t)"

subsection \<open>Filters over events\<close>

record event_filter =
  ef_app :: "uuid option"
  ef_platform :: "string option"
  ef_environment :: "string option"
  ef_release :: "string option"
  ef_context_key :: "string option"
  ef_context_value :: "string option"
  ef_tags :: "string option"

text \<open>A filter that has been validated, with its tags as JSON.\<close>
record selection =
  sl_app :: "uuid option"
  sl_platform :: "string option"
  sl_environment :: "string option"
  sl_release :: "string option"
  sl_tags :: "json list"

definition invalid_filter :: "string \<Rightarrow> http_reply" where
  "invalid_filter f = plain 400 (JObj [(''error'', JStr ''invalid_filter''), (''field'', JStr f)])"

definition tag_ok :: "json \<Rightarrow> bool" where
  "tag_ok t \<longleftrightarrow> str_at ''source'' t \<in> {Some ''context'', Some ''tags''}
     \<and> (case str_at ''key'' t of None \<Rightarrow> False | Some k \<Rightarrow> k \<noteq> [] \<and> length k \<le> 200)
     \<and> (case str_at ''value'' t of None \<Rightarrow> False | Some v \<Rightarrow> length v \<le> 1000)"

definition too_long :: "string option \<Rightarrow> bool" where
  "too_long v = (case v of None \<Rightarrow> False | Some s \<Rightarrow> 1000 < length s)"

definition validated :: "issue_env \<Rightarrow> event_filter \<Rightarrow> http_reply + selection" where
  "validated E f =
     (if (case ef_platform f of None \<Rightarrow> False
          | Some p \<Rightarrow> p \<notin> {''ios'', ''android'', ''web'', ''weapp'', ''javascript'', ''unknown''})
      then Inl (invalid_filter ''platform'')
      else if too_long (ef_environment f) then Inl (invalid_filter ''environment'')
      else if too_long (ef_release f) then Inl (invalid_filter ''release'')
      else
        bind_res (case ef_tags f of
            None \<Rightarrow> Inr []
          | Some raw \<Rightarrow> if length raw \<le> 16000 then ok_or (invalid_filter ''tags'') (ie_tags E raw)
              else Inl (invalid_filter ''tags'')) (\<lambda>ts.
        bind_res (case (ef_context_key f, ef_context_value f) of
            (Some k, Some v) \<Rightarrow> Inr (ts @ [JObj [(''source'', JStr ''context''), (''key'', JStr k), (''value'', JStr v)]])
          | (None, None) \<Rightarrow> Inr ts
          | _ \<Rightarrow> Inl (invalid_filter ''context_key'')) (\<lambda>ts.
        if 12 < length ts \<or> (\<exists>t \<in> set ts. \<not> tag_ok t) then Inl (invalid_filter ''tags'')
        else Inr \<lparr>sl_app = ef_app f, sl_platform = ef_platform f, sl_environment = ef_environment f,
                  sl_release = ef_release f, sl_tags = ts\<rparr>)))"

text \<open>\<open>j ->> key\<close>: the text of a member, null where there is none or it is null.\<close>
definition member_text :: "issue_env \<Rightarrow> string \<Rightarrow> json \<Rightarrow> string option" where
  "member_text E k j = (case jget k j of
      None \<Rightarrow> None | Some JNull \<Rightarrow> None | Some (JStr s) \<Rightarrow> Some s | Some v \<Rightarrow> Some (ie_text E v))"

definition tag_holds :: "issue_env \<Rightarrow> event_row \<Rightarrow> json \<Rightarrow> bool" where
  "tag_holds E e t \<longleftrightarrow>
     (case Option.bind (str_at ''source'' t) (\<lambda>s. jget s (er_payload e)) of
        None \<Rightarrow> None
      | Some part \<Rightarrow> member_text E (unwrap_or [] (str_at ''key'' t)) part) = str_at ''value'' t"

definition asks :: "'a option \<Rightarrow> 'a \<Rightarrow> bool" where
  "asks want x = (case want of None \<Rightarrow> True | Some w \<Rightarrow> x = w)"

definition event_matches :: "issue_env \<Rightarrow> selection \<Rightarrow> event_row \<Rightarrow> bool" where
  "event_matches E sl e \<longleftrightarrow> (case sl_app sl of None \<Rightarrow> True | Some a \<Rightarrow> er_app e = Some a)
     \<and> asks (sl_platform sl) (er_platform e) \<and> asks (sl_environment sl) (er_environment e)
     \<and> asks (sl_release sl) (er_release e) \<and> (\<forall>t \<in> set (sl_tags sl). tag_holds E e t)"

definition narrows :: "selection \<Rightarrow> bool" where
  "narrows sl \<longleftrightarrow> sl_app sl \<noteq> None \<or> sl_platform sl \<noteq> None \<or> sl_environment sl \<noteq> None
     \<or> sl_release sl \<noteq> None \<or> sl_tags sl \<noteq> []"

subsection \<open>The query of the list\<close>

text \<open>What the matching events of one issue add up to.\<close>
record event_stats =
  es_events :: nat
  es_users :: nat
  es_max_per_user :: nat
  es_last_seen :: instant
  es_last_received :: instant
  es_last_release :: string

definition latest_of :: "('a \<Rightarrow> nat) \<Rightarrow> 'a list \<Rightarrow> nat" where
  "latest_of f xs = foldr (\<lambda>x m. max (f x) m) xs 0"

text \<open>A stable descending sort.\<close>
definition sort_desc :: "('a \<Rightarrow> 'k :: linorder) \<Rightarrow> 'a list \<Rightarrow> 'a list" where
  "sort_desc f xs = rev (sort_key f (rev xs))"

definition stats_of :: "(uuid \<times> event_row) list \<Rightarrow> uuid \<Rightarrow> event_stats option" where
  "stats_of matching i =
     (let es = filter (\<lambda>(_, e). er_issue e = i) matching;
          keys = remdups (List.map_filter (\<lambda>(_, e). er_user_key e) es)
      in case sort_desc (\<lambda>(_, e). er_occurred_at e) (sort_desc fst es) of
           [] \<Rightarrow> None
         | newest # _ \<Rightarrow> Some \<lparr>es_events = length es, es_users = length keys,
             es_max_per_user = latest_of (\<lambda>u. length (filter (\<lambda>(_, e). er_user_key e = Some u) es)) keys,
             es_last_seen = latest_of (\<lambda>(_, e). er_occurred_at e) es,
             es_last_received = latest_of (\<lambda>(_, e). er_received e) es,
             es_last_release = er_release (snd newest)\<rparr>)"

record issue_line =
  il_id :: uuid
  il_issue :: issue
  il_stats :: "event_stats option"

definition coalesced :: "(event_stats \<Rightarrow> 'a) \<Rightarrow> (issue \<Rightarrow> 'a) \<Rightarrow> issue_line \<Rightarrow> 'a" where
  "coalesced f g l = (case il_stats l of None \<Rightarrow> g (il_issue l) | Some s \<Rightarrow> f s)"

abbreviation il_events :: "issue_line \<Rightarrow> nat" where "il_events \<equiv> coalesced es_events is_event_count"
abbreviation il_users :: "issue_line \<Rightarrow> nat" where "il_users \<equiv> coalesced es_users is_users_count"
abbreviation il_depth :: "issue_line \<Rightarrow> nat" where "il_depth \<equiv> coalesced es_max_per_user is_max_per_user"
abbreviation il_last_seen :: "issue_line \<Rightarrow> instant" where "il_last_seen \<equiv> coalesced es_last_seen is_last_seen"
abbreviation il_release :: "issue_line \<Rightarrow> string" where "il_release \<equiv> coalesced es_last_release is_last_release"

text \<open>\<open>'^[A-Z][A-Za-z0-9]*$'\<close>\<close>
definition type_name :: "string \<Rightarrow> bool" where
  "type_name s = (case s of [] \<Rightarrow> False
     | c # _ \<Rightarrow> 65 \<le> char_val c \<and> char_val c \<le> 90 \<and> list_all is_ascii_alphanumeric s)"

definition display_title :: "issue_line \<Rightarrow> string" where
  "display_title l = (let r = il_issue l in
     if type_name (is_title r) \<and> is_message r \<noteq> [] \<and> is_message r \<noteq> is_title r then is_message r else is_title r)"

definition is_regressed :: "issue \<Rightarrow> bool" where
  "is_regressed r \<longleftrightarrow> is_status r = ''open'' \<and> is_regressed_at r \<noteq> None"

text \<open>The binds of the query, but for the page.\<close>
record issue_query =
  iq_status :: string
  iq_project :: "uuid option"
  iq_kind :: "string option"
  iq_scope :: "uuid list option"
  iq_filter :: selection
  iq_q :: "string option"
  iq_sort :: string
  iq_group :: string

definition wants_project :: "issue_query \<Rightarrow> uuid \<Rightarrow> bool" where
  "wants_project q project \<longleftrightarrow> asks (iq_project q) project
     \<and> (case iq_scope q of None \<Rightarrow> True | Some ps \<Rightarrow> project \<in> set ps)"

definition matching :: "issue_env \<Rightarrow> issue_query \<Rightarrow> 'x db \<Rightarrow> (uuid \<times> event_row) list" where
  "matching E q db = (if narrows (iq_filter q)
     then filter (\<lambda>(_, e). wants_project q (er_project e) \<and> event_matches E (iq_filter q) e) (events db) else [])"

definition line_wanted :: "issue_env \<Rightarrow> issue_query \<Rightarrow> issue_line \<Rightarrow> bool" where
  "line_wanted E q l = (let r = il_issue l; low = ae_lower (ie_auth E) in
     (iq_status q = ''all'' \<or> is_status r = iq_status q) \<and> wants_project q (is_project r)
     \<and> asks (iq_kind q) (is_kind r) \<and> (narrows (iq_filter q) \<longrightarrow> il_stats l \<noteq> None)
     \<and> (case iq_q q of None \<Rightarrow> True
        | Some s \<Rightarrow> str_contains (low (is_title r)) (low s) \<or> str_contains (low (is_message r)) (low s)
            \<or> str_contains (ae_uuid_text (ie_auth E) (il_id l)) (low s))
     \<and> (iq_group q = ''all'' \<or> iq_group q = ''open'' \<and> is_status r = ''open''
        \<or> iq_group q = ''regressed'' \<and> is_regressed r
        \<or> iq_group q = ''fresh'' \<and> ae_now (ie_auth E) < is_first_seen r + secs 86400))"

definition lines_of :: "issue_env \<Rightarrow> issue_query \<Rightarrow> 'x db \<Rightarrow> issue_line list" where
  "lines_of E q db = filter (line_wanted E q)
     (map (\<lambda>(i, r). \<lparr>il_id = i, il_issue = r, il_stats = stats_of (matching E q db) i\<rparr>) (issues db))"

definition ordered :: "issue_env \<Rightarrow> string \<Rightarrow> issue_line list \<Rightarrow> issue_line list" where
  "ordered E sort_by ls =
     (let ls = sort_desc il_last_seen (sort_desc il_id ls) in
      if sort_by = ''impact'' then
        sort_desc (\<lambda>l. is_regressed (il_issue l)) (sort_desc il_users (sort_desc il_depth ls))
      else if sort_by = ''title_asc'' then sort_key (\<lambda>l. ie_collate E (display_title l)) ls
      else if sort_by = ''title_desc'' then sort_desc (\<lambda>l. ie_collate E (display_title l)) ls
      else if sort_by = ''kind_asc'' then sort_key (\<lambda>l. ie_collate E (is_kind (il_issue l))) ls
      else if sort_by = ''kind_desc'' then sort_desc (\<lambda>l. ie_collate E (is_kind (il_issue l))) ls
      else if sort_by = ''status_asc'' then sort_key (\<lambda>l. ie_collate E (is_status (il_issue l))) ls
      else if sort_by = ''status_desc'' then sort_desc (\<lambda>l. ie_collate E (is_status (il_issue l))) ls
      else if sort_by = ''events_asc'' then sort_key il_events ls
      else if sort_by = ''events_desc'' then sort_desc il_events ls
      else if sort_by = ''users_asc'' then sort_key il_users ls
      else if sort_by = ''users_desc'' then sort_desc il_users ls
      else if sort_by = ''oldest'' then sort_key il_last_seen ls
      else ls)"

text \<open>The wanted issues in their order: the list a page is cut from.\<close>
definition issue_lines :: "issue_env \<Rightarrow> issue_query \<Rightarrow> 'x db \<Rightarrow> issue_line list" where
  "issue_lines E q db = ordered E (iq_sort q) (lines_of E q db)"

definition release_count :: "issue_env \<Rightarrow> issue_query \<Rightarrow> issue_line list \<Rightarrow> 'x db \<Rightarrow> nat" where
  "release_count E q ls db = length (remdups (filter (\<lambda>r. r \<noteq> [])
     (if narrows (iq_filter q)
      then map (er_release \<circ> snd) (filter (\<lambda>(_, e). er_issue e \<in> il_id ` set ls) (matching E q db))
      else map (is_last_release \<circ> il_issue) ls)))"

definition issue_summary :: "issue_env \<Rightarrow> issue_query \<Rightarrow> issue_line list \<Rightarrow> 'x db \<Rightarrow> json" where
  "issue_summary E q ls db =
     (let n = (\<lambda>P. JInt (int (length (filter P ls)))) in
      JObj [(''events'', JInt (int (sum_list (map il_events ls)))),
        (''open'', n (\<lambda>l. is_status (il_issue l) = ''open'')), (''regressed'', n (\<lambda>l. is_regressed (il_issue l))),
        (''releases'', JInt (int (release_count E q ls db)))])"

text \<open>\<open>max(received_at)\<close> over the issue's events.\<close>
definition last_received :: "uuid \<Rightarrow> 'x db \<Rightarrow> instant option" where
  "last_received i db = (let es = filter (\<lambda>(_, e). er_issue e = i) (events db) in
     if es = [] then None else Some (latest_of (\<lambda>(_, e). er_received e) es))"

definition issue_row_json :: "issue_env \<Rightarrow> issue_line \<Rightarrow> instant option \<Rightarrow> json" where
  "issue_row_json E l received = (let r = il_issue l; D = ie_desk E in
     JObj [(''id'', uuid_str D (il_id l)), (''projectId'', uuid_str D (is_project r)), (''kind'', JStr (is_kind r)),
       (''title'', JStr (is_title r)), (''messageSample'', JStr (is_message r)), (''surface'', is_surface r),
       (''status'', JStr (is_status r)), (''firstSeen'', stamp_json E (is_first_seen r)),
       (''lastSeen'', stamp_json E (il_last_seen l)), (''lastReceivedAt'', stamp_json_opt E received),
       (''eventCount'', JInt (int (il_events l))), (''usersCount'', JInt (int (il_users l))),
       (''maxPerUser'', JInt (int (il_depth l))), (''lastRelease'', JStr (il_release l)),
       (''assigneeUserId'', opt_json (uuid_str D) (is_assignee r)),
       (''resolvedAt'', stamp_json_opt E (is_resolved_at r)),
       (''resolvedInRelease'', opt_json JStr (is_resolved_in r)),
       (''regressedAt'', stamp_json_opt E (is_regressed_at r)),
       (''regressedInRelease'', opt_json JStr (is_regressed_in r)),
       (''environment'', JStr (is_environment r)), (''platform'', JStr (is_platform r))])"

definition line_json :: "issue_env \<Rightarrow> 'x db \<Rightarrow> issue_line \<Rightarrow> json" where
  "line_json E db l = issue_row_json E l
     (case il_stats l of Some s \<Rightarrow> Some (es_last_received s) | None \<Rightarrow> last_received (il_id l) db)"

subsection \<open>Listing\<close>

record list_query =
  lq_status :: "string option"
  lq_kind :: "string option"
  lq_project :: "uuid option"
  lq_limit :: "int option"
  lq_offset :: "int option"
  lq_q :: "string option"
  lq_sort :: "string option"
  lq_group :: "string option"
  lq_filters :: event_filter

record list_window =
  lw_limit :: nat
  lw_offset :: nat
  lw_status :: string
  lw_sort :: string
  lw_group :: string

definition STATUSES :: "string list" where "STATUSES = [''open'', ''resolved'', ''ignored'', ''all'']"
definition KINDS :: "string list" where "KINDS = [''error'', ''warn'', ''trace'', ''assert'', ''probe'']"
definition SORTS :: "string list" where
  "SORTS = [''impact'', ''newest'', ''oldest'', ''title_asc'', ''title_desc'', ''kind_asc'', ''kind_desc'',
     ''status_asc'', ''status_desc'', ''events_asc'', ''events_desc'', ''users_asc'', ''users_desc'']"
definition GROUPS :: "string list" where "GROUPS = [''all'', ''open'', ''regressed'', ''fresh'']"

text \<open>A refusal with its code, its sentence and the parameter it is about.\<close>
definition invalid :: "string \<Rightarrow> string option \<Rightarrow> string option \<Rightarrow> http_reply" where
  "invalid c detail param = plain 400 (JObj ([(''error'', JStr c)]
     @ (case detail of None \<Rightarrow> [] | Some d \<Rightarrow> [(''detail'', JStr d)])
     @ (case param of None \<Rightarrow> [] | Some f \<Rightarrow> [(''field'', JStr f)])))"

definition invalid_window :: "string \<Rightarrow> http_reply" where
  "invalid_window f = invalid (''invalid_'' @ f) None (Some f)"

definition list_window :: "list_query \<Rightarrow> http_reply + list_window" where
  "list_window q =
     (let limit = (case lq_limit q of Some n \<Rightarrow> min n 500 | None \<Rightarrow> 100);
          offset = unwrap_or 0 (lq_offset q);
          sort_by = unwrap_or ''newest'' (lq_sort q);
          group = unwrap_or ''all'' (lq_group q);
          st = unwrap_or ''open'' (lq_status q)
      in
        if limit < 0 then Inl (invalid ''invalid_limit'' (Some ''limit must not be negative'') None)
        else if offset < 0 then Inl (invalid_window ''offset'')
        else if sort_by \<notin> set SORTS then Inl (invalid_window ''sort'')
        else if group \<notin> set GROUPS then Inl (invalid_window ''group'')
        else if (case lq_q q of None \<Rightarrow> False | Some s \<Rightarrow> 200 < char_count s) then Inl (invalid_window ''q'')
        else if st \<notin> set STATUSES then
          Inl (invalid ''invalid_status'' (Some ''status must be one of open, resolved, ignored, all'') (Some ''status''))
        else if (case lq_kind q of None \<Rightarrow> False | Some k \<Rightarrow> k \<notin> set KINDS) then
          Inl (invalid ''invalid_kind'' (Some ''kind must be one of error, warn, trace, assert, probe'') (Some ''kind''))
        else Inr \<lparr>lw_limit = nat limit, lw_offset = nat offset, lw_status = st, lw_sort = sort_by, lw_group = group\<rparr>)"

definition visible_projects :: "issue_env \<Rightarrow> session_context \<Rightarrow> accounts \<Rightarrow> http_reply + uuid list option" where
  "visible_projects E ctx A =
     (if sx_role ctx = Superadmin then Inr None
      else if ae_fails (ie_auth E) then Inl internal
      else Inr (Some (map snd (filter (\<lambda>(u, _). u = sx_user ctx) (ac_assigned A)))))"

definition next_page :: "nat \<Rightarrow> nat \<Rightarrow> nat \<Rightarrow> nat \<Rightarrow> json" where
  "next_page limit offset shown all = (let n = offset + shown in
     if 0 < limit \<and> n < all then JInt (int n) else JNull)"

definition page_of :: "nat \<Rightarrow> nat \<Rightarrow> 'a list \<Rightarrow> 'a list" where
  "page_of limit offset xs = take limit (drop offset xs)"

definition list_reply :: "issue_env \<Rightarrow> issue_query \<Rightarrow> nat \<Rightarrow> nat \<Rightarrow> 'x db \<Rightarrow> http_reply" where
  "list_reply E q limit offset db =
     (let ls = issue_lines E q db; page = page_of limit offset ls in
      plain 200 (JObj [(''issues'', JArr (map (line_json E db) page)), (''total'', JInt (int (length ls))),
        (''limit'', JInt (int limit)), (''offset'', JInt (int offset)), (''summary'', issue_summary E q ls db),
        (''nextOffset'', next_page limit offset (length page) (length ls))]))"

definition query_of :: "list_query \<Rightarrow> list_window \<Rightarrow> uuid list option \<Rightarrow> selection \<Rightarrow> issue_query" where
  "query_of q w scope sl = \<lparr>iq_status = lw_status w, iq_project = lq_project q, iq_kind = lq_kind q, iq_scope = scope,
     iq_filter = sl, iq_q = (case map_option trim (lq_q q) of Some [] \<Rightarrow> None | s \<Rightarrow> s), iq_sort = lw_sort w,
     iq_group = lw_group w\<rparr>"

definition list_issues :: "issue_env \<Rightarrow> session_context \<Rightarrow> list_query \<Rightarrow> 'x desk \<Rightarrow> http_reply" where
  "list_issues E ctx q S =
     (case bind_res (visible_projects E ctx (dk_accounts S)) (\<lambda>scope.
           bind_res (list_window q) (\<lambda>w.
           bind_res (validated E (lq_filters q)) (\<lambda>sl.
           if ae_fails (ie_auth E) then Inl internal
           else Inr (list_reply E (query_of q w scope sl) (lw_limit w) (lw_offset w) (dk_core S))))) of
        Inl r \<Rightarrow> r | Inr r \<Rightarrow> r)"

subsection \<open>One issue\<close>

definition load_issue :: "issue_env \<Rightarrow> session_context \<Rightarrow> uuid \<Rightarrow> 'x desk \<Rightarrow> http_reply + issue" where
  "load_issue E ctx i S =
     (if ae_fails (ie_auth E) then Inl internal
      else bind_res (ok_or (failure 404 ''issue_not_found'') (map_of (issues (dk_core S)) i)) (\<lambda>r.
        bind_res (project_access (ie_auth E) (dk_accounts S) ctx (is_project r)) (\<lambda>_. Inr r)))"

definition issue_events :: "uuid \<Rightarrow> 'x db \<Rightarrow> (uuid \<times> event_row) list" where
  "issue_events i db = filter (\<lambda>(_, e). er_issue e = i) (events db)"

text \<open>The releases the issue appeared in, the one last seen in first.\<close>
definition release_rows :: "issue_env \<Rightarrow> uuid \<Rightarrow> 'x db \<Rightarrow> json list" where
  "release_rows E i db =
     (let es = map snd (issue_events i db);
          at = (\<lambda>rel. map er_occurred_at (filter (\<lambda>e. er_release e = rel) es));
          rels = sort_desc (\<lambda>rel. latest_of id (at rel)) (remdups (map er_release es))
      in map (\<lambda>rel. JObj [(''release'', JStr rel), (''events'', JInt (int (length (at rel)))),
           (''firstAt'', stamp_json E (foldr min (at rel) (latest_of id (at rel)))),
           (''lastAt'', stamp_json E (latest_of id (at rel)))]) (take 50 rels))"

definition assignee_rows :: "issue_env \<Rightarrow> accounts \<Rightarrow> uuid \<Rightarrow> json list" where
  "assignee_rows E A project =
     map (\<lambda>(u, w). JObj [(''id'', uuid_str (ie_desk E) u), (''email'', JStr (us_email w)),
         (''displayName'', opt_json JStr (us_display w))])
       (sort_key (\<lambda>(_, w). ie_collate E (ae_lower (ie_auth E) (us_email w)))
         (sort_key fst (filter (\<lambda>(u, w). us_role w = ''superadmin'' \<or> (u, project) \<in> set (ac_assigned A)) (ac_users A))))"

text \<open>\<open>history\<close>: the newest hundred entries of the issue's activity as they are printed.\<close>
definition get_issue :: "issue_env \<Rightarrow> (uuid \<Rightarrow> json list) \<Rightarrow> session_context \<Rightarrow> uuid \<Rightarrow> 'x desk \<Rightarrow> http_reply" where
  "get_issue E history ctx i S = (case load_issue E ctx i S of
      Inl r \<Rightarrow> r
    | Inr r \<Rightarrow>
        let line = \<lparr>il_id = i, il_issue = r, il_stats = None\<rparr> in
        plain 200 (jset ''releases'' (JArr (release_rows E i (dk_core S)))
          (jset ''activity'' (JArr (history i))
          (jset ''assignees'' (JArr (assignee_rows E (dk_accounts S) (is_project r)))
            (line_json E (dk_core S) line)))))"

text \<open>The occurrences the filter selects, the last received first.\<close>
definition occurrence_rows :: "issue_env \<Rightarrow> uuid \<Rightarrow> selection \<Rightarrow> 'x db \<Rightarrow> (uuid \<times> event_row) list" where
  "occurrence_rows E i sl db = sort_desc (\<lambda>(_, e). er_received e)
     (sort_desc fst (filter (\<lambda>(_, e). event_matches E sl e) (issue_events i db)))"

definition occurrence_json :: "issue_env \<Rightarrow> uuid \<times> event_row \<Rightarrow> json" where
  "occurrence_json E row = (case row of (i, e) \<Rightarrow> JObj [(''id'', uuid_str (ie_desk E) i), (''kind'', JStr (er_kind e)),
     (''platform'', JStr (er_platform e)), (''occurredAt'', stamp_json E (er_occurred_at e)),
     (''receivedAt'', stamp_json E (er_received e)), (''release'', JStr (er_release e)),
     (''environment'', JStr (er_environment e)), (''userKey'', opt_json JStr (er_user_key e)),
     (''screensRef'', opt_json (uuid_str (ie_desk E)) (ie_screens E i))])"

definition occurrence_reply :: "issue_env \<Rightarrow> uuid \<Rightarrow> selection \<Rightarrow> nat \<Rightarrow> nat \<Rightarrow> 'x db \<Rightarrow> http_reply" where
  "occurrence_reply E i sl limit offset db =
     (let rows = occurrence_rows E i sl db; page = page_of limit offset rows in
      plain 200 (JObj [(''events'', JArr (map (occurrence_json E) page)), (''total'', JInt (int (length rows))),
        (''limit'', JInt (int limit)), (''offset'', JInt (int offset)),
        (''nextOffset'', next_page limit offset (length page) (length rows))]))"

definition occurrences ::
  "issue_env \<Rightarrow> session_context \<Rightarrow> uuid \<Rightarrow> event_filter \<Rightarrow> int option \<Rightarrow> int option \<Rightarrow> 'x desk \<Rightarrow> http_reply" where
  "occurrences E ctx i f limit offset S =
     (case bind_res (load_issue E ctx i S) (\<lambda>_.
        let limit = min (unwrap_or 100 limit) 500; offset = unwrap_or 0 offset in
        if limit < 0 \<or> offset < 0 then Inl (failure 400 ''invalid_pagination'')
        else bind_res (validated E f) (\<lambda>sl.
          Inr (occurrence_reply E i sl (nat limit) (nat offset) (dk_core S)))) of
        Inl r \<Rightarrow> r | Inr r \<Rightarrow> r)"

subsection \<open>Decisions\<close>

definition noted :: "uuid \<Rightarrow> uuid option \<Rightarrow> string \<Rightarrow> json \<Rightarrow> 'x db \<Rightarrow> 'x db" where
  "noted i actor k body db = db\<lparr>activity := activity db @ [(i, k, body, actor)]\<rparr>"

definition resolve_row :: "instant \<Rightarrow> string option \<Rightarrow> issue \<Rightarrow> issue" where
  "resolve_row now release r = r\<lparr>is_status := ''resolved'', is_resolved_at := Some now, is_resolved_in := release,
     is_regressed_at := None, is_regressed_in := None\<rparr>"

definition on_core :: "('x db \<Rightarrow> 'x db) \<Rightarrow> 'x desk \<Rightarrow> 'x desk" where
  "on_core f S = S\<lparr>dk_core := f (dk_core S)\<rparr>"

definition exceeds :: "nat \<Rightarrow> string option \<Rightarrow> bool" where
  "exceeds n v = (case v of None \<Rightarrow> False | Some s \<Rightarrow> n < char_count s)"

definition nonblank :: "string option \<Rightarrow> string option" where
  "nonblank v = (case map_option trim v of Some [] \<Rightarrow> None | s \<Rightarrow> s)"

definition resolve_issue ::
  "issue_env \<Rightarrow> session_context \<Rightarrow> uuid \<Rightarrow> string option \<Rightarrow> string option \<Rightarrow> 'x desk \<Rightarrow> http_reply \<times> 'x desk" where
  "resolve_issue E ctx i release note S = (case load_issue E ctx i S of
      Inl e \<Rightarrow> (e, S)
    | Inr r \<Rightarrow>
        if exceeds 200 release \<or> exceeds 10000 note then (failure 400 ''invalid_resolution'', S)
        else
          let release = nonblank release;
              changed = is_status r \<noteq> ''resolved'' \<or> is_resolved_in r \<noteq> release;
              body = JObj [(''to'', JStr ''resolved''), (''inRelease'', opt_json JStr release), (''note'', opt_json JStr note)]
          in if ae_late_fails (ie_auth E) then (internal, S)
             else (ok_reply, on_core (\<lambda>db.
               let db = (if changed then update_issue i (resolve_row (ae_now (ie_auth E)) release) db else db)
               in if changed \<or> note \<noteq> None then noted i (Some (sx_user ctx)) ''status'' body db else db) S))"

definition set_status :: "issue_env \<Rightarrow> session_context \<Rightarrow> uuid \<Rightarrow> string \<Rightarrow> 'x desk \<Rightarrow> http_reply \<times> 'x desk" where
  "set_status E ctx i to S = (case load_issue E ctx i S of
      Inl e \<Rightarrow> (e, S)
    | Inr r \<Rightarrow>
        if ae_late_fails (ie_auth E) then (internal, S)
        else (ok_reply, if is_status r = to then S
          else on_core (noted i (Some (sx_user ctx)) ''status'' (JObj [(''to'', JStr to)])
            \<circ> update_issue i (\<lambda>r. r\<lparr>is_status := to\<rparr>)) S))"

definition ignore_issue :: "issue_env \<Rightarrow> session_context \<Rightarrow> uuid \<Rightarrow> 'x desk \<Rightarrow> http_reply \<times> 'x desk" where
  "ignore_issue E ctx i S = set_status E ctx i ''ignored'' S"

definition reopen_issue :: "issue_env \<Rightarrow> session_context \<Rightarrow> uuid \<Rightarrow> 'x desk \<Rightarrow> http_reply \<times> 'x desk" where
  "reopen_issue E ctx i S = set_status E ctx i ''open'' S"

definition assign_issue :: "issue_env \<Rightarrow> session_context \<Rightarrow> uuid \<Rightarrow> uuid option \<Rightarrow> 'x desk \<Rightarrow> http_reply \<times> 'x desk" where
  "assign_issue E ctx i who S = (case load_issue E ctx i S of
      Inl e \<Rightarrow> (e, S)
    | Inr r \<Rightarrow>
        if ae_late_fails (ie_auth E) then (internal, S)
        else if \<not> (case who of None \<Rightarrow> True | Some u \<Rightarrow> works_on (dk_accounts S) (is_project r) u)
        then (failure 400 ''invalid_assignee'', S)
        else (ok_reply, if is_assignee r = who then S
          else on_core (noted i (Some (sx_user ctx)) ''assign'' (JObj [(''assignee'', opt_json (uuid_str (ie_desk E)) who)])
            \<circ> update_issue i (\<lambda>r. r\<lparr>is_assignee := who\<rparr>)) S))"

definition note_reply :: http_reply where "note_reply = plain 201 (JObj [(''ok'', JBool True)])"

definition add_note :: "issue_env \<Rightarrow> session_context \<Rightarrow> uuid \<Rightarrow> string \<Rightarrow> 'x desk \<Rightarrow> http_reply \<times> 'x desk" where
  "add_note E ctx i body S = (case load_issue E ctx i S of
      Inl e \<Rightarrow> (e, S)
    | Inr r \<Rightarrow>
        if trim body = [] \<or> 10000 < char_count body then (failure 400 ''invalid_note'', S)
        else if ae_late_fails (ie_auth E) then (internal, S)
        else (note_reply, on_core (noted i (Some (sx_user ctx)) ''note'' (JObj [(''text'', JStr body)])) S))"

subsection \<open>Automation\<close>

text \<open>An entry written on its own: lost where the database refuses it.\<close>
definition record_activity :: "issue_env \<Rightarrow> uuid \<Rightarrow> uuid option \<Rightarrow> string \<Rightarrow> json \<Rightarrow> 'x db \<Rightarrow> 'x db" where
  "record_activity E i actor k body db = (if ae_audit_fails (ie_auth E) then db else noted i actor k body db)"

definition load_scoped :: "issue_env \<Rightarrow> ingest_context \<Rightarrow> uuid \<Rightarrow> 'x db \<Rightarrow> http_reply + unit" where
  "load_scoped E ctx i db =
     (case (if ae_fails (ie_auth E) then None else map_of (issues db) i) of
        Some r \<Rightarrow> if is_project r = ic_project ctx then Inr () else Inl (failure 404 ''issue_not_found'')
      | None \<Rightarrow> Inl (failure 404 ''issue_not_found''))"

definition api_reply :: "issue_env \<Rightarrow> issue_query \<Rightarrow> nat \<Rightarrow> nat \<Rightarrow> 'x db \<Rightarrow> http_reply" where
  "api_reply E q limit offset db =
     (let ls = issue_lines E q db; page = page_of limit offset ls in
      plain 200 (JObj [
        (''issues'', JArr (map (\<lambda>l. jset ''regressed'' (JBool (is_regressed_at (il_issue l) \<noteq> None)) (line_json E db l)) page)),
        (''total'', JInt (int (length ls))), (''limit'', JInt (int limit)), (''offset'', JInt (int offset)),
        (''nextOffset'', next_page limit offset (length page) (length ls))]))"

definition api_list :: "issue_env \<Rightarrow> ingest_context \<Rightarrow> list_query \<Rightarrow> 'x db \<Rightarrow> http_reply" where
  "api_list E ctx q db =
     (case bind_res (require_api_scope ctx) (\<lambda>_.
        let limit = clamp 1 200 (unwrap_or 50 (lq_limit q)); offset = unwrap_or 0 (lq_offset q);
            st = unwrap_or ''open'' (lq_status q)
        in if offset < 0 then Inl (failure 400 ''invalid_issue_filter'')
           else if st \<notin> set STATUSES \<or> (case lq_kind q of None \<Rightarrow> False | Some k \<Rightarrow> k \<notin> set KINDS)
           then Inl (failure 400 ''invalid_issue_filter'')
           else bind_res (validated E (lq_filters q)) (\<lambda>sl.
             if ae_fails (ie_auth E) then Inl internal
             else if (case ef_app (lq_filters q) of None \<Rightarrow> False | Some a \<Rightarrow> \<not> ie_app_exists E a (ic_project ctx))
             then Inl (failure 404 ''app_not_found'')
             else
               Inr (api_reply E \<lparr>iq_status = st, iq_project = Some (ic_project ctx), iq_kind = lq_kind q,
                   iq_scope = Some [ic_project ctx], iq_filter = sl, iq_q = None, iq_sort = ''impact'',
                   iq_group = ''all''\<rparr> limit (nat offset) db))) of
        Inl r \<Rightarrow> r | Inr r \<Rightarrow> r)"

definition api_note :: "issue_env \<Rightarrow> ingest_context \<Rightarrow> uuid \<Rightarrow> string \<Rightarrow> 'x db \<Rightarrow> http_reply \<times> 'x db" where
  "api_note E ctx i body db =
     (case bind_res (require_api_scope ctx) (\<lambda>_. load_scoped E ctx i db) of
        Inl e \<Rightarrow> (e, db)
      | Inr _ \<Rightarrow> (note_reply, record_activity E i None ''note''
          (JObj [(''text'', JStr body), (''via'', JStr ''api'')]) db))"

definition api_resolve :: "issue_env \<Rightarrow> ingest_context \<Rightarrow> uuid \<Rightarrow> string option \<Rightarrow> 'x db \<Rightarrow> http_reply \<times> 'x db" where
  "api_resolve E ctx i release db =
     (case bind_res (require_api_scope ctx) (\<lambda>_. load_scoped E ctx i db) of
        Inl e \<Rightarrow> (e, db)
      | Inr _ \<Rightarrow>
          if ae_late_fails (ie_auth E) then (internal, db)
          else (ok_reply, record_activity E i None ''status''
            (JObj [(''to'', JStr ''resolved''), (''inRelease'', opt_json JStr release), (''via'', JStr ''api'')])
            (update_issue i (resolve_row (ae_now (ie_auth E)) release) db)))"

definition MAX_PROBE_REFS :: nat where "MAX_PROBE_REFS = 1000"

text \<open>The first occurrence of each.\<close>
definition unrepeated :: "'a list \<Rightarrow> 'a list" where "unrepeated xs = rev (remdups (rev xs))"

definition register_probe :: "uuid \<Rightarrow> string \<Rightarrow> string \<Rightarrow> ((uuid \<times> string) \<times> probe) list \<Rightarrow> ((uuid \<times> string) \<times> probe) list" where
  "register_probe project release r rows = AList.update (project, r)
     (case map_of rows (project, r) of
        Some p \<Rightarrow> p\<lparr>pr_last_release := release\<rparr>
      | None \<Rightarrow> \<lparr>pr_issue = None, pr_first_release = Some release, pr_last_release = release, pr_last_fired = None,
          pr_fires = 0\<rparr>) rows"

definition probes_sync :: "issue_env \<Rightarrow> ingest_context \<Rightarrow> string \<Rightarrow> string list \<Rightarrow> 'x db \<Rightarrow> http_reply \<times> 'x db" where
  "probes_sync E ctx release refs db =
     (case require_api_scope ctx of
        Inl e \<Rightarrow> (e, db)
      | Inr _ \<Rightarrow>
          if MAX_PROBE_REFS < length refs then
            (plain 413 (JObj [(''error'', JStr ''too_many_refs''), (''detail'', JStr ''at most 1000 refs per call''),
              (''sent'', JInt (int (length refs)))]), db)
          else if ae_late_fails (ie_auth E) then (internal, db)
          else
            let known = unrepeated refs in
            (plain 200 (JObj [(''registered'', JInt (int (length known))),
               (''duplicatesIgnored'', JInt (int (length refs) - int (length known))), (''release'', JStr release)]),
             db\<lparr>probes := fold (register_probe (ic_project ctx) release) known (probes db)\<rparr>))"


subsection \<open>Requests\<close>

datatype issue_request =
    ResolveIssue uuid "string option" "string option"
  | IgnoreIssue uuid
  | ReopenIssue uuid
  | AssignIssue uuid "uuid option"
  | NoteIssue uuid string

fun serve_issue :: "issue_env \<Rightarrow> session_context \<Rightarrow> issue_request \<Rightarrow> 'x desk \<Rightarrow> http_reply \<times> 'x desk" where
  "serve_issue E ctx (ResolveIssue i release note) S = resolve_issue E ctx i release note S"
| "serve_issue E ctx (IgnoreIssue i) S = ignore_issue E ctx i S"
| "serve_issue E ctx (ReopenIssue i) S = reopen_issue E ctx i S"
| "serve_issue E ctx (AssignIssue i who) S = assign_issue E ctx i who S"
| "serve_issue E ctx (NoteIssue i body) S = add_note E ctx i body S"

datatype api_request = ApiNote uuid string | ApiResolve uuid "string option" | ProbesSync string "string list"

fun serve_api :: "issue_env \<Rightarrow> ingest_context \<Rightarrow> api_request \<Rightarrow> 'x db \<Rightarrow> http_reply \<times> 'x db" where
  "serve_api E ctx (ApiNote i body) db = api_note E ctx i body db"
| "serve_api E ctx (ApiResolve i release) db = api_resolve E ctx i release db"
| "serve_api E ctx (ProbesSync release refs) db = probes_sync E ctx release refs db"

subsection \<open>Pages\<close>

text \<open>A client that asks for the next page until there is none.\<close>
fun follow_pages :: "nat \<Rightarrow> (nat \<Rightarrow> json) \<Rightarrow> string \<Rightarrow> nat \<Rightarrow> json list option" where
  "follow_pages 0 answer fld off = None"
| "follow_pages (Suc n) answer fld off =
     (case Option.bind (jget fld (answer off)) as_array of
        None \<Rightarrow> None
      | Some xs \<Rightarrow>
          (case jget ''nextOffset'' (answer off) of
             Some JNull \<Rightarrow> Some xs
           | Some (JInt k) \<Rightarrow> map_option ((@) xs) (follow_pages n answer fld (nat k))
           | _ \<Rightarrow> None))"

text \<open>What a paged listing promises: each page is cut from the same rows and says where the next begins.\<close>
locale paged_listing =
  fixes answer :: "nat \<Rightarrow> json" and fld :: string and rows :: "json list" and size :: nat
  assumes positive: "0 < size"
    and page: "jget fld (answer off) = Some (JArr (page_of size off rows))"
    and following: "jget ''nextOffset'' (answer off) = Some (next_page size off (length (page_of size off rows)) (length rows))"
begin

lemma follow_from:
  assumes "length rows < off + n" and "0 < n"
  shows "follow_pages n answer fld off = Some (drop off rows)"
  using assms
proof (induction n arbitrary: off)
  case (Suc n)
  have a: "Option.bind (jget fld (answer off)) as_array = Some (page_of size off rows)"
    by (simp add: page as_array_def)
  show ?case
  proof (cases "off + size < length rows")
    case True
    then have nxt: "jget ''nextOffset'' (answer off) = Some (JInt (int (off + size)))"
      using positive by (simp add: following next_page_def page_of_def)
    have "0 < n" using True Suc.prems(1) positive by linarith
    moreover have "length rows < off + size + n" using Suc.prems(1) positive by linarith
    ultimately have "follow_pages n answer fld (off + size) = Some (drop (off + size) rows)"
      using Suc.IH by blast
    then have "follow_pages (Suc n) answer fld off = Some (page_of size off rows @ drop (off + size) rows)"
      by (simp only: follow_pages.simps a nxt option.case json.case nat_int option.map)
    also have "page_of size off rows @ drop (off + size) rows = drop off rows"
      by (simp add: page_of_def add.commute [of off] drop_drop [symmetric] del: drop_drop)
    finally show ?thesis .
  next
    case False
    then have "jget ''nextOffset'' (answer off) = Some JNull"
      by (auto simp: following next_page_def page_of_def Let_def)
    moreover have "page_of size off rows = drop off rows" using False by (simp add: page_of_def)
    ultimately show ?thesis by (simp add: a)
  qed
qed simp

lemma follow_all: "follow_pages (Suc (length rows)) answer fld 0 = Some rows"
  using follow_from [of 0 "Suc (length rows)"] by simp

end

interpretation console_pages: paged_listing "\<lambda>off. hr_body (list_reply E q (Suc n) off db)" "''issues''"
    "map (line_json E db) (issue_lines E q db)" "Suc n" for E q n db
  by unfold_locales (simp_all add: list_reply_def plain_def json_access Let_def page_of_def take_map drop_map)

interpretation api_pages: paged_listing "\<lambda>off. hr_body (api_reply E q (Suc n) off db)" "''issues''"
    "map (\<lambda>l. jset ''regressed'' (JBool (is_regressed_at (il_issue l) \<noteq> None)) (line_json E db l)) (issue_lines E q db)"
    "Suc n" for E q n db
  by unfold_locales (simp_all add: api_reply_def plain_def json_access Let_def page_of_def take_map drop_map)

interpretation occurrence_pages: paged_listing "\<lambda>off. hr_body (occurrence_reply E i sl (Suc n) off db)" "''events''"
    "map (occurrence_json E) (occurrence_rows E i sl db)" "Suc n" for E i sl n db
  by unfold_locales (simp_all add: occurrence_reply_def plain_def json_access Let_def page_of_def take_map drop_map)

lemma set_sort_desc [simp]: "set (sort_desc f xs) = set xs" by (simp add: sort_desc_def)
lemma length_sort_desc [simp]: "length (sort_desc f xs) = length xs" by (simp add: sort_desc_def)
lemma distinct_sort_desc [simp]: "distinct (sort_desc f xs) = distinct xs" by (simp add: sort_desc_def)

lemma ordered_same: "set (ordered E s ls) = set ls" "distinct (ordered E s ls) = distinct ls"
  by (simp_all add: ordered_def Let_def)

lemma lines_distinct: "distinct (map fst (issues db)) \<Longrightarrow> distinct (lines_of E q db)"
  unfolding lines_of_def
  by (rule distinct_filter, rule distinct_map [THEN iffD2])
    (auto intro!: inj_onI simp: distinct_map)

text \<open>C17. A client that follows the pages of the console's issue list from the first until no further
  page is announced gets there after at most as many requests as there are issues and one more, and
  has then seen every issue the query wants exactly once, in the query's order, whatever the page size.\<close>
theorem issue_pages_complete:
  assumes "list_window q = Inr w" and "0 < lw_limit w" and "validated E (lq_filters q) = Inr sl"
    and "visible_projects E ctx (dk_accounts S) = Inr scope" and "\<not> ae_fails (ie_auth E)"
    and "distinct (map fst (issues (dk_core S)))"
  shows "\<exists>ls. follow_pages (Suc (length ls)) (\<lambda>off. hr_body (list_issues E ctx (q\<lparr>lq_offset := Some (int off)\<rparr>) S)) ''issues'' 0
        = Some (map (line_json E (dk_core S)) ls)
      \<and> distinct ls \<and> set ls = set (lines_of E (query_of q w scope sl) (dk_core S))
      \<and> ls = ordered E (lw_sort w) (lines_of E (query_of q w scope sl) (dk_core S))"
proof -
  let ?q = "query_of q w scope sl"
  obtain n where n: "lw_limit w = Suc n" using assms(2) gr0_implies_Suc by blast
  have win: "list_window (q\<lparr>lq_offset := Some (int off)\<rparr>) = Inr (w\<lparr>lw_offset := off\<rparr>)" for off
    using assms(1) by (auto simp: list_window_def Let_def split: if_splits)
  have "list_issues E ctx (q\<lparr>lq_offset := Some (int off)\<rparr>) S = list_reply E ?q (Suc n) off (dk_core S)" for off
    using assms(3-5) by (simp add: list_issues_def win result_simps query_of_def n)
  moreover have "follow_pages (Suc (length (issue_lines E ?q (dk_core S))))
      (\<lambda>off. hr_body (list_reply E ?q (Suc n) off (dk_core S))) ''issues'' 0
      = Some (map (line_json E (dk_core S)) (issue_lines E ?q (dk_core S)))"
    using console_pages.follow_all by simp
  moreover have "distinct (issue_lines E ?q (dk_core S))"
    "set (issue_lines E ?q (dk_core S)) = set (lines_of E ?q (dk_core S))"
    by (simp_all add: issue_lines_def ordered_same lines_distinct assms(6))
  moreover have "issue_lines E ?q (dk_core S) = ordered E (lw_sort w) (lines_of E ?q (dk_core S))"
    by (simp add: issue_lines_def query_of_def)
  ultimately show ?thesis by (intro exI [of _ "issue_lines E ?q (dk_core S)"]) simp
qed

subsection \<open>What a request may touch\<close>

text \<open>What an entry of an issue's activity says about its status.\<close>
definition told :: "string \<Rightarrow> json \<Rightarrow> string \<Rightarrow> string" where
  "told k body st =
     (if k = ''regression'' then ''open''
      else if k = ''status'' then
        (case str_at ''to'' body of
           Some to \<Rightarrow> to
         | None \<Rightarrow>
             (case str_at ''stage'' body of
                Some stage \<Rightarrow> if stage = ''done'' then ''resolved'' else ''open''
              | None \<Rightarrow>
                  (case Option.bind (jget ''verified'' body) as_bool of
                     Some True \<Rightarrow> ''resolved''
                   | Some False \<Rightarrow> if st = ''resolved'' then ''open'' else st
                   | None \<Rightarrow> st)))
      else st)"

text \<open>One decision on one issue, written with its entry in the issue's activity.\<close>
definition decides :: "issue_env \<Rightarrow> session_context \<Rightarrow> 'x desk \<Rightarrow> 'x desk \<Rightarrow> bool" where
  "decides E ctx S S' \<longleftrightarrow> (\<exists>i r f k b. load_issue E ctx i S = Inr r
     \<and> S' = on_core (\<lambda>db. noted i (Some (sx_user ctx)) k b (update_issue i f db)) S
     \<and> (\<forall>r'. is_status r' = is_status r \<longrightarrow> is_status (f r') = told k b (is_status r')))"

lemma decidesI:
  assumes "load_issue E ctx i S = Inr r" and "S' = on_core (\<lambda>db. noted i (Some (sx_user ctx)) k b (update_issue i f db)) S"
    and "\<And>r'. is_status r' = is_status r \<Longrightarrow> is_status (f r') = told k b (is_status r')"
  shows "decides E ctx S S'"
  using assms unfolding decides_def by blast

lemma update_issue_id [simp]: "update_issue i (\<lambda>r. r) db = db" "update_issue i id db = db"
  by (simp_all add: update_issue_def id_def)

lemma told_simps [simp]:
  "told ''regression'' b st = ''open''" "told ''note'' b st = st" "told ''assign'' b st = st"
  "told ''status'' (JObj ((''to'', JStr s) # ms)) st = s"
  by (simp_all add: told_def json_access)

lemma resolve_decides: "snd (resolve_issue E ctx i release note S) = S \<or> decides E ctx S (snd (resolve_issue E ctx i release note S))"
proof (cases "load_issue E ctx i S")
  case (Inr r)
  let ?rel = "nonblank release"
  let ?changed = "is_status r \<noteq> ''resolved'' \<or> is_resolved_in r \<noteq> ?rel"
  let ?b = "JObj [(''to'', JStr ''resolved''), (''inRelease'', opt_json JStr ?rel), (''note'', opt_json JStr note)]"
  let ?f = "if ?changed then resolve_row (ae_now (ie_auth E)) ?rel else id"
  show ?thesis
  proof (cases "snd (resolve_issue E ctx i release note S) = S")
    case False
    then have "snd (resolve_issue E ctx i release note S)
        = on_core (\<lambda>db. noted i (Some (sx_user ctx)) ''status'' ?b (update_issue i ?f db)) S"
      using Inr by (auto simp: resolve_issue_def Let_def on_core_def split: if_splits)
    then have "decides E ctx S (snd (resolve_issue E ctx i release note S))"
      by (rule decidesI [OF Inr]) (auto simp: resolve_row_def)
    then show ?thesis ..
  qed simp
qed (simp add: resolve_issue_def)

lemma set_status_decides: "snd (set_status E ctx i to S) = S \<or> decides E ctx S (snd (set_status E ctx i to S))"
proof (cases "load_issue E ctx i S")
  case (Inr r)
  show ?thesis
  proof (cases "snd (set_status E ctx i to S) = S")
    case False
    then have "snd (set_status E ctx i to S) = on_core (\<lambda>db. noted i (Some (sx_user ctx)) ''status'' (JObj [(''to'', JStr to)])
        (update_issue i (\<lambda>r. r\<lparr>is_status := to\<rparr>) db)) S"
      using Inr by (auto simp: set_status_def on_core_def split: if_splits)
    then have "decides E ctx S (snd (set_status E ctx i to S))" by (rule decidesI [OF Inr]) simp
    then show ?thesis ..
  qed simp
qed (simp add: set_status_def)

lemma assign_decides: "snd (assign_issue E ctx i who S) = S \<or> decides E ctx S (snd (assign_issue E ctx i who S))"
proof (cases "load_issue E ctx i S")
  case (Inr r)
  show ?thesis
  proof (cases "snd (assign_issue E ctx i who S) = S")
    case False
    then have "snd (assign_issue E ctx i who S) = on_core (\<lambda>db. noted i (Some (sx_user ctx)) ''assign''
        (JObj [(''assignee'', opt_json (uuid_str (ie_desk E)) who)]) (update_issue i (\<lambda>r. r\<lparr>is_assignee := who\<rparr>) db)) S"
      using Inr by (auto simp: assign_issue_def on_core_def split: if_splits)
    then have "decides E ctx S (snd (assign_issue E ctx i who S))" by (rule decidesI [OF Inr]) simp
    then show ?thesis ..
  qed simp
qed (simp add: assign_issue_def)

lemma note_decides: "snd (add_note E ctx i body S) = S \<or> decides E ctx S (snd (add_note E ctx i body S))"
proof (cases "load_issue E ctx i S")
  case (Inr r)
  show ?thesis
  proof (cases "snd (add_note E ctx i body S) = S")
    case False
    then have "snd (add_note E ctx i body S) = on_core (\<lambda>db. noted i (Some (sx_user ctx)) ''note''
        (JObj [(''text'', JStr body)]) (update_issue i id db)) S"
      using Inr by (auto simp: add_note_def on_core_def split: if_splits)
    then have "decides E ctx S (snd (add_note E ctx i body S))" by (rule decidesI [OF Inr]) simp
    then show ?thesis ..
  qed simp
qed (simp add: add_note_def)

lemma serve_issue_decides: "snd (serve_issue E ctx q S) = S \<or> decides E ctx S (snd (serve_issue E ctx q S))"
  by (cases q) (simp_all add: resolve_decides set_status_decides assign_decides note_decides ignore_issue_def reopen_issue_def
    del: disj_not1)

text \<open>What is known of an issue: its rows and its history.\<close>
definition case_file :: "uuid \<Rightarrow> 'x db \<Rightarrow> issue list \<times> (string \<times> json \<times> uuid option) list" where
  "case_file i db = (map snd (filter (\<lambda>x. fst x = i) (issues db)), map snd (filter (\<lambda>x. fst x = i) (activity db)))"

lemma case_file_update: "i \<noteq> j \<Longrightarrow> case_file j (update_issue i f db) = case_file j db"
proof -
  assume "i \<noteq> j"
  then have "map snd (filter (\<lambda>x. fst x = j) (map (\<lambda>(k, r). (k, if k = i then f r else r)) is))
      = map snd (filter (\<lambda>x. fst x = j) is)" for "is"
    by (induction "is") auto
  then show ?thesis by (simp add: case_file_def update_issue_map)
qed

lemma case_file_noted: "i \<noteq> j \<Longrightarrow> case_file j (noted i a k b db) = case_file j db"
  by (simp add: case_file_def noted_def)

lemma case_file_recorded: "i \<noteq> j \<Longrightarrow> case_file j (record_activity E i a k b db) = case_file j db"
  by (simp add: record_activity_def case_file_noted)

lemma decides_scope:
  assumes "decides E ctx S S'" and "map_of (issues (dk_core S)) j = Some r"
    and "case_file j (dk_core S') \<noteq> case_file j (dk_core S)"
  shows "sx_role ctx = Superadmin \<or> (sx_user ctx, is_project r) \<in> set (ac_assigned (dk_accounts S))"
proof -
  from assms(1) obtain i q f k b where l: "load_issue E ctx i S = Inr q"
    and S': "S' = on_core (\<lambda>db. noted i (Some (sx_user ctx)) k b (update_issue i f db)) S"
    unfolding decides_def by blast
  have "i = j"
  proof (rule ccontr)
    assume "i \<noteq> j"
    then have "case_file j (dk_core S') = case_file j (dk_core S)"
      by (simp add: S' on_core_def case_file_noted case_file_update)
    with assms(3) show False ..
  qed
  with l assms(2) show ?thesis
    by (auto simp: load_issue_def result_simps ok_or_def project_access_def split: if_splits)
qed

lemma serve_api_scope:
  assumes "map_of (issues db) j = Some r" and "case_file j (snd (serve_api E c a db)) \<noteq> case_file j db"
  shows "ic_scope c = Api \<and> ic_project c = is_project r"
proof (cases a)
  case (ApiNote i body)
  then have "i = j" "api_note E c i body db \<noteq> (fst (api_note E c i body db), db)"
    using assms(2) by (cases "i = j"; auto simp: api_note_def case_file_recorded split: sum.splits)+
  with assms(1) show ?thesis
    by (auto simp: api_note_def result_simps require_api_scope_def load_scoped_def split: sum.splits if_splits)
next
  case (ApiResolve i release)
  then have "i = j" "api_resolve E c i release db \<noteq> (fst (api_resolve E c i release db), db)"
    using assms(2) by (cases "i = j"; auto simp: api_resolve_def case_file_recorded case_file_update split: sum.splits if_splits)+
  with assms(1) show ?thesis
    by (auto simp: api_resolve_def result_simps require_api_scope_def load_scoped_def split: sum.splits if_splits)
next
  case (ProbesSync release refs)
  with assms show ?thesis
    by (auto simp: probes_sync_def case_file_def Let_def split: sum.splits if_splits)
qed

lemma register_probe_other: "p \<noteq> q \<Longrightarrow> map_of (register_probe p release r rows) (q, s) = map_of rows (q, s)"
  by (simp add: register_probe_def update_conv' split: option.splits)

lemma register_probes_other: "p \<noteq> q \<Longrightarrow> map_of (fold (register_probe p release) refs rows) (q, s) = map_of rows (q, s)"
  by (induction refs arbitrary: rows) (simp_all add: register_probe_other)

lemma probes_recorded [simp]: "probes (record_activity E i a k b db) = probes db"
  by (simp add: record_activity_def noted_def)

lemma serve_api_probes:
  assumes "map_of (probes (snd (serve_api E c a db))) (p, s) \<noteq> map_of (probes db) (p, s)"
  shows "ic_scope c = Api \<and> ic_project c = p"
proof (cases a)
  case (ProbesSync release refs)
  with assms show ?thesis
    by (cases "ic_project c = p")
      (auto simp: probes_sync_def require_api_scope_def Let_def register_probes_other split: sum.splits if_splits)
qed (use assms in \<open>auto simp: api_note_def api_resolve_def split: sum.splits if_splits\<close>)


subsection \<open>An instance for the witnesses\<close>

definition toy_issue_env :: issue_env where
  "toy_issue_env = \<lparr>ie_desk = toy_desk_env, ie_rfc3339 = (\<lambda>t. Some (show_nat t)), ie_collate = bytes_of,
     ie_tags = (\<lambda>_. None), ie_text = (\<lambda>_. []), ie_screens = (\<lambda>_. None), ie_app_exists = (\<lambda>_ _. True)\<rparr>"

definition toy_issue :: issue where
  "toy_issue = \<lparr>is_project = 4, is_fingerprint = ''f'', is_kind = ''error'', is_title = ''Error'', is_message = ''boom'',
     is_surface = JNull, is_status = ''open'', is_first_seen = 1, is_last_seen = 2, is_event_count = 1,
     is_users_count = 0, is_max_per_user = 0, is_last_environment = [], is_last_release = [], is_environment = [],
     is_platform = ''ios'', is_resolved_in = None, is_resolved_at = None, is_regressed_at = None,
     is_regressed_in = None, is_assignee = None\<rparr>"

definition toy_issues :: "unit desk" where
  "toy_issues = toy_desk\<lparr>dk_core := empty_db\<lparr>issues := [(42, toy_issue), (43, toy_issue\<lparr>is_fingerprint := ''g''\<rparr>)]\<rparr>\<rparr>"

definition toy_query :: list_query where
  "toy_query = \<lparr>lq_status = None, lq_kind = None, lq_project = None, lq_limit = Some 1, lq_offset = None, lq_q = None,
     lq_sort = None, lq_group = None, lq_filters = \<lparr>ef_app = None, ef_platform = None, ef_environment = None,
       ef_release = None, ef_context_key = None, ef_context_value = None, ef_tags = None\<rparr>\<rparr>"

abbreviation toy_owner :: session_context where
  "toy_owner \<equiv> \<lparr>sx_user = 1, sx_role = Superadmin, sx_hash = []\<rparr>"

lemmas toy_issue_simps = toy_issues_def toy_issue_env_def toy_desk_simps

theorem issue_pages_complete_witness:
  "\<exists>ls. follow_pages (Suc (length ls))
        (\<lambda>off. hr_body (list_issues toy_issue_env toy_owner (toy_query\<lparr>lq_offset := Some (int off)\<rparr>) toy_issues)) ''issues'' 0
      = Some (map (line_json toy_issue_env (dk_core toy_issues)) ls) \<and> map il_id ls = [43, 42]"
proof -
  let ?w = "\<lparr>lw_limit = 1, lw_offset = 0, lw_status = ''open'', lw_sort = ''newest'', lw_group = ''all''\<rparr>"
  let ?sl = "\<lparr>sl_app = None, sl_platform = None, sl_environment = None, sl_release = None, sl_tags = []\<rparr>"
  have w: "list_window toy_query = Inr ?w"
    by (simp add: list_window_def toy_query_def SORTS_def GROUPS_def STATUSES_def)
  have v: "validated toy_issue_env (lq_filters toy_query) = Inr ?sl"
    by (simp add: validated_def toy_query_def too_long_def result_simps)
  have o: "map il_id (ordered toy_issue_env (lw_sort ?w)
      (lines_of toy_issue_env (query_of toy_query ?w None ?sl) (dk_core toy_issues))) = [43, 42]"
    by (simp add: ordered_def sort_desc_def lines_of_def query_of_def toy_query_def toy_issue_simps toy_issue_def
        line_wanted_def wants_project_def asks_def narrows_def matching_def stats_of_def coalesced_def Let_def)
  have "visible_projects toy_issue_env toy_owner (dk_accounts toy_issues) = Inr None" by (simp add: visible_projects_def)
  moreover have "\<not> ae_fails (ie_auth toy_issue_env)" "distinct (map fst (issues (dk_core toy_issues)))"
    by (simp_all add: toy_issue_simps)
  ultimately show ?thesis
    using issue_pages_complete [OF w _ v] o by fastforce
qed


end
