(* ===== verification/CaseFiles.thy ===== *)
theory CaseFiles
  imports Desk IssueCommands
begin

text \<open>
  The case file of an issue over time: histories in which the console's and automation's requests on
  issues are interleaved with every step of theory \<open>Desk\<close> (ingestion, task commands, signals, the
  accounts).  Whatever changes an issue's status writes it to the issue's activity, so that the
  activity alone tells the status; and a resolution anchored at a release holds until an event of
  that release or a later one.
\<close>

subsection \<open>Steps\<close>

datatype 'x case_step =
    DeskStep "'x desk_step"
  | IssueRequest issue_env headers issue_request
  | ApiRequest issue_env ingest_context api_request

fun take_case :: "'x case_step \<Rightarrow> 'x desk \<Rightarrow> 'x desk" where
  "take_case (DeskStep x) S = take_step x S"
| "take_case (IssueRequest E h q) S = snd (desk_layer (ie_auth E) h (\<lambda>ctx. serve_issue E ctx q) S)"
| "take_case (ApiRequest E c a) S = on_core (\<lambda>db. snd (serve_api E c a db)) S"

definition case_after :: "'x case_step list \<Rightarrow> 'x desk \<Rightarrow> 'x desk" where
  "case_after H S = foldl (\<lambda>S x. take_case x S) S H"

lemma case_after_simps [simp]: "case_after [] S = S" "case_after (x # H) S = case_after H (take_case x S)"
  by (simp_all add: case_after_def)

subsection \<open>The activity tells the status\<close>

definition story :: "uuid \<Rightarrow> (uuid \<times> string \<times> json \<times> uuid option) list \<Rightarrow> string" where
  "story i acts = foldl (\<lambda>st (g, k, b, a). if g = i then told k b st else st) ''open'' acts"

definition tells :: "'x db \<Rightarrow> bool" where
  "tells db \<longleftrightarrow> (\<forall>x \<in> set (issues db). is_status (snd x) = story (fst x) (activity db))"

lemma story_append [simp]: "story i (acts @ [(g, k, b, a)]) = (if g = i then told k b (story i acts) else story i acts)"
  by (simp add: story_def)

lemma tells_cong: "issues db = issues db' \<Longrightarrow> activity db = activity db' \<Longrightarrow> tells db = tells db'"
  by (simp add: tells_def)

lemma tells_update:
  assumes "tells db" and "\<And>r. is_status (f r) = is_status r"
  shows "tells (update_issue i f db)"
  using assms by (auto simp: tells_def update_issue_map split: if_splits)

text \<open>A decision with its entry keeps the law where it does to the status what the entry says.\<close>
lemma tells_decided:
  assumes "tells db" and "\<And>r. is_status r = story i (activity db) \<Longrightarrow> is_status (f r) = told k b (is_status r)"
    and "issues db' = issues (update_issue i f db)" and "activity db' = activity db @ [(i, k, b, a)]"
  shows "tells db'"
  using assms by (auto simp: tells_def update_issue_map split: if_splits)

lemma tells_fresh:
  assumes "tells db" and "i \<notin> fst ` set (activity db)" and "is_status r = ''open''"
    and "issues db' = issues db @ [(i, r)]" and "activity db' = activity db"
  shows "tells db'"
proof -
  have "story i acts = ''open''" if "i \<notin> fst ` set acts" for acts
    using that by (induction acts rule: rev_induct) (auto simp: story_def)
  with assms show ?thesis by (auto simp: tells_def)
qed

lemma told_more [simp]:
  "told ''status'' (JObj [(''taskId'', x), (''stage'', JStr s)]) st = (if s = ''done'' then ''resolved'' else ''open'')"
  "told ''status'' (JObj [(''taskId'', x), (''commit'', y), (''release'', z), (''verified'', JBool True)]) st = ''resolved''"
  "told ''status'' (JObj [(''taskId'', x), (''commit'', y), (''verified'', JBool False)]) st
     = (if st = ''resolved'' then ''open'' else st)"
  by (simp_all add: told_def json_access)

subsection \<open>Every step keeps it\<close>

text \<open>The ingest transaction draws a new issue's id; other transactions are steps of their own.\<close>
definition sole :: "'x env \<Rightarrow> 'x db \<Rightarrow> bool" where
  "sole env db \<longleftrightarrow> (\<forall>k d. race env k d = d) \<and> new_issue env \<notin> fst ` set (activity db)"

lemma tells_regressed:
  assumes "tells db" and "\<And>r. is_status r = story i (activity db) \<Longrightarrow> is_status (f r) = ''open''"
    and "issues db' = issues (update_issue i f db)" and "activity db' = activity db @ [(i, ''regression'', b, None)]"
  shows "tells db'"
  by (rule tells_decided [OF assms(1) _ assms(3,4)]) (use assms(2) in simp)

lemma touch_issue_tells:
  assumes "touch_issue env ev row db = Inr (m, db')" and "tells db"
  shows "tells db'"
proof -
  obtain i r where row: "row = (i, r)" by (cases row)
  let ?regress = "is_status r = ''resolved'' \<and> is_regression (releases db) (ev_project ev) (ev_release ev)
      (is_resolved_in r) (is_resolved_at r) (ev_occurred_at ev)"
  show ?thesis
  proof (cases ?regress)
    case True
    show ?thesis
      by (rule tells_regressed [OF assms(2), where f = "reopened (tx_now (times env)) ev" and i = i])
        (use True assms(1) in \<open>auto simp: row touch_issue_def result_simps Let_def reopened_def update_issue_map\<close>)
  next
    case False
    with assms(1) have "db' = update_issue i (refreshed ev) db"
      unfolding row touch_issue_def Let_def by auto
    then show ?thesis by (auto simp: refreshed_def intro: tells_update [OF assms(2)])
  qed
qed

lemma attach_issue_tells:
  assumes "attach_issue env ev fp gt ms db = Inr (m, db')" and "tells db" and "sole env db"
  shows "tells db'"
proof -
  have q: "race env k d = d" for k d using assms(3) by (simp add: sole_def)
  from assms(1) consider (at) row where "touch_issue env ev row db = Inr (m, db')"
    | (new) "db' = db\<lparr>issues := issues db @ [(new_issue env, fresh_issue ev fp gt ms)]\<rparr>"
    by (auto simp: attach_issue_def Let_def q split: option.splits)
  then show ?thesis
  proof cases
    case at
    then show ?thesis using touch_issue_tells assms(2) by blast
  next
    case new
    show ?thesis
      by (rule tells_fresh [OF assms(2)]) (use new assms(3) in \<open>simp_all add: sole_def fresh_issue_def\<close>)
  qed
qed

lemma notify_tells: "notify env fresh p i e new db = Inr db' \<Longrightarrow> issues db' = issues db \<and> activity db' = activity db"
  by (auto simp: notify_def result_simps Let_def)

text \<open>A probe that fires changes no issue, or reopens the one it guards.\<close>
lemma fire_probe_tells:
  assumes "fire_probe env ev i r db = Inr db'" and "tells db"
  shows "tells db'"
  using assms(1)
proof (cases rule: fire_probe_cases)
  case (quiet ps)
  with assms(2) show ?thesis by (simp add: tells_def)
next
  case (guard g ps t b)
  from guard(3) assms(2) have s: "story g (activity db) = ''resolved''" by (auto simp: tells_def)
  show ?thesis
    by (rule tells_regressed [OF assms(2), where i = g and b = b and f = "\<lambda>r. if is_status r = ''resolved'' then
        r\<lparr>is_status := ''open'', is_regressed_at := Some (tx_now (times env)),
          is_regressed_in := Some (ev_release ev), is_last_seen := tx_now (times env)\<rparr> else r"])
      (simp_all add: s guard(2) update_issue_map)
qed

lemma finish_event_tells:
  assumes "finish_event env ev m db = Inr db'" and "tells db"
  shows "tells db'"
proof -
  obtain i new regr where m: "m = (i, new, regr)" by (cases m)
  from assms(1) obtain d1 d2 where
    p: "(case (ev_kind ev, ev_name ev) of (Probe, Some r) \<Rightarrow> fire_probe env ev i r db | _ \<Rightarrow> Inr db) = Inr d1"
    and e: "(if new \<or> regr then notify env (note_id env) (ev_project ev) i (ev_id ev) new
        (d1\<lparr>others := cutover env (ev_project ev) (ev_id ev) (events d1) (others d1)\<rparr>)
      else Inr (d1\<lparr>others := cutover env (ev_project ev) (ev_id ev) (events d1) (others d1)\<rparr>)) = Inr d2"
    and set_app: "db' = set_app env ev d2"
    by (auto simp: finish_event_def m result_simps Let_def)
  from e have "issues d2 = issues d1 \<and> activity d2 = activity d1" by (auto dest: notify_tells split: if_splits)
  moreover have "tells d1" using p fire_probe_tells assms(2) by (auto split: kind.splits option.splits)
  ultimately show ?thesis by (simp add: set_app set_app_def split_beta tells_def)
qed

lemma record_hit_tells: "tells db \<Longrightarrow> tells (record_hit i u db)"
  by (cases u) (simp_all add: record_hit_def Let_def, rule tells_update, simp_all add: tells_def)

lemma ingest_tells:
  assumes "tells db" and "sole env db"
  shows "tells (snd (ingest env ev db))"
proof -
  have "tells db'" if tx: "ingest_tx env ev fp gt ms db = Inr (Some (out, db'))" for fp gt ms out db'
  proof (rule ingest_tx_Commit [OF tx])
    fix q i new regr d1 d2
    assume att: "attach_issue env ev fp gt ms (db\<lparr>quota := q\<rparr>) = Inr ((i, new, regr), d1)"
      and d2: "d2 = record_hit i (ev_user_key ev) (update_issue i (\<lambda>r. r\<lparr>is_event_count := Suc (is_event_count r)\<rparr>) d1)"
      and fin: "finish_event env ev (i, new, regr) (d2\<lparr>events := events d2 @ [(ev_id ev, event_row_of (tx_now (times env)) ev i)]\<rparr>) = Inr db'"
    have "tells d1" by (rule attach_issue_tells [OF att]) (use assms in \<open>simp_all add: tells_def sole_def\<close>)
    then have "tells (update_issue i (\<lambda>r. r\<lparr>is_event_count := Suc (is_event_count r)\<rparr>) d1)" by (rule tells_update) simp
    then have "tells d2" unfolding d2 by (rule record_hit_tells)
    with finish_event_tells [OF fin] show ?thesis by (simp add: tells_def)
  qed
  moreover have "others_only env p fp db = db" for p fp
    using assms(2) by (simp add: others_only_def sole_def Let_def)
  ultimately show ?thesis
    using assms(1) by (auto simp: ingest_def Let_def split: sum.splits option.splits ingest_error.splits prod.splits)
qed

lemma tells_team [simp]: "tells (db\<lparr>team := t\<rparr>) = tells db" "tells (update_task i f db) = tells db"
  "tells (insert_task t' db) = tells db"
  by (simp_all add: tells_def update_task_def insert_task_def)

lemma apply_command_tells:
  assumes "apply_command E A p actor cmd cur i issue db = Inr (out, db')" and "tells db"
  shows "tells db'"
proof (cases cmd)
  case (TransitionTask k j v stage)
  let ?db = "update_task i (restage_task stage (ae_now (de_auth E)) (de_stamp E (de_clock E))) db"
  from assms(1) TransitionTask consider (plain) "db' = ?db"
    | (settled) g where "db' = (update_issue g (settle_issue (ae_now (de_auth E)) stage) ?db)\<lparr>activity := activity ?db @
        [(g, ''status'', JObj [(''taskId'', uuid_str E i), (''stage'', JStr stage)], Some actor)]\<rparr>"
    by (auto simp: apply_transition_def result_simps Let_def split: option.splits if_splits)
  then show ?thesis
  proof cases
    case plain
    with assms(2) show ?thesis by simp
  next
    case settled
    show ?thesis
      by (rule tells_decided [where db = ?db and f = "settle_issue (ae_now (de_auth E)) stage"])
        (use settled assms(2) in \<open>auto simp: settle_issue_def\<close>)
  qed
qed (use assms in \<open>auto simp: apply_fields_def apply_comment_def result_simps Let_def split: option.splits if_splits\<close>)

lemma carry_out_tells:
  assumes "carry_out E A p a cmd db = Inr (j, db')" and "tells db"
  shows "tells db'"
  by (rule carry_out_cases [OF assms(1)]) (use apply_command_tells assms(2) in auto)

lemma settle_evidence_tells: "tells db \<Longrightarrow> tells (settle_evidence E s c v rel old issue db)"
proof (cases issue)
  case (Some g)
  assume t: "tells db"
  show ?thesis
  proof (cases "v \<or> old = ''done''")
    case True
    show ?thesis
    proof (cases v)
      case True
      show ?thesis
        by (rule tells_decided [OF t, where i = g and f = "\<lambda>r. r\<lparr>is_status := ''resolved'', is_resolved_in := Some rel,
               is_resolved_at := Some (ae_now (se_auth E)), is_regressed_at := None, is_regressed_in := None\<rparr>"])
          (simp_all add: settle_evidence_def note_issue_def Some True)
    next
      case False
      show ?thesis
        by (rule tells_decided [OF t, where i = g and f = "\<lambda>r. if is_status r = ''resolved'' then r\<lparr>is_status := ''open'',
               is_resolved_at := None, is_resolved_in := None\<rparr> else r"])
          (use True False in \<open>simp_all add: settle_evidence_def note_issue_def Some\<close>)
    qed
  qed (simp add: settle_evidence_def Some t)
qed (simp add: settle_evidence_def)

lemma apply_evidence_tells:
  assumes "apply_evidence E p s v barrier t issue rows db = Inr db'" and "tells db"
  shows "tells db'"
proof (cases "authority_of (sg_task s) v barrier rows")
  case None
  with assms show ?thesis by (simp add: apply_evidence_def)
next
  case (Some a)
  with assms(1) obtain commit where c: "str_at ''commit'' a = Some commit"
    by (auto simp: apply_evidence_def ok_or_def bind_res_def split: option.splits)
  obtain st w rel where j: "judge (se_parse E) a (proof_of (sg_task s) v barrier commit ''ci.completed'' rows)
        (proof_of (sg_task s) v barrier commit ''release.deployed'' rows) = (st, w, rel)"
    using prod_cases3 by blast
  from assms Some c j show ?thesis
    by (auto simp: apply_evidence_def Let_def result_simps split: if_splits intro!: settle_evidence_tells)
qed

lemma receive_inner_tells:
  assumes "receive_inner E p h body S = Inr (j, S')" and "tells (dk_core S)"
  shows "tells (dk_core S')"
  using assms(1)
proof (cases rule: receive_cases)
  case again
  with assms(2) show ?thesis by simp
next
  case (taken v c s t occurred db)
  then show ?thesis using apply_evidence_tells assms(2) by (auto split: if_splits)
qed

subsection \<open>Every step\<close>

lemma configure_tells [simp]: "tells (dk_core (snd (configure_task_signals E ctx p b S))) = tells (dk_core S)"
  by (simp add: configure_task_signals_def Let_def split: option.splits sum.splits)

lemma cascade_tells: "tells (dk_core S) \<Longrightarrow> tells (dk_core (cascade S))"
proof -
  assume t: "tells (dk_core S)"
  have "story i (map (\<lambda>(g, k, b, a). (g, k, b, F a)) acts) = story i acts" for i acts and F :: "uuid option \<Rightarrow> uuid option"
    by (induction acts rule: rev_induct) (auto simp: story_def)
  with t show ?thesis by (auto simp: tells_def cascade_def Let_def)
qed

lemma layer_core:
  assumes "\<And>ctx T. dk_core T = dk_core S \<Longrightarrow> tells (dk_core (snd (f ctx T)))" and "tells (dk_core S)"
  shows "tells (dk_core (snd (desk_layer E h f S)))"
  using assms by (simp add: session_layer_def split: option.splits sum.splits)

lemma decides_tells:
  assumes "decides E ctx S S'" and "tells (dk_core S)"
  shows "tells (dk_core S')"
proof -
  from assms(1) obtain i r f k b where l: "load_issue E ctx i S = Inr r"
    and S': "S' = on_core (\<lambda>db. noted i (Some (sx_user ctx)) k b (update_issue i f db)) S"
    and f: "\<forall>r'. is_status r' = is_status r \<longrightarrow> is_status (f r') = told k b (is_status r')"
    unfolding decides_def by blast
  from l have "(i, r) \<in> set (issues (dk_core S))"
    by (auto simp: load_issue_def result_simps ok_or_def map_of_SomeD split: if_splits option.splits)
  with assms(2) have "is_status r = story i (activity (dk_core S))" by (auto simp: tells_def)
  then show ?thesis
    by (intro tells_decided [OF assms(2), where i = i and f = f and k = k and b = b])
      (use f in \<open>auto simp: S' on_core_def noted_def update_issue_map\<close>)
qed

text \<open>Automation records its decisions in a statement of its own: \<open>kept_record\<close> says it was not lost.\<close>
definition kept_record :: "issue_env \<Rightarrow> bool" where "kept_record E \<longleftrightarrow> \<not> ae_audit_fails (ie_auth E)"

lemma serve_api_tells:
  assumes "tells db" and "kept_record E"
  shows "tells (snd (serve_api E c a db))"
proof (cases a)
  case (ApiNote i body)
  then show ?thesis using assms
    by (auto simp: api_note_def record_activity_def noted_def tells_def split: sum.splits)
next
  case (ApiResolve i release)
  let ?f = "resolve_row (ae_now (ie_auth E)) release"
  from ApiResolve assms(2) consider "snd (serve_api E c a db) = db"
    | (entered) b where "snd (serve_api E c a db) = noted i None ''status'' (JObj ((''to'', JStr ''resolved'') # b)) (update_issue i ?f db)"
    by (cases "bind_res (require_api_scope c) (\<lambda>_. load_scoped E c i db)"; cases "ae_late_fails (ie_auth E)")
      (auto simp: api_resolve_def record_activity_def kept_record_def)
  then show ?thesis
  proof cases
    case entered
    show ?thesis
      by (rule tells_decided [OF assms(1), where i = i and f = ?f and k = "''status''"])
        (auto simp: entered noted_def resolve_row_def)
  qed (simp add: assms(1))
next
  case (ProbesSync release refs)
  with assms(1) show ?thesis by (auto simp: probes_sync_def tells_def Let_def split: sum.splits)
qed

definition sound_case :: "'x case_step \<Rightarrow> 'x desk \<Rightarrow> bool" where
  "sound_case x S \<longleftrightarrow> (case x of DeskStep (Ingested env _) \<Rightarrow> sole env (dk_core S)
     | ApiRequest E _ _ \<Rightarrow> kept_record E | _ \<Rightarrow> True)"

fun sound_history :: "'x case_step list \<Rightarrow> 'x desk \<Rightarrow> bool" where
  "sound_history [] S = True"
| "sound_history (x # H) S = (sound_case x S \<and> sound_history H (take_case x S))"

lemma desk_step_tells:
  assumes "tells (dk_core S)" and "sound_case (DeskStep x) S"
  shows "tells (dk_core (take_step x S))"
proof (cases x)
  case (TaskCommand E h p cmd)
  show ?thesis
    unfolding TaskCommand
  proof (cases rule: task_command_step [of E h p cmd S])
    case nothing
    with assms(1) show "tells (dk_core (take_step (TaskCommand E h p cmd) S))" by simp
  next
    case (ran ctx j S0)
    from ran(3) show "tells (dk_core (take_step (TaskCommand E h p cmd) S))"
      by (cases rule: run_command_cases) (use ran(1) assms(1) carry_out_tells in auto)
  qed
next
  case (Signal E p h body)
  show ?thesis
    unfolding Signal by (cases rule: signal_step [of E p h body S]) (use assms(1) receive_inner_tells in auto)
next
  case (Ingested env ev)
  with assms ingest_tells show ?thesis by (simp add: sound_case_def)
next
  case (AccountsRequest E r)
  with assms(1) show ?thesis by (simp add: cascade_tells)
qed (use assms(1) in \<open>auto intro!: layer_core\<close>)

lemma case_step_tells:
  assumes "tells (dk_core S)" and "sound_case x S"
  shows "tells (dk_core (take_case x S))"
proof (cases x)
  case (IssueRequest E h q)
  show ?thesis
    unfolding IssueRequest take_case.simps
    by (rule layer_core [OF _ assms(1)]) (metis serve_issue_decides decides_tells assms(1))
qed (use assms desk_step_tells serve_api_tells in \<open>auto simp: sound_case_def on_core_def\<close>)


subsection \<open>A resolution holds against older releases\<close>

definition groups_into :: "'x env \<Rightarrow> incoming_event \<Rightarrow> string \<Rightarrow> bool" where
  "groups_into env ev fp \<longleftrightarrow> (case group_identity ev of
      Inl _ \<Rightarrow> False
    | Inr (_, _, inp) \<Rightarrow> compute_fingerprint (sha256 env) (hex env) (ev_environment ev) (ev_platform ev) inp = fp)"

text \<open>Issue i is resolved in release R; its identity stays.\<close>
definition anchored :: "uuid \<Rightarrow> uuid \<Rightarrow> string \<Rightarrow> string \<Rightarrow> 'x db \<Rightarrow> bool" where
  "anchored i project fp R db \<longleftrightarrow> distinct (map fst (issues db)) \<and>
     (\<exists>r. map_of (issues db) i = Some r \<and> is_status r = ''resolved'' \<and> is_resolved_in r = Some R
        \<and> is_project r = project \<and> is_fingerprint r = fp)"

text \<open>The event is of another issue, or of a release registered before R.\<close>
definition no_news :: "uuid \<Rightarrow> uuid \<Rightarrow> string \<Rightarrow> string \<Rightarrow> 'x db \<Rightarrow> 'x env \<times> incoming_event \<Rightarrow> bool" where
  "no_news i project fp R db x \<longleftrightarrow> (case x of (env, ev) \<Rightarrow>
     (\<forall>k d. race env k d = d) \<and> ev_kind ev \<noteq> Probe \<and> new_issue env \<noteq> i
     \<and> (ev_project ev = project \<and> groups_into env ev fp \<longrightarrow> ev_release ev \<noteq> []
        \<and> (\<exists>t t'. release_at (releases db) project (ev_release ev) = Some t \<and> release_at (releases db) project R = Some t' \<and> t < t')))"

fun ingest_all :: "('x env \<times> incoming_event) list \<Rightarrow> 'x db \<Rightarrow> 'x db" where
  "ingest_all [] db = db"
| "ingest_all ((env, ev) # xs) db = ingest_all xs (snd (ingest env ev db))"

lemma anchored_cong: "issues db = issues db' \<Longrightarrow> anchored i p fp R db = anchored i p fp R db'"
  by (simp add: anchored_def)

lemma anchored_update:
  assumes "anchored i p fp R db" and "\<And>r. j = i \<Longrightarrow> is_status (f r) = is_status r \<and> is_resolved_in (f r) = is_resolved_in r
      \<and> is_project (f r) = is_project r \<and> is_fingerprint (f r) = is_fingerprint r"
  shows "anchored i p fp R (update_issue j f db)"
proof -
  have m: "issues (update_issue j f db) = update_row j f (issues db)" by (simp add: update_issue_map update_row_def)
  from assms(1) obtain r where r: "map_of (issues db) i = Some r" "is_status r = ''resolved''" "is_resolved_in r = Some R"
    "is_project r = p" "is_fingerprint r = fp" "distinct (map fst (issues db))" by (auto simp: anchored_def)
  then have "map_of (update_row j f (issues db)) i = Some (if j = i then f r else r)"
    by (simp only: map_of_update_row option.map) simp
  with r assms(2) [of r] show ?thesis
    unfolding anchored_def m fst_update_row by (intro conjI exI [of _ "if j = i then f r else r"]) auto
qed

lemma touch_issue_anchored:
  assumes "touch_issue env ev (j, q) db = Inr (m, db')" and "anchored i p fp R db"
    and "j = i \<Longrightarrow> \<not> is_regression (releases db) (ev_project ev) (ev_release ev) (is_resolved_in q) (is_resolved_at q) (ev_occurred_at ev)"
  shows "anchored i p fp R db' \<and> releases db' = releases db"
proof (cases "is_status q = ''resolved'' \<and> is_regression (releases db) (ev_project ev) (ev_release ev) (is_resolved_in q)
    (is_resolved_at q) (ev_occurred_at ev)")
  case True
  with assms(3) have "j \<noteq> i" by auto
  then have "anchored i p fp R (update_issue j (reopened (tx_now (times env)) ev) db)"
    by (intro anchored_update [OF assms(2)]) simp
  moreover from True assms(1) have "issues db' = issues (update_issue j (reopened (tx_now (times env)) ev) db) \<and> releases db' = releases db"
    by (auto simp: touch_issue_def result_simps Let_def update_issue_map)
  ultimately show ?thesis using anchored_cong by blast
next
  case False
  with assms(1) have "db' = update_issue j (refreshed ev) db" unfolding touch_issue_def Let_def by auto
  with assms(2) show ?thesis by (auto simp: refreshed_def intro: anchored_update)
qed

lemma touch_found_anchored:
  assumes t: "touch_issue env ev row db = Inr (m, db')" and a: "anchored i p fp R db"
    and f: "find_issue (ev_project ev) g (issues db) = Some row"
    and old: "ev_project ev = p \<and> g = fp \<longrightarrow> ev_release ev \<noteq> [] \<and> (\<exists>t t'. release_at (releases db) p (ev_release ev) = Some t
        \<and> release_at (releases db) p R = Some t' \<and> t < t')"
  shows "anchored i p fp R db' \<and> releases db' = releases db"
proof -
  obtain j q where row: "row = (j, q)" by (cases row)
  from f have q: "(j, q) \<in> set (issues db)" "is_project q = ev_project ev" "is_fingerprint q = g"
    by (auto simp: row find_issue_def find_Some_iff) (metis nth_mem)
  have "\<not> is_regression (releases db) (ev_project ev) (ev_release ev) (is_resolved_in q) (is_resolved_at q) (ev_occurred_at ev)"
    if "j = i"
  proof -
    from a obtain r where r: "map_of (issues db) i = Some r" "is_resolved_in r = Some R" "is_project r = p" "is_fingerprint r = fp"
      and "distinct (map fst (issues db))" by (auto simp: anchored_def)
    with q(1) that have "q = r" using map_of_is_SomeI [of "issues db" j q] by simp
    with q r old show ?thesis by (auto simp: is_regression_def)
  qed
  then show ?thesis using touch_issue_anchored [OF t [unfolded row] a] by blast
qed

lemma attach_issue_anchored:
  assumes "attach_issue env ev g gt ms db = Inr (m, db')" and "anchored i p fp R db"
    and "\<forall>k d. race env k d = d" and "new_issue env \<noteq> i" and "new_issue env \<notin> fst ` set (issues db)"
    and "ev_project ev = p \<and> g = fp \<longrightarrow> ev_release ev \<noteq> [] \<and> (\<exists>t t'. release_at (releases db) p (ev_release ev) = Some t
        \<and> release_at (releases db) p R = Some t' \<and> t < t')"
  shows "anchored i p fp R db' \<and> releases db' = releases db"
proof -
  from assms(1) consider (at) row where "find_issue (ev_project ev) g (issues db) = Some row"
      "touch_issue env ev row db = Inr (m, db')"
    | (new) "db' = db\<lparr>issues := issues db @ [(new_issue env, fresh_issue ev g gt ms)]\<rparr>"
    by (auto simp: attach_issue_def Let_def assms(3) split: option.splits)
  then show ?thesis
  proof cases
    case at
    then show ?thesis using touch_found_anchored assms(2,6) by blast
  next
    case new
    with assms(2,4,5) show ?thesis
      by (auto simp: anchored_def map_add_def split: option.splits)
  qed
qed

lemma finish_event_anchored:
  assumes "finish_event env ev m db = Inr db'" and "ev_kind ev \<noteq> Probe"
  shows "issues db' = issues db \<and> releases db' = releases db"
proof -
  obtain i new regr where m: "m = (i, new, regr)" by (cases m)
  let ?d = "db\<lparr>others := cutover env (ev_project ev) (ev_id ev) (events db) (others db)\<rparr>"
  from assms obtain d2 where
    e: "(if new \<or> regr then notify env (note_id env) (ev_project ev) i (ev_id ev) new ?d else Inr ?d) = Inr d2"
    and s: "db' = set_app env ev d2"
    by (cases "ev_kind ev") (auto simp: finish_event_def m result_simps Let_def)
  from e have "issues d2 = issues db \<and> releases d2 = releases db" by (auto dest!: notify_frame split: if_splits)
  then show ?thesis by (simp add: s set_app_def split_beta)
qed

lemma anchored_frame [simp]: "anchored i p fp R (db\<lparr>user_hits := h\<rparr>) = anchored i p fp R db"
  by (rule anchored_cong) simp

lemma record_hit_anchored: "anchored i p fp R db \<Longrightarrow> anchored i p fp R (record_hit j u db)"
  by (cases u) (simp_all add: record_hit_def Let_def anchored_update)

lemma ingest_anchored:
  assumes "anchored i p fp R db" and "no_news i p fp R db (env, ev)" and "new_issue env \<notin> fst ` set (issues db)"
  shows "anchored i p fp R (snd (ingest env ev db)) \<and> releases (snd (ingest env ev db)) = releases db"
proof -
  from assms(2) have race: "\<forall>k d. race env k d = d" and np: "ev_kind ev \<noteq> Probe" and ni: "new_issue env \<noteq> i"
    by (simp_all add: no_news_def)
  have "anchored i p fp R db' \<and> releases db' = releases db"
    if tx: "ingest_tx env ev g gt ms db = Inr (Some (out, db'))" and g: "ev_project ev = p \<and> g = fp \<longrightarrow> groups_into env ev fp"
    for g gt ms out db'
  proof (rule ingest_tx_Commit [OF tx])
    fix q j new regr d1 d2
    assume att: "attach_issue env ev g gt ms (db\<lparr>quota := q\<rparr>) = Inr ((j, new, regr), d1)"
      and d2: "d2 = record_hit j (ev_user_key ev) (update_issue j (\<lambda>r. r\<lparr>is_event_count := Suc (is_event_count r)\<rparr>) d1)"
      and fin: "finish_event env ev (j, new, regr) (d2\<lparr>events := events d2 @ [(ev_id ev, event_row_of (tx_now (times env)) ev j)]\<rparr>) = Inr db'"
    have "anchored i p fp R (db\<lparr>quota := q\<rparr>)" using assms(1) anchored_cong [of "db\<lparr>quota := q\<rparr>" db] by simp
    then have "anchored i p fp R d1 \<and> releases d1 = releases (db\<lparr>quota := q\<rparr>)"
      by (rule attach_issue_anchored [OF att]) (use assms(2,3) race ni g in \<open>simp_all add: no_news_def\<close>)
    then have 1: "anchored i p fp R d1" and 2: "releases d1 = releases db" by simp_all
    let ?e = "update_issue j (\<lambda>r. r\<lparr>is_event_count := Suc (is_event_count r)\<rparr>) d1"
    have "anchored i p fp R ?e" by (rule anchored_update [OF 1]) simp
    then have "anchored i p fp R d2" unfolding d2 by (rule record_hit_anchored)
    moreover have "releases d2 = releases db"
      unfolding d2 using 2 by (simp add: record_hit_def Let_def split: option.splits)
    ultimately show ?thesis using finish_event_anchored [OF fin np] anchored_cong [of db' d2] by simp
  qed
  moreover have "others_only env q g db = db" for q g
    using race by (simp add: others_only_def Let_def)
  ultimately show ?thesis
    using assms(1) by (auto simp: ingest_def groups_into_def Let_def split: sum.splits option.splits ingest_error.splits prod.splits)
qed

fun fresh_ids :: "('x env \<times> incoming_event) list \<Rightarrow> 'x db \<Rightarrow> bool" where
  "fresh_ids [] db = True"
| "fresh_ids ((env, ev) # xs) db = (new_issue env \<notin> fst ` set (issues db) \<and> fresh_ids xs (snd (ingest env ev db)))"

lemma ingest_all_anchored:
  assumes "anchored i p fp R db" and "\<forall>x \<in> set xs. no_news i p fp R db x" and "fresh_ids xs db"
  shows "anchored i p fp R (ingest_all xs db)"
  using assms
proof (induction xs arbitrary: db)
  case (Cons x xs)
  obtain env ev where x: "x = (env, ev)" by (cases x)
  from Cons.prems x have step: "anchored i p fp R (snd (ingest env ev db)) \<and> releases (snd (ingest env ev db)) = releases db"
    by (intro ingest_anchored) simp_all
  then have "\<forall>y \<in> set xs. no_news i p fp R (snd (ingest env ev db)) y"
    using Cons.prems(2) by (auto simp: no_news_def split: prod.splits)
  with step Cons.IH Cons.prems(3) x show ?case by simp
qed simp


subsection \<open>Witnesses\<close>


definition toy_fixed :: "unit desk" where
  "toy_fixed = toy_desk\<lparr>dk_core := resolved_db\<lparr>issues := [(42, resolved_issue\<lparr>is_status := ''open''\<rparr>)]\<rparr>\<rparr>"


end
